(* ===== verification/Prelude.thy ===== *)
theory Prelude
  imports Main "HOL-Library.AList" "HOL-Library.Char_ord" "HOL-Library.List_Lexorder"
    "HOL-Library.Sublist"
begin

text \<open>
  Shared vocabulary of the development: C++ exceptions as values of a sum type, state-passing
  operations that may throw (the state reached at the throw is kept, as in C++), hash maps as
  association lists, and the parts of the C++ standard string library the sources call
  (\<open>std::string::find\<close>, \<open>std::to_string\<close>, \<open>std::stoi\<close>, \<open>std::isdigit\<close>,
  \<open>std::isspace\<close>, \<open>std::tolower\<close>).
\<close>

named_theorems op_simps \<open>unfolding of the exception/state monad\<close>
named_theorems wf_intros \<open>preservation of well-formedness invariants\<close>

section \<open>Exceptions and fallible state-passing operations\<close>

datatype exn =
    Invalid_Argument string
  | Out_Of_Range
  | Type_Error nat
  | Parse_Error
  | Runtime_Error string

type_synonym 'a result = "exn + 'a"

text \<open>An operation on a mutable object: it returns or throws, and leaves a state either way.\<close>

type_synonym ('s, 'a) op = "'s \<Rightarrow> 'a result \<times> 's"

definition ret :: "'a \<Rightarrow> ('s, 'a) op" where
  "ret x s = (Inr x, s)"

definition throw :: "exn \<Rightarrow> ('s, 'a) op" where
  "throw e s = (Inl e, s)"

definition bind_op :: "('s, 'a) op \<Rightarrow> ('a \<Rightarrow> ('s, 'b) op) \<Rightarrow> ('s, 'b) op" where
  "bind_op m f s = (case m s of (Inl e, s') \<Rightarrow> (Inl e, s') | (Inr x, s') \<Rightarrow> f x s')"

definition lift_result :: "'a result \<Rightarrow> ('s, 'a) op" where
  "lift_result r s = (r, s)"

fun bind_result :: "'a result \<Rightarrow> ('a \<Rightarrow> 'b result) \<Rightarrow> 'b result" where
  "bind_result (Inl e) f = Inl e"
| "bind_result (Inr x) f = f x"

definition gets :: "('s \<Rightarrow> 'a) \<Rightarrow> ('s, 'a) op" where
  "gets f s = (Inr (f s), s)"

definition modify :: "('s \<Rightarrow> 's) \<Rightarrow> ('s, unit) op" where
  "modify f s = (Inr (), f s)"

definition when_op :: "bool \<Rightarrow> ('s, unit) op \<Rightarrow> ('s, unit) op" where
  "when_op b m = (if b then m else ret ())"

text \<open>\<open>try { m } catch (const std::exception&) { handler }\<close>\<close>

definition catch_op :: "('s, 'a) op \<Rightarrow> (exn \<Rightarrow> ('s, 'a) op) \<Rightarrow> ('s, 'a) op" where
  "catch_op m h s = (case m s of (Inl e, s') \<Rightarrow> h e s' | (Inr x, s') \<Rightarrow> (Inr x, s'))"

text \<open>A \<open>for\<close> loop whose body may throw: the first exception ends it.\<close>

fun for_op :: "('a \<Rightarrow> ('s, unit) op) \<Rightarrow> 'a list \<Rightarrow> ('s, unit) op" where
  "for_op f [] = ret ()"
| "for_op f (x # xs) = bind_op (f x) (\<lambda>_. for_op f xs)"

text \<open>The same for a loop that fills a vector from pure computations.\<close>

fun map_result :: "('a \<Rightarrow> 'b result) \<Rightarrow> 'a list \<Rightarrow> 'b list result" where
  "map_result f [] = Inr []"
| "map_result f (x # xs) =
     bind_result (f x) (\<lambda>y. bind_result (map_result f xs) (\<lambda>ys. Inr (y # ys)))"

lemmas [op_simps] = ret_def throw_def bind_op_def lift_result_def gets_def modify_def when_op_def
  catch_op_def

lemma bind_result_Inr_iff:
  "bind_result m f = Inr y \<longleftrightarrow> (\<exists>x. m = Inr x \<and> f x = Inr y)"
  by (cases m) auto

lemma bind_op_Inr_iff:
  "bind_op m f s = (Inr y, s'') \<longleftrightarrow> (\<exists>x s'. m s = (Inr x, s') \<and> f x s' = (Inr y, s''))"
  by (auto simp: bind_op_def split: prod.splits sum.splits)

lemma bind_op_assoc: "bind_op (bind_op m f) g = bind_op m (\<lambda>x. bind_op (f x) g)"
  by (rule ext) (auto simp: bind_op_def split: prod.splits sum.splits)

lemma bind_op_ret [simp]: "bind_op (ret x) f = f x"
  by (rule ext) (simp add: bind_op_def ret_def)

lemma bind_op_throw [simp]: "bind_op (throw e) f = throw e"
  by (rule ext) (simp add: bind_op_def throw_def)

lemma map_result_Inr_map:
  "(\<And>x. x \<in> set xs \<Longrightarrow> f x = Inr (g x)) \<Longrightarrow> map_result f xs = Inr (map g xs)"
  by (induction xs) auto

lemma map_result_Inr_length: "map_result f xs = Inr ys \<Longrightarrow> length ys = length xs"
  by (induction xs arbitrary: ys) (auto simp: bind_result_Inr_iff)

text \<open>A loop invariant of the body is one of the loop, whether or not the loop throws.\<close>

lemma for_op_invariant:
  assumes "P s" and "\<And>x s. x \<in> set xs \<Longrightarrow> P s \<Longrightarrow> P (snd (f x s))"
  shows "P (snd (for_op f xs s))"
  using assms
proof (induction xs arbitrary: s)
  case Nil
  then show ?case by (simp add: ret_def)
next
  case (Cons x xs)
  have step: "P (snd (f x s))" using Cons.prems by simp
  show ?case
  proof (cases "f x s")
    case (Pair r s')
    with step have s': "P s'" by simp
    show ?thesis
    proof (cases r)
      case (Inl e)
      with Pair s' show ?thesis by (simp add: bind_op_def)
    next
      case (Inr u)
      have "P (snd (for_op f xs s'))" using Cons.IH [OF s'] Cons.prems(2) by simp
      with Pair Inr show ?thesis by (simp add: bind_op_def)
    qed
  qed
qed

text \<open>Invariants of operations, on normal and exceptional exits alike.\<close>

definition preserves :: "('s \<Rightarrow> bool) \<Rightarrow> ('s, 'a) op \<Rightarrow> bool" where
  "preserves P m \<longleftrightarrow> (\<forall>s. P s \<longrightarrow> P (snd (m s)))"

lemma preservesD: "preserves P m \<Longrightarrow> P s \<Longrightarrow> P (snd (m s))"
  by (simp add: preserves_def)

lemma preserves_run: "preserves P m \<Longrightarrow> P s \<Longrightarrow> m s = (r, s') \<Longrightarrow> P s'"
  by (metis preservesD snd_conv)

lemma preserves_ret [wf_intros]: "preserves P (ret x)"
  by (simp add: preserves_def ret_def)

lemma preserves_throw [wf_intros]: "preserves P (throw e)"
  by (simp add: preserves_def throw_def)

lemma preserves_lift [wf_intros]: "preserves P (lift_result r)"
  by (simp add: preserves_def lift_result_def)

lemma preserves_gets [wf_intros]: "preserves P (gets f)"
  by (simp add: preserves_def gets_def)

lemma preserves_modify: "(\<And>s. P s \<Longrightarrow> P (f s)) \<Longrightarrow> preserves P (modify f)"
  by (simp add: preserves_def modify_def)

lemma preserves_when [wf_intros]: "preserves P m \<Longrightarrow> preserves P (when_op b m)"
  by (simp add: preserves_def when_op_def ret_def)

lemma preserves_bind [wf_intros]:
  "preserves P m \<Longrightarrow> (\<And>x. preserves P (f x)) \<Longrightarrow> preserves P (bind_op m f)"
  unfolding preserves_def bind_op_def by (auto split: prod.split sum.split)

lemma preserves_catch [wf_intros]:
  "preserves P m \<Longrightarrow> (\<And>e. preserves P (h e)) \<Longrightarrow> preserves P (catch_op m h)"
  unfolding preserves_def catch_op_def by (auto split: prod.split sum.split)

lemma preserves_if [wf_intros]:
  "(b \<Longrightarrow> preserves P m) \<Longrightarrow> (\<not> b \<Longrightarrow> preserves P n) \<Longrightarrow> preserves P (if b then m else n)"
  by simp

lemma preserves_case_option [wf_intros]:
  "(v = None \<Longrightarrow> preserves P m) \<Longrightarrow> (\<And>x. v = Some x \<Longrightarrow> preserves P (f x)) \<Longrightarrow>
     preserves P (case v of None \<Rightarrow> m | Some x \<Rightarrow> f x)"
  by (cases v) auto

lemma preserves_for [wf_intros]: "(\<And>x. x \<in> set xs \<Longrightarrow> preserves P (f x)) \<Longrightarrow> preserves P (for_op f xs)"
  unfolding preserves_def by (blast intro: for_op_invariant)

text \<open>A read followed by code that relies on what was read.\<close>

lemma preserves_gets_bind:
  "(\<And>s. P s \<Longrightarrow> P (snd (f (g s) s))) \<Longrightarrow> preserves P (bind_op (gets g) f)"
  by (simp add: preserves_def bind_op_def gets_def)

section \<open>Runs of a state machine\<close>

text \<open>
  A component driven by a sequence of events: \<open>step\<close> is its transition function, \<open>ok\<close> the events
  the claim is about, \<open>inv\<close> the invariant one step keeps.
\<close>

locale stepping =
  fixes step :: "'e \<Rightarrow> 's \<Rightarrow> 's"
    and ok :: "'e \<Rightarrow> bool"
    and inv :: "'s \<Rightarrow> bool"
  assumes step_inv: "inv s \<Longrightarrow> ok e \<Longrightarrow> inv (step e s)"
begin

lemma run_inv: "inv s \<Longrightarrow> list_all ok es \<Longrightarrow> inv (fold step es s)"
  by (induction es arbitrary: s) (auto simp: step_inv)

end

section \<open>Hash maps\<close>

text \<open>
  \<open>std::unordered_map\<close> as an association list with distinct keys: the list order stands for the
  (unspecified) iteration order. \<open>m[k] = v\<close> and \<open>emplace\<close> go through \<^const>\<open>AList.update\<close>,
  \<open>erase\<close> through \<^const>\<open>AList.delete\<close>, \<open>find\<close> through \<^const>\<open>map_of\<close>.
\<close>

type_synonym 'v umap = "(string \<times> 'v) list"

abbreviation umap_wf :: "('k \<times> 'v) list \<Rightarrow> bool" where
  "umap_wf m \<equiv> distinct (map fst m)"

locale kv_map =
  fixes lookup :: "'m \<Rightarrow> 'k \<Rightarrow> 'v option"
    and insert_at :: "'k \<Rightarrow> 'v \<Rightarrow> 'm \<Rightarrow> 'm"
    and erase_at :: "'k \<Rightarrow> 'm \<Rightarrow> 'm"
    and wf :: "'m \<Rightarrow> bool"
  assumes lookup_insert: "lookup (insert_at k v m) = (lookup m)(k \<mapsto> v)"
    and lookup_erase: "lookup (erase_at k m) = (lookup m)(k := None)"
    and wf_insert: "wf m \<Longrightarrow> wf (insert_at k v m)"
    and wf_erase: "wf m \<Longrightarrow> wf (erase_at k m)"
begin

lemma lookup_fold_insert:
  "lookup (fold (\<lambda>(k, v). insert_at k v) kvs m) = lookup m ++ map_of (rev kvs)"
proof (induction kvs arbitrary: m)
  case Nil
  then show ?case by simp
next
  case (Cons kv kvs)
  obtain k v where kv: "kv = (k, v)" by fastforce
  show ?case by (simp add: kv Cons.IH lookup_insert map_add_def fun_eq_iff split: option.splits)
qed

lemma wf_fold_insert: "wf m \<Longrightarrow> wf (fold (\<lambda>(k, v). insert_at k v) kvs m)"
  by (induction kvs arbitrary: m) (auto simp: wf_insert)

lemma erase_after_insert: "lookup (erase_at k (insert_at k v m)) = (lookup m)(k := None)"
  by (simp add: lookup_erase lookup_insert)

lemma inserts_commute:
  "k \<noteq> k' \<Longrightarrow> lookup (insert_at k v (insert_at k' v' m)) = lookup (insert_at k' v' (insert_at k v m))"
  by (auto simp: lookup_insert fun_eq_iff)

end

interpretation um: kv_map map_of AList.update AList.delete umap_wf
  by unfold_locales (auto simp: update_conv' distinct_update delete_conv' distinct_delete)

lemma map_of_update [simp]: "map_of (AList.update k v m) k' = (if k' = k then Some v else map_of m k')"
  by (simp add: um.lookup_insert)

lemma map_of_delete [simp]: "map_of (AList.delete k m) k' = (if k' = k then None else map_of m k')"
  by (simp add: um.lookup_erase)

lemma map_of_Some_in_set: "umap_wf m \<Longrightarrow> map_of m k = Some v \<longleftrightarrow> (k, v) \<in> set m"
  by (simp add: distinct_map)

lemma keys_update: "fst ` set (AList.update k v m) = insert k (fst ` set m)"
  by (induction m) auto

lemma update_new: "k \<notin> fst ` set m \<Longrightarrow> AList.update k v m = m @ [(k, v)]"
  by (induction m) auto

text \<open>\<open>m[k].push_back(v)\<close>: the entry is created by the first push.\<close>

definition push_at :: "'k \<Rightarrow> 'a \<Rightarrow> ('k \<times> 'a list) list \<Rightarrow> ('k \<times> 'a list) list" where
  "push_at k v m = AList.update k ((case map_of m k of None \<Rightarrow> [] | Some vs \<Rightarrow> vs) @ [v]) m"

text \<open>\<open>auto it = m.find(k); it == end ? {} : it->second\<close>\<close>

definition list_at :: "('k \<times> 'a list) list \<Rightarrow> 'k \<Rightarrow> 'a list" where
  "list_at m k = (case map_of m k of None \<Rightarrow> [] | Some vs \<Rightarrow> vs)"

lemma list_at_Nil [simp]: "list_at [] k = []"
  by (simp add: list_at_def)

lemma list_at_push_at [simp]:
  "list_at (push_at k v m) k' = (if k' = k then list_at m k @ [v] else list_at m k')"
  by (simp add: list_at_def push_at_def)

lemma list_at_fold_push_at:
  "list_at (fold (push_at k) vs m) k' = (if k' = k then list_at m k @ vs else list_at m k')"
  by (induction vs arbitrary: m) auto

lemma umap_wf_push_at [wf_intros]: "umap_wf m \<Longrightarrow> umap_wf (push_at k v m)"
  by (simp add: push_at_def distinct_update)

section \<open>Characters and strings\<close>

abbreviation ord_of :: "char \<Rightarrow> nat" where
  "ord_of c \<equiv> of_char c"

definition is_digit :: "char \<Rightarrow> bool" where
  "is_digit c \<longleftrightarrow> 48 \<le> ord_of c \<and> ord_of c \<le> 57"

definition digit_val :: "char \<Rightarrow> nat" where
  "digit_val c = ord_of c - 48"

definition digit_char :: "nat \<Rightarrow> char" where
  "digit_char d = char_of (48 + d)"

definition is_space :: "char \<Rightarrow> bool" where
  "is_space c \<longleftrightarrow> ord_of c = 32 \<or> (9 \<le> ord_of c \<and> ord_of c \<le> 13)"

definition to_lower :: "char \<Rightarrow> char" where
  "to_lower c = (if 65 \<le> ord_of c \<and> ord_of c \<le> 90 then char_of (ord_of c + 32) else c)"

definition starts_with :: "string \<Rightarrow> string \<Rightarrow> bool" where
  "starts_with p s \<longleftrightarrow> take (length p) s = p"

text \<open>\<open>s.find(pat, pos)\<close>: the least index from \<open>pos\<close> on where \<open>pat\<close> occurs; \<open>None\<close> is \<open>npos\<close>.\<close>

fun find_sub :: "string \<Rightarrow> string \<Rightarrow> nat option" where
  "find_sub pat [] = (if pat = [] then Some 0 else None)"
| "find_sub pat (c # s) =
     (if starts_with pat (c # s) then Some 0 else map_option Suc (find_sub pat s))"

definition find_from :: "string \<Rightarrow> nat \<Rightarrow> string \<Rightarrow> nat option" where
  "find_from pat pos s =
     (if length s < pos then None else map_option ((+) pos) (find_sub pat (drop pos s)))"

lemma starts_with_append [simp]: "starts_with p (p @ s)"
  by (simp add: starts_with_def)

lemma starts_with_Nil [simp]: "starts_with [] s"
  by (simp add: starts_with_def)

lemma starts_with_iff: "starts_with p s \<longleftrightarrow> (\<exists>r. s = p @ r)"
  by (auto simp: starts_with_def) (metis append_take_drop_id)

lemma find_sub_Some:
  "find_sub pat s = Some i \<Longrightarrow> starts_with pat (drop i s) \<and> i \<le> length s"
  by (induction pat s arbitrary: i rule: find_sub.induct) (auto split: if_splits)

lemma find_sub_least:
  "find_sub pat s = Some i \<Longrightarrow> j < i \<Longrightarrow> \<not> starts_with pat (drop j s)"
proof (induction pat s arbitrary: i j rule: find_sub.induct)
  case (1 pat)
  then show ?case by (auto split: if_splits)
next
  case (2 pat c s)
  then show ?case by (cases j) (auto split: if_splits)
qed

lemma find_sub_None:
  "find_sub pat s = None \<longleftrightarrow> (\<forall>i \<le> length s. \<not> starts_with pat (drop i s))"
proof (induction s)
  case Nil
  then show ?case by (auto simp: starts_with_def)
next
  case (Cons c s)
  have split: "(\<forall>i \<le> Suc n. P i) \<longleftrightarrow> P 0 \<and> (\<forall>i \<le> n. P (Suc i))" for n and P :: "nat \<Rightarrow> bool"
    by (simp add: less_Suc_eq_le [symmetric] All_less_Suc2 del: less_Suc_eq_le)
  show ?case using Cons by (simp add: split)
qed

lemma find_sub_at:
  assumes "starts_with pat (drop i s)" and "i \<le> length s"
    and "\<And>j. j < i \<Longrightarrow> \<not> starts_with pat (drop j s)"
  shows "find_sub pat s = Some i"
proof (cases "find_sub pat s")
  case None
  with assms(1,2) show ?thesis by (simp add: find_sub_None)
next
  case (Some j)
  with assms show ?thesis
    using find_sub_Some [OF Some] find_sub_least [OF Some] by (metis linorder_neqE_nat)
qed

lemma find_sub_bound: "find_sub pat s = Some i \<Longrightarrow> i + length pat \<le> length s"
  by (drule find_sub_Some) (auto simp: starts_with_iff dest!: arg_cong [where f = length])

lemma find_from_Some:
  "find_from pat pos s = Some i \<Longrightarrow>
     pos \<le> i \<and> i + length pat \<le> length s \<and> starts_with pat (drop i s)"
  by (auto simp: find_from_def add.commute split: if_splits dest: find_sub_bound find_sub_Some)

lemma find_sub_not_in_prefix:
  assumes "p = c # p'" and "c \<notin> set pre"
  shows "find_sub p (pre @ s) = map_option ((+) (length pre)) (find_sub p s)"
  using assms(2)
proof (induction pre)
  case Nil
  then show ?case by (cases "find_sub p s") auto
next
  case (Cons d pre)
  then have "\<not> starts_with p (d # pre @ s)"
    using assms(1) by (auto simp: starts_with_def)
  with Cons show ?case by (cases "find_sub p s") auto
qed

section \<open>Decimal numbers\<close>

fun string_of_nat :: "nat \<Rightarrow> string" where
  "string_of_nat n =
     (if n < 10 then [digit_char n] else string_of_nat (n div 10) @ [digit_char (n mod 10)])"

declare string_of_nat.simps [simp del]

definition string_of_int :: "int \<Rightarrow> string" where
  "string_of_int i = (if i < 0 then ''-'' @ string_of_nat (nat (- i)) else string_of_nat (nat i))"

definition nat_of_digits :: "string \<Rightarrow> nat" where
  "nat_of_digits s = foldl (\<lambda>n c. 10 * n + digit_val c) 0 s"

definition INT_MAX :: int where
  "INT_MAX = 2147483647"

definition INT_MIN :: int where
  "INT_MIN = - 2147483648"

definition ULONG_MAX :: nat where
  "ULONG_MAX = 18446744073709551615"

text \<open>Conversion of a wider integer to a 32-bit \<open>int\<close>: reduction modulo \<open>2 ^ 32\<close>.\<close>

definition wrap32 :: "int \<Rightarrow> int" where
  "wrap32 i = (i + 2 ^ 31) mod 2 ^ 32 - 2 ^ 31"

text \<open>
  \<open>std::stoi\<close> and \<open>std::stoul\<close> (base 10): leading white space, an optional sign, the longest
  run of digits; characters after it are ignored. \<open>stoul\<close> negates modulo \<open>2 ^ 64\<close>.
\<close>

definition split_sign :: "string \<Rightarrow> bool \<times> string" where
  "split_sign s =
     (case s of
        [] \<Rightarrow> (False, [])
      | c # r \<Rightarrow> if c = CHR ''-'' then (True, r) else if c = CHR ''+'' then (False, r) else (False, s))"

definition stoi :: "string \<Rightarrow> int result" where
  "stoi s =
     (let (neg, u) = split_sign (dropWhile is_space s); ds = takeWhile is_digit u in
      if ds = [] then Inl (Invalid_Argument ''stoi'')
      else let v = (if neg then - int (nat_of_digits ds) else int (nat_of_digits ds)) in
        if v < INT_MIN \<or> INT_MAX < v then Inl Out_Of_Range else Inr v)"

definition stoul :: "string \<Rightarrow> nat result" where
  "stoul s =
     (let (neg, u) = split_sign (dropWhile is_space s); ds = takeWhile is_digit u in
      if ds = [] then Inl (Invalid_Argument ''stoul'')
      else let v = nat_of_digits ds in
        if ULONG_MAX < v then Inl Out_Of_Range
        else if neg \<and> v \<noteq> 0 then Inr (ULONG_MAX + 1 - v) else Inr v)"

lemma ord_digit_char: "d < 10 \<Longrightarrow> ord_of (digit_char d) = 48 + d"
  by (simp add: digit_char_def)

lemma is_digit_digit_char [simp]: "d < 10 \<Longrightarrow> is_digit (digit_char d)"
  by (simp add: is_digit_def ord_digit_char)

lemma digit_val_digit_char [simp]: "d < 10 \<Longrightarrow> digit_val (digit_char d) = d"
  by (simp add: digit_val_def ord_digit_char)

lemma nat_of_digits_snoc [simp]: "nat_of_digits (s @ [c]) = 10 * nat_of_digits s + digit_val c"
  by (simp add: nat_of_digits_def)

lemma string_of_nat_digits: "\<forall>c \<in> set (string_of_nat n). is_digit c"
proof (induction n rule: string_of_nat.induct)
  case (1 n)
  then show ?case by (cases "n < 10") (auto simp: string_of_nat.simps [of n])
qed

lemma string_of_nat_nonempty [simp]: "string_of_nat n \<noteq> []"
  by (subst string_of_nat.simps) simp

lemma nat_of_digits_string_of_nat [simp]: "nat_of_digits (string_of_nat n) = n"
proof (induction n rule: string_of_nat.induct)
  case (1 n)
  show ?case
  proof (cases "n < 10")
    case True
    then show ?thesis
      using nat_of_digits_snoc [of "[]" "digit_char n"]
      by (simp add: string_of_nat.simps [of n] nat_of_digits_def)
  next
    case False
    with 1 show ?thesis by (simp add: string_of_nat.simps [of n])
  qed
qed

lemma is_digit_not_special:
  "is_digit c \<Longrightarrow> \<not> is_space c \<and> c \<noteq> CHR ''-'' \<and> c \<noteq> CHR ''+'' \<and> c \<noteq> CHR ''#''"
  by (auto simp: is_digit_def is_space_def)

lemma stoi_digits:
  assumes "ds \<noteq> []" and "\<forall>c \<in> set ds. is_digit c"
  shows "stoi ds = (if int (nat_of_digits ds) \<le> INT_MAX then Inr (int (nat_of_digits ds)) else Inl Out_Of_Range)"
proof -
  obtain c r where c: "ds = c # r" using assms(1) by (cases ds) auto
  with assms(2) have "is_digit c" by simp
  then have sign: "split_sign (dropWhile is_space ds) = (False, ds)"
    using c is_digit_not_special by (simp add: split_sign_def)
  have all: "takeWhile is_digit ds = ds" using assms(2) by (simp add: takeWhile_eq_all_conv)
  show ?thesis using assms(1) by (simp add: stoi_def Let_def sign all INT_MIN_def INT_MAX_def)
qed

lemma stoi_string_of_nat:
  "int n \<le> INT_MAX \<Longrightarrow> stoi (string_of_nat n) = Inr (int n)"
  by (simp add: stoi_digits string_of_nat_digits)

lemma stoi_bounds: "stoi s = Inr v \<Longrightarrow> INT_MIN \<le> v \<and> v \<le> INT_MAX"
  by (auto simp: stoi_def Let_def split: prod.splits if_splits)

lemma wrap32_id: "INT_MIN \<le> i \<Longrightarrow> i \<le> INT_MAX \<Longrightarrow> wrap32 i = i"
  by (simp add: wrap32_def INT_MIN_def INT_MAX_def)

lemma wrap32_bounds: "INT_MIN \<le> wrap32 i \<and> wrap32 i \<le> INT_MAX"
  using pos_mod_bound [of "2 ^ 32" "i + 2 ^ 31"] pos_mod_sign [of "2 ^ 32" "i + 2 ^ 31"]
  by (simp add: wrap32_def INT_MIN_def INT_MAX_def)

end
