(* ===== verification/Json.thy ===== *)
theory Json
  imports Prelude Complex_Main
begin

text \<open>
  JSON values as the sources use them through \<open>nlohmann::json\<close>. An object is the list of its
  members in increasing key order (the library stores objects in a \<open>std::map\<close>), so that equal
  objects are equal lists. Parsing and printing (\<open>json::parse\<close>, \<open>dump\<close>) are not defined here:
  they are parameters of the operations that call them. The accessors below are the ones the
  sources call, with their documented results and exceptions: type error 302 for a value of the
  wrong type, 306 for \<open>value()\<close> on a value that is not an object.
\<close>

named_theorems json_simps \<open>evaluation of JSON accessors\<close>

datatype json =
    JNull
  | JBool bool
  | JInt int
  | JReal real
  | JStr string
  | JArr "json list"
  | JObj "(string \<times> json) list"

section \<open>Members of objects\<close>

text \<open>Insertion into the ordered member list; an existing member is overwritten.\<close>

fun obj_insert :: "string \<Rightarrow> 'a \<Rightarrow> (string \<times> 'a) list \<Rightarrow> (string \<times> 'a) list" where
  "obj_insert k v [] = [(k, v)]"
| "obj_insert k v ((k', v') # r) =
     (if k < k' then (k, v) # (k', v') # r
      else if k = k' then (k, v) # r
      else (k', v') # obj_insert k v r)"

definition obj_of :: "(string \<times> 'a) list \<Rightarrow> (string \<times> 'a) list" where
  "obj_of kvs = fold (\<lambda>(k, v). obj_insert k v) kvs []"

abbreviation obj_wf :: "(string \<times> 'a) list \<Rightarrow> bool" where
  "obj_wf kvs \<equiv> sorted_wrt (<) (map fst kvs)"

lemma map_of_obj_insert [simp]:
  "map_of (obj_insert k v kvs) k' = (if k' = k then Some v else map_of kvs k')"
  by (induction k v kvs rule: obj_insert.induct) auto

lemma keys_obj_insert: "fst ` set (obj_insert k v kvs) = insert k (fst ` set kvs)"
  by (induction k v kvs rule: obj_insert.induct) auto

lemma obj_wf_insert [wf_intros]: "obj_wf kvs \<Longrightarrow> obj_wf (obj_insert k v kvs)"
proof (induction k v kvs rule: obj_insert.induct)
  case (1 k v)
  then show ?case by simp
next
  case (2 k v k' v' r)
  have keys: "fst ` set (obj_insert k v r) = insert k (fst ` set r)" by (rule keys_obj_insert)
  show ?case
  proof (cases "k' < k")
    case True
    with 2 have "obj_wf (obj_insert k v r)" by auto
    moreover have "\<forall>x \<in> set (map fst (obj_insert k v r)). k' < x"
      using 2(2) True keys by auto
    ultimately show ?thesis using True by auto
  next
    case False
    with 2(2) show ?thesis by auto
  qed
qed

lemma obj_wf_distinct: "obj_wf kvs \<Longrightarrow> distinct (map fst kvs)"
  by (simp add: strict_sorted_iff)

lemma obj_wf_obj_of [wf_intros]: "obj_wf (obj_of kvs)"
proof -
  have "obj_wf acc \<Longrightarrow> obj_wf (fold (\<lambda>(k, v). obj_insert k v) kvs acc)" for acc
    by (induction kvs arbitrary: acc) (auto simp: obj_wf_insert)
  then show ?thesis by (simp add: obj_of_def)
qed

text \<open>Two ordered member lists with the same lookups are the same list.\<close>

lemma alist_rebuild:
  assumes "distinct (map fst xs)"
  shows "xs = map (\<lambda>k. (k, the (map_of xs k))) (map fst xs)"
proof -
  have "map (\<lambda>p. (fst p, the (map_of xs (fst p)))) xs = xs"
  proof (rule map_idI)
    fix p
    assume "p \<in> set xs"
    then have "map_of xs (fst p) = Some (snd p)"
      using assms by (metis map_of_is_SomeI prod.collapse)
    then show "(fst p, the (map_of xs (fst p))) = p" by simp
  qed
  then show ?thesis by (simp add: comp_def)
qed

lemma obj_wf_ext:
  assumes "obj_wf xs" and "obj_wf ys" and "map_of xs = map_of ys"
  shows "xs = ys"
proof -
  have "set (map fst xs) = set (map fst ys)"
    using assms(3) by (metis dom_map_of_conv_image_fst list.set_map)
  then have "map fst xs = map fst ys"
    using assms(1,2) by (metis strict_sorted_equal)
  then show ?thesis
    using assms alist_rebuild [of xs] alist_rebuild [of ys] obj_wf_distinct by metis
qed

section \<open>Accessors\<close>

fun is_object :: "json \<Rightarrow> bool" where
  "is_object (JObj kvs) = True"
| "is_object _ = False"

fun is_array :: "json \<Rightarrow> bool" where
  "is_array (JArr xs) = True"
| "is_array _ = False"

fun is_string :: "json \<Rightarrow> bool" where
  "is_string (JStr s) = True"
| "is_string _ = False"

fun is_number_integer :: "json \<Rightarrow> bool" where
  "is_number_integer (JInt i) = True"
| "is_number_integer _ = False"

fun is_null :: "json \<Rightarrow> bool" where
  "is_null JNull = True"
| "is_null _ = False"

fun jlookup :: "json \<Rightarrow> string \<Rightarrow> json option" where
  "jlookup (JObj kvs) k = map_of kvs k"
| "jlookup _ k = None"

text \<open>\<open>contains\<close>: false on values that are not objects.\<close>

definition jcontains :: "json \<Rightarrow> string \<Rightarrow> bool" where
  "jcontains j k \<longleftrightarrow> jlookup j k \<noteq> None"

text \<open>
  Assignment through \<open>operator[]\<close>: a null value becomes an object. The sources assign only into
  values they have built or checked to be objects; the other values are left as they are here.
\<close>

fun jset :: "string \<Rightarrow> json \<Rightarrow> json \<Rightarrow> json" where
  "jset k v (JObj kvs) = JObj (obj_insert k v kvs)"
| "jset k v JNull = JObj [(k, v)]"
| "jset k v j = j"

fun jerase :: "string \<Rightarrow> json \<Rightarrow> json" where
  "jerase k (JObj kvs) = JObj (filter (\<lambda>kv. fst kv \<noteq> k) kvs)"
| "jerase k j = j"

definition jobj :: "(string \<times> json) list \<Rightarrow> json" where
  "jobj kvs = JObj (obj_of kvs)"

abbreviation jstrs :: "string list \<Rightarrow> json" where
  "jstrs xs \<equiv> JArr (map JStr xs)"

text \<open>\<open>get<std::string>()\<close> and \<open>get<int>()\<close>.\<close>

fun get_string :: "json \<Rightarrow> string result" where
  "get_string (JStr s) = Inr s"
| "get_string _ = Inl (Type_Error 302)"

fun get_int :: "json \<Rightarrow> int result" where
  "get_int (JInt i) = Inr (wrap32 i)"
| "get_int (JReal r) = Inr (wrap32 (if r < 0 then \<lceil>r\<rceil> else \<lfloor>r\<rfloor>))"
| "get_int (JBool b) = Inr (if b then 1 else 0)"
| "get_int _ = Inl (Type_Error 302)"

text \<open>\<open>value(key, default)\<close> at the three default types in use.\<close>

definition value_with :: "(json \<Rightarrow> 'a result) \<Rightarrow> json \<Rightarrow> string \<Rightarrow> 'a \<Rightarrow> 'a result" where
  "value_with conv j k d =
     (if \<not> is_object j then Inl (Type_Error 306)
      else case jlookup j k of None \<Rightarrow> Inr d | Some v \<Rightarrow> conv v)"

abbreviation value_str :: "json \<Rightarrow> string \<Rightarrow> string \<Rightarrow> string result" where
  "value_str \<equiv> value_with get_string"

abbreviation value_int :: "json \<Rightarrow> string \<Rightarrow> int \<Rightarrow> int result" where
  "value_int \<equiv> value_with get_int"

abbreviation value_json :: "json \<Rightarrow> string \<Rightarrow> json \<Rightarrow> json result" where
  "value_json \<equiv> value_with Inr"

fun items :: "json \<Rightarrow> (string \<times> json) list" where
  "items (JObj kvs) = kvs"
| "items _ = []"

fun elements :: "json \<Rightarrow> json list" where
  "elements (JArr xs) = xs"
| "elements _ = []"

section \<open>Laws of the accessors\<close>

lemma is_object_iff: "is_object j \<longleftrightarrow> (\<exists>kvs. j = JObj kvs)"
  by (cases j) auto

lemma is_string_iff: "is_string j \<longleftrightarrow> (\<exists>s. j = JStr s)"
  by (cases j) auto

lemma is_array_iff: "is_array j \<longleftrightarrow> (\<exists>xs. j = JArr xs)"
  by (cases j) auto

lemma is_null_iff: "is_null j \<longleftrightarrow> j = JNull"
  by (cases j) auto

lemma get_string_Inr_iff: "get_string j = Inr s \<longleftrightarrow> j = JStr s"
  by (cases j) auto

lemma is_object_jset [simp]: "is_object j \<Longrightarrow> is_object (jset k v j)"
  by (cases j) auto

lemma is_object_jerase [simp]: "is_object (jerase k j) = is_object j"
  by (cases j) auto

lemma is_object_jobj [simp]: "is_object (jobj kvs)"
  by (simp add: jobj_def)

lemma jlookup_jset [simp]:
  "is_object j \<Longrightarrow> jlookup (jset k v j) k' = (if k' = k then Some v else jlookup j k')"
  by (cases j) auto

lemma jlookup_jset_other: "k' \<noteq> k \<Longrightarrow> jlookup (jset k v j) k' = jlookup j k'"
  by (cases j) auto

lemma jcontains_jset [simp]:
  "is_object j \<Longrightarrow> jcontains (jset k v j) k' \<longleftrightarrow> k' = k \<or> jcontains j k'"
  by (simp add: jcontains_def)

lemma jcontains_is_object: "jcontains j k \<Longrightarrow> is_object j"
  by (cases j) (auto simp: jcontains_def)

lemma jlookup_jerase [simp]:
  "jlookup (jerase k j) k' = (if k' = k then None else jlookup j k')"
proof (cases j)
  case (JObj kvs)
  have "map_of (filter (\<lambda>kv. fst kv \<noteq> k) kvs) k' = (if k' = k then None else map_of kvs k')"
    by (induction kvs) auto
  with JObj show ?thesis by simp
qed auto

lemma map_of_obj_of: "map_of (obj_of kvs) = map_of (rev kvs)"
proof -
  have "map_of (fold (\<lambda>(k, v). obj_insert k v) kvs acc) = map_of acc ++ map_of (rev kvs)" for acc
    by (induction kvs arbitrary: acc) (auto simp: fun_eq_iff map_add_def split: option.splits)
  then show ?thesis by (simp add: obj_of_def)
qed

lemma map_of_rev_eq: "distinct (map fst kvs) \<Longrightarrow> map_of (rev kvs) = map_of kvs"
  by (metis distinct_rev map_of_inject_set rev_map set_rev)

lemma jlookup_jobj: "distinct (map fst kvs) \<Longrightarrow> jlookup (jobj kvs) = map_of kvs"
  by (rule ext) (simp add: jobj_def map_of_obj_of map_of_rev_eq)

lemma value_str_present:
  "jlookup j k = Some (JStr s) \<Longrightarrow> value_str j k d = Inr s"
  by (cases j) (auto simp: value_with_def)

lemma value_with_absent:
  "is_object j \<Longrightarrow> jlookup j k = None \<Longrightarrow> value_with conv j k d = Inr d"
  by (simp add: value_with_def)

lemma value_with_present:
  "jlookup j k = Some v \<Longrightarrow> value_with conv j k d = conv v"
  by (cases j) (auto simp: value_with_def)

lemma map_result_get_string [simp]: "map_result get_string (map JStr xs) = Inr xs"
  by (induction xs) auto

lemmas [json_simps] = jobj_def obj_of_def jcontains_def value_with_def

end
