(* ===== verification/Hmas_Types.thy ===== *)
theory Hmas_Types
  imports Json
begin

text \<open>
  The HMAS task model of \<open>include/agamemnon/hmas_types.hpp\<close> and \<open>src/hmas_types.cpp\<close>: layers,
  task states, tasks, briefs, their JSON form and the subjects they are dispatched on. Struct
  fields carry the prefix \<open>t_\<close> (task), \<open>b_\<close> (brief) or \<open>e_\<close> (escalation record).
\<close>

section \<open>Data\<close>

datatype hmas_layer = L0_ChiefArchitect | L1_ComponentLead | L2_ModuleLead | L3_TaskAgent

datatype task_state =
  Pending | Decomposing | Delegated | InProgress | Escalated | Completed | Failed

record escalation_record =
  e_task_id :: string
  e_reason :: string
  e_escalated_at :: string
  e_from_layer :: hmas_layer

record hmas_task =
  t_id :: string
  t_brief_id :: string
  t_parent_task_id :: string
  t_layer :: hmas_layer
  t_state :: task_state
  t_subject :: string
  t_description :: string
  t_repo :: string
  t_module :: string
  t_issue :: int
  t_assigned_lead_id :: string
  t_blocked_by :: "string list"
  t_child_task_ids :: "string list"
  t_escalations :: "escalation_record list"
  t_created_at :: string
  t_completed_at :: string

record task_brief =
  b_id :: string
  b_title :: string
  b_description :: string
  b_repos :: "string list"
  b_modules :: "string list umap"
  b_impls :: "string list umap umap"

text \<open>A task as \<open>HmasTask t;\<close> leaves it: empty strings and vectors, no issue.\<close>

definition new_task :: "hmas_layer \<Rightarrow> task_state \<Rightarrow> hmas_task" where
  "new_task l st =
     \<lparr>t_id = [], t_brief_id = [], t_parent_task_id = [], t_layer = l, t_state = st,
      t_subject = [], t_description = [], t_repo = [], t_module = [], t_issue = 0,
      t_assigned_lead_id = [], t_blocked_by = [], t_child_task_ids = [], t_escalations = [],
      t_created_at = [], t_completed_at = []\<rparr>"

definition new_brief :: task_brief where
  "new_brief =
     \<lparr>b_id = [], b_title = [], b_description = [], b_repos = [], b_modules = [], b_impls = []\<rparr>"

section \<open>Names of layers and states\<close>

fun hmas_layer_to_string :: "hmas_layer \<Rightarrow> string" where
  "hmas_layer_to_string L0_ChiefArchitect = ''L0_ChiefArchitect''"
| "hmas_layer_to_string L1_ComponentLead = ''L1_ComponentLead''"
| "hmas_layer_to_string L2_ModuleLead = ''L2_ModuleLead''"
| "hmas_layer_to_string L3_TaskAgent = ''L3_TaskAgent''"

fun task_state_to_string :: "task_state \<Rightarrow> string" where
  "task_state_to_string Pending = ''Pending''"
| "task_state_to_string Decomposing = ''Decomposing''"
| "task_state_to_string Delegated = ''Delegated''"
| "task_state_to_string InProgress = ''InProgress''"
| "task_state_to_string Escalated = ''Escalated''"
| "task_state_to_string Completed = ''Completed''"
| "task_state_to_string Failed = ''Failed''"

definition hmas_layer_from_string :: "string \<Rightarrow> hmas_layer result" where
  "hmas_layer_from_string s =
     (if s = ''L0_ChiefArchitect'' then Inr L0_ChiefArchitect
      else if s = ''L1_ComponentLead'' then Inr L1_ComponentLead
      else if s = ''L2_ModuleLead'' then Inr L2_ModuleLead
      else if s = ''L3_TaskAgent'' then Inr L3_TaskAgent
      else Inl (Invalid_Argument (''Unknown HmasLayer: '' @ s)))"

definition task_state_from_string :: "string \<Rightarrow> task_state result" where
  "task_state_from_string s =
     (if s = ''Pending'' then Inr Pending
      else if s = ''Decomposing'' then Inr Decomposing
      else if s = ''Delegated'' then Inr Delegated
      else if s = ''InProgress'' then Inr InProgress
      else if s = ''Escalated'' then Inr Escalated
      else if s = ''Completed'' then Inr Completed
      else if s = ''Failed'' then Inr Failed
      else Inl (Invalid_Argument (''Unknown TaskState: '' @ s)))"

lemma layer_from_to_string [simp]:
  "hmas_layer_from_string (hmas_layer_to_string l) = Inr l"
  by (cases l) (simp_all add: hmas_layer_from_string_def)

lemma state_from_to_string [simp]:
  "task_state_from_string (task_state_to_string st) = Inr st"
  by (cases st) (simp_all add: task_state_from_string_def)

lemma layer_from_string_Inr:
  "hmas_layer_from_string s = Inr l \<longleftrightarrow> s = hmas_layer_to_string l"
  by (cases l) (auto simp: hmas_layer_from_string_def)

lemma state_from_string_Inr:
  "task_state_from_string s = Inr st \<longleftrightarrow> s = task_state_to_string st"
  by (cases st) (auto simp: task_state_from_string_def)

section \<open>JSON form of tasks\<close>

definition escalation_record_to_json :: "escalation_record \<Rightarrow> json" where
  "escalation_record_to_json rec =
     jobj [(''task_id'', JStr (e_task_id rec)), (''reason'', JStr (e_reason rec)),
           (''escalated_at'', JStr (e_escalated_at rec)),
           (''from_layer'', JStr (hmas_layer_to_string (e_from_layer rec)))]"

definition hmas_task_to_json :: "hmas_task \<Rightarrow> json" where
  "hmas_task_to_json task =
     jobj [(''id'', JStr (t_id task)),
           (''brief_id'', JStr (t_brief_id task)),
           (''parent_task_id'', JStr (t_parent_task_id task)),
           (''layer'', JStr (hmas_layer_to_string (t_layer task))),
           (''state'', JStr (task_state_to_string (t_state task))),
           (''subject'', JStr (t_subject task)),
           (''description'', JStr (t_description task)),
           (''repo'', JStr (t_repo task)),
           (''module'', JStr (t_module task)),
           (''issue'', JInt (t_issue task)),
           (''assigned_lead_id'', JStr (t_assigned_lead_id task)),
           (''blocked_by'', jstrs (t_blocked_by task)),
           (''child_task_ids'', jstrs (t_child_task_ids task)),
           (''created_at'', JStr (t_created_at task)),
           (''completed_at'', JStr (t_completed_at task)),
           (''escalations'', JArr (map escalation_record_to_json (t_escalations task)))]"

text \<open>\<open>if (j.contains(k) && j[k].is_array()) for (s : j[k]) push_back(conv(s))\<close>\<close>

definition array_field :: "(json \<Rightarrow> 'a result) \<Rightarrow> json \<Rightarrow> string \<Rightarrow> 'a list result" where
  "array_field conv j k =
     (case jlookup j k of
        Some (JArr xs) \<Rightarrow> map_result conv xs
      | _ \<Rightarrow> Inr [])"

definition escalation_record_from_json :: "json \<Rightarrow> escalation_record result" where
  "escalation_record_from_json e =
     bind_result (value_str e ''task_id'' '''') (\<lambda>tid.
     bind_result (value_str e ''reason'' '''') (\<lambda>reason.
     bind_result (value_str e ''escalated_at'' '''') (\<lambda>when.
     bind_result (bind_result (value_str e ''from_layer'' ''L0_ChiefArchitect'')
                    hmas_layer_from_string) (\<lambda>layer.
       Inr \<lparr>e_task_id = tid, e_reason = reason, e_escalated_at = when, e_from_layer = layer\<rparr>))))"

definition hmas_task_from_json :: "json \<Rightarrow> hmas_task result" where
  "hmas_task_from_json j =
     bind_result (value_str j ''id'' '''') (\<lambda>ident.
     bind_result (value_str j ''brief_id'' '''') (\<lambda>brief_id.
     bind_result (value_str j ''parent_task_id'' '''') (\<lambda>parent.
     bind_result (bind_result (value_str j ''layer'' ''L0_ChiefArchitect'')
                    hmas_layer_from_string) (\<lambda>layer.
     bind_result (bind_result (value_str j ''state'' ''Pending'')
                    task_state_from_string) (\<lambda>st.
     bind_result (value_str j ''subject'' '''') (\<lambda>subject.
     bind_result (value_str j ''description'' '''') (\<lambda>description.
     bind_result (value_str j ''repo'' '''') (\<lambda>repo.
     bind_result (value_str j ''module'' '''') (\<lambda>module.
     bind_result (value_int j ''issue'' 0) (\<lambda>issue.
     bind_result (value_str j ''assigned_lead_id'' '''') (\<lambda>lead.
     bind_result (value_str j ''created_at'' '''') (\<lambda>created.
     bind_result (value_str j ''completed_at'' '''') (\<lambda>completed.
     bind_result (array_field get_string j ''blocked_by'') (\<lambda>blocked.
     bind_result (array_field get_string j ''child_task_ids'') (\<lambda>children.
     bind_result (array_field escalation_record_from_json j ''escalations'') (\<lambda>escs.
       Inr \<lparr>t_id = ident, t_brief_id = brief_id, t_parent_task_id = parent, t_layer = layer,
            t_state = st, t_subject = subject, t_description = description, t_repo = repo,
            t_module = module, t_issue = issue, t_assigned_lead_id = lead,
            t_blocked_by = blocked, t_child_task_ids = children, t_escalations = escs,
            t_created_at = created, t_completed_at = completed\<rparr>))))))))))))))))"

lemma jlookup_task_json:
  "jlookup (hmas_task_to_json t) = map_of
     [(''id'', JStr (t_id t)),
      (''brief_id'', JStr (t_brief_id t)),
      (''parent_task_id'', JStr (t_parent_task_id t)),
      (''layer'', JStr (hmas_layer_to_string (t_layer t))),
      (''state'', JStr (task_state_to_string (t_state t))),
      (''subject'', JStr (t_subject t)),
      (''description'', JStr (t_description t)),
      (''repo'', JStr (t_repo t)),
      (''module'', JStr (t_module t)),
      (''issue'', JInt (t_issue t)),
      (''assigned_lead_id'', JStr (t_assigned_lead_id t)),
      (''blocked_by'', jstrs (t_blocked_by t)),
      (''child_task_ids'', jstrs (t_child_task_ids t)),
      (''created_at'', JStr (t_created_at t)),
      (''completed_at'', JStr (t_completed_at t)),
      (''escalations'', JArr (map escalation_record_to_json (t_escalations t)))]"
  unfolding hmas_task_to_json_def by (rule jlookup_jobj) simp

lemma is_object_task_json [simp]: "is_object (hmas_task_to_json t)"
  by (simp add: hmas_task_to_json_def)

lemma escalation_roundtrip:
  "escalation_record_from_json (escalation_record_to_json r) = Inr r"
  unfolding escalation_record_from_json_def escalation_record_to_json_def
  by (simp add: value_with_def jlookup_jobj)

lemma array_field_strs: "jlookup j k = Some (jstrs xs) \<Longrightarrow> array_field get_string j k = Inr xs"
  by (simp add: array_field_def)

text \<open>A task written as JSON is read back unchanged.\<close>

lemma hmas_task_roundtrip:
  assumes "INT_MIN \<le> t_issue t" and "t_issue t \<le> INT_MAX"
  shows "hmas_task_from_json (hmas_task_to_json t) = Inr t"
proof -
  have "map_result escalation_record_from_json (map escalation_record_to_json xs) = Inr xs" for xs
    by (induction xs) (simp_all add: escalation_roundtrip)
  then show ?thesis
    unfolding hmas_task_from_json_def
    by (simp add: value_with_def jlookup_task_json array_field_def wrap32_id [OF assms])
qed

lemma hmas_task_roundtrip_witness:
  "hmas_task_from_json (hmas_task_to_json ((new_task L3_TaskAgent Escalated)\<lparr>t_issue := 42,
      t_escalations := [\<lparr>e_task_id = ''x'', e_reason = ''stuck'', e_escalated_at = ''now'',
        e_from_layer = L3_TaskAgent\<rparr>]\<rparr>))
   = Inr ((new_task L3_TaskAgent Escalated)\<lparr>t_issue := 42,
      t_escalations := [\<lparr>e_task_id = ''x'', e_reason = ''stuck'', e_escalated_at = ''now'',
        e_from_layer = L3_TaskAgent\<rparr>]\<rparr>)"
  by (rule hmas_task_roundtrip) (simp_all add: INT_MIN_def INT_MAX_def)
section \<open>JSON form of briefs\<close>

definition task_brief_to_json :: "task_brief \<Rightarrow> json" where
  "task_brief_to_json brief =
     jobj [(''id'', JStr (b_id brief)),
           (''title'', JStr (b_title brief)),
           (''description'', JStr (b_description brief)),
           (''repos'', jstrs (b_repos brief)),
           (''modules'', jobj (map (\<lambda>(repo, mods). (repo, jstrs mods)) (b_modules brief))),
           (''impls'', jobj (map (\<lambda>(repo, mod_map).
              (repo, jobj (map (\<lambda>(md, tasks). (md, jstrs tasks)) mod_map))) (b_impls brief)))]"



fun read_modules :: "(string \<times> json) list \<Rightarrow> string list umap \<Rightarrow> string list umap result" where
  "read_modules [] acc = Inr acc"
| "read_modules ((repo, mods) # r) acc =
     (if is_array mods
      then bind_result (map_result get_string (elements mods)) (\<lambda>ms.
             read_modules r (fold (push_at repo) ms acc))
      else read_modules r acc)"

definition push_impl ::
    "string \<Rightarrow> string \<Rightarrow> string \<Rightarrow> string list umap umap \<Rightarrow> string list umap umap" where
  "push_impl repo md v m =
     AList.update repo (push_at md v (case map_of m repo of None \<Rightarrow> [] | Some mm \<Rightarrow> mm)) m"

fun read_mod_map ::
    "string \<Rightarrow> (string \<times> json) list \<Rightarrow> string list umap umap \<Rightarrow> string list umap umap result" where
  "read_mod_map repo [] acc = Inr acc"
| "read_mod_map repo ((md, tasks) # r) acc =
     (if is_array tasks
      then bind_result (map_result get_string (elements tasks)) (\<lambda>ts.
             read_mod_map repo r (fold (push_impl repo md) ts acc))
      else read_mod_map repo r acc)"

fun read_impls ::
    "(string \<times> json) list \<Rightarrow> string list umap umap \<Rightarrow> string list umap umap result" where
  "read_impls [] acc = Inr acc"
| "read_impls ((repo, mod_map) # r) acc =
     (if is_object mod_map
      then bind_result (read_mod_map repo (items mod_map) acc) (\<lambda>acc'. read_impls r acc')
      else read_impls r acc)"

definition task_brief_from_json :: "json \<Rightarrow> task_brief result" where
  "task_brief_from_json j =
     bind_result (value_str j ''id'' '''') (\<lambda>ident.
     bind_result (value_str j ''title'' '''') (\<lambda>title.
     bind_result (value_str j ''description'' '''') (\<lambda>description.
     bind_result (array_field get_string j ''repos'') (\<lambda>repos.
     bind_result (case jlookup j ''modules'' of
                    Some (JObj kvs) \<Rightarrow> read_modules kvs [] | _ \<Rightarrow> Inr []) (\<lambda>modules.
     bind_result (case jlookup j ''impls'' of
                    Some (JObj kvs) \<Rightarrow> read_impls kvs [] | _ \<Rightarrow> Inr []) (\<lambda>impls.
       Inr \<lparr>b_id = ident, b_title = title, b_description = description, b_repos = repos,
            b_modules = modules, b_impls = impls\<rparr>))))))"

text \<open>What the planner reads of a brief: the module list of a repository, the tasks of a module.\<close>

definition brief_modules :: "task_brief \<Rightarrow> string \<Rightarrow> string list" where
  "brief_modules b repo = list_at (b_modules b) repo"

definition brief_impls :: "task_brief \<Rightarrow> string \<Rightarrow> string \<Rightarrow> string list" where
  "brief_impls b repo md =
     (case map_of (b_impls b) repo of None \<Rightarrow> [] | Some mm \<Rightarrow> list_at mm md)"

definition brief_wf :: "task_brief \<Rightarrow> bool" where
  "brief_wf b \<longleftrightarrow> umap_wf (b_modules b) \<and> umap_wf (b_impls b)
     \<and> (\<forall>(repo, mm) \<in> set (b_impls b). umap_wf mm)"

section \<open>Wire helpers\<close>

fun mesh_role_name :: "hmas_layer \<Rightarrow> string" where
  "mesh_role_name L0_ChiefArchitect = ''chief-architect''"
| "mesh_role_name L1_ComponentLead = ''component-lead''"
| "mesh_role_name L2_ModuleLead = ''module-lead''"
| "mesh_role_name L3_TaskAgent = ''task-agent''"

definition mesh_dispatch_subject :: "string \<Rightarrow> string \<Rightarrow> string \<Rightarrow> string" where
  "mesh_dispatch_subject domain role task_id =
     ''hi.myrmidon.'' @ domain @ ''.'' @ role @ ''.task.'' @ task_id"

end
