(* ===== verification/Planning.thy ===== *)
theory Planning
  imports Hmas_Types
begin

text \<open>
  Decomposition of a brief into the L0 to L3 task tree (\<open>src/planning_breakdown.cpp\<close>): the
  reader of issue references in implementation strings, the nested loops that emit the tasks, and
  the post-pass that wires explicit issue dependencies. Identifiers come from a supply \<open>uuid\<close>:
  \<open>uuid n\<close> is the result of the \<open>n\<close>-th call of \<open>generate_uuid\<close>; the clock reading is an argument.
\<close>

section \<open>Issue references\<close>

record impl_ref =
  r_issue :: int
  r_depends_on :: "int list"
  r_has_explicit_deps :: bool

definition no_ref :: impl_ref where
  "no_ref = \<lparr>r_issue = 0, r_depends_on = [], r_has_explicit_deps = False\<rparr>"

definition dep_marker :: string where
  "dep_marker = ''(depends on:''"

text \<open>The loop over the annotation's text: every \<open>#\<close> followed by digits is a dependency.\<close>

function scan_deps :: "string \<Rightarrow> int list result" where
  "scan_deps [] = Inr []"
| "scan_deps (c # s) =
     (if c = CHR ''#'' then
        (if takeWhile is_digit s \<noteq> [] then
           bind_result (stoi (takeWhile is_digit s)) (\<lambda>d.
           bind_result (scan_deps (dropWhile is_digit s)) (\<lambda>ds. Inr (d # ds)))
         else scan_deps (dropWhile is_digit s))
      else scan_deps s)"
  by pat_completeness auto
termination
  by (relation "measure length") (auto simp: less_Suc_eq_le length_dropWhile_le)

definition parse_impl_ref :: "string \<Rightarrow> impl_ref result" where
  "parse_impl_ref impl_desc =
     (case dropWhile (\<lambda>c. c = CHR '' '' \<or> c = CHR 0x09) impl_desc of
        [] \<Rightarrow> Inr no_ref
      | c # s \<Rightarrow>
          if c \<noteq> CHR ''#'' then Inr no_ref
          else if takeWhile is_digit s = [] then Inr no_ref
          else bind_result (stoi (takeWhile is_digit s)) (\<lambda>issue.
            let rest = dropWhile is_digit s; ref = no_ref\<lparr>r_issue := issue\<rparr> in
            case find_sub dep_marker rest of
              None \<Rightarrow> Inr ref
            | Some dep_start \<Rightarrow>
                (case find_sub '')'' (drop dep_start rest) of
                   None \<Rightarrow> Inr ref
                 | Some dep_len \<Rightarrow>
                     bind_result
                       (scan_deps (drop (length dep_marker) (take dep_len (drop dep_start rest))))
                       (\<lambda>deps. Inr (ref\<lparr>r_depends_on := deps, r_has_explicit_deps := True\<rparr>)))))"

section \<open>The task tree\<close>

text \<open>\<open>tasks[i].child_task_ids.push_back(c)\<close>\<close>

definition add_child :: "nat \<Rightarrow> string \<Rightarrow> hmas_task list \<Rightarrow> hmas_task list" where
  "add_child i c tasks = tasks[i := (tasks ! i)\<lparr>t_child_task_ids := t_child_task_ids (tasks ! i) @ [c]\<rparr>]"

definition root_task :: "string \<Rightarrow> string \<Rightarrow> task_brief \<Rightarrow> hmas_task" where
  "root_task ident ts brief =
     (new_task L0_ChiefArchitect Pending)\<lparr>t_id := ident, t_brief_id := b_id brief,
        t_subject := b_title brief, t_description := b_description brief, t_created_at := ts\<rparr>"

definition l1_task :: "string \<Rightarrow> string \<Rightarrow> task_brief \<Rightarrow> string \<Rightarrow> string \<Rightarrow> hmas_task" where
  "l1_task ident ts brief root_id repo =
     (new_task L1_ComponentLead Pending)\<lparr>t_id := ident, t_brief_id := b_id brief,
        t_parent_task_id := root_id, t_repo := repo,
        t_subject := b_title brief @ '' ['' @ repo @ '']'',
        t_description := ''Coordinate implementation for repo: '' @ repo,
        t_created_at := ts, t_blocked_by := [root_id]\<rparr>"

definition l2_task ::
    "string \<Rightarrow> string \<Rightarrow> task_brief \<Rightarrow> string \<Rightarrow> string \<Rightarrow> string \<Rightarrow> string \<Rightarrow> hmas_task" where
  "l2_task ident ts brief repo l1_id prev_l2_id md =
     (new_task L2_ModuleLead Pending)\<lparr>t_id := ident, t_brief_id := b_id brief,
        t_parent_task_id := l1_id, t_repo := repo, t_module := md,
        t_subject := b_title brief @ '' ['' @ repo @ ''/'' @ md @ '']'',
        t_description := ''Lead module implementation: '' @ md @ '' in '' @ repo,
        t_created_at := ts,
        t_blocked_by := l1_id # (if prev_l2_id \<noteq> [] then [prev_l2_id] else [])\<rparr>"

definition l3_task ::
    "string \<Rightarrow> string \<Rightarrow> task_brief \<Rightarrow> string \<Rightarrow> string \<Rightarrow> string \<Rightarrow> string \<Rightarrow> string \<Rightarrow> impl_ref
       \<Rightarrow> hmas_task" where
  "l3_task ident ts brief repo md l2_id prev_l3_id impl_desc ref =
     (new_task L3_TaskAgent Pending)\<lparr>t_id := ident, t_brief_id := b_id brief,
        t_parent_task_id := l2_id, t_repo := repo, t_module := md,
        t_subject := impl_desc, t_description := impl_desc, t_created_at := ts,
        t_issue := r_issue ref,
        t_blocked_by := l2_id #
          (if \<not> r_has_explicit_deps ref \<and> prev_l3_id \<noteq> [] then [prev_l3_id] else [])\<rparr>"

text \<open>The three loops carry the number of the next identifier and the vector built so far.\<close>

type_synonym plan_state = "nat \<times> hmas_task list"

fun l3_loop ::
    "(nat \<Rightarrow> string) \<Rightarrow> string \<Rightarrow> task_brief \<Rightarrow> string \<Rightarrow> string \<Rightarrow> string \<Rightarrow> nat
       \<Rightarrow> string list \<Rightarrow> string \<Rightarrow> plan_state \<Rightarrow> plan_state result" where
  "l3_loop uuid ts brief repo md l2_id l2_idx [] prev (n, tasks) = Inr (n, tasks)"
| "l3_loop uuid ts brief repo md l2_id l2_idx (impl_desc # impls) prev (n, tasks) =
     bind_result (parse_impl_ref impl_desc) (\<lambda>ref.
       l3_loop uuid ts brief repo md l2_id l2_idx impls (uuid n)
         (Suc n, add_child l2_idx (uuid n) tasks
                   @ [l3_task (uuid n) ts brief repo md l2_id prev impl_desc ref]))"

definition impls_or_default :: "task_brief \<Rightarrow> string \<Rightarrow> string \<Rightarrow> string list" where
  "impls_or_default brief repo md =
     (let impls = brief_impls brief repo md
      in if impls = [] then [''Implement '' @ md] else impls)"

definition modules_or_default :: "task_brief \<Rightarrow> string \<Rightarrow> string list" where
  "modules_or_default brief repo =
     (let modules = brief_modules brief repo in if modules = [] then [''core''] else modules)"

fun l2_loop ::
    "(nat \<Rightarrow> string) \<Rightarrow> string \<Rightarrow> task_brief \<Rightarrow> string \<Rightarrow> string \<Rightarrow> nat
       \<Rightarrow> string list \<Rightarrow> string \<Rightarrow> plan_state \<Rightarrow> plan_state result" where
  "l2_loop uuid ts brief repo l1_id l1_idx [] prev (n, tasks) = Inr (n, tasks)"
| "l2_loop uuid ts brief repo l1_id l1_idx (md # mds) prev (n, tasks) =
     bind_result
       (l3_loop uuid ts brief repo md (uuid n) (length tasks) (impls_or_default brief repo md) []
          (Suc n, add_child l1_idx (uuid n) tasks
                    @ [l2_task (uuid n) ts brief repo l1_id prev md]))
       (\<lambda>st. l2_loop uuid ts brief repo l1_id l1_idx mds (uuid n) st)"

fun l1_loop ::
    "(nat \<Rightarrow> string) \<Rightarrow> string \<Rightarrow> task_brief \<Rightarrow> string \<Rightarrow> string list \<Rightarrow> plan_state
       \<Rightarrow> plan_state result" where
  "l1_loop uuid ts brief root_id [] (n, tasks) = Inr (n, tasks)"
| "l1_loop uuid ts brief root_id (repo # repos) (n, tasks) =
     bind_result
       (l2_loop uuid ts brief repo (uuid n) (length tasks) (modules_or_default brief repo) []
          (Suc n, add_child 0 (uuid n) tasks @ [l1_task (uuid n) ts brief root_id repo]))
       (\<lambda>st. l1_loop uuid ts brief root_id repos st)"

section \<open>Explicit dependencies\<close>

text \<open>\<open>issue_to_idx\<close>: \<open>emplace\<close> keeps the first leaf with a given issue.\<close>

fun issue_index :: "nat \<Rightarrow> hmas_task list \<Rightarrow> (int \<times> nat) list \<Rightarrow> (int \<times> nat) list" where
  "issue_index i [] acc = acc"
| "issue_index i (t # ts) acc =
     issue_index (Suc i) ts
       (if t_layer t = L3_TaskAgent \<and> t_issue t \<noteq> 0 \<and> map_of acc (t_issue t) = None
        then acc @ [(t_issue t, i)] else acc)"

text \<open>One dependency edge: task \<open>i\<close> waits for task \<open>b\<close>.\<close>

definition wire_edge :: "nat \<Rightarrow> nat \<Rightarrow> hmas_task list \<Rightarrow> hmas_task list" where
  "wire_edge i b tasks =
     (let t = tasks ! i; blocker = tasks ! b in
      if t_id blocker = t_id t then tasks
      else
        let tasks1 = (if t_id blocker \<notin> set (t_blocked_by t)
                      then tasks[i := t\<lparr>t_blocked_by := t_blocked_by t @ [t_id blocker]\<rparr>]
                      else tasks)
        in if t_id t \<notin> set (t_child_task_ids (tasks1 ! b))
           then add_child b (t_id t) tasks1 else tasks1)"

fun wire_deps :: "(int \<times> nat) list \<Rightarrow> nat \<Rightarrow> int list \<Rightarrow> hmas_task list \<Rightarrow> hmas_task list" where
  "wire_deps idx i [] tasks = tasks"
| "wire_deps idx i (d # ds) tasks =
     wire_deps idx i ds (case map_of idx d of None \<Rightarrow> tasks | Some b \<Rightarrow> wire_edge i b tasks)"

fun wire_tasks :: "(int \<times> nat) list \<Rightarrow> nat list \<Rightarrow> hmas_task list \<Rightarrow> hmas_task list result" where
  "wire_tasks idx [] tasks = Inr tasks"
| "wire_tasks idx (i # is) tasks =
     (if t_layer (tasks ! i) \<noteq> L3_TaskAgent \<or> t_issue (tasks ! i) = 0
      then wire_tasks idx is tasks
      else bind_result (parse_impl_ref (t_subject (tasks ! i))) (\<lambda>ref.
             wire_tasks idx is (wire_deps idx i (r_depends_on ref) tasks)))"

definition decompose ::
    "(nat \<Rightarrow> string) \<Rightarrow> nat \<Rightarrow> string \<Rightarrow> task_brief \<Rightarrow> plan_state result" where
  "decompose uuid n ts brief =
     bind_result
       (l1_loop uuid ts brief (uuid n) (b_repos brief) (Suc n, [root_task (uuid n) ts brief]))
       (\<lambda>(n', tasks).
          bind_result (wire_tasks (issue_index 0 tasks []) [0..<length tasks] tasks)
            (\<lambda>tasks'. Inr (n', tasks')))"

section \<open>Reading issue references\<close>

text \<open>The textual form: \<open>#N\<close>, a title, and the annotation \<open>(depends on: #A, #B)\<close>.\<close>

fun show_deps :: "nat list \<Rightarrow> string" where
  "show_deps [] = []"
| "show_deps [d] = '' #'' @ string_of_nat d"
| "show_deps (d # ds) = '' #'' @ string_of_nat d @ '','' @ show_deps ds"

definition show_impl :: "nat \<Rightarrow> string \<Rightarrow> nat list \<Rightarrow> string" where
  "show_impl issue title deps =
     ''#'' @ string_of_nat issue @ '' '' @ title @ dep_marker @ show_deps deps @ '')''"

lemma span_digits:
  assumes "s = [] \<or> \<not> is_digit (hd s)"
  shows "takeWhile is_digit (string_of_nat n @ s) = string_of_nat n"
    and "dropWhile is_digit (string_of_nat n @ s) = s"
  using assms string_of_nat_digits [of n]
  by (cases s; simp add: takeWhile_append dropWhile_append)+

lemma scan_deps_plain: "CHR ''#'' \<notin> set s \<Longrightarrow> scan_deps (s @ r) = scan_deps r"
  by (induction s) auto

lemma scan_deps_number:
  assumes "int d \<le> INT_MAX" and "s = [] \<or> \<not> is_digit (hd s)"
  shows "scan_deps ('' #'' @ string_of_nat d @ s) =
           bind_result (scan_deps s) (\<lambda>ds. Inr (int d # ds))"
  using assms by (simp add: span_digits stoi_string_of_nat)

lemma scan_deps_show:
  "list_all (\<lambda>d. int d \<le> INT_MAX) deps \<Longrightarrow> scan_deps (show_deps deps) = Inr (map int deps)"
proof (induction deps rule: show_deps.induct)
  case 1
  then show ?case by simp
next
  case (2 d)
  then show ?case using scan_deps_number [of d "[]"] by simp
next
  case (3 d d' ds)
  have "\<not> is_digit (CHR '','')" by (simp add: is_digit_def)
  with 3 show ?case
    using scan_deps_number [of d "'','' @ show_deps (d' # ds)"] by simp
qed

lemma digits_no_paren: "CHR '')'' \<notin> set (string_of_nat n)"
  using string_of_nat_digits [of n] by (auto simp: is_digit_def)

lemma show_deps_no_paren: "CHR '')'' \<notin> set (show_deps deps)"
  by (induction deps rule: show_deps.induct) (auto simp: digits_no_paren)

text \<open>Reading inverts writing for references with explicit dependencies: from \<open>#N title (depends
on: #A, #B)\<close> the parser recovers the issue, the dependencies in order, and that they are explicit.\<close>

lemma parse_show_impl:
  assumes "int issue \<le> INT_MAX" and "list_all (\<lambda>d. int d \<le> INT_MAX) deps"
    and "CHR ''('' \<notin> set title"
  shows "parse_impl_ref (show_impl issue title deps) =
           Inr \<lparr>r_issue = int issue, r_depends_on = map int deps, r_has_explicit_deps = True\<rparr>"
proof -
  let ?rest = "'' '' @ title @ dep_marker @ show_deps deps @ '')''"
  have dig: "\<not> is_digit (hd ?rest)" by (simp add: is_digit_def)
  have strip: "dropWhile (\<lambda>c. c = CHR '' '' \<or> c = CHR 0x09) (show_impl issue title deps) =
      CHR ''#'' # string_of_nat issue @ ?rest"
    by (simp add: show_impl_def)
  have start: "find_sub dep_marker ?rest = Some (Suc (length title))"
  proof -
    have "find_sub dep_marker (('' '' @ title) @ dep_marker @ show_deps deps @ '')'') =
        map_option ((+) (length ('' '' @ title)))
          (find_sub dep_marker (dep_marker @ show_deps deps @ '')''))"
      using assms(3)
      by (intro find_sub_not_in_prefix [where c = "CHR ''(''"]) (auto simp: dep_marker_def)
    moreover have "find_sub dep_marker (dep_marker @ show_deps deps @ '')'') = Some 0"
      by (simp add: dep_marker_def starts_with_def)
    ultimately show ?thesis by simp
  qed
  have body: "drop (Suc (length title)) ?rest = dep_marker @ show_deps deps @ '')''"
    by simp
  have close: "find_sub '')'' (dep_marker @ show_deps deps @ '')'') =
      Some (length dep_marker + length (show_deps deps))"
    using find_sub_not_in_prefix [of "'')''" "CHR '')''" "[]" "dep_marker @ show_deps deps" "'')''"]
      show_deps_no_paren [of deps]
    by (simp add: dep_marker_def starts_with_def)
  have inner: "drop (length dep_marker)
      (take (length dep_marker + length (show_deps deps)) (dep_marker @ show_deps deps @ '')''))
      = show_deps deps"
    by simp
  show ?thesis
    unfolding parse_impl_ref_def strip
    using dig assms(1,2)
    by (simp add: span_digits stoi_string_of_nat start body close inner scan_deps_show no_ref_def
        del: append_Cons append.simps(2) string_of_nat.simps)
qed

lemma parse_show_impl_witness:
  "parse_impl_ref (show_impl 12 ''Add login'' [7, 9]) =
     Inr \<lparr>r_issue = 12, r_depends_on = [7, 9], r_has_explicit_deps = True\<rparr>"
  using parse_show_impl [of 12 "[7, 9]" "''Add login''"] by (simp add: INT_MAX_def)

section \<open>Shape of the tree\<close>

fun child_layer :: "hmas_layer \<Rightarrow> hmas_layer option" where
  "child_layer L0_ChiefArchitect = Some L1_ComponentLead"
| "child_layer L1_ComponentLead = Some L2_ModuleLead"
| "child_layer L2_ModuleLead = Some L3_TaskAgent"
| "child_layer L3_TaskAgent = None"

abbreviation ids :: "hmas_task list \<Rightarrow> string list" where
  "ids tasks \<equiv> map t_id tasks"

text \<open>Task \<open>i\<close> hangs below an earlier task, one layer up, that knows it and blocks it.\<close>

definition linked :: "hmas_task list \<Rightarrow> nat \<Rightarrow> bool" where
  "linked tasks i \<longleftrightarrow> (\<exists>p < i.
     t_parent_task_id (tasks ! i) = t_id (tasks ! p)
     \<and> child_layer (t_layer (tasks ! p)) = Some (t_layer (tasks ! i))
     \<and> t_id (tasks ! i) \<in> set (t_child_task_ids (tasks ! p))
     \<and> t_id (tasks ! p) \<in> set (t_blocked_by (tasks ! i)))"

definition is_root :: "hmas_task \<Rightarrow> bool" where
  "is_root t \<longleftrightarrow> t_layer t = L0_ChiefArchitect \<and> t_parent_task_id t = [] \<and> t_blocked_by t = []"

definition closed_refs :: "hmas_task list \<Rightarrow> bool" where
  "closed_refs tasks \<longleftrightarrow>
     (\<forall>t \<in> set tasks. set (t_child_task_ids t) \<union> set (t_blocked_by t) \<subseteq> set (ids tasks))"

definition plan_tree :: "hmas_task list \<Rightarrow> bool" where
  "plan_tree tasks \<longleftrightarrow> tasks \<noteq> [] \<and> is_root (tasks ! 0)
     \<and> (\<forall>i < length tasks. 0 < i \<longrightarrow> linked tasks i) \<and> closed_refs tasks"

text \<open>Blockers come before the tasks they block: the order in which the tree is emitted.\<close>

definition blockers_precede :: "hmas_task list \<Rightarrow> bool" where
  "blockers_precede tasks \<longleftrightarrow>
     (\<forall>i < length tasks. set (t_blocked_by (tasks ! i)) \<subseteq> set (take i (ids tasks)))"

definition fresh_task :: "string \<Rightarrow> string \<Rightarrow> hmas_task \<Rightarrow> bool" where
  "fresh_task brief_id ts t \<longleftrightarrow>
     t_state t = Pending \<and> t_brief_id t = brief_id \<and> t_created_at t = ts \<and> t_completed_at t = []"

text \<open>A leaf carries the issue its description names.\<close>

definition leaf_issue :: "hmas_task \<Rightarrow> bool" where
  "leaf_issue t \<longleftrightarrow> (t_layer t = L3_TaskAgent \<longrightarrow>
     (\<exists>ref. parse_impl_ref (t_subject t) = Inr ref \<and> t_issue t = r_issue ref))"

text \<open>How the loops change tasks already in the vector: only the two edge lists grow.\<close>

definition grown :: "hmas_task \<Rightarrow> hmas_task \<Rightarrow> bool" where
  "grown t t' \<longleftrightarrow>
     (\<exists>c b. t' = t\<lparr>t_child_task_ids := t_child_task_ids t @ c, t_blocked_by := t_blocked_by t @ b\<rparr>)"

definition grows :: "hmas_task list \<Rightarrow> hmas_task list \<Rightarrow> bool" where
  "grows ts ts' \<longleftrightarrow> length ts \<le> length ts' \<and> (\<forall>i < length ts. grown (ts ! i) (ts' ! i))"

lemma grown_refl [simp]: "grown t t"
  unfolding grown_def by (intro exI [of _ "[]"]) simp

lemma grown_trans: "grown t u \<Longrightarrow> grown u v \<Longrightarrow> grown t v"
proof -
  assume "grown t u" and "grown u v"
  then obtain c b c' b' where
    "u = t\<lparr>t_child_task_ids := t_child_task_ids t @ c, t_blocked_by := t_blocked_by t @ b\<rparr>"
    "v = u\<lparr>t_child_task_ids := t_child_task_ids u @ c', t_blocked_by := t_blocked_by u @ b'\<rparr>"
    unfolding grown_def by blast
  then show "grown t v"
    unfolding grown_def by (intro exI [of _ "c @ c'"] exI [of _ "b @ b'"]) simp
qed

lemma grown_fields:
  assumes "grown t t'"
  shows "t_id t' = t_id t" "t_layer t' = t_layer t" "t_parent_task_id t' = t_parent_task_id t"
    "t_issue t' = t_issue t" "t_subject t' = t_subject t" "fresh_task b ts t' = fresh_task b ts t"
    "set (t_child_task_ids t) \<subseteq> set (t_child_task_ids t')"
    "set (t_blocked_by t) \<subseteq> set (t_blocked_by t')" "leaf_issue t' = leaf_issue t"
  using assms by (auto simp: grown_def fresh_task_def leaf_issue_def)

lemma grows_refl [simp]: "grows ts ts"
  by (simp add: grows_def)

lemma grows_trans [trans]: "grows ts us \<Longrightarrow> grows us vs \<Longrightarrow> grows ts vs"
  unfolding grows_def by (meson grown_trans le_trans order_less_le_trans)

lemma grows_append [simp]: "grows ts (ts @ us)"
  by (simp add: grows_def nth_append)

lemma grows_nth: "grows ts ts' \<Longrightarrow> i < length ts \<Longrightarrow> grown (ts ! i) (ts' ! i)"
  by (simp add: grows_def)

lemma grows_ids:
  assumes "grows ts ts'"
  shows "take (length ts) (ids ts') = ids ts" and "set (ids ts) \<subseteq> set (ids ts')"
proof -
  show eq: "take (length ts) (ids ts') = ids ts"
    using assms by (intro nth_equalityI) (auto simp: grows_def grown_fields(1))
  then show "set (ids ts) \<subseteq> set (ids ts')" by (metis set_take_subset)
qed

lemma grows_list_all:
  assumes "grows ts us" and "length us = length ts"
  shows "list_all leaf_issue us = list_all leaf_issue ts"
    and "list_all (fresh_task b now) us = list_all (fresh_task b now) ts"
proof -
  have "leaf_issue (us ! i) = leaf_issue (ts ! i)"
    "fresh_task b now (us ! i) = fresh_task b now (ts ! i)" if "i < length ts" for i
    using grown_fields [OF grows_nth [OF assms(1) that]] by auto
  then show "list_all leaf_issue us = list_all leaf_issue ts"
    and "list_all (fresh_task b now) us = list_all (fresh_task b now) ts"
    by (auto simp: list_all_length assms(2))
qed

lemma linked_grows:
  assumes "grows ts ts'" and "i < length ts" and "linked ts i"
  shows "linked ts' i"
proof -
  from assms(3) obtain p where p: "p < i"
    "t_parent_task_id (ts ! i) = t_id (ts ! p)"
    "child_layer (t_layer (ts ! p)) = Some (t_layer (ts ! i))"
    "t_id (ts ! i) \<in> set (t_child_task_ids (ts ! p))"
    "t_id (ts ! p) \<in> set (t_blocked_by (ts ! i))"
    by (auto simp: linked_def)
  have "grown (ts ! i) (ts' ! i)" "grown (ts ! p) (ts' ! p)"
    using grows_nth [OF assms(1)] assms(2) p(1) by auto
  then show ?thesis
    unfolding linked_def using p
    by (intro exI [of _ p]) (auto simp: grown_fields(1-6) dest: grown_fields(7,8))
qed

lemma length_add_child [simp]: "length (add_child p c tasks) = length tasks"
  by (simp add: add_child_def)

lemma grows_add_child [simp]: "grows tasks (add_child p c tasks)"
proof -
  have "grown t (t\<lparr>t_child_task_ids := t_child_task_ids t @ [c]\<rparr>)" for t
    unfolding grown_def by (intro exI [of _ "[c]"] exI [of _ "[]"]) simp
  then show ?thesis
    by (cases "p < length tasks") (auto simp: grows_def add_child_def nth_list_update)
qed

lemma ids_add_child [simp]: "ids (add_child p c tasks) = ids tasks"
  using grows_ids(1) [of tasks "add_child p c tasks"] by simp

lemma set_add_child:
  "t \<in> set (add_child p c tasks) \<Longrightarrow> p < length tasks \<Longrightarrow>
     t \<in> set tasks \<or> t = (tasks ! p)\<lparr>t_child_task_ids := t_child_task_ids (tasks ! p) @ [c]\<rparr>"
  unfolding add_child_def by (auto dest: set_update_subset_insert [THEN subsetD])


lemma nth_add_child:
  "p < length tasks \<Longrightarrow> add_child p c tasks ! i =
     (if i = p then (tasks ! p)\<lparr>t_child_task_ids := t_child_task_ids (tasks ! p) @ [c]\<rparr> else tasks ! i)"
  by (simp add: add_child_def nth_list_update)

definition hangs_below :: "hmas_task list \<Rightarrow> nat \<Rightarrow> hmas_task \<Rightarrow> bool" where
  "hangs_below tasks p x \<longleftrightarrow> p < length tasks
     \<and> child_layer (t_layer (tasks ! p)) = Some (t_layer x)
     \<and> t_parent_task_id x = t_id (tasks ! p)
     \<and> t_id (tasks ! p) \<in> set (t_blocked_by x)
     \<and> set (t_blocked_by x) \<subseteq> set (ids tasks)
     \<and> t_child_task_ids x = []"

lemma closed_refs_append:
  assumes "closed_refs tasks" and x: "hangs_below tasks p x"
  shows "closed_refs (add_child p (t_id x) tasks @ [x])"
proof -
  have p: "p < length tasks" using x by (simp add: hangs_below_def)
  have old: "set (t_child_task_ids t) \<subseteq> set (ids tasks)" "set (t_blocked_by t) \<subseteq> set (ids tasks)"
    if "t \<in> set tasks" for t
    using that assms(1) unfolding closed_refs_def by blast+
  have "set (t_child_task_ids t) \<union> set (t_blocked_by t) \<subseteq> insert (t_id x) (set (ids tasks))"
    if "t \<in> set (add_child p (t_id x) tasks)" for t
    using set_add_child [OF that p]
  proof
    assume "t \<in> set tasks"
    then show ?thesis using old by blast
  next
    assume "t = (tasks ! p)\<lparr>t_child_task_ids := t_child_task_ids (tasks ! p) @ [t_id x]\<rparr>"
    then show ?thesis using old [OF nth_mem [OF p]] by auto
  qed
  moreover have "set (t_child_task_ids x) \<union> set (t_blocked_by x) \<subseteq> set (ids tasks)"
    using x by (simp add: hangs_below_def)
  ultimately show ?thesis unfolding closed_refs_def by (auto simp del: set_map)
qed

lemma plan_tree_append:
  assumes tree: "plan_tree tasks" and x: "hangs_below tasks p x"
  shows "plan_tree (add_child p (t_id x) tasks @ [x])" (is "plan_tree ?new")
proof -
  have p: "p < length tasks" using x by (simp add: hangs_below_def)
  have g: "grows tasks ?new" by (rule grows_trans [OF grows_add_child grows_append])
  have len: "length ?new = Suc (length tasks)" by simp
  have "linked ?new (length tasks)"
    unfolding linked_def using x by (intro exI [of _ p]) (auto simp: hangs_below_def nth_append nth_add_child)
  then have "linked ?new i" if "0 < i" "i < length ?new" for i
    using that tree linked_grows [OF g, of i]
    by (cases "i = length tasks") (auto simp: plan_tree_def)
  moreover have "is_root (?new ! 0)"
    using tree p by (auto simp: plan_tree_def is_root_def nth_append nth_add_child)
  moreover have "closed_refs ?new"
    using tree closed_refs_append [OF _ x] by (simp add: plan_tree_def)
  ultimately show ?thesis by (simp add: plan_tree_def)
qed

lemma blockers_precede_append:
  assumes "blockers_precede tasks" and "hangs_below tasks p x"
  shows "blockers_precede (add_child p (t_id x) tasks @ [x])"
  using assms
  by (auto simp: blockers_precede_def hangs_below_def nth_append nth_add_child less_Suc_eq)

text \<open>What holds of the vector while the loops extend it.\<close>

definition plan_inv ::
    "(nat \<Rightarrow> string) \<Rightarrow> string \<Rightarrow> string \<Rightarrow> nat \<Rightarrow> plan_state \<Rightarrow> bool" where
  "plan_inv uuid brief_id ts n0 = (\<lambda>(n, tasks).
     n = n0 + length tasks \<and> ids tasks = map uuid [n0..<n]
     \<and> list_all (fresh_task brief_id ts) tasks \<and> list_all leaf_issue tasks
     \<and> plan_tree tasks \<and> blockers_precede tasks)"

lemma plan_inv_append:
  assumes inv: "plan_inv uuid b ts n0 (n, tasks)" and x: "hangs_below tasks p x"
    and "t_id x = uuid n" and "fresh_task b ts x" and "leaf_issue x"
  shows "plan_inv uuid b ts n0 (Suc n, add_child p (uuid n) tasks @ [x])"
proof -
  have "list_all (fresh_task b ts) (add_child p (uuid n) tasks)"
      "list_all leaf_issue (add_child p (uuid n) tasks)"
    using inv grows_add_child [of tasks p "uuid n"]
    by (auto simp: plan_inv_def list_all_length grows_def grown_fields(6,9))
  then show ?thesis
    using plan_tree_append [OF _ x] blockers_precede_append [OF _ x] assms
    by (simp add: plan_inv_def)
qed


subsection \<open>The three loops\<close>

definition lead :: "hmas_task list \<Rightarrow> nat \<Rightarrow> string \<Rightarrow> hmas_layer \<Rightarrow> bool" where
  "lead tasks i ident layer \<longleftrightarrow> i < length tasks \<and> t_id (tasks ! i) = ident \<and> t_layer (tasks ! i) = layer"

lemma lead_grows: "grows ts ts' \<Longrightarrow> lead ts i ident layer \<Longrightarrow> lead ts' i ident layer"
  by (auto simp: lead_def grows_def grown_fields)

lemma lead_append [simp]: "lead (add_child p c ts @ [x]) (length ts) ident layer \<longleftrightarrow> t_id x = ident \<and> t_layer x = layer"
  by (auto simp: lead_def nth_append)

lemma grows_step: "grows tasks (add_child p c tasks @ [x])"
  by (rule grows_trans [OF grows_add_child grows_append])

lemma lead_id: "lead tasks i ident layer \<Longrightarrow> ident \<in> set (ids tasks)"
  by (auto simp: lead_def)

lemmas task_records = l1_task_def l2_task_def l3_task_def root_task_def new_task_def

lemma l3_hangs_below:
  assumes "lead tasks p l2_id L2_ModuleLead" and "prev = [] \<or> prev \<in> set (ids tasks)"
  shows "hangs_below tasks p (l3_task ident ts brief repo md l2_id prev d ref)"
  using assms lead_id [OF assms(1)] by (auto simp: hangs_below_def lead_def task_records)

lemma l2_hangs_below:
  assumes "lead tasks p l1_id L1_ComponentLead" and "prev = [] \<or> prev \<in> set (ids tasks)"
  shows "hangs_below tasks p (l2_task ident ts brief repo l1_id prev md)"
  using assms lead_id [OF assms(1)] by (auto simp: hangs_below_def lead_def task_records)

lemma l1_hangs_below:
  assumes "lead tasks p root_id L0_ChiefArchitect"
  shows "hangs_below tasks p (l1_task ident ts brief root_id repo)"
  using assms lead_id [OF assms(1)] by (auto simp: hangs_below_def lead_def task_records)

lemma fresh_records [simp]:
  "fresh_task (b_id brief) ts (l1_task ident ts brief root_id repo)"
  "fresh_task (b_id brief) ts (l2_task ident ts brief repo l1_id prev md)"
  "fresh_task (b_id brief) ts (l3_task ident ts brief repo md l2_id prev d ref)"
  "fresh_task (b_id brief) ts (root_task ident ts brief)"
  by (simp_all add: fresh_task_def task_records)

lemma id_records [simp]:
  "t_id (l1_task ident ts brief root_id repo) = ident"
  "t_id (l2_task ident ts brief repo l1_id prev md) = ident"
  "t_id (l3_task ident ts brief repo md l2_id prev d ref) = ident"
  "t_id (root_task ident ts brief) = ident"
  "t_layer (l1_task ident ts brief root_id repo) = L1_ComponentLead"
  "t_layer (l2_task ident ts brief repo l1_id prev md) = L2_ModuleLead"
  "t_layer (l3_task ident ts brief repo md l2_id prev d ref) = L3_TaskAgent"
  "t_layer (root_task ident ts brief) = L0_ChiefArchitect"
  by (simp_all add: task_records)

lemma leaf_issue_records [simp]:
  "leaf_issue (l1_task ident ts brief root_id repo)"
  "leaf_issue (l2_task ident ts brief repo l1_id prev md)"
  "leaf_issue (root_task ident ts brief)"
  "parse_impl_ref d = Inr ref \<Longrightarrow> leaf_issue (l3_task ident ts brief repo md l2_id prev d ref)"
  by (simp_all add: leaf_issue_def task_records)

text \<open>What a loop establishes from \<open>(n, tasks)\<close> by adding \<open>k\<close> tasks.\<close>

definition extends :: "(nat \<Rightarrow> string) \<Rightarrow> string \<Rightarrow> string \<Rightarrow> nat \<Rightarrow> nat \<Rightarrow> plan_state \<Rightarrow> plan_state \<Rightarrow> bool" where
  "extends uuid b ts n0 k st st' \<longleftrightarrow> plan_inv uuid b ts n0 st'
     \<and> grows (snd st) (snd st') \<and> length (snd st') = length (snd st) + k"

lemma extends_trans:
  "extends uuid b ts n0 k st st1 \<Longrightarrow> extends uuid b ts n0 m st1 st2 \<Longrightarrow>
     extends uuid b ts n0 (k + m) st st2"
  by (auto simp: extends_def intro: grows_trans)

lemma extends_step:
  assumes "plan_inv uuid b ts n0 (n, tasks)" "hangs_below tasks p x" "t_id x = uuid n" "fresh_task b ts x"
    "leaf_issue x"
  shows "extends uuid b ts n0 1 (n, tasks) (Suc n, add_child p (uuid n) tasks @ [x])"
  using plan_inv_append [OF assms] by (simp add: extends_def grows_step)

lemma l3_loop_extends:
  assumes "l3_loop uuid ts brief repo md l2_id l2_idx impls prev st = Inr st'"
    and "plan_inv uuid (b_id brief) ts n0 st" and "lead (snd st) l2_idx l2_id L2_ModuleLead"
    and "prev = [] \<or> prev \<in> set (ids (snd st))"
  shows "extends uuid (b_id brief) ts n0 (length impls) st st'"
  using assms
proof (induction impls arbitrary: prev st)
  case Nil
  then show ?case by (cases st) (auto simp: extends_def)
next
  case (Cons d impls)
  obtain n tasks where st: "st = (n, tasks)" by (cases st)
  from Cons.prems(1) obtain ref where ref: "parse_impl_ref d = Inr ref"
    by (auto simp: st bind_result_Inr_iff)
  let ?x = "l3_task (uuid n) ts brief repo md l2_id prev d ref"
  let ?st = "(Suc n, add_child l2_idx (uuid n) tasks @ [?x])"
  have step: "extends uuid (b_id brief) ts n0 1 st ?st"
    using Cons.prems(2-4) ref unfolding st by (intro extends_step l3_hangs_below) auto
  have "extends uuid (b_id brief) ts n0 (length impls) ?st st'"
    by (rule Cons.IH [where prev = "uuid n"])
      (use Cons.prems ref step lead_grows [OF grows_step] in \<open>auto simp: st extends_def\<close>)
  from extends_trans [OF step this] show ?case by simp
qed


definition module_size :: "task_brief \<Rightarrow> string \<Rightarrow> string \<Rightarrow> nat" where
  "module_size brief repo md = Suc (length (impls_or_default brief repo md))"

definition repo_size :: "task_brief \<Rightarrow> string \<Rightarrow> nat" where
  "repo_size brief repo = Suc (\<Sum>md \<leftarrow> modules_or_default brief repo. module_size brief repo md)"

definition plan_size :: "task_brief \<Rightarrow> nat" where
  "plan_size brief = Suc (\<Sum>repo \<leftarrow> b_repos brief. repo_size brief repo)"

lemma l2_loop_extends:
  assumes "l2_loop uuid ts brief repo l1_id l1_idx mds prev st = Inr st'"
    and "plan_inv uuid (b_id brief) ts n0 st" and "lead (snd st) l1_idx l1_id L1_ComponentLead"
    and "prev = [] \<or> prev \<in> set (ids (snd st))"
  shows "extends uuid (b_id brief) ts n0 (\<Sum>md \<leftarrow> mds. module_size brief repo md) st st'"
  using assms
proof (induction mds arbitrary: prev st)
  case Nil
  then show ?case by (cases st) (auto simp: extends_def)
next
  case (Cons md mds)
  obtain n tasks where st: "st = (n, tasks)" by (cases st)
  let ?x = "l2_task (uuid n) ts brief repo l1_id prev md"
  let ?st = "(Suc n, add_child l1_idx (uuid n) tasks @ [?x])"
  let ?impls = "impls_or_default brief repo md"
  from Cons.prems(1) obtain st1
    where leaves: "l3_loop uuid ts brief repo md (uuid n) (length tasks) ?impls [] ?st = Inr st1"
      and rest: "l2_loop uuid ts brief repo l1_id l1_idx mds (uuid n) st1 = Inr st'"
    by (auto simp: st bind_result_Inr_iff)
  have step: "extends uuid (b_id brief) ts n0 1 st ?st"
    using Cons.prems(2-4) unfolding st by (intro extends_step l2_hangs_below) auto
  have sub: "extends uuid (b_id brief) ts n0 (length ?impls) ?st st1"
    by (rule l3_loop_extends [OF leaves]) (use step in \<open>auto simp: st extends_def\<close>)
  have "lead (snd st1) l1_idx l1_id L1_ComponentLead"
    using Cons.prems(3) step sub by (auto simp: extends_def intro: lead_grows)
  moreover have "uuid n \<in> set (ids (snd st1))"
    using sub grows_ids(2) by (fastforce simp: extends_def simp del: set_map)
  ultimately have "extends uuid (b_id brief) ts n0 (\<Sum>md \<leftarrow> mds. module_size brief repo md) st1 st'"
    using Cons.IH [OF rest] sub by (auto simp: extends_def)
  from extends_trans [OF extends_trans [OF step sub] this] show ?case
    by (simp add: module_size_def)
qed

lemma l1_loop_extends:
  assumes "l1_loop uuid ts brief root_id repos st = Inr st'"
    and "plan_inv uuid (b_id brief) ts n0 st" and "lead (snd st) 0 root_id L0_ChiefArchitect"
  shows "extends uuid (b_id brief) ts n0 (\<Sum>repo \<leftarrow> repos. repo_size brief repo) st st'"
  using assms
proof (induction repos arbitrary: st)
  case Nil
  then show ?case by (cases st) (auto simp: extends_def)
next
  case (Cons repo repos)
  obtain n tasks where st: "st = (n, tasks)" by (cases st)
  let ?x = "l1_task (uuid n) ts brief root_id repo"
  let ?st = "(Suc n, add_child 0 (uuid n) tasks @ [?x])"
  let ?mds = "modules_or_default brief repo"
  from Cons.prems(1) obtain st1
    where mods: "l2_loop uuid ts brief repo (uuid n) (length tasks) ?mds [] ?st = Inr st1"
      and rest: "l1_loop uuid ts brief root_id repos st1 = Inr st'"
    by (auto simp: st bind_result_Inr_iff)
  have step: "extends uuid (b_id brief) ts n0 1 st ?st"
    using Cons.prems(2,3) unfolding st by (intro extends_step l1_hangs_below) auto
  have sub: "extends uuid (b_id brief) ts n0 (\<Sum>md \<leftarrow> ?mds. module_size brief repo md) ?st st1"
    by (rule l2_loop_extends [OF mods]) (use step in \<open>auto simp: st extends_def\<close>)
  have "lead (snd st1) 0 root_id L0_ChiefArchitect"
    using Cons.prems(3) step sub by (auto simp: extends_def intro: lead_grows)
  then have "extends uuid (b_id brief) ts n0 (\<Sum>repo \<leftarrow> repos. repo_size brief repo) st1 st'"
    using Cons.IH [OF rest] sub by (auto simp: extends_def)
  from extends_trans [OF extends_trans [OF step sub] this] show ?case
    by (simp add: repo_size_def)
qed


subsection \<open>The post-pass\<close>

text \<open>\<open>issue_to_idx\<close> maps an issue to the first leaf that carries it.\<close>

definition leaf_of :: "hmas_task list \<Rightarrow> int \<Rightarrow> nat \<Rightarrow> bool" where
  "leaf_of tasks d b \<longleftrightarrow> d \<noteq> 0 \<and> b < length tasks
     \<and> t_layer (tasks ! b) = L3_TaskAgent \<and> t_issue (tasks ! b) = d
     \<and> (\<forall>j < b. \<not> (t_layer (tasks ! j) = L3_TaskAgent \<and> t_issue (tasks ! j) = d))"

lemma leaf_of_snoc:
  "leaf_of (xs @ [t]) d b \<longleftrightarrow>
     leaf_of xs d b \<or> b = length xs \<and> d \<noteq> 0 \<and> t_layer t = L3_TaskAgent \<and> t_issue t = d
       \<and> (\<forall>j < length xs. \<not> (t_layer (xs ! j) = L3_TaskAgent \<and> t_issue (xs ! j) = d))"
  unfolding leaf_of_def by (auto simp: nth_append less_Suc_eq)

lemma leaf_of_least: "(\<exists>b. leaf_of xs d b) \<longleftrightarrow>
    d \<noteq> 0 \<and> (\<exists>j < length xs. t_layer (xs ! j) = L3_TaskAgent \<and> t_issue (xs ! j) = d)"
proof
  assume "d \<noteq> 0 \<and> (\<exists>j < length xs. t_layer (xs ! j) = L3_TaskAgent \<and> t_issue (xs ! j) = d)"
  then obtain j where "d \<noteq> 0" and j: "j < length xs \<and> t_layer (xs ! j) = L3_TaskAgent \<and> t_issue (xs ! j) = d"
    by blast
  from exists_least_iff [of "\<lambda>j. j < length xs \<and> t_layer (xs ! j) = L3_TaskAgent \<and> t_issue (xs ! j) = d"] j
  obtain m where "m < length xs \<and> t_layer (xs ! m) = L3_TaskAgent \<and> t_issue (xs ! m) = d"
    and "\<forall>k < m. \<not> (k < length xs \<and> t_layer (xs ! k) = L3_TaskAgent \<and> t_issue (xs ! k) = d)"
    by blast
  with \<open>d \<noteq> 0\<close> show "\<exists>b. leaf_of xs d b"
    unfolding leaf_of_def by (intro exI [of _ m]) auto
qed (auto simp: leaf_of_def)

lemma issue_index_extend:
  assumes "\<forall>d b. map_of acc d = Some b \<longleftrightarrow> leaf_of xs d b"
  shows "\<forall>d b. map_of (issue_index (length xs) ts acc) d = Some b \<longleftrightarrow> leaf_of (xs @ ts) d b"
  using assms
proof (induction ts arbitrary: xs acc)
  case Nil
  then show ?case by simp
next
  case (Cons t ts)
  let ?new = "t_layer t = L3_TaskAgent \<and> t_issue t \<noteq> 0 \<and> map_of acc (t_issue t) = None"
  let ?acc = "if ?new then acc @ [(t_issue t, length xs)] else acc"
  have none: "map_of acc d = None \<longleftrightarrow>
      d = 0 \<or> (\<forall>j < length xs. \<not> (t_layer (xs ! j) = L3_TaskAgent \<and> t_issue (xs ! j) = d))" for d
    using Cons.prems leaf_of_least [of xs d] by (metis not_Some_eq)
  have "map_of ?acc d = Some b \<longleftrightarrow> leaf_of (xs @ [t]) d b" for d b
    unfolding leaf_of_snoc Cons.prems [rule_format, symmetric]
    using none [of d] by (cases "map_of acc d") (auto simp: map_add_def)
  then show ?case using Cons.IH [of ?acc "xs @ [t]"] by simp
qed

lemma issue_index_iff: "map_of (issue_index 0 tasks []) d = Some b \<longleftrightarrow> leaf_of tasks d b"
  using issue_index_extend [of "[]" "[]" tasks] by (simp add: leaf_of_def)

definition add_blocker :: "nat \<Rightarrow> string \<Rightarrow> hmas_task list \<Rightarrow> hmas_task list" where
  "add_blocker i c tasks = tasks[i := (tasks ! i)\<lparr>t_blocked_by := t_blocked_by (tasks ! i) @ [c]\<rparr>]"

lemma wire_edge_eq:
  "wire_edge i b tasks =
     (if t_id (tasks ! b) = t_id (tasks ! i) then tasks
      else
        let tasks1 = (if t_id (tasks ! b) \<notin> set (t_blocked_by (tasks ! i))
                      then add_blocker i (t_id (tasks ! b)) tasks else tasks)
        in if t_id (tasks ! i) \<notin> set (t_child_task_ids (tasks1 ! b))
           then add_child b (t_id (tasks ! i)) tasks1 else tasks1)"
  by (simp add: wire_edge_def add_blocker_def Let_def)


definition wired :: "hmas_task list \<Rightarrow> hmas_task list \<Rightarrow> bool" where
  "wired ts ts' \<longleftrightarrow> grows ts ts' \<and> length ts' = length ts \<and> (closed_refs ts \<longrightarrow> closed_refs ts')
     \<and> (\<forall>i < length ts. t_layer (ts ! i) \<noteq> L3_TaskAgent \<longrightarrow> t_blocked_by (ts' ! i) = t_blocked_by (ts ! i))"

lemma wired_refl [simp]: "wired ts ts"
  by (simp add: wired_def)

lemma wired_trans: "wired ts us \<Longrightarrow> wired us vs \<Longrightarrow> wired ts vs"
proof -
  assume w: "wired ts us" "wired us vs"
  then have "grows ts us" "grows us vs" by (auto simp: wired_def)
  moreover have "t_layer (us ! i) = t_layer (ts ! i)" if "i < length ts" for i
    using grown_fields(2) [OF grows_nth [OF \<open>grows ts us\<close> that]] .
  ultimately show "wired ts vs"
    using w grows_trans [of ts us vs] by (simp add: wired_def)
qed

lemma wired_lead: "wired ts ts' \<Longrightarrow> lead ts i ident layer \<Longrightarrow> lead ts' i ident layer"
  by (auto simp: wired_def intro: lead_grows)

lemma ids_update: "t_id u = t_id (ts ! i) \<Longrightarrow> ids (ts[i := u]) = ids ts"
  by (metis list_update_beyond list_update_id map_update not_less)

lemma closed_refs_update:
  assumes "closed_refs ts" and "t_id u = t_id (ts ! i)"
    and "set (t_child_task_ids u) \<union> set (t_blocked_by u) \<subseteq> set (ids ts)"
  shows "closed_refs (ts[i := u])"
  using assms set_update_subset_insert [of ts i u] unfolding closed_refs_def ids_update [OF assms(2)]
  by blast

lemma closed_refs_nth:
  "closed_refs ts \<Longrightarrow> i < length ts \<Longrightarrow>
     set (t_child_task_ids (ts ! i)) \<union> set (t_blocked_by (ts ! i)) \<subseteq> set (ids ts)"
  unfolding closed_refs_def using nth_mem by blast

lemma wired_add_child:
  assumes "b < length ts" and "c \<in> set (ids ts)"
  shows "wired ts (add_child b c ts)"
  unfolding wired_def
  using assms closed_refs_nth [of ts b]
  by (auto simp: nth_add_child simp del: set_map) (auto simp: add_child_def intro!: closed_refs_update)

lemma wired_add_blocker:
  assumes "i < length ts" and "c \<in> set (ids ts)" and "t_layer (ts ! i) = L3_TaskAgent"
  shows "wired ts (add_blocker i c ts)"
proof -
  have "grown t (t\<lparr>t_blocked_by := t_blocked_by t @ [c]\<rparr>)" for t
    unfolding grown_def by (intro exI [of _ "[]"] exI [of _ "[c]"]) simp
  then have "grows ts (add_blocker i c ts)"
    using assms(1) by (auto simp: grows_def add_blocker_def nth_list_update)
  moreover have "closed_refs (add_blocker i c ts)" if "closed_refs ts"
    unfolding add_blocker_def using that assms closed_refs_nth [OF that assms(1)]
    by (intro closed_refs_update) auto
  ultimately show ?thesis
    using assms by (auto simp: wired_def add_blocker_def nth_list_update)
qed

definition edge :: "hmas_task list \<Rightarrow> nat \<Rightarrow> nat \<Rightarrow> bool" where
  "edge ts i b \<longleftrightarrow> t_id (ts ! b) = t_id (ts ! i)
     \<or> t_id (ts ! b) \<in> set (t_blocked_by (ts ! i)) \<and> t_id (ts ! i) \<in> set (t_child_task_ids (ts ! b))"

lemma edge_grows:
  assumes "grows ts ts'" "i < length ts" "b < length ts" "edge ts i b"
  shows "edge ts' i b"
  using assms(4) grown_fields [OF grows_nth [OF assms(1,2)]] grown_fields [OF grows_nth [OF assms(1,3)]]
  by (auto simp: edge_def)

lemma wire_edge:
  assumes "i < length ts" and "b < length ts" and "t_layer (ts ! i) = L3_TaskAgent"
  shows "wired ts (wire_edge i b ts)" and "edge (wire_edge i b ts) i b"
proof -
  define ts1 where "ts1 = (if t_id (ts ! b) \<notin> set (t_blocked_by (ts ! i))
    then add_blocker i (t_id (ts ! b)) ts else ts)"
  have eq: "wire_edge i b ts = (if t_id (ts ! b) = t_id (ts ! i) then ts
      else if t_id (ts ! i) \<notin> set (t_child_task_ids (ts1 ! b)) then add_child b (t_id (ts ! i)) ts1 else ts1)"
    by (simp add: wire_edge_eq ts1_def Let_def)
  have w1: "wired ts ts1" using assms by (auto simp: ts1_def intro!: wired_add_blocker)
  then have len: "length ts1 = length ts" and same: "t_id (ts1 ! i) = t_id (ts ! i)" "t_id (ts1 ! b) = t_id (ts ! b)"
    using assms by (auto simp: wired_def grows_def grown_fields)
  have "wired ts1 (add_child b (t_id (ts ! i)) ts1)"
    using assms len same(1) by (intro wired_add_child) (auto simp flip: same(1))
  with w1 show "wired ts (wire_edge i b ts)" by (auto simp: eq intro: wired_trans)
  have "t_id (ts ! b) \<in> set (t_blocked_by (ts1 ! i))"
    using assms by (auto simp: ts1_def add_blocker_def)
  then show "edge (wire_edge i b ts) i b"
    using assms len same by (auto simp: eq edge_def nth_add_child)
qed


lemma grows_leaf:
  assumes "grows ts ts'" and "length ts' = length ts"
  shows "leaf_of ts' d b = leaf_of ts d b"
proof -
  have "t_layer (ts' ! j) = t_layer (ts ! j)" "t_issue (ts' ! j) = t_issue (ts ! j)" if "j < length ts" for j
    using grown_fields [OF grows_nth [OF assms(1) that]] by auto
  then show ?thesis by (cases "b < length ts") (auto simp: leaf_of_def assms(2))
qed

lemma wire_dep_step:
  fixes d :: int
  assumes "i < length ts" and "t_layer (ts ! i) = L3_TaskAgent"
    and idx: "\<forall>d b. map_of idx d = Some b \<longleftrightarrow> leaf_of ts d b"
  defines "ts' \<equiv> case map_of idx d of None \<Rightarrow> ts | Some b \<Rightarrow> wire_edge i b ts"
  shows "wired ts ts'" and "leaf_of ts d b \<Longrightarrow> edge ts' i b"
proof -
  have b: "b < length ts" if "map_of idx d = Some b" for b
    using that idx by (simp add: leaf_of_def)
  show "wired ts ts'" using b assms(1,2) by (auto simp: ts'_def split: option.split intro: wire_edge)
  show "edge ts' i b" if "leaf_of ts d b"
    using b assms(1,2) that idx [rule_format, symmetric] by (auto simp: ts'_def intro: wire_edge)
qed

lemma wire_deps:
  assumes "i < length ts" and "t_layer (ts ! i) = L3_TaskAgent"
    and idx: "\<forall>d b. map_of idx d = Some b \<longleftrightarrow> leaf_of ts d b"
  shows "wired ts (wire_deps idx i ds ts)
    \<and> (\<forall>d \<in> set ds. \<forall>b. leaf_of ts d b \<longrightarrow> edge (wire_deps idx i ds ts) i b)"
  using assms
proof (induction ds arbitrary: ts)
  case (Cons d ds)
  define ts' where "ts' = (case map_of idx d of None \<Rightarrow> ts | Some b \<Rightarrow> wire_edge i b ts)"
  note w = wire_dep_step [OF Cons.prems, of d, folded ts'_def]
  from w(1) have g: "grows ts ts'" and len: "length ts' = length ts" by (auto simp: wired_def)
  have leaf: "leaf_of ts' d b = leaf_of ts d b" for d b by (rule grows_leaf [OF g len])
  have sub: "wired ts' (wire_deps idx i ds ts')
      \<and> (\<forall>d \<in> set ds. \<forall>b. leaf_of ts' d b \<longrightarrow> edge (wire_deps idx i ds ts') i b)"
  proof (rule Cons.IH)
    show "t_layer (ts' ! i) = L3_TaskAgent"
      using grown_fields(2) [OF grows_nth [OF g Cons.prems(1)]] Cons.prems(2) by simp
  qed (use Cons.prems len leaf in simp_all)
  have "edge (wire_deps idx i ds ts') i b" if "leaf_of ts d b" for b
  proof (rule edge_grows)
    show "edge ts' i b" by (rule w(2) [OF that])
    show "b < length ts'" using that len by (simp add: leaf_of_def)
  qed (use sub Cons.prems(1) len in \<open>simp_all add: wired_def\<close>)
  with sub wired_trans [OF w(1)] show ?case by (simp add: leaf ts'_def [symmetric])
qed simp


definition wakes :: "hmas_task list \<Rightarrow> hmas_task list \<Rightarrow> nat \<Rightarrow> bool" where
  "wakes ts ts' i \<longleftrightarrow> (t_layer (ts ! i) = L3_TaskAgent \<and> t_issue (ts ! i) \<noteq> 0 \<longrightarrow>
     (\<exists>ref. parse_impl_ref (t_subject (ts ! i)) = Inr ref
        \<and> (\<forall>d \<in> set (r_depends_on ref). \<forall>b. leaf_of ts d b \<longrightarrow> edge ts' i b)))"

lemma wakes_grows:
  assumes "grows ts us" "length us = length ts" "i < length ts"
  shows "wakes us vs i = wakes ts vs i"
  using grown_fields [OF grows_nth [OF assms(1,3)]] grows_leaf [OF assms(1,2)]
  unfolding wakes_def by simp

lemma wire_tasks_spec:
  assumes "wire_tasks idx is ts = Inr ts'" and "set is \<subseteq> {..<length ts}"
    and "\<forall>d b. map_of idx d = Some b \<longleftrightarrow> leaf_of ts d b"
  shows "wired ts ts' \<and> (\<forall>i \<in> set is. wakes ts ts' i)"
  using assms
proof (induction "is" arbitrary: ts)
  case (Cons i "is")
  show ?case
  proof (cases "t_layer (ts ! i) \<noteq> L3_TaskAgent \<or> t_issue (ts ! i) = 0")
    case True
    then have "wired ts ts' \<and> (\<forall>i \<in> set is. wakes ts ts' i)"
      using Cons.prems by (intro Cons.IH) auto
    moreover have "wakes ts ts' i" using True by (auto simp: wakes_def)
    ultimately show ?thesis by simp
  next
    case False
    then obtain ref where ref: "parse_impl_ref (t_subject (ts ! i)) = Inr ref"
      and rest: "wire_tasks idx is (wire_deps idx i (r_depends_on ref) ts) = Inr ts'"
      using Cons.prems(1) by (auto simp: bind_result_Inr_iff)
    define us where "us = wire_deps idx i (r_depends_on ref) ts"
    have i: "i < length ts" using Cons.prems(2) by simp
    have w: "wired ts us" and e: "\<forall>d \<in> set (r_depends_on ref). \<forall>b. leaf_of ts d b \<longrightarrow> edge us i b"
      using wire_deps [OF i _ Cons.prems(3), of "r_depends_on ref"] False by (simp_all add: us_def)
    from w have g: "grows ts us" and len: "length us = length ts" by (auto simp: wired_def)
    have sub: "wired us ts' \<and> (\<forall>j \<in> set is. wakes us ts' j)"
    proof (rule Cons.IH)
      show "wire_tasks idx is us = Inr ts'" using rest by (simp only: us_def)
      show "\<forall>d b. map_of idx d = Some b \<longleftrightarrow> leaf_of us d b"
        using Cons.prems(3) grows_leaf [OF g len] by simp
    qed (use Cons.prems(2) len in simp)
    have "edge ts' i b" if "d \<in> set (r_depends_on ref)" "leaf_of ts d b" for d b
      by (rule edge_grows [of us]) (use e that sub i len in \<open>auto simp: wired_def leaf_of_def\<close>)
    then have "wakes ts ts' i" using ref by (auto simp: wakes_def)
    moreover have "wakes ts ts' j" if "j \<in> set is" for j
      using sub that Cons.prems(2) wakes_grows [OF g len, of j] by auto
    ultimately show ?thesis using sub wired_trans [OF w] by simp
  qed
qed simp

lemma wired_tree: "plan_tree ts \<Longrightarrow> wired ts ts' \<Longrightarrow> plan_tree ts'"
proof -
  assume t: "plan_tree ts" and w: "wired ts ts'"
  then have g: "grows ts ts'" and len: "length ts' = length ts" and ne: "0 < length ts"
    by (auto simp: wired_def plan_tree_def)
  have "is_root (ts' ! 0)"
    using t w ne grown_fields [OF grows_nth [OF g ne]] by (simp add: is_root_def plan_tree_def wired_def)
  moreover have "linked ts' i" if "0 < i" "i < length ts'" for i
    using t that len by (intro linked_grows [OF g]) (auto simp: plan_tree_def)
  ultimately show "plan_tree ts'" using t w ne by (simp add: plan_tree_def wired_def flip: length_greater_0_conv)
qed

lemma plan_inv_root: "plan_inv uuid (b_id brief) ts n (Suc n, [root_task (uuid n) ts brief])"
  by (simp add: plan_inv_def plan_tree_def is_root_def closed_refs_def blockers_precede_def task_records
      fresh_task_def leaf_issue_def)

lemma decompose_stages:
  assumes "decompose uuid n ts brief = Inr (n', tasks)"
  obtains built where
    "extends uuid (b_id brief) ts n (\<Sum>repo \<leftarrow> b_repos brief. repo_size brief repo)
       (Suc n, [root_task (uuid n) ts brief]) (n', built)"
    and "wire_tasks (issue_index 0 built []) [0..<length built] built = Inr tasks"
    and "wired built tasks" and "\<forall>i < length built. wakes built tasks i"
proof -
  from assms obtain built
    where l1: "l1_loop uuid ts brief (uuid n) (b_repos brief) (Suc n, [root_task (uuid n) ts brief]) = Inr (n', built)"
      and wt: "wire_tasks (issue_index 0 built []) [0..<length built] built = Inr tasks"
    by (auto simp: decompose_def bind_result_Inr_iff)
  from l1_loop_extends [OF l1 plan_inv_root]
  have ext: "extends uuid (b_id brief) ts n (\<Sum>repo \<leftarrow> b_repos brief. repo_size brief repo)
       (Suc n, [root_task (uuid n) ts brief]) (n', built)"
    by (simp add: lead_def)
  have "wired built tasks \<and> (\<forall>i \<in> set [0..<length built]. wakes built tasks i)"
    using issue_index_iff by (intro wire_tasks_spec [OF wt]) auto
  with that [OF ext wt] show thesis by simp
qed


subsection \<open>When decomposition succeeds\<close>

definition parses :: "string \<Rightarrow> bool" where
  "parses d \<longleftrightarrow> (\<exists>ref. parse_impl_ref d = Inr ref)"

lemma l3_loop_total:
  assumes "\<forall>d \<in> set impls. parses d"
  shows "\<exists>st'. l3_loop uuid ts brief repo md l2_id l2_idx impls prev st = Inr st'"
  using assms
proof (induction impls arbitrary: prev st)
  case Nil
  then show ?case by (cases st) simp
next
  case (Cons d impls)
  then show ?case by (cases st) (auto simp: parses_def)
qed

definition module_parses :: "task_brief \<Rightarrow> string \<Rightarrow> string \<Rightarrow> bool" where
  "module_parses brief repo md \<longleftrightarrow> (\<forall>d \<in> set (impls_or_default brief repo md). parses d)"

lemma l2_loop_total:
  assumes "\<forall>md \<in> set mds. module_parses brief repo md"
  shows "\<exists>st'. l2_loop uuid ts brief repo l1_id l1_idx mds prev st = Inr st'"
  using assms
proof (induction mds arbitrary: prev st)
  case Nil
  then show ?case by (cases st) simp
next
  case (Cons md mds)
  obtain n tasks where st: "st = (n, tasks)" by (cases st)
  obtain st1 where "l3_loop uuid ts brief repo md (uuid n) (length tasks) (impls_or_default brief repo md) []
        (Suc n, add_child l1_idx (uuid n) tasks @ [l2_task (uuid n) ts brief repo l1_id prev md]) = Inr st1"
    using l3_loop_total Cons.prems unfolding module_parses_def by (metis list.set_intros(1))
  then show ?case using Cons by (simp add: st)
qed

definition brief_parses :: "task_brief \<Rightarrow> bool" where
  "brief_parses brief \<longleftrightarrow>
     (\<forall>repo \<in> set (b_repos brief). \<forall>md \<in> set (modules_or_default brief repo). module_parses brief repo md)"

lemma l1_loop_total:
  assumes "\<forall>repo \<in> set repos. \<forall>md \<in> set (modules_or_default brief repo). module_parses brief repo md"
  shows "\<exists>st'. l1_loop uuid ts brief root_id repos st = Inr st'"
  using assms
proof (induction repos arbitrary: st)
  case Nil
  then show ?case by (cases st) simp
next
  case (Cons repo repos)
  obtain n tasks where st: "st = (n, tasks)" by (cases st)
  obtain st1 where "l2_loop uuid ts brief repo (uuid n) (length tasks) (modules_or_default brief repo) []
        (Suc n, add_child 0 (uuid n) tasks @ [l1_task (uuid n) ts brief root_id repo]) = Inr st1"
    using l2_loop_total Cons.prems by (metis list.set_intros(1))
  then show ?case using Cons by (simp add: st)
qed

lemma wire_tasks_total:
  assumes "set is \<subseteq> {..<length ts}" and "list_all leaf_issue ts"
    and "\<forall>d b. map_of idx d = Some b \<longleftrightarrow> leaf_of ts d b"
  shows "\<exists>ts'. wire_tasks idx is ts = Inr ts'"
  using assms
proof (induction "is" arbitrary: ts)
  case (Cons i "is")
  show ?case
  proof (cases "t_layer (ts ! i) \<noteq> L3_TaskAgent \<or> t_issue (ts ! i) = 0")
    case True
    then show ?thesis using Cons.IH [OF _ Cons.prems(2,3)] Cons.prems(1) by simp
  next
    case False
    have i: "i < length ts" using Cons.prems(1) by simp
    with False Cons.prems(2) obtain ref where ref: "parse_impl_ref (t_subject (ts ! i)) = Inr ref"
      by (auto simp: list_all_length leaf_issue_def)
    define us where "us = wire_deps idx i (r_depends_on ref) ts"
    have "wired ts us"
      using wire_deps [OF i _ Cons.prems(3), of "r_depends_on ref"] False by (simp add: us_def)
    then have g: "grows ts us" and len: "length us = length ts" by (auto simp: wired_def)
    have "\<exists>ts'. wire_tasks idx is us = Inr ts'"
    proof (rule Cons.IH)
      show "list_all leaf_issue us"
        using Cons.prems(2) grows_list_all(1) [OF g len] by simp
      show "\<forall>d b. map_of idx d = Some b \<longleftrightarrow> leaf_of us d b"
        using Cons.prems(3) grows_leaf [OF g len] by simp
    qed (use Cons.prems(1) len in simp)
    then show ?thesis using False ref by (simp add: us_def)
  qed
qed simp

section \<open>Properties\<close>

definition example_brief :: task_brief where
  "example_brief = new_brief\<lparr>b_id := ''b1'', b_title := ''Login'', b_repos := [''web''],
     b_modules := [(''web'', [''auth''])],
     b_impls := [(''web'', [(''auth'', [''#1 form'', ''#2 token (depends on: #1)''])])]\<rparr>"

definition example_uuid :: "nat \<Rightarrow> string" where
  "example_uuid n = CHR ''u'' # string_of_nat n"

lemma example_decomposes:
  obtains tasks where "decompose example_uuid 0 ''now'' example_brief = Inr (5, tasks)"
proof -
  have "(case decompose example_uuid 0 ''now'' example_brief of Inr r \<Rightarrow> fst r = 5 | Inl e \<Rightarrow> False)"
    by code_simp
  then show thesis using that by (auto split: sum.splits)
qed


lemma decompose_tree:
  assumes "decompose uuid n ts brief = Inr (n', tasks)"
  shows "plan_tree tasks \<and> ids tasks = map uuid [n..<n'] \<and> n' = n + plan_size brief
     \<and> list_all (fresh_task (b_id brief) ts) tasks \<and> list_all leaf_issue tasks"
proof -
  from decompose_stages [OF assms] obtain built where
    ext: "extends uuid (b_id brief) ts n (\<Sum>repo \<leftarrow> b_repos brief. repo_size brief repo)
       (Suc n, [root_task (uuid n) ts brief]) (n', built)" and w: "wired built tasks" .
  then have g: "grows built tasks" and len: "length tasks = length built" by (auto simp: wired_def)
  from ext have inv: "plan_inv uuid (b_id brief) ts n (n', built)" and size: "length built = plan_size brief"
    by (simp_all add: extends_def plan_size_def)
  then show ?thesis
    using wired_tree [OF _ w] grows_ids(1) [OF g] grows_list_all [OF g len] len
    by (simp add: plan_inv_def)
qed

text \<open>C6: A successful decomposition is a tree. The first task is the L0 root with no blocker; every
later task hangs below an earlier task of the layer above, which lists it as a child and blocks it;
all edges stay inside the plan. The identifiers are the ones drawn, in order and each once, their
number is the size the brief determines, and every task starts as pending work of this brief.\<close>

theorem decompose_plan:
  assumes "decompose uuid n ts brief = Inr (n', tasks)"
  shows "plan_tree tasks \<and> ids tasks = map uuid [n..<n'] \<and> n' = n + plan_size brief
     \<and> list_all (fresh_task (b_id brief) ts) tasks \<and> list_all leaf_issue tasks"
  by (rule decompose_tree [OF assms])

theorem decompose_plan_witness:
  "\<exists>tasks. decompose example_uuid 0 ''now'' example_brief = Inr (5, tasks)
     \<and> plan_tree tasks \<and> ids tasks = [''u0'', ''u1'', ''u2'', ''u3'', ''u4'']"
proof -
  obtain tasks where ok: "decompose example_uuid 0 ''now'' example_brief = Inr (5, tasks)"
    by (rule example_decomposes)
  moreover have "map example_uuid [0..<5] = [''u0'', ''u1'', ''u2'', ''u3'', ''u4'']"
    by code_simp
  ultimately show ?thesis using decompose_plan [OF ok] by simp
qed

text \<open>Decomposition succeeds whenever every implementation string of the brief can be read; the
only failure is an issue number that does not fit an \<open>int\<close>.\<close>

lemma decompose_total:
  assumes "brief_parses brief"
  shows "\<exists>tasks. decompose uuid n ts brief = Inr (n + plan_size brief, tasks)"
proof -
  obtain n' built where l1: "l1_loop uuid ts brief (uuid n) (b_repos brief)
      (Suc n, [root_task (uuid n) ts brief]) = Inr (n', built)"
    using l1_loop_total assms unfolding brief_parses_def by (metis surj_pair)
  from l1_loop_extends [OF l1 plan_inv_root]
  have inv: "plan_inv uuid (b_id brief) ts n (n', built)" and size: "length built = plan_size brief"
    by (simp_all add: lead_def extends_def plan_size_def)
  have "\<exists>tasks. wire_tasks (issue_index 0 built []) [0..<length built] built = Inr tasks"
    using inv issue_index_iff by (intro wire_tasks_total) (auto simp: plan_inv_def)
  then show ?thesis using l1 inv size by (auto simp: decompose_def plan_inv_def)
qed

lemma decompose_total_witness:
  "brief_parses example_brief \<and> (\<exists>tasks. decompose example_uuid 7 ''now'' example_brief = Inr (12, tasks))"
proof -
  have "parse_impl_ref ''#1 form'' = Inr \<lparr>r_issue = 1, r_depends_on = [], r_has_explicit_deps = False\<rparr>"
    "parse_impl_ref ''#2 token (depends on: #1)'' =
       Inr \<lparr>r_issue = 2, r_depends_on = [1], r_has_explicit_deps = True\<rparr>"
    by code_simp+
  then have "brief_parses example_brief"
    by (simp add: brief_parses_def module_parses_def parses_def example_brief_def new_brief_def
        modules_or_default_def impls_or_default_def brief_modules_def brief_impls_def list_at_def)
  moreover have "plan_size example_brief = 5" by code_simp
  ultimately show ?thesis using decompose_total [of example_brief example_uuid 7 "''now''"] by simp
qed


text \<open>C13: A leaf waits for the leaves its annotation names. If leaf \<open>i\<close> says \<open>depends on: #d\<close> and \<open>b\<close>
is the first other leaf of issue \<open>d\<close>, then \<open>b\<close> blocks \<open>i\<close>, and \<open>i\<close> is in the list that is walked
when \<open>b\<close> completes.\<close>

theorem decompose_wires_dependencies:
  assumes "decompose uuid n ts brief = Inr (n', tasks)"
    and "leaf_of tasks d b" and "i < length tasks" and "t_id (tasks ! b) \<noteq> t_id (tasks ! i)"
    and "t_layer (tasks ! i) = L3_TaskAgent" and "t_issue (tasks ! i) \<noteq> 0"
    and "parse_impl_ref (t_subject (tasks ! i)) = Inr ref" and "d \<in> set (r_depends_on ref)"
  shows "t_id (tasks ! b) \<in> set (t_blocked_by (tasks ! i))
     \<and> t_id (tasks ! i) \<in> set (t_child_task_ids (tasks ! b))"
proof -
  from decompose_stages [OF assms(1)] obtain built where
    w: "wired built tasks" and "\<forall>i < length built. wakes built tasks i" .
  moreover from w have g: "grows built tasks" and len: "length tasks = length built"
    by (auto simp: wired_def)
  ultimately have "wakes tasks tasks i"
    using wakes_grows [OF g len] assms(3) by simp
  then have "edge tasks i b" using assms unfolding wakes_def by auto
  then show ?thesis using assms(4) by (simp add: edge_def)
qed

theorem decompose_wires_dependencies_witness:
  "\<exists>tasks. decompose example_uuid 0 ''now'' example_brief = Inr (5, tasks)
     \<and> t_id (tasks ! 3) \<in> set (t_blocked_by (tasks ! 4))"
proof -
  obtain tasks where ok: "decompose example_uuid 0 ''now'' example_brief = Inr (5, tasks)"
    by (rule example_decomposes)
  have "case decompose example_uuid 0 ''now'' example_brief of Inl e \<Rightarrow> False | Inr (n, tasks) \<Rightarrow>
      length tasks = 5 \<and> leaf_of tasks 1 3 \<and> t_id (tasks ! 3) \<noteq> t_id (tasks ! 4)
      \<and> t_layer (tasks ! 4) = L3_TaskAgent \<and> t_issue (tasks ! 4) \<noteq> 0
      \<and> parse_impl_ref (t_subject (tasks ! 4))
          = Inr \<lparr>r_issue = 2, r_depends_on = [1], r_has_explicit_deps = True\<rparr>"
    unfolding leaf_of_def by code_simp
  then have "t_id (tasks ! 3) \<in> set (t_blocked_by (tasks ! 4))"
    using decompose_wires_dependencies [OF ok, of 1 3 4] by (simp add: ok)
  with ok show ?thesis by blast
qed

lemma wire_tasks_idle:
  assumes "set is \<subseteq> {..<length ts}"
    and "\<forall>i < length ts. t_layer (ts ! i) = L3_TaskAgent \<longrightarrow>
           (\<exists>ref. parse_impl_ref (t_subject (ts ! i)) = Inr ref \<and> r_depends_on ref = [])"
  shows "wire_tasks idx is ts = Inr ts"
  using assms by (induction "is") auto

text \<open>Without explicit dependencies the plan is emitted in an order in which it can be worked off:
all blockers of a task come before it, so the blocking relation has no cycle.\<close>

lemma decompose_sequential_order:
  assumes "decompose uuid n ts brief = Inr (n', tasks)"
    and "\<forall>i < length tasks. t_layer (tasks ! i) = L3_TaskAgent \<longrightarrow>
           (\<exists>ref. parse_impl_ref (t_subject (tasks ! i)) = Inr ref \<and> r_depends_on ref = [])"
  shows "blockers_precede tasks"
proof -
  from decompose_stages [OF assms(1)] obtain built where
    ext: "extends uuid (b_id brief) ts n (\<Sum>repo \<leftarrow> b_repos brief. repo_size brief repo)
       (Suc n, [root_task (uuid n) ts brief]) (n', built)"
    and wt: "wire_tasks (issue_index 0 built []) [0..<length built] built = Inr tasks"
    and w: "wired built tasks" .
  then have g: "grows built tasks" and len: "length tasks = length built" by (auto simp: wired_def)
  have "t_layer (tasks ! i) = t_layer (built ! i) \<and> t_subject (tasks ! i) = t_subject (built ! i)"
    if "i < length built" for i
    using grown_fields [OF grows_nth [OF g that]] by simp
  with assms(2) len
  have "wire_tasks (issue_index 0 built []) [0..<length built] built = Inr built"
    by (intro wire_tasks_idle) (simp_all add: atLeast0LessThan)
  with wt have "tasks = built" by simp
  then show ?thesis using ext by (simp add: extends_def plan_inv_def)
qed

lemma decompose_sequential_order_witness:
  "\<exists>n tasks. decompose example_uuid 0 ''now'' (example_brief\<lparr>b_impls := []\<rparr>) = Inr (n, tasks)
     \<and> blockers_precede tasks \<and> length tasks = 4"
proof -
  let ?brief = "example_brief\<lparr>b_impls := []\<rparr>"
  have ev: "case decompose example_uuid 0 ''now'' ?brief of Inl e \<Rightarrow> False | Inr (n, tasks) \<Rightarrow>
      length tasks = 4 \<and> list_all (\<lambda>t. t_layer t = L3_TaskAgent \<longrightarrow> parse_impl_ref (t_subject t) =
        Inr \<lparr>r_issue = 0, r_depends_on = [], r_has_explicit_deps = False\<rparr>) tasks"
    by code_simp
  then obtain n tasks where ok: "decompose example_uuid 0 ''now'' ?brief = Inr (n, tasks)"
    by (auto split: sum.splits)
  with ev have "length tasks = 4" "blockers_precede tasks"
    using decompose_sequential_order [OF ok] by (auto simp: list_all_length)
  with ok show ?thesis by blast
qed

end
