(* ===== verification/Task_Machine.thy ===== *)
theory Task_Machine
  imports Hmas_Types
begin

text \<open>
  The table-driven task state machine of \<open>src/state_machine.cpp\<close>: the transition table the
  constructor builds, \<open>try_transition\<close> and \<open>valid_targets\<close>, and what the table allows: its
  agreement with the transitions listed in \<open>state_machine.hpp\<close>, absorption of terminal states,
  and the meaning of \<open>completed_at\<close> over whole runs. The clock reading an action stores is an
  argument of the transition.
\<close>

section \<open>Events and the transition table\<close>

datatype task_event = Submit | Delegate | Start | Escalate | Retry | Complete | Fail

fun task_event_to_string :: "task_event \<Rightarrow> string" where
  "task_event_to_string Submit = ''Submit''"
| "task_event_to_string Delegate = ''Delegate''"
| "task_event_to_string Start = ''Start''"
| "task_event_to_string Escalate = ''Escalate''"
| "task_event_to_string Retry = ''Retry''"
| "task_event_to_string Complete = ''Complete''"
| "task_event_to_string Fail = ''Fail''"

record transition =
  tr_target :: task_state
  tr_guard :: "(hmas_task \<Rightarrow> bool) option"
  tr_action :: "(string \<Rightarrow> hmas_task \<Rightarrow> hmas_task) option"

type_synonym transition_table = "((task_state \<times> task_event) \<times> transition list) list"

definition add_transition ::
    "task_state \<Rightarrow> task_event \<Rightarrow> task_state \<Rightarrow> (hmas_task \<Rightarrow> bool) option
       \<Rightarrow> (string \<Rightarrow> hmas_task \<Rightarrow> hmas_task) option \<Rightarrow> transition_table \<Rightarrow> transition_table" where
  "add_transition frm ev tgt guard action table =
     push_at (frm, ev) \<lparr>tr_target = tgt, tr_guard = guard, tr_action = action\<rparr> table"

definition is_leaf :: "hmas_task \<Rightarrow> bool" where
  "is_leaf t \<longleftrightarrow> t_layer t = L3_TaskAgent"

definition stamp_completed :: "string \<Rightarrow> hmas_task \<Rightarrow> hmas_task" where
  "stamp_completed now t = t\<lparr>t_completed_at := now\<rparr>"

definition task_table :: transition_table where
  "task_table =
     add_transition Escalated Fail Failed None (Some stamp_completed)
     (add_transition InProgress Fail Failed None (Some stamp_completed)
     (add_transition InProgress Complete Completed None (Some stamp_completed)
     (add_transition Escalated Retry Delegated None None
     (add_transition InProgress Escalate Escalated None None
     (add_transition Delegated Start InProgress None None
     (add_transition Pending Delegate Delegated (Some is_leaf) None
     (add_transition Decomposing Delegate Delegated None None
     (add_transition Pending Submit Decomposing None None []))))))))"

text \<open>The first candidate whose guard passes is taken.\<close>

fun first_enabled :: "string \<Rightarrow> hmas_task \<Rightarrow> transition list \<Rightarrow> bool \<times> hmas_task" where
  "first_enabled now task [] = (False, task)"
| "first_enabled now task (tr # trs) =
     (if (case tr_guard tr of None \<Rightarrow> True | Some g \<Rightarrow> g task)
      then (True, (case tr_action tr of None \<Rightarrow> (\<lambda>t. t) | Some a \<Rightarrow> a now)
                    (task\<lparr>t_state := tr_target tr\<rparr>))
      else first_enabled now task trs)"

definition try_transition :: "string \<Rightarrow> hmas_task \<Rightarrow> task_event \<Rightarrow> bool \<times> hmas_task" where
  "try_transition now task event =
     (case map_of task_table (t_state task, event) of
        None \<Rightarrow> (False, task)
      | Some trs \<Rightarrow> first_enabled now task trs)"

definition valid_targets :: "task_state \<Rightarrow> task_event \<Rightarrow> task_state list" where
  "valid_targets frm event =
     (case map_of task_table (frm, event) of None \<Rightarrow> [] | Some trs \<Rightarrow> map tr_target trs)"

text \<open>The task after an event whose outcome the caller ignores.\<close>

abbreviation after :: "string \<Rightarrow> task_event \<Rightarrow> hmas_task \<Rightarrow> hmas_task" where
  "after now ev t \<equiv> snd (try_transition now t ev)"

section \<open>The transitions of the interface\<close>

text \<open>
  The transitions listed beside the events in \<open>state_machine.hpp\<close> and in the constructor's
  comments, as a relation: \<open>allowed l s e s'\<close> for a task of layer \<open>l\<close>.
\<close>

inductive allowed :: "hmas_layer \<Rightarrow> task_state \<Rightarrow> task_event \<Rightarrow> task_state \<Rightarrow> bool" where
  submit: "allowed l Pending Submit Decomposing"
| delegate: "allowed l Decomposing Delegate Delegated"
| delegate_leaf: "allowed L3_TaskAgent Pending Delegate Delegated"
| start: "allowed l Delegated Start InProgress"
| escalate: "allowed l InProgress Escalate Escalated"
| retry: "allowed l Escalated Retry Delegated"
| complete: "allowed l InProgress Complete Completed"
| fail_running: "allowed l InProgress Fail Failed"
| fail_escalated: "allowed l Escalated Fail Failed"

code_pred (modes: i \<Rightarrow> i \<Rightarrow> i \<Rightarrow> i \<Rightarrow> bool, i \<Rightarrow> i \<Rightarrow> i \<Rightarrow> o \<Rightarrow> bool) allowed .

inductive_simps allowed_simps:
  "allowed l Pending e s'" "allowed l Decomposing e s'" "allowed l Delegated e s'"
  "allowed l InProgress e s'" "allowed l Escalated e s'" "allowed l Completed e s'"
  "allowed l Failed e s'"

definition is_terminal :: "task_state \<Rightarrow> bool" where
  "is_terminal st \<longleftrightarrow> st = Completed \<or> st = Failed"

text \<open>The effect of a taken transition on the task.\<close>

definition moved_to :: "string \<Rightarrow> hmas_task \<Rightarrow> task_state \<Rightarrow> hmas_task" where
  "moved_to now t st =
     (if is_terminal st then t\<lparr>t_state := st, t_completed_at := now\<rparr> else t\<lparr>t_state := st\<rparr>)"

lemmas table_defs = task_table_def add_transition_def push_at_def

lemma try_transition_cases:
  "try_transition now t ev =
     (case (t_state t, ev) of
        (Pending, Submit) \<Rightarrow> (True, moved_to now t Decomposing)
      | (Pending, Delegate) \<Rightarrow> if is_leaf t then (True, moved_to now t Delegated) else (False, t)
      | (Decomposing, Delegate) \<Rightarrow> (True, moved_to now t Delegated)
      | (Delegated, Start) \<Rightarrow> (True, moved_to now t InProgress)
      | (InProgress, Escalate) \<Rightarrow> (True, moved_to now t Escalated)
      | (InProgress, Complete) \<Rightarrow> (True, moved_to now t Completed)
      | (InProgress, Fail) \<Rightarrow> (True, moved_to now t Failed)
      | (Escalated, Retry) \<Rightarrow> (True, moved_to now t Delegated)
      | (Escalated, Fail) \<Rightarrow> (True, moved_to now t Failed)
      | _ \<Rightarrow> (False, t))"
  by (cases "t_state t"; cases ev)
    (simp_all add: try_transition_def table_defs moved_to_def is_terminal_def stamp_completed_def)

section \<open>Properties\<close>


lemma allowed_deterministic: "allowed l s e s1 \<Longrightarrow> allowed l s e s2 \<Longrightarrow> s1 = s2"
  by (cases s; cases e) (auto simp: allowed_simps)

lemma allowed_not_from_terminal: "is_terminal s \<Longrightarrow> \<not> allowed l s e s'"
  by (auto simp: is_terminal_def allowed_simps)


lemma try_transition_identity:
  "t_id (after now ev t) = t_id t \<and> t_brief_id (after now ev t) = t_brief_id t
     \<and> t_layer (after now ev t) = t_layer t \<and> t_blocked_by (after now ev t) = t_blocked_by t
     \<and> t_child_task_ids (after now ev t) = t_child_task_ids t
     \<and> t_parent_task_id (after now ev t) = t_parent_task_id t"
  by (cases "t_state t"; cases ev) (simp_all add: try_transition_cases moved_to_def)

definition task_step :: "string \<times> task_event \<Rightarrow> hmas_task \<Rightarrow> hmas_task" where
  "task_step e t = after (fst e) (snd e) t"

definition stamped :: "hmas_task \<Rightarrow> bool" where
  "stamped t \<longleftrightarrow> (t_completed_at t \<noteq> [] \<longleftrightarrow> is_terminal (t_state t))"

lemma stamped_step: "stamped t \<Longrightarrow> fst e \<noteq> [] \<Longrightarrow> stamped (task_step e t)"
  by (cases "t_state t"; cases "snd e")
    (simp_all add: task_step_def stamped_def try_transition_cases moved_to_def is_terminal_def)

lemma terminal_step: "is_terminal (t_state t) \<Longrightarrow> task_step e t = t"
  by (cases e) (auto simp: task_step_def try_transition_cases is_terminal_def)

interpretation stamping: stepping task_step "\<lambda>e. fst e \<noteq> []" stamped
  by unfold_locales (rule stamped_step)

interpretation absorbing: stepping task_step "\<lambda>e. True" "\<lambda>t. t = t0 \<and> is_terminal (t_state t0)"
  for t0
  by unfold_locales (auto simp: terminal_step)

text \<open>
  Over every sequence of events with non-empty clock readings, \<open>completed_at\<close> is set exactly
  when the task is Completed or Failed, provided it was so at the start.
\<close>

lemma completed_at_iff_terminal:
  assumes "t_completed_at t \<noteq> [] \<longleftrightarrow> is_terminal (t_state t)"
    and "list_all (\<lambda>e. fst e \<noteq> []) es"
  shows "t_completed_at (fold task_step es t) \<noteq> [] \<longleftrightarrow> is_terminal (t_state (fold task_step es t))"
  using stamping.run_inv [of t es] assms by (simp add: stamped_def)

definition example_run :: "(string \<times> task_event) list" where
  "example_run = [(''2026'', Delegate), (''2026'', Start), (''2027'', Complete), (''2028'', Fail)]"

lemma completed_at_iff_terminal_witness:
  "t_state (fold task_step example_run (new_task L3_TaskAgent Pending)) = Completed
   \<and> t_completed_at (fold task_step example_run (new_task L3_TaskAgent Pending)) \<noteq> []"
proof -
  have "t_state (fold task_step example_run (new_task L3_TaskAgent Pending)) = Completed"
    by code_simp
  moreover have "list_all (\<lambda>e. fst e \<noteq> []) example_run"
    by (simp add: example_run_def)
  ultimately show ?thesis
    using completed_at_iff_terminal [of "new_task L3_TaskAgent Pending" example_run]
    by (simp add: new_task_def is_terminal_def)
qed

text \<open>A Completed or Failed task is not changed by any sequence of events.\<close>

lemma terminal_tasks_frozen:
  assumes "t_state t = Completed \<or> t_state t = Failed"
  shows "fold task_step es t = t"
  using absorbing.run_inv [of t t es] assms by (simp add: is_terminal_def list_all_iff)

lemma terminal_tasks_frozen_witness:
  "fold task_step [(''now'', Retry), (''now'', Delegate), (''now'', Start)]
     (new_task L0_ChiefArchitect Failed) = new_task L0_ChiefArchitect Failed"
  by (rule terminal_tasks_frozen) (simp add: new_task_def)

definition route_to_running :: "hmas_task \<Rightarrow> task_event list" where
  "route_to_running t =
     (case t_state t of
        Pending \<Rightarrow> if is_leaf t then [Delegate, Start] else [Submit, Delegate, Start]
      | Decomposing \<Rightarrow> [Delegate, Start]
      | Delegated \<Rightarrow> [Start]
      | Escalated \<Rightarrow> [Retry, Start]
      | _ \<Rightarrow> [])"

lemma route_reaches_running:
  "\<not> is_terminal (t_state t) \<Longrightarrow>
     t_state (fold task_step (map (Pair now) (route_to_running t)) t) = InProgress"
  by (cases "t_state t")
    (simp_all add: route_to_running_def task_step_def try_transition_cases moved_to_def
      is_terminal_def is_leaf_def)

text \<open>
  No task is stuck: from every state that is not terminal, some run of at most four events
  completes the task and some run of at most four events fails it.
\<close>

lemma nonterminal_tasks_can_finish:
  assumes "t_state t \<noteq> Completed" and "t_state t \<noteq> Failed"
  shows "(\<exists>es. length es \<le> 4 \<and> t_state (fold task_step (map (Pair now) es) t) = Completed)
       \<and> (\<exists>es. length es \<le> 4 \<and> t_state (fold task_step (map (Pair now) es) t) = Failed)"
proof -
  have len: "length (route_to_running t @ [ev]) \<le> 4" for ev
    by (cases "t_state t") (auto simp: route_to_running_def)
  have "t_state (fold task_step (map (Pair now) (route_to_running t)) t) = InProgress"
    using assms by (intro route_reaches_running) (simp add: is_terminal_def)
  then have
    "t_state (fold task_step (map (Pair now) (route_to_running t @ [Complete])) t) = Completed"
    "t_state (fold task_step (map (Pair now) (route_to_running t @ [Fail])) t) = Failed"
    by (simp_all add: task_step_def try_transition_cases moved_to_def)
  with len show ?thesis by blast
qed

lemma nonterminal_tasks_can_finish_witness:
  "(\<exists>es. length es \<le> 4 \<and>
      t_state (fold task_step (map (Pair ''now'') es) (new_task L1_ComponentLead Pending)) = Completed)"
  using nonterminal_tasks_can_finish [of "new_task L1_ComponentLead Pending" "''now''"]
  by (simp add: new_task_def)

lemma valid_targets_allowed:
  "st \<in> set (valid_targets s e) \<longleftrightarrow> (\<exists>l. allowed l s e st)"
  by (cases s; cases e) (auto simp: valid_targets_def table_defs allowed_simps)

end
