(* ===== verification/Metrics.thy ===== *)
theory Metrics
  imports Prelude Complex_Main
begin

text \<open>
  The Prometheus registry of \<open>src/metrics.cpp\<close> as the values it exposes: a counter family maps a
  label list to the number of increments, a gauge is an integer, a histogram is the list of its
  observations. Every \<open>record_*\<close>, \<open>adjust_*\<close> and \<open>set_*\<close> method is one function.
\<close>

type_synonym counter = "(string list \<times> nat) list"

definition count_of :: "counter \<Rightarrow> string list \<Rightarrow> nat" where
  "count_of c labels = (case map_of c labels of None \<Rightarrow> 0 | Some n \<Rightarrow> n)"

definition bump :: "string list \<Rightarrow> counter \<Rightarrow> counter" where
  "bump labels c = AList.update labels (Suc (count_of c labels)) c"

record metrics =
  m_http_requests_total :: counter
  m_http_request_duration :: "(string list \<times> real) list"
  m_http_errors_total :: counter
  m_tasks_total :: int
  m_task_state_transitions_total :: counter
  m_agents_total :: int
  m_nats_messages_published_total :: counter
  m_nats_messages_received_total :: counter
  m_nats_connected :: int
  m_github_inbound_sync_total :: counter

definition new_metrics :: metrics where
  "new_metrics =
     \<lparr>m_http_requests_total = [], m_http_request_duration = [], m_http_errors_total = [],
      m_tasks_total = 0, m_task_state_transitions_total = [], m_agents_total = 0,
      m_nats_messages_published_total = [], m_nats_messages_received_total = [],
      m_nats_connected = 0, m_github_inbound_sync_total = []\<rparr>"

text \<open>The first two dot-separated tokens of a subject.\<close>

definition subject_prefix :: "string \<Rightarrow> string" where
  "subject_prefix subject =
     (case find_from ''.'' 0 subject of
        None \<Rightarrow> subject
      | Some first \<Rightarrow>
          (case find_from ''.'' (Suc first) subject of
             None \<Rightarrow> subject
           | Some second \<Rightarrow> take second subject))"

definition record_request :: "string \<Rightarrow> string \<Rightarrow> nat \<Rightarrow> real \<Rightarrow> metrics \<Rightarrow> metrics" where
  "record_request meth path status_code duration m =
     (let status_str = string_of_nat status_code;
          m1 = m\<lparr>m_http_requests_total := bump [meth, path, status_str] (m_http_requests_total m),
                 m_http_request_duration := m_http_request_duration m @ [([meth, path], duration)]\<rparr>
      in if 400 \<le> status_code
         then m1\<lparr>m_http_errors_total := bump [meth, path, status_str] (m_http_errors_total m1)\<rparr>
         else m1)"

definition record_task_created :: "metrics \<Rightarrow> metrics" where
  "record_task_created m = m\<lparr>m_tasks_total := m_tasks_total m + 1\<rparr>"

definition record_task_state_change :: "string \<Rightarrow> string \<Rightarrow> metrics \<Rightarrow> metrics" where
  "record_task_state_change from_status to_status m =
     m\<lparr>m_task_state_transitions_total := bump [from_status, to_status] (m_task_state_transitions_total m)\<rparr>"

definition adjust_task_count :: "int \<Rightarrow> metrics \<Rightarrow> metrics" where
  "adjust_task_count delta m = m\<lparr>m_tasks_total := m_tasks_total m + delta\<rparr>"

definition adjust_agent_count :: "int \<Rightarrow> metrics \<Rightarrow> metrics" where
  "adjust_agent_count delta m = m\<lparr>m_agents_total := m_agents_total m + delta\<rparr>"

definition record_nats_publish :: "string \<Rightarrow> metrics \<Rightarrow> metrics" where
  "record_nats_publish subject m =
     m\<lparr>m_nats_messages_published_total := bump [subject_prefix subject] (m_nats_messages_published_total m)\<rparr>"

definition record_nats_receive :: "string \<Rightarrow> metrics \<Rightarrow> metrics" where
  "record_nats_receive subject m =
     m\<lparr>m_nats_messages_received_total := bump [subject_prefix subject] (m_nats_messages_received_total m)\<rparr>"

definition set_nats_connected :: "bool \<Rightarrow> metrics \<Rightarrow> metrics" where
  "set_nats_connected up m = m\<lparr>m_nats_connected := (if up then 1 else 0)\<rparr>"

definition record_inbound_sync :: "string \<Rightarrow> metrics \<Rightarrow> metrics" where
  "record_inbound_sync result m =
     m\<lparr>m_github_inbound_sync_total := bump [result] (m_github_inbound_sync_total m)\<rparr>"

lemma count_of_bump [simp]:
  "count_of (bump l c) l' = (if l' = l then Suc (count_of c l) else count_of c l')"
  by (simp add: bump_def count_of_def)

lemma find_from_char:
  "find_from [c] pos s = Some i \<Longrightarrow> i < length s \<and> s ! i = c \<and> (\<forall>j. pos \<le> j \<and> j < i \<longrightarrow> s ! j \<noteq> c)"
proof -
  assume f: "find_from [c] pos s = Some i"
  then obtain k where k: "find_sub [c] (drop pos s) = Some k" "i = pos + k" "pos \<le> length s"
    by (auto simp: find_from_def split: if_splits)
  from find_sub_bound [OF k(1)] k(2,3) have i: "i < length s" by simp
  from find_sub_Some [OF k(1)] have "s ! i = c"
    using k(2) i by (auto simp: starts_with_iff add.commute) (metis Cons_nth_drop_Suc list.inject)
  moreover have "s ! j \<noteq> c" if "pos \<le> j" "j < i" for j
  proof -
    have "\<not> starts_with [c] (drop (j - pos) (drop pos s))"
      using that k(2) by (intro find_sub_least [OF k(1)]) simp
    then show ?thesis using that i by (simp add: starts_with_def take_Suc hd_drop_conv_nth)
  qed
  ultimately show ?thesis using i by blast
qed

abbreviation dots :: "string \<Rightarrow> nat" where
  "dots s \<equiv> length (filter ((=) (CHR ''.'')) s)"

lemma dots_take:
  assumes "n \<le> length s" and "\<And>j. j < n \<Longrightarrow> s ! j = CHR ''.'' \<Longrightarrow> j = k"
  shows "dots (take n s) \<le> 1"
proof -
  have "dots (take n s) = card {i. i < length (take n s) \<and> CHR ''.'' = take n s ! i}"
    by (rule length_filter_conv_card)
  also have "\<dots> \<le> card {k}"
    using assms by (intro card_mono) auto
  finally show ?thesis by simp
qed

lemma find_from_char_None:
  "find_from [c] pos s = None \<Longrightarrow> pos \<le> length s \<Longrightarrow> \<forall>j. pos \<le> j \<and> j < length s \<longrightarrow> s ! j \<noteq> c"
proof (intro allI impI)
  fix j
  assume f: "find_from [c] pos s = None" "pos \<le> length s" and j: "pos \<le> j \<and> j < length s"
  then have "\<not> starts_with [c] (drop (j - pos) (drop pos s))"
    unfolding find_from_def by (auto simp: find_sub_None dest: spec [of _ "j - pos"])
  then show "s ! j \<noteq> c" using j by (simp add: starts_with_def take_Suc hd_drop_conv_nth)
qed

lemma subject_prefix_short: "prefix (subject_prefix s) s \<and> dots (subject_prefix s) \<le> 1"
proof (cases "find_from ''.'' 0 s")
  case None
  then have "dots (take (length s) s) \<le> 1"
    using find_from_char_None [OF None] by (intro dots_take [where k = 0]) auto
  then show ?thesis by (simp add: subject_prefix_def None)
next
  case (Some first)
  note f = find_from_char [OF Some]
  show ?thesis
  proof (cases "find_from ''.'' (Suc first) s")
    case None
    have "dots (take (length s) s) \<le> 1"
    proof (rule dots_take [where k = first])
      show "j = first" if "j < length s" "s ! j = CHR ''.''" for j
        using that f find_from_char_None [OF None] by (metis Suc_leI linorder_neqE_nat zero_le)
    qed simp
    then show ?thesis by (simp add: subject_prefix_def Some None)
  next
    case (Some second)
    note g = find_from_char [OF Some]
    have "dots (take second s) \<le> 1"
    proof (rule dots_take [where k = first])
      show "j = first" if "j < second" "s ! j = CHR ''.''" for j
        using that f g by (metis Suc_leI linorder_neqE_nat zero_le)
    qed (use g in simp)
    then show ?thesis
      by (simp add: subject_prefix_def Some \<open>find_from ''.'' 0 s = Some first\<close> take_is_prefix)
  qed
qed

end
