(* ===== verification/Store_State.thy ===== *)
theory Store_State
  imports Hmas_Types Metrics
begin

text \<open>
  State of the \<open>Store\<close> class (\<open>include/agamemnon/store.hpp\<close>, \<open>src/store.cpp\<close>), the GitHub issue
  format it persists entities in, and the lazy hydration every operation starts with. The GitHub
  client, the JSON library, the random generator and the clock are the fields of a \<open>store_env\<close>, an
  argument of the operations: the \<open>k\<close>-th request to the client is answered by its \<open>k\<close>-th reply, and
  the \<open>k\<close>-th identifier and clock reading are \<open>x_uuid x k\<close> and \<open>x_now x k\<close>. Locks and the once-flags
  make each operation atomic; operations here run one after the other.
\<close>

record store_env =
  x_parse :: "string \<Rightarrow> json option"
  x_dump2 :: "json \<Rightarrow> string"
  x_list_issues :: "nat \<Rightarrow> string \<Rightarrow> json list result"
  x_create_issue :: "nat \<Rightarrow> string \<Rightarrow> string \<Rightarrow> string \<Rightarrow> string result"
  x_update_issue :: "nat \<Rightarrow> string \<Rightarrow> string \<Rightarrow> unit result"
  x_close_issue :: "nat \<Rightarrow> string \<Rightarrow> unit result"
  x_uuid :: "nat \<Rightarrow> string"
  x_now :: "nat \<Rightarrow> string"

datatype github_call =
    List_Issues string
  | Create_Issue string string string
  | Update_Issue_Body string string
  | Close_Issue string

datatype collection = kAgents | kTeams | kTasks | kFaults

record store =
  s_gh :: bool
  s_metrics :: "metrics option"
  s_agents :: "json umap"
  s_teams :: "json umap"
  s_tasks :: "json umap"
  s_faults :: "json umap"
  s_hmas_tasks :: "hmas_task umap"
  s_hmas_tasks_by_brief :: "string list umap"
  s_task_briefs :: "task_brief umap"
  s_hmas_task_issue_numbers :: "string umap"
  s_brief_issue_numbers :: "string umap"
  s_agents_loaded :: bool
  s_teams_loaded :: bool
  s_tasks_loaded :: bool
  s_faults_loaded :: bool
  s_hmas_tasks_loaded :: bool
  s_briefs_loaded :: bool
  s_calls :: "github_call list"
  s_draws :: nat
  s_ticks :: nat

definition new_store :: "bool \<Rightarrow> metrics option \<Rightarrow> store" where
  "new_store gh metrics =
     \<lparr>s_gh = gh, s_metrics = metrics, s_agents = [], s_teams = [], s_tasks = [], s_faults = [],
      s_hmas_tasks = [], s_hmas_tasks_by_brief = [], s_task_briefs = [],
      s_hmas_task_issue_numbers = [], s_brief_issue_numbers = [], s_agents_loaded = False,
      s_teams_loaded = False, s_tasks_loaded = False, s_faults_loaded = False,
      s_hmas_tasks_loaded = False, s_briefs_loaded = False, s_calls = [], s_draws = 0, s_ticks = 0\<rparr>"

section \<open>Access to the collections\<close>

fun coll :: "collection \<Rightarrow> store \<Rightarrow> json umap" where
  "coll kAgents s = s_agents s"
| "coll kTeams s = s_teams s"
| "coll kTasks s = s_tasks s"
| "coll kFaults s = s_faults s"

fun set_coll :: "collection \<Rightarrow> json umap \<Rightarrow> store \<Rightarrow> store" where
  "set_coll kAgents m s = s\<lparr>s_agents := m\<rparr>"
| "set_coll kTeams m s = s\<lparr>s_teams := m\<rparr>"
| "set_coll kTasks m s = s\<lparr>s_tasks := m\<rparr>"
| "set_coll kFaults m s = s\<lparr>s_faults := m\<rparr>"

fun loaded :: "collection \<Rightarrow> store \<Rightarrow> bool" where
  "loaded kAgents s = s_agents_loaded s"
| "loaded kTeams s = s_teams_loaded s"
| "loaded kTasks s = s_tasks_loaded s"
| "loaded kFaults s = s_faults_loaded s"

fun set_loaded :: "collection \<Rightarrow> store \<Rightarrow> store" where
  "set_loaded kAgents s = s\<lparr>s_agents_loaded := True\<rparr>"
| "set_loaded kTeams s = s\<lparr>s_teams_loaded := True\<rparr>"
| "set_loaded kTasks s = s\<lparr>s_tasks_loaded := True\<rparr>"
| "set_loaded kFaults s = s\<lparr>s_faults_loaded := True\<rparr>"

fun label_of :: "collection \<Rightarrow> string" where
  "label_of kAgents = ''agamemnon-agent''"
| "label_of kTeams = ''agamemnon-team''"
| "label_of kTasks = ''agamemnon-task''"
| "label_of kFaults = ''agamemnon-fault''"

definition put_entity :: "collection \<Rightarrow> string \<Rightarrow> json \<Rightarrow> (store, unit) op" where
  "put_entity c k e = modify (\<lambda>s. set_coll c (AList.update k e (coll c s)) s)"

definition erase_entity :: "collection \<Rightarrow> string \<Rightarrow> (store, unit) op" where
  "erase_entity c k = modify (\<lambda>s. set_coll c (AList.delete k (coll c s)) s)"

definition with_metrics :: "(metrics \<Rightarrow> metrics) \<Rightarrow> (store, unit) op" where
  "with_metrics f = modify (\<lambda>s. s\<lparr>s_metrics := map_option f (s_metrics s)\<rparr>)"

section \<open>The environment\<close>

definition generate_uuid :: "store_env \<Rightarrow> (store, string) op" where
  "generate_uuid x s = (Inr (x_uuid x (s_draws s)), s\<lparr>s_draws := Suc (s_draws s)\<rparr>)"

definition now_iso8601 :: "store_env \<Rightarrow> (store, string) op" where
  "now_iso8601 x s = (Inr (x_now x (s_ticks s)), s\<lparr>s_ticks := Suc (s_ticks s)\<rparr>)"

definition gh_request :: "github_call \<Rightarrow> (nat \<Rightarrow> 'a result) \<Rightarrow> (store, 'a) op" where
  "gh_request call reply s = (reply (length (s_calls s)), s\<lparr>s_calls := s_calls s @ [call]\<rparr>)"

definition list_issues :: "store_env \<Rightarrow> string \<Rightarrow> (store, json list) op" where
  "list_issues x label = gh_request (List_Issues label) (\<lambda>k. x_list_issues x k label)"

definition create_issue :: "store_env \<Rightarrow> string \<Rightarrow> string \<Rightarrow> string \<Rightarrow> (store, string) op" where
  "create_issue x title body label =
     gh_request (Create_Issue title body label) (\<lambda>k. x_create_issue x k title body label)"

definition update_issue_body :: "store_env \<Rightarrow> string \<Rightarrow> string \<Rightarrow> (store, unit) op" where
  "update_issue_body x num body =
     gh_request (Update_Issue_Body num body) (\<lambda>k. x_update_issue x k num body)"

definition close_issue :: "store_env \<Rightarrow> string \<Rightarrow> (store, unit) op" where
  "close_issue x num = gh_request (Close_Issue num) (\<lambda>k. x_close_issue x k num)"

section \<open>Issue bodies\<close>

definition newline :: char where
  "newline = CHR 0x0A"

definition open_fence :: string where
  "open_fence = ''```json'' @ [newline]"

definition close_fence :: string where
  "close_fence = newline # ''```''"

definition make_issue_body :: "store_env \<Rightarrow> string \<Rightarrow> json \<Rightarrow> string" where
  "make_issue_body x entity_type entity =
     ''## AgamemnonEntity: '' @ entity_type @ [newline, newline] @ open_fence
       @ x_dump2 x entity @ close_fence @ [newline]"

definition parse_issue_entity :: "store_env \<Rightarrow> json \<Rightarrow> json" where
  "parse_issue_entity x issue =
     (case jlookup issue ''body'' of
        Some (JStr body) \<Rightarrow>
          (case find_from open_fence 0 body of
             None \<Rightarrow> JNull
           | Some i \<Rightarrow>
               let start = i + length open_fence in
               (case find_from close_fence start body of
                  None \<Rightarrow> JNull
                | Some e \<Rightarrow>
                    (case x_parse x (take (e - start) (drop start body)) of
                       None \<Rightarrow> JNull
                     | Some j \<Rightarrow> j)))
      | _ \<Rightarrow> JNull)"

section \<open>Hydration\<close>

text \<open>\<open>if (issue.contains("number")) std::to_string(issue["number"].get<int>())\<close>\<close>

definition issue_number :: "json \<Rightarrow> string option result" where
  "issue_number issue =
     (case jlookup issue ''number'' of
        None \<Rightarrow> Inr None
      | Some v \<Rightarrow> bind_result (get_int v) (\<lambda>n. Inr (Some (string_of_int n))))"

definition tag_issue :: "string option \<Rightarrow> json \<Rightarrow> json" where
  "tag_issue num entity =
     (case num of None \<Rightarrow> entity | Some n \<Rightarrow> jset ''_github_issue'' (JStr n) entity)"

definition has_id :: "json \<Rightarrow> bool" where
  "has_id entity \<longleftrightarrow> \<not> is_null entity \<and> jcontains entity ''id''"

definition entity_id :: "json \<Rightarrow> string result" where
  "entity_id entity = (case jlookup entity ''id'' of None \<Rightarrow> Inl (Type_Error 302) | Some v \<Rightarrow> get_string v)"

definition merge_issue :: "store_env \<Rightarrow> collection \<Rightarrow> json \<Rightarrow> (store, unit) op" where
  "merge_issue x c issue =
     (let entity = parse_issue_entity x issue in
      if \<not> has_id entity then ret ()
      else bind_op (lift_result (issue_number issue)) (\<lambda>num.
           bind_op (lift_result (entity_id entity)) (\<lambda>ident.
             put_entity c ident (tag_issue num entity))))"

definition ensure_loaded :: "store_env \<Rightarrow> collection \<Rightarrow> (store, unit) op" where
  "ensure_loaded x c =
     bind_op (gets (\<lambda>s. (loaded c s, s_gh s))) (\<lambda>(was_loaded, gh).
       if was_loaded then ret ()
       else if gh then
         bind_op (catch_op (bind_op (list_issues x (label_of c)) (\<lambda>issues. ret (Some issues)))
                    (\<lambda>e. ret None)) (\<lambda>fetched.
           case fetched of
             None \<Rightarrow> modify (set_loaded c)
           | Some issues \<Rightarrow>
               bind_op (for_op (merge_issue x c) issues) (\<lambda>_. modify (set_loaded c)))
       else modify (set_loaded c))"

definition ensure_agents_loaded :: "store_env \<Rightarrow> (store, unit) op" where
  "ensure_agents_loaded x = ensure_loaded x kAgents"

definition ensure_teams_loaded :: "store_env \<Rightarrow> (store, unit) op" where
  "ensure_teams_loaded x = ensure_loaded x kTeams"

definition ensure_tasks_loaded :: "store_env \<Rightarrow> (store, unit) op" where
  "ensure_tasks_loaded x = ensure_loaded x kTasks"

definition ensure_faults_loaded :: "store_env \<Rightarrow> (store, unit) op" where
  "ensure_faults_loaded x = ensure_loaded x kFaults"

definition merge_hmas_issue :: "store_env \<Rightarrow> json \<Rightarrow> (store, unit) op" where
  "merge_hmas_issue x issue =
     (let entity = parse_issue_entity x issue in
      if \<not> has_id entity then ret ()
      else catch_op
        (bind_op (lift_result (hmas_task_from_json entity)) (\<lambda>t.
         bind_op (lift_result (issue_number issue)) (\<lambda>num.
         bind_op (case num of
             None \<Rightarrow> ret ()
           | Some n \<Rightarrow> modify (\<lambda>s. s\<lparr>s_hmas_task_issue_numbers :=
               AList.update (t_id t) n (s_hmas_task_issue_numbers s)\<rparr>)) (\<lambda>_.
         bind_op (modify (\<lambda>s. s\<lparr>s_hmas_tasks := AList.update (t_id t) t (s_hmas_tasks s)\<rparr>)) (\<lambda>_.
           when_op (t_brief_id t \<noteq> []) (modify (\<lambda>s. s\<lparr>s_hmas_tasks_by_brief :=
             push_at (t_brief_id t) (t_id t) (s_hmas_tasks_by_brief s)\<rparr>)))))))
        (\<lambda>e. ret ()))"

definition ensure_hmas_tasks_loaded :: "store_env \<Rightarrow> (store, unit) op" where
  "ensure_hmas_tasks_loaded x =
     bind_op (gets (\<lambda>s. (s_hmas_tasks_loaded s, s_gh s))) (\<lambda>(was_loaded, gh).
       if was_loaded then ret ()
       else if gh then
         bind_op (catch_op (bind_op (list_issues x ''agamemnon-hmas-task'') (\<lambda>issues. ret (Some issues)))
                    (\<lambda>e. ret None)) (\<lambda>fetched.
           case fetched of
             None \<Rightarrow> modify (\<lambda>s. s\<lparr>s_hmas_tasks_loaded := True\<rparr>)
           | Some issues \<Rightarrow>
               bind_op (for_op (merge_hmas_issue x) issues) (\<lambda>_.
                 modify (\<lambda>s. s\<lparr>s_hmas_tasks_loaded := True\<rparr>)))
       else modify (\<lambda>s. s\<lparr>s_hmas_tasks_loaded := True\<rparr>))"

definition merge_brief_issue :: "store_env \<Rightarrow> json \<Rightarrow> (store, unit) op" where
  "merge_brief_issue x issue =
     (let entity = parse_issue_entity x issue in
      if \<not> has_id entity then ret ()
      else catch_op
        (bind_op (lift_result (task_brief_from_json entity)) (\<lambda>b.
         bind_op (lift_result (issue_number issue)) (\<lambda>num.
         bind_op (case num of
             None \<Rightarrow> ret ()
           | Some n \<Rightarrow> modify (\<lambda>s. s\<lparr>s_brief_issue_numbers :=
               AList.update (b_id b) n (s_brief_issue_numbers s)\<rparr>)) (\<lambda>_.
           modify (\<lambda>s. s\<lparr>s_task_briefs := AList.update (b_id b) b (s_task_briefs s)\<rparr>)))))
        (\<lambda>e. ret ()))"

definition ensure_briefs_loaded :: "store_env \<Rightarrow> (store, unit) op" where
  "ensure_briefs_loaded x =
     bind_op (gets (\<lambda>s. (s_briefs_loaded s, s_gh s))) (\<lambda>(was_loaded, gh).
       if was_loaded then ret ()
       else if gh then
         bind_op (catch_op (bind_op (list_issues x ''agamemnon-brief'') (\<lambda>issues. ret (Some issues)))
                    (\<lambda>e. ret None)) (\<lambda>fetched.
           case fetched of
             None \<Rightarrow> modify (\<lambda>s. s\<lparr>s_briefs_loaded := True\<rparr>)
           | Some issues \<Rightarrow>
               bind_op (for_op (merge_brief_issue x) issues) (\<lambda>_.
                 modify (\<lambda>s. s\<lparr>s_briefs_loaded := True\<rparr>)))
       else modify (\<lambda>s. s\<lparr>s_briefs_loaded := True\<rparr>))"

section \<open>A concrete environment\<close>

definition example_env :: store_env where
  "example_env =
     \<lparr>x_parse = (\<lambda>_. None), x_dump2 = (\<lambda>_. []), x_list_issues = (\<lambda>_ _. Inr []),
      x_create_issue = (\<lambda>_ _ _ _. Inr ''1''), x_update_issue = (\<lambda>_ _ _. Inr ()),
      x_close_issue = (\<lambda>_ _. Inr ()), x_uuid = (\<lambda>n. ''id'' @ string_of_nat n),
      x_now = (\<lambda>n. ''t'' @ string_of_nat n)\<rparr>"

end
