(* ===== verification/Store_Entities.thy ===== *)
theory Store_Entities
  imports Store_State
begin

text \<open>
  The JSON collections of the store (\<open>src/store.cpp\<close>): agents, teams, tasks and chaos faults with
  their create, read, update, delete and list operations, and the inbound synchronisation from
  GitHub events. Every operation is a state-passing function that may throw; what it has changed
  before a throw stays changed.
\<close>

section \<open>Shared steps\<close>

text \<open>\<open>body.value(k, d)\<close> stored under the same key, for string and array defaults.\<close>

definition str_field :: "string \<Rightarrow> string \<Rightarrow> json \<Rightarrow> (string \<times> json) result" where
  "str_field k d body = bind_result (value_str body k d) (\<lambda>v. Inr (k, JStr v))"

definition arr_field :: "string \<Rightarrow> json \<Rightarrow> (string \<times> json) result" where
  "arr_field k body = bind_result (value_json body k (JArr [])) (\<lambda>v. Inr (k, v))"

definition read_fields :: "(json \<Rightarrow> (string \<times> json) result) list \<Rightarrow> json \<Rightarrow> (string \<times> json) list result" where
  "read_fields fs body = map_result (\<lambda>f. f body) fs"

text \<open>\<open>if (gh_) { num = gh_->create_issue(...); if (!num.empty()) entity["_github_issue"] = num; }\<close>\<close>

definition file_issue :: "store_env \<Rightarrow> string \<Rightarrow> string \<Rightarrow> collection \<Rightarrow> json \<Rightarrow> (store, json) op" where
  "file_issue x title entity_type c entity =
     bind_op (gets s_gh) (\<lambda>gh.
       if \<not> gh then ret entity
       else bind_op (create_issue x title (make_issue_body x entity_type entity) (label_of c)) (\<lambda>num.
              ret (if num \<noteq> [] then jset ''_github_issue'' (JStr num) entity else entity)))"

text \<open>\<open>if (gh_ && e.contains("_github_issue")) ...\<close>: the issue an entity is kept in, when it has one.\<close>

definition with_issue :: "json \<Rightarrow> (string \<Rightarrow> (store, unit) op) \<Rightarrow> (store, unit) op" where
  "with_issue entity act =
     bind_op (gets s_gh) (\<lambda>gh.
       case jlookup entity ''_github_issue'' of
         None \<Rightarrow> ret ()
       | Some v \<Rightarrow> if gh then bind_op (lift_result (get_string v)) act else ret ())"

definition sync_issue :: "store_env \<Rightarrow> string \<Rightarrow> json \<Rightarrow> (store, unit) op" where
  "sync_issue x entity_type entity =
     with_issue entity (\<lambda>num. update_issue_body x num (make_issue_body x entity_type entity))"

text \<open>\<open>for (auto& [key, val] : flds.items()) if (key is not protected) entity[key] = val\<close>\<close>

definition merge_fields :: "string list \<Rightarrow> json \<Rightarrow> json \<Rightarrow> json" where
  "merge_fields protected flds entity =
     fold (\<lambda>(k, v) e. if k \<in> set protected then e else jset k v e) (items flds) entity"

text \<open>Sorting by identifier, then the slice from \<open>offset\<close> of at most \<open>limit\<close> entries.\<close>

definition page :: "nat \<Rightarrow> nat \<Rightarrow> json umap \<Rightarrow> json list" where
  "page limit offset m = map snd (take limit (drop offset (sort_key fst m)))"

definition listing :: "string \<Rightarrow> nat \<Rightarrow> nat \<Rightarrow> json umap \<Rightarrow> json" where
  "listing name limit offset m =
     jobj [(name, JArr (page limit offset m)), (''total'', JInt (int (length m))),
           (''limit'', JInt (int limit)), (''offset'', JInt (int offset))]"

section \<open>Agents\<close>

definition agent_fields :: "(json \<Rightarrow> (string \<times> json) result) list" where
  "agent_fields =
     [str_field ''name'' ''unnamed'', str_field ''label'' [], str_field ''program'' [],
      str_field ''workingDirectory'' [], arr_field ''programArgs'', str_field ''taskDescription'' [],
      arr_field ''tags'', str_field ''owner'' [], str_field ''role'' ''worker'',
      str_field ''host'' ''local'']"

definition agent_title :: "json \<Rightarrow> string" where
  "agent_title agent =
     ''agent: '' @ (case jlookup agent ''name'' of Some (JStr n) \<Rightarrow> n | _ \<Rightarrow> [])"

definition create_agent :: "store_env \<Rightarrow> json \<Rightarrow> (store, json) op" where
  "create_agent x body =
     bind_op (ensure_agents_loaded x) (\<lambda>_.
     bind_op (generate_uuid x) (\<lambda>ident.
     bind_op (lift_result (read_fields agent_fields body)) (\<lambda>flds.
     bind_op (now_iso8601 x) (\<lambda>ts.
     let agent0 = jobj ((''id'', JStr ident) # flds
           @ [(''status'', JStr ''offline''), (''createdAt'', JStr ts), (''updatedAt'', JStr ts)]) in
     bind_op (file_issue x (agent_title agent0) (''agents/'' @ ident) kAgents agent0) (\<lambda>agent.
     bind_op (put_entity kAgents ident agent) (\<lambda>_.
     bind_op (with_metrics (adjust_agent_count 1)) (\<lambda>_.
       ret (jobj [(''id'', JStr ident), (''agent'', agent)]))))))))"

text \<open>\<open>auto it = m.find(id); if (it == m.end()) return nullptr; return it->second;\<close>\<close>

definition get_entity :: "collection \<Rightarrow> string \<Rightarrow> (store, json) op" where
  "get_entity c ident =
     bind_op (gets (\<lambda>s. map_of (coll c s) ident)) (\<lambda>r.
       case r of None \<Rightarrow> ret JNull | Some e \<Rightarrow> ret e)"

definition get_agent :: "store_env \<Rightarrow> string \<Rightarrow> (store, json) op" where
  "get_agent x ident = bind_op (ensure_agents_loaded x) (\<lambda>_. get_entity kAgents ident)"

fun first_named :: "string \<Rightarrow> json umap \<Rightarrow> json result" where
  "first_named name [] = Inr JNull"
| "first_named name ((ident, agent) # r) =
     bind_result (value_str agent ''name'' []) (\<lambda>n.
       if n = name then Inr agent else first_named name r)"

definition get_agent_by_name :: "store_env \<Rightarrow> string \<Rightarrow> (store, json) op" where
  "get_agent_by_name x name =
     bind_op (ensure_agents_loaded x) (\<lambda>_.
     bind_op (gets s_agents) (\<lambda>m. lift_result (first_named name m)))"

definition list_agents :: "store_env \<Rightarrow> nat \<Rightarrow> nat \<Rightarrow> (store, json) op" where
  "list_agents x limit offset =
     bind_op (ensure_agents_loaded x) (\<lambda>_. gets (\<lambda>s. listing ''agents'' limit offset (s_agents s)))"

definition update_agent :: "store_env \<Rightarrow> string \<Rightarrow> json \<Rightarrow> (store, json) op" where
  "update_agent x ident flds =
     (if \<not> is_object flds then ret JNull
      else
        bind_op (ensure_agents_loaded x) (\<lambda>_.
        bind_op (gets (\<lambda>s. map_of (s_agents s) ident)) (\<lambda>r.
        case r of
          None \<Rightarrow> ret JNull
        | Some agent \<Rightarrow>
            bind_op (now_iso8601 x) (\<lambda>ts.
            let agent' = jset ''updatedAt'' (JStr ts)
                  (merge_fields [''id'', ''createdAt'', ''_github_issue'', ''updatedAt''] flds agent) in
            bind_op (put_entity kAgents ident agent') (\<lambda>_.
            bind_op (sync_issue x (''agents/'' @ ident) agent') (\<lambda>_.
              ret agent'))))))"

definition delete_entity :: "store_env \<Rightarrow> collection \<Rightarrow> string \<Rightarrow> (store, unit) op \<Rightarrow> (store, bool) op" where
  "delete_entity x c ident after_erase =
     bind_op (gets (\<lambda>s. map_of (coll c s) ident)) (\<lambda>r.
     case r of
       None \<Rightarrow> ret False
     | Some e \<Rightarrow>
         bind_op (with_issue e (close_issue x)) (\<lambda>_.
         bind_op (erase_entity c ident) (\<lambda>_.
         bind_op after_erase (\<lambda>_. ret True))))"

definition delete_agent :: "store_env \<Rightarrow> string \<Rightarrow> (store, bool) op" where
  "delete_agent x ident =
     bind_op (ensure_agents_loaded x) (\<lambda>_.
       delete_entity x kAgents ident (with_metrics (adjust_agent_count (-1))))"

definition set_agent_status :: "store_env \<Rightarrow> string \<Rightarrow> string \<Rightarrow> (store, json) op" where
  "set_agent_status x status ident =
     bind_op (ensure_agents_loaded x) (\<lambda>_.
     bind_op (gets (\<lambda>s. map_of (s_agents s) ident)) (\<lambda>r.
     case r of
       None \<Rightarrow> ret JNull
     | Some agent \<Rightarrow>
         let agent' = jset ''status'' (JStr status) agent in
         bind_op (put_entity kAgents ident agent') (\<lambda>_.
         bind_op (sync_issue x (''agents/'' @ ident) agent') (\<lambda>_.
           ret (jobj [(''status'', JStr status), (''id'', JStr ident)])))))"

definition start_agent :: "store_env \<Rightarrow> string \<Rightarrow> (store, json) op" where
  "start_agent x ident = set_agent_status x ''online'' ident"

definition stop_agent :: "store_env \<Rightarrow> string \<Rightarrow> (store, json) op" where
  "stop_agent x ident = set_agent_status x ''offline'' ident"

section \<open>Teams\<close>

definition team_members :: "json \<Rightarrow> (string \<times> json) result" where
  "team_members body =
     (case jlookup body ''agent_ids'' of
        Some v \<Rightarrow> Inr (''agentIds'', v)
      | None \<Rightarrow> arr_field ''agentIds'' body)"

definition team_title :: "json \<Rightarrow> string" where
  "team_title team = ''team: '' @ (case jlookup team ''name'' of Some (JStr n) \<Rightarrow> n | _ \<Rightarrow> [])"

definition create_team :: "store_env \<Rightarrow> json \<Rightarrow> (store, json) op" where
  "create_team x body =
     bind_op (ensure_teams_loaded x) (\<lambda>_.
     bind_op (generate_uuid x) (\<lambda>ident.
     bind_op (lift_result (read_fields [str_field ''name'' ''unnamed-team'', team_members] body)) (\<lambda>flds.
     bind_op (now_iso8601 x) (\<lambda>ts.
     let team0 = jobj ((''id'', JStr ident) # flds
           @ [(''createdAt'', JStr ts), (''updatedAt'', JStr ts)]) in
     bind_op (file_issue x (team_title team0) (''teams/'' @ ident) kTeams team0) (\<lambda>team.
     bind_op (put_entity kTeams ident team) (\<lambda>_.
       ret (jobj [(''team'', team)])))))))"

definition get_team :: "store_env \<Rightarrow> string \<Rightarrow> (store, json) op" where
  "get_team x ident = bind_op (ensure_teams_loaded x) (\<lambda>_. get_entity kTeams ident)"

definition list_teams :: "store_env \<Rightarrow> nat \<Rightarrow> nat \<Rightarrow> (store, json) op" where
  "list_teams x limit offset =
     bind_op (ensure_teams_loaded x) (\<lambda>_. gets (\<lambda>s. listing ''teams'' limit offset (s_teams s)))"

definition update_team :: "store_env \<Rightarrow> string \<Rightarrow> json \<Rightarrow> (store, json) op" where
  "update_team x ident body =
     bind_op (ensure_teams_loaded x) (\<lambda>_.
     bind_op (gets (\<lambda>s. map_of (s_teams s) ident)) (\<lambda>r.
     case r of
       None \<Rightarrow> ret JNull
     | Some team \<Rightarrow>
         let team1 = (case jlookup body ''agentIds'' of
                        Some v \<Rightarrow> jset ''agentIds'' v team
                      | None \<Rightarrow> (case jlookup body ''agent_ids'' of
                                   Some v \<Rightarrow> jset ''agentIds'' v team
                                 | None \<Rightarrow> team));
             team2 = (case jlookup body ''name'' of Some v \<Rightarrow> jset ''name'' v team1 | None \<Rightarrow> team1) in
         bind_op (now_iso8601 x) (\<lambda>ts.
         let team' = jset ''updatedAt'' (JStr ts) team2 in
         bind_op (put_entity kTeams ident team') (\<lambda>_.
         bind_op (sync_issue x (''teams/'' @ ident) team') (\<lambda>_.
           ret team')))))"

definition delete_team :: "store_env \<Rightarrow> string \<Rightarrow> (store, bool) op" where
  "delete_team x ident =
     bind_op (ensure_teams_loaded x) (\<lambda>_. delete_entity x kTeams ident (ret ()))"

section \<open>Tasks\<close>

definition task_fields :: "(json \<Rightarrow> (string \<times> json) result) list" where
  "task_fields =
     [str_field ''subject'' [], str_field ''description'' [], str_field ''assigneeAgentId'' [],
      arr_field ''blockedBy'', str_field ''type'' ''general'']"

definition task_title :: "string \<Rightarrow> json \<Rightarrow> string" where
  "task_title ident task =
     (let subj = (case jlookup task ''subject'' of Some (JStr v) \<Rightarrow> v | _ \<Rightarrow> [])
      in ''task: '' @ (if subj = [] then ident else subj))"

definition create_task :: "store_env \<Rightarrow> string \<Rightarrow> json \<Rightarrow> (store, json) op" where
  "create_task x team_id body =
     bind_op (ensure_tasks_loaded x) (\<lambda>_.
     bind_op (generate_uuid x) (\<lambda>ident.
     bind_op (lift_result (read_fields task_fields body)) (\<lambda>flds.
     bind_op (now_iso8601 x) (\<lambda>ts.
     let task0 = jobj ((''id'', JStr ident) # (''teamId'', JStr team_id) # flds
           @ [(''status'', JStr ''pending''), (''createdAt'', JStr ts), (''updatedAt'', JStr ts),
              (''completedAt'', JNull)]) in
     bind_op (file_issue x (task_title ident task0) (''tasks/'' @ ident) kTasks task0) (\<lambda>task.
     bind_op (put_entity kTasks ident task) (\<lambda>_.
     bind_op (with_metrics record_task_created) (\<lambda>_.
       ret (jobj [(''task'', task)]))))))))"

definition get_task :: "store_env \<Rightarrow> string \<Rightarrow> string \<Rightarrow> (store, json) op" where
  "get_task x team_id task_id =
     (if team_id = [] then ret JNull
      else
        bind_op (ensure_tasks_loaded x) (\<lambda>_.
        bind_op (gets (\<lambda>s. map_of (s_tasks s) task_id)) (\<lambda>r.
        case r of
          None \<Rightarrow> ret JNull
        | Some task \<Rightarrow>
            bind_op (lift_result (value_str task ''teamId'' [])) (\<lambda>owner.
              ret (if owner \<noteq> team_id then JNull else task)))))"

definition task_protected :: "string list" where
  "task_protected = [''id'', ''teamId'', ''createdAt'', ''_github_issue'', ''updatedAt'']"

text \<open>\<open>completedAt\<close> is stamped by the first update to \<open>completed\<close> that finds it null.\<close>

definition stamp_completion :: "store_env \<Rightarrow> json \<Rightarrow> json \<Rightarrow> (store, json) op" where
  "stamp_completion x body task =
     (if jlookup body ''status'' = Some (JStr ''completed'') then
        bind_op (lift_result (value_json task ''completedAt'' JNull)) (\<lambda>c.
          if is_null c then bind_op (now_iso8601 x) (\<lambda>ts. ret (jset ''completedAt'' (JStr ts) task))
          else ret task)
      else ret task)"

definition update_task :: "store_env \<Rightarrow> string \<Rightarrow> string \<Rightarrow> json \<Rightarrow> (store, json) op" where
  "update_task x team_id task_id body =
     (if \<not> is_object body then ret JNull
      else if team_id = [] then ret JNull
      else
        bind_op (ensure_tasks_loaded x) (\<lambda>_.
        bind_op (gets (\<lambda>s. map_of (s_tasks s) task_id)) (\<lambda>r.
        case r of
          None \<Rightarrow> ret JNull
        | Some task \<Rightarrow>
            bind_op (lift_result (value_str task ''teamId'' [])) (\<lambda>owner.
            if owner \<noteq> team_id then ret JNull
            else
              bind_op (stamp_completion x body (merge_fields task_protected body task)) (\<lambda>task1.
              bind_op (now_iso8601 x) (\<lambda>ts.
              let task' = jset ''updatedAt'' (JStr ts) task1 in
              bind_op (put_entity kTasks task_id task') (\<lambda>_.
              bind_op (sync_issue x (''tasks/'' @ task_id) task') (\<lambda>_.
              bind_op (gets s_metrics) (\<lambda>metrics.
              bind_op (case jlookup body ''status'' of
                  None \<Rightarrow> ret ()
                | Some v \<Rightarrow>
                    if metrics = None then ret ()
                    else bind_op (lift_result (get_string v)) (\<lambda>st.
                           with_metrics (record_task_state_change ''pending'' st))) (\<lambda>_.
                ret task'))))))))))"

fun tasks_of_team :: "string \<Rightarrow> json umap \<Rightarrow> json umap result" where
  "tasks_of_team team_id [] = Inr []"
| "tasks_of_team team_id ((ident, task) # r) =
     bind_result (value_str task ''teamId'' []) (\<lambda>owner.
     bind_result (tasks_of_team team_id r) (\<lambda>ts.
       Inr (if owner = team_id then (ident, task) # ts else ts)))"

definition list_tasks_for_team :: "store_env \<Rightarrow> string \<Rightarrow> nat \<Rightarrow> nat \<Rightarrow> (store, json) op" where
  "list_tasks_for_team x team_id limit offset =
     bind_op (ensure_tasks_loaded x) (\<lambda>_.
     bind_op (gets s_tasks) (\<lambda>m.
     bind_op (lift_result (tasks_of_team team_id m)) (\<lambda>team_tasks.
       ret (listing ''tasks'' limit offset team_tasks))))"

definition list_all_tasks :: "store_env \<Rightarrow> nat \<Rightarrow> nat \<Rightarrow> (store, json) op" where
  "list_all_tasks x limit offset =
     bind_op (ensure_tasks_loaded x) (\<lambda>_. gets (\<lambda>s. listing ''tasks'' limit offset (s_tasks s)))"

definition mark_task_completed :: "store_env \<Rightarrow> string \<Rightarrow> (store, unit) op" where
  "mark_task_completed x task_id =
     bind_op (ensure_tasks_loaded x) (\<lambda>_.
     bind_op (gets (\<lambda>s. map_of (s_tasks s) task_id)) (\<lambda>r.
     case r of
       None \<Rightarrow> ret ()
     | Some task \<Rightarrow>
         bind_op (lift_result (value_str task ''status'' ''pending'')) (\<lambda>old_status.
         bind_op (now_iso8601 x) (\<lambda>ts.
         let task' = jset ''completedAt'' (JStr ts) (jset ''status'' (JStr ''completed'') task) in
         bind_op (put_entity kTasks task_id task') (\<lambda>_.
         bind_op (sync_issue x (''tasks/'' @ task_id) task') (\<lambda>_.
           with_metrics (record_task_state_change old_status ''completed'')))))))"

section \<open>Chaos faults\<close>

definition list_faults :: "store_env \<Rightarrow> nat \<Rightarrow> nat \<Rightarrow> (store, json) op" where
  "list_faults x limit offset =
     bind_op (ensure_faults_loaded x) (\<lambda>_. gets (\<lambda>s. listing ''faults'' limit offset (s_faults s)))"

definition create_fault :: "store_env \<Rightarrow> string \<Rightarrow> (store, json) op" where
  "create_fault x type =
     bind_op (ensure_faults_loaded x) (\<lambda>_.
     bind_op (generate_uuid x) (\<lambda>ident.
     bind_op (now_iso8601 x) (\<lambda>ts.
     let fault0 = jobj [(''id'', JStr ident), (''type'', JStr type), (''active'', JBool True),
           (''createdAt'', JStr ts), (''updatedAt'', JStr ts)] in
     bind_op (file_issue x (''fault: '' @ type) (''faults/'' @ ident) kFaults fault0) (\<lambda>fault.
     bind_op (put_entity kFaults ident fault) (\<lambda>_.
       ret (jobj [(''fault'', fault)]))))))"

definition remove_fault :: "store_env \<Rightarrow> string \<Rightarrow> (store, bool) op" where
  "remove_fault x ident =
     bind_op (ensure_faults_loaded x) (\<lambda>_. delete_entity x kFaults ident (ret ()))"

section \<open>Inbound synchronisation\<close>

definition collection_of_label :: "string \<Rightarrow> collection option" where
  "collection_of_label label =
     (if label = ''agamemnon-agent'' then Some kAgents
      else if label = ''agamemnon-team'' then Some kTeams
      else if label = ''agamemnon-task'' then Some kTasks
      else if label = ''agamemnon-fault'' then Some kFaults
      else None)"

text \<open>\<open>pick_collection_\<close>: an unknown label gives no map; a known one is hydrated first.\<close>

definition pick_collection :: "store_env \<Rightarrow> string \<Rightarrow> (store, collection option) op" where
  "pick_collection x label =
     (case collection_of_label label of
        None \<Rightarrow> ret None
      | Some c \<Rightarrow> bind_op (ensure_loaded x c) (\<lambda>_. ret (Some c)))"

text \<open>Last writer wins: is the stored entity at least as recent as the event?\<close>

definition is_stale :: "json option \<Rightarrow> string \<Rightarrow> bool result" where
  "is_stale current updated_at =
     (case current of
        None \<Rightarrow> Inr False
      | Some e \<Rightarrow>
          if updated_at = [] then Inr False
          else bind_result (value_str e ''updatedAt'' []) (\<lambda>local_ts.
                 Inr (local_ts \<noteq> [] \<and> updated_at \<le> local_ts)))"

definition apply_to_collection ::
    "collection \<Rightarrow> string \<Rightarrow> string \<Rightarrow> json \<Rightarrow> string \<Rightarrow> (store, bool) op" where
  "apply_to_collection c action ident entity updated_at =
     bind_op (gets (\<lambda>s. map_of (coll c s) ident)) (\<lambda>current.
     if action = ''closed'' then
       (case current of
          None \<Rightarrow> ret False
        | Some e \<Rightarrow>
            bind_op (put_entity c ident
              (jset ''updatedAt'' (JStr updated_at)
                (jset ''closedAt'' (JStr updated_at) (jset ''status'' (JStr ''closed'') e)))) (\<lambda>_.
            bind_op (with_metrics (record_inbound_sync ''closed'')) (\<lambda>_. ret True)))
     else if action = ''reopened'' then
       bind_op (put_entity c ident
         (case current of
            None \<Rightarrow> entity
          | Some e \<Rightarrow> jset ''updatedAt'' (JStr updated_at) (jset ''status'' (JStr ''active'') e))) (\<lambda>_.
       bind_op (with_metrics (record_inbound_sync ''reopened'')) (\<lambda>_. ret True))
     else
       bind_op (lift_result (is_stale current updated_at)) (\<lambda>stale.
       if stale then
         bind_op (with_metrics (record_inbound_sync ''skipped_stale'')) (\<lambda>_. ret False)
       else
         bind_op (put_entity c ident (jset ''updatedAt'' (JStr updated_at) entity)) (\<lambda>_.
         bind_op (with_metrics (record_inbound_sync ''applied'')) (\<lambda>_. ret True))))"

definition apply_github_event ::
    "store_env \<Rightarrow> string \<Rightarrow> string \<Rightarrow> json \<Rightarrow> string \<Rightarrow> (store, bool) op" where
  "apply_github_event x entity_label action issue_shape updated_at =
     bind_op (pick_collection x entity_label) (\<lambda>ref.
     case ref of
       None \<Rightarrow> ret False
     | Some c \<Rightarrow>
         let entity = parse_issue_entity x issue_shape in
         if \<not> has_id entity then ret False
         else
           bind_op (lift_result (entity_id entity)) (\<lambda>ident.
           bind_op (lift_result (issue_number issue_shape)) (\<lambda>num.
             apply_to_collection c action ident (tag_issue num entity) updated_at)))"

fun reconcile_issues :: "store_env \<Rightarrow> string \<Rightarrow> json list \<Rightarrow> nat \<Rightarrow> (store, nat) op" where
  "reconcile_issues x label [] changed = ret changed"
| "reconcile_issues x label (issue # issues) changed =
     bind_op (lift_result (value_str issue ''updated_at'' [])) (\<lambda>ts.
     bind_op (apply_github_event x label ''edited'' issue ts) (\<lambda>applied.
       reconcile_issues x label issues (if applied then Suc changed else changed)))"

fun reconcile_labels :: "store_env \<Rightarrow> string list \<Rightarrow> nat \<Rightarrow> (store, nat) op" where
  "reconcile_labels x [] changed = ret changed"
| "reconcile_labels x (label # labels) changed =
     bind_op (catch_op (bind_op (list_issues x label) (\<lambda>issues. ret (Some issues))) (\<lambda>e. ret None))
       (\<lambda>fetched.
          case fetched of
            None \<Rightarrow> reconcile_labels x labels changed
          | Some issues \<Rightarrow>
              bind_op (reconcile_issues x label issues changed) (\<lambda>changed'.
                reconcile_labels x labels changed'))"

definition reconcile_from_github :: "store_env \<Rightarrow> (store, nat) op" where
  "reconcile_from_github x =
     bind_op (gets s_gh) (\<lambda>gh.
       if \<not> gh then ret 0
       else reconcile_labels x
              [''agamemnon-agent'', ''agamemnon-team'', ''agamemnon-task'', ''agamemnon-fault''] 0)"

end
