(* ===== verification/Store_Hmas.thy ===== *)
theory Store_Hmas
  imports Store_State
begin

text \<open>
  The typed part of the store (\<open>src/store.cpp\<close>): HMAS tasks with their index by brief, and task
  briefs. The index claims below are about stores whose identifiers are not reused by a create.
\<close>

section \<open>Tasks\<close>

text \<open>Writing a stored task through to its issue, when GitHub is attached and the number is known.\<close>

definition sync_hmas_issue :: "store_env \<Rightarrow> string \<Rightarrow> hmas_task \<Rightarrow> (store, unit) op" where
  "sync_hmas_issue x ident task =
     bind_op (gets (\<lambda>s. (s_gh s, map_of (s_hmas_task_issue_numbers s) ident))) (\<lambda>(gh, num).
       case num of
         None \<Rightarrow> ret ()
       | Some n \<Rightarrow>
           if gh then update_issue_body x n
                        (make_issue_body x (''hmas-tasks/'' @ ident) (hmas_task_to_json task))
           else ret ())"

definition put_hmas_task :: "string \<Rightarrow> hmas_task \<Rightarrow> (store, unit) op" where
  "put_hmas_task ident task = modify (\<lambda>s. s\<lparr>s_hmas_tasks := AList.update ident task (s_hmas_tasks s)\<rparr>)"

text \<open>The index from briefs to task identifiers: \<open>hmas_tasks_by_brief_[b].push_back(k)\<close>, and
\<open>old_bucket.erase(std::remove(...)); if (old_bucket.empty()) erase(b)\<close>, both for a non-empty brief.\<close>

definition index_add :: "string \<Rightarrow> string \<Rightarrow> string list umap \<Rightarrow> string list umap" where
  "index_add b k m = (if b \<noteq> [] then push_at b k m else m)"

definition index_remove :: "string \<Rightarrow> string \<Rightarrow> string list umap \<Rightarrow> string list umap" where
  "index_remove b k m =
     (if b \<noteq> [] then
        let bucket = removeAll k (list_at m b)
        in if bucket = [] then AList.delete b m else AList.update b bucket m
      else m)"

definition with_index :: "(string list umap \<Rightarrow> string list umap) \<Rightarrow> (store, unit) op" where
  "with_index f = modify (\<lambda>s. s\<lparr>s_hmas_tasks_by_brief := f (s_hmas_tasks_by_brief s)\<rparr>)"

definition create_hmas_task :: "store_env \<Rightarrow> hmas_task \<Rightarrow> (store, unit) op" where
  "create_hmas_task x task =
     bind_op (ensure_hmas_tasks_loaded x) (\<lambda>_.
     bind_op (gets s_gh) (\<lambda>gh.
     bind_op (when_op gh
       (bind_op (create_issue x (''hmas-task: '' @ t_id task)
           (make_issue_body x (''hmas-tasks/'' @ t_id task) (hmas_task_to_json task))
           ''agamemnon-hmas-task'') (\<lambda>num.
         when_op (num \<noteq> []) (modify (\<lambda>s. s\<lparr>s_hmas_task_issue_numbers :=
           AList.update (t_id task) num (s_hmas_task_issue_numbers s)\<rparr>))))) (\<lambda>_.
     bind_op (put_hmas_task (t_id task) task) (\<lambda>_.
       with_index (index_add (t_brief_id task) (t_id task))))))"

definition get_hmas_task :: "store_env \<Rightarrow> string \<Rightarrow> (store, hmas_task option) op" where
  "get_hmas_task x ident =
     bind_op (ensure_hmas_tasks_loaded x) (\<lambda>_. gets (\<lambda>s. map_of (s_hmas_tasks s) ident))"

definition update_hmas_task_state_and_record_escalation ::
    "store_env \<Rightarrow> string \<Rightarrow> task_state \<Rightarrow> escalation_record \<Rightarrow> (store, bool) op" where
  "update_hmas_task_state_and_record_escalation x ident new_state escalation =
     bind_op (ensure_hmas_tasks_loaded x) (\<lambda>_.
     bind_op (gets (\<lambda>s. map_of (s_hmas_tasks s) ident)) (\<lambda>r.
     case r of
       None \<Rightarrow> ret False
     | Some t \<Rightarrow>
         let t' = t\<lparr>t_state := new_state, t_escalations := t_escalations t @ [escalation]\<rparr> in
         bind_op (put_hmas_task ident t') (\<lambda>_.
         bind_op (sync_hmas_issue x ident t') (\<lambda>_. ret True))))"

definition update_hmas_task_state :: "store_env \<Rightarrow> string \<Rightarrow> task_state \<Rightarrow> (store, bool) op" where
  "update_hmas_task_state x ident state =
     bind_op (ensure_hmas_tasks_loaded x) (\<lambda>_.
     bind_op (gets (\<lambda>s. map_of (s_hmas_tasks s) ident)) (\<lambda>r.
     case r of
       None \<Rightarrow> ret False
     | Some t \<Rightarrow>
         let t' = t\<lparr>t_state := state\<rparr> in
         bind_op (put_hmas_task ident t') (\<lambda>_.
         bind_op (sync_hmas_issue x ident t') (\<lambda>_. ret True))))"

definition update_hmas_task :: "store_env \<Rightarrow> hmas_task \<Rightarrow> (store, bool) op" where
  "update_hmas_task x task =
     bind_op (ensure_hmas_tasks_loaded x) (\<lambda>_.
     bind_op (gets (\<lambda>s. map_of (s_hmas_tasks s) (t_id task))) (\<lambda>r.
     case r of
       None \<Rightarrow> ret False
     | Some old \<Rightarrow>
         bind_op (put_hmas_task (t_id task) task) (\<lambda>_.
         bind_op (when_op (t_brief_id old \<noteq> t_brief_id task)
           (bind_op (with_index (index_remove (t_brief_id old) (t_id task))) (\<lambda>_.
              with_index (index_add (t_brief_id task) (t_id task))))) (\<lambda>_.
         bind_op (sync_hmas_issue x (t_id task) task) (\<lambda>_. ret True)))))"

definition list_hmas_tasks_by_layer :: "store_env \<Rightarrow> hmas_layer \<Rightarrow> (store, hmas_task list) op" where
  "list_hmas_tasks_by_layer x layer =
     bind_op (ensure_hmas_tasks_loaded x) (\<lambda>_.
       gets (\<lambda>s. filter (\<lambda>t. t_layer t = layer) (map snd (s_hmas_tasks s))))"

definition list_hmas_tasks_by_parent :: "store_env \<Rightarrow> string \<Rightarrow> (store, hmas_task list) op" where
  "list_hmas_tasks_by_parent x parent_id =
     bind_op (ensure_hmas_tasks_loaded x) (\<lambda>_.
       gets (\<lambda>s. filter (\<lambda>t. t_parent_task_id t = parent_id) (map snd (s_hmas_tasks s))))"

definition list_hmas_tasks_by_brief :: "store_env \<Rightarrow> string \<Rightarrow> (store, hmas_task list) op" where
  "list_hmas_tasks_by_brief x brief_id =
     bind_op (ensure_hmas_tasks_loaded x) (\<lambda>_.
       gets (\<lambda>s. List.map_filter (map_of (s_hmas_tasks s)) (list_at (s_hmas_tasks_by_brief s) brief_id)))"

section \<open>Briefs\<close>

text \<open>The issue title keeps at most \<open>n\<close> UTF-8 sequences and never splits one.\<close>

definition utf8_advance :: "char \<Rightarrow> nat" where
  "utf8_advance c =
     (let v = ord_of c in
      if v < 0x80 then 1 else if v < 0xC0 then 1 else if v < 0xE0 then 2 else if v < 0xF0 then 3 else 4)"

fun utf8_truncate :: "nat \<Rightarrow> string \<Rightarrow> string" where
  "utf8_truncate 0 s = []"
| "utf8_truncate (Suc n) [] = []"
| "utf8_truncate (Suc n) (c # s) =
     (let adv = utf8_advance c in
      if length (c # s) < adv then []
      else take adv (c # s) @ utf8_truncate n (drop adv (c # s)))"

definition create_task_brief :: "store_env \<Rightarrow> task_brief \<Rightarrow> (store, unit) op" where
  "create_task_brief x brief =
     bind_op (ensure_briefs_loaded x) (\<lambda>_.
     bind_op (gets s_gh) (\<lambda>gh.
     bind_op (when_op gh
       (bind_op (create_issue x (''brief: '' @ utf8_truncate 80 (b_title brief))
           (make_issue_body x (''briefs/'' @ b_id brief) (task_brief_to_json brief))
           ''agamemnon-brief'') (\<lambda>num.
         when_op (num \<noteq> []) (modify (\<lambda>s. s\<lparr>s_brief_issue_numbers :=
           AList.update (b_id brief) num (s_brief_issue_numbers s)\<rparr>))))) (\<lambda>_.
       modify (\<lambda>s. s\<lparr>s_task_briefs := AList.update (b_id brief) brief (s_task_briefs s)\<rparr>))))"

definition get_task_brief :: "store_env \<Rightarrow> string \<Rightarrow> (store, task_brief option) op" where
  "get_task_brief x ident =
     bind_op (ensure_briefs_loaded x) (\<lambda>_. gets (\<lambda>s. map_of (s_task_briefs s) ident))"

definition list_task_briefs :: "store_env \<Rightarrow> (store, task_brief list) op" where
  "list_task_briefs x =
     bind_op (ensure_briefs_loaded x) (\<lambda>_. gets (\<lambda>s. map snd (s_task_briefs s)))"

section \<open>Repository contract\<close>

text \<open>
  What the orchestrator relies on: reading returns the stored value, saving replaces an existing one,
  adding stores a new one, and none of them touches other identifiers.
\<close>

locale task_repository =
  fixes fetch :: "string \<Rightarrow> ('s, 'v option) op"
    and save :: "'v \<Rightarrow> ('s, bool) op"
    and add :: "'v \<Rightarrow> ('s, unit) op"
    and ident :: "'v \<Rightarrow> string"
    and view :: "'s \<Rightarrow> string \<Rightarrow> 'v option"
    and avail :: "'s \<Rightarrow> bool"
  assumes fetch_law: "avail s \<Longrightarrow>
      \<exists>s'. fetch k s = (Inr (view s k), s') \<and> view s' = view s \<and> avail s'"
    and save_law: "avail s \<Longrightarrow>
      \<exists>s'. save v s = (Inr (view s (ident v) \<noteq> None), s') \<and> avail s'
         \<and> view s' = (if view s (ident v) = None then view s else (view s)(ident v \<mapsto> v))"
    and add_law: "avail s \<Longrightarrow>
      \<exists>s'. add v s = (Inr (), s') \<and> avail s' \<and> view s' = (view s)(ident v \<mapsto> v)"
begin

lemma add_all:
  assumes "avail s"
  shows "\<exists>s'. for_op add vs s = (Inr (), s') \<and> avail s'
     \<and> view s' = view s ++ map_of (rev (map (\<lambda>v. (ident v, v)) vs))"
  using assms
proof (induction vs arbitrary: s)
  case Nil
  then show ?case by (simp add: ret_def)
next
  case (Cons v vs)
  obtain s1 where s1: "add v s = (Inr (), s1)" "avail s1" "view s1 = (view s)(ident v \<mapsto> v)"
    using add_law [OF Cons.prems] by blast
  obtain s2 where s2: "for_op add vs s1 = (Inr (), s2)" "avail s2"
      "view s2 = view s1 ++ map_of (rev (map (\<lambda>v. (ident v, v)) vs))"
    using Cons.IH [OF s1(2)] by blast
  then show ?case using s1 by (auto simp: bind_op_def map_add_upd_left)
qed

lemma saved_is_fetched:
  assumes "avail s" and "view s (ident v) \<noteq> None"
  shows "\<exists>s1 s2. save v s = (Inr True, s1) \<and> fetch (ident v) s1 = (Inr (Some v), s2)"
proof -
  obtain s1 where "save v s = (Inr True, s1)" "avail s1" "view s1 = (view s)(ident v \<mapsto> v)"
    using save_law [OF assms(1), of v] assms(2) by auto
  then show ?thesis using fetch_law [of s1 "ident v"] by fastforce
qed

end

section \<open>The in-memory store keeps the contract\<close>

abbreviation in_memory :: "store \<Rightarrow> bool" where
  "in_memory s \<equiv> \<not> s_gh s"

lemma ensure_hmas_memory:
  "in_memory s \<Longrightarrow> ensure_hmas_tasks_loaded x s = (Inr (), s\<lparr>s_hmas_tasks_loaded := True\<rparr>)"
  by (cases s) (simp add: ensure_hmas_tasks_loaded_def op_simps)

lemma get_hmas_task_memory:
  "in_memory s \<Longrightarrow> get_hmas_task x k s =
     (Inr (map_of (s_hmas_tasks s) k), s\<lparr>s_hmas_tasks_loaded := True\<rparr>)"
  by (simp add: get_hmas_task_def bind_op_def ensure_hmas_memory gets_def)

lemma sync_hmas_memory: "in_memory s \<Longrightarrow> sync_hmas_issue x k t s = (Inr (), s)"
  by (simp add: sync_hmas_issue_def op_simps split: option.split)

definition index_move :: "string \<Rightarrow> string \<Rightarrow> string \<Rightarrow> string list umap \<Rightarrow> string list umap" where
  "index_move b b' k m = (if b \<noteq> b' then index_add b' k (index_remove b k m) else m)"

lemma update_hmas_task_missing:
  "in_memory s \<Longrightarrow> map_of (s_hmas_tasks s) (t_id t) = None \<Longrightarrow>
     update_hmas_task x t s = (Inr False, s\<lparr>s_hmas_tasks_loaded := True\<rparr>)"
  by (simp add: update_hmas_task_def bind_op_def ensure_hmas_memory gets_def ret_def)

lemma update_hmas_task_memory:
  assumes "in_memory s" and "map_of (s_hmas_tasks s) (t_id t) = Some old"
  shows "update_hmas_task x t s = (Inr True,
     s\<lparr>s_hmas_tasks_loaded := True, s_hmas_tasks := AList.update (t_id t) t (s_hmas_tasks s),
       s_hmas_tasks_by_brief := index_move (t_brief_id old) (t_brief_id t) (t_id t) (s_hmas_tasks_by_brief s)\<rparr>)"
  using assms
  by (cases s) (simp add: update_hmas_task_def bind_op_def ensure_hmas_memory gets_def ret_def
      put_hmas_task_def modify_def when_op_def with_index_def index_move_def sync_hmas_memory)

lemma create_hmas_task_memory:
  assumes "in_memory s"
  shows "create_hmas_task x t s = (Inr (),
     s\<lparr>s_hmas_tasks_loaded := True, s_hmas_tasks := AList.update (t_id t) t (s_hmas_tasks s),
       s_hmas_tasks_by_brief := index_add (t_brief_id t) (t_id t) (s_hmas_tasks_by_brief s)\<rparr>)"
  using assms
  by (simp add: create_hmas_task_def bind_op_def ensure_hmas_memory gets_def ret_def put_hmas_task_def
      modify_def when_op_def with_index_def)

interpretation repo: task_repository "get_hmas_task x" "update_hmas_task x" "create_hmas_task x" t_id
  "\<lambda>s. map_of (s_hmas_tasks s)" in_memory
  for x
proof
  fix s k v
  assume mem: "in_memory s"
  show "\<exists>s'. get_hmas_task x k s = (Inr (map_of (s_hmas_tasks s) k), s')
      \<and> map_of (s_hmas_tasks s') = map_of (s_hmas_tasks s) \<and> in_memory s'"
    using mem by (simp add: get_hmas_task_memory)
  show "\<exists>s'. update_hmas_task x v s = (Inr (map_of (s_hmas_tasks s) (t_id v) \<noteq> None), s') \<and> in_memory s'
      \<and> map_of (s_hmas_tasks s') = (if map_of (s_hmas_tasks s) (t_id v) = None then map_of (s_hmas_tasks s)
           else (map_of (s_hmas_tasks s))(t_id v \<mapsto> v))"
    using update_hmas_task_memory [OF mem, of v _ x] update_hmas_task_missing [OF mem, of v x] mem
    by (cases "map_of (s_hmas_tasks s) (t_id v)") (auto simp: um.lookup_insert)
  show "\<exists>s'. create_hmas_task x v s = (Inr (), s') \<and> in_memory s'
      \<and> map_of (s_hmas_tasks s') = (map_of (s_hmas_tasks s))(t_id v \<mapsto> v)"
    using create_hmas_task_memory [OF mem, of x v] mem by (simp add: um.lookup_insert)
qed


section \<open>The index by brief\<close>

definition index_ok :: "store \<Rightarrow> bool" where
  "index_ok s \<longleftrightarrow> umap_wf (s_hmas_tasks s)
     \<and> (\<forall>k t. map_of (s_hmas_tasks s) k = Some t \<longrightarrow> t_id t = k)
     \<and> (\<forall>b. distinct (list_at (s_hmas_tasks_by_brief s) b))
     \<and> (\<forall>b k. k \<in> set (list_at (s_hmas_tasks_by_brief s) b) \<longleftrightarrow>
          b \<noteq> [] \<and> (\<exists>t. map_of (s_hmas_tasks s) k = Some t \<and> t_brief_id t = b))"

lemma list_at_delete: "list_at (AList.delete k m) k' = (if k' = k then [] else list_at m k')"
  by (simp add: list_at_def)

lemma list_at_update: "list_at (AList.update k v m) k' = (if k' = k then v else list_at m k')"
  by (simp add: list_at_def)

lemma list_at_index_add:
  "list_at (index_add b k m) b' = (if b' = b \<and> b \<noteq> [] then list_at m b @ [k] else list_at m b')"
  by (simp add: index_add_def)

lemma list_at_index_remove:
  "list_at (index_remove b k m) b' = (if b' = b \<and> b \<noteq> [] then removeAll k (list_at m b) else list_at m b')"
  by (simp add: index_remove_def Let_def list_at_delete list_at_update)

lemma index_ok_create:
  assumes "in_memory s" and "index_ok s" and "map_of (s_hmas_tasks s) (t_id t) = None"
  shows "index_ok (snd (create_hmas_task x t s))"
proof -
  let ?m = "s_hmas_tasks_by_brief s" and ?k = "t_id t"
  let ?m' = "index_add (t_brief_id t) ?k ?m"
  have dist: "distinct (list_at ?m b)"
    and mem: "k \<in> set (list_at ?m b) \<longleftrightarrow>
      b \<noteq> [] \<and> (\<exists>u. map_of (s_hmas_tasks s) k = Some u \<and> t_brief_id u = b)" for b k
    using assms(2) unfolding index_ok_def by blast+
  have "distinct (list_at ?m' b)" for b
    using dist mem [of ?k] assms(3) by (simp add: list_at_index_add)
  moreover have "k \<in> set (list_at ?m' b) \<longleftrightarrow>
      b \<noteq> [] \<and> (\<exists>u. (if k = ?k then Some t else map_of (s_hmas_tasks s) k) = Some u \<and> t_brief_id u = b)" for b k
    using mem [of k b] assms(3) by (auto simp: list_at_index_add)
  moreover have "umap_wf (s_hmas_tasks s)" "\<forall>k t. map_of (s_hmas_tasks s) k = Some t \<longrightarrow> t_id t = k"
    using assms(2) unfolding index_ok_def by blast+
  ultimately show ?thesis
    unfolding index_ok_def create_hmas_task_memory [OF assms(1)]
    by (simp add: distinct_update del: not_None_eq not_Some_eq)
qed

lemma index_ok_update:
  assumes "in_memory s" and ok: "index_ok s"
  shows "index_ok (snd (update_hmas_task x t s))"
proof (cases "map_of (s_hmas_tasks s) (t_id t)")
  case None
  then show ?thesis using assms by (simp add: update_hmas_task_missing index_ok_def)
next
  case (Some old)
  let ?m = "s_hmas_tasks_by_brief s" and ?k = "t_id t"
  let ?m' = "index_move (t_brief_id old) (t_brief_id t) ?k ?m"
  have dist: "distinct (list_at ?m b)"
    and mem: "k \<in> set (list_at ?m b) \<longleftrightarrow>
      b \<noteq> [] \<and> (\<exists>u. map_of (s_hmas_tasks s) k = Some u \<and> t_brief_id u = b)" for b k
    using ok unfolding index_ok_def by blast+
  have "distinct (list_at ?m' b)" for b
    using dist mem [of ?k] Some
    by (auto simp: index_move_def list_at_index_add list_at_index_remove distinct_removeAll)
  moreover have "k \<in> set (list_at ?m' b) \<longleftrightarrow>
      b \<noteq> [] \<and> (\<exists>u. (if k = ?k then Some t else map_of (s_hmas_tasks s) k) = Some u \<and> t_brief_id u = b)" for b k
    using mem [of k b] Some
    by (auto simp: index_move_def list_at_index_add list_at_index_remove)
  moreover have "umap_wf (s_hmas_tasks s)" "\<forall>k t. map_of (s_hmas_tasks s) k = Some t \<longrightarrow> t_id t = k"
    using ok unfolding index_ok_def by blast+
  ultimately show ?thesis
    unfolding index_ok_def update_hmas_task_memory [OF assms(1) Some] by (simp add: distinct_update)
qed


lemma index_ok_replace:
  assumes "index_ok s" and "map_of (s_hmas_tasks s) k = Some t"
    and "t_id t' = t_id t" and "t_brief_id t' = t_brief_id t"
  shows "index_ok (s\<lparr>s_hmas_tasks_loaded := True, s_hmas_tasks := AList.update k t' (s_hmas_tasks s)\<rparr>)"
proof -
  have parts: "umap_wf (s_hmas_tasks s)" "\<forall>k t. map_of (s_hmas_tasks s) k = Some t \<longrightarrow> t_id t = k"
      "\<forall>b. distinct (list_at (s_hmas_tasks_by_brief s) b)"
    and mem: "\<forall>b k. k \<in> set (list_at (s_hmas_tasks_by_brief s) b) \<longleftrightarrow>
      b \<noteq> [] \<and> (\<exists>t. map_of (s_hmas_tasks s) k = Some t \<and> t_brief_id t = b)"
    using assms(1) unfolding index_ok_def by blast+
  have "(\<exists>u. (if k' = k then Some t' else map_of (s_hmas_tasks s) k') = Some u \<and> t_brief_id u = b) \<longleftrightarrow>
      (\<exists>u. map_of (s_hmas_tasks s) k' = Some u \<and> t_brief_id u = b)" for k' b
    using assms(2,4) by auto
  with parts mem assms(2,3) show ?thesis
    unfolding index_ok_def by (simp add: distinct_update)
qed

lemma index_ok_state:
  assumes "in_memory s" and "index_ok s"
  shows "index_ok (snd (update_hmas_task_state x k st s))"
    and "index_ok (snd (update_hmas_task_state_and_record_escalation x k st e s))"
proof -
  have loaded: "index_ok (s\<lparr>s_hmas_tasks_loaded := True\<rparr>)"
    using assms(2) by (simp add: index_ok_def)
  show "index_ok (snd (update_hmas_task_state x k st s))"
    using assms loaded index_ok_replace [OF assms(2)]
    by (cases "map_of (s_hmas_tasks s) k")
      (simp_all add: update_hmas_task_state_def bind_op_def ensure_hmas_memory gets_def ret_def
        put_hmas_task_def modify_def sync_hmas_memory Let_def)
  show "index_ok (snd (update_hmas_task_state_and_record_escalation x k st e s))"
    using assms loaded index_ok_replace [OF assms(2)]
    by (cases "map_of (s_hmas_tasks s) k")
      (simp_all add: update_hmas_task_state_and_record_escalation_def bind_op_def ensure_hmas_memory
        gets_def ret_def put_hmas_task_def modify_def sync_hmas_memory Let_def)
qed

text \<open>The in-memory stores the four writers reach when identifiers are not reused.\<close>

inductive hmas_reachable :: "store_env \<Rightarrow> store \<Rightarrow> bool" for x where
  start: "hmas_reachable x (new_store False metrics)"
| create: "hmas_reachable x s \<Longrightarrow> map_of (s_hmas_tasks s) (t_id t) = None \<Longrightarrow>
    hmas_reachable x (snd (create_hmas_task x t s))"
| update: "hmas_reachable x s \<Longrightarrow> hmas_reachable x (snd (update_hmas_task x t s))"
| set_state: "hmas_reachable x s \<Longrightarrow> hmas_reachable x (snd (update_hmas_task_state x k st s))"
| set_escalated: "hmas_reachable x s \<Longrightarrow>
    hmas_reachable x (snd (update_hmas_task_state_and_record_escalation x k st e s))"

lemma writers_memory:
  assumes "in_memory s"
  shows "in_memory (snd (create_hmas_task x t s))" "in_memory (snd (update_hmas_task x t s))"
    "in_memory (snd (update_hmas_task_state x k st s))"
    "in_memory (snd (update_hmas_task_state_and_record_escalation x k st e s))"
  using assms repo.add_law [of s x t] repo.save_law [of s x t]
  by (auto simp: update_hmas_task_state_def update_hmas_task_state_and_record_escalation_def
      bind_op_def ensure_hmas_memory gets_def ret_def put_hmas_task_def modify_def sync_hmas_memory
      Let_def split: option.split)

lemma hmas_reachable_ok: "hmas_reachable x s \<Longrightarrow> in_memory s \<and> index_ok s"
proof (induction rule: hmas_reachable.induct)
  case (start metrics)
  then show ?case by (simp add: new_store_def index_ok_def)
qed (auto simp: writers_memory index_ok_create index_ok_update index_ok_state)

text \<open>The brief index answers like a scan of all tasks. In every in-memory store the task writers
reach without reusing identifiers, listing the tasks of a brief through the index returns exactly the
stored tasks of that brief, each once.\<close>

lemma list_by_brief_refines_scan:
  assumes "hmas_reachable x s" and "b \<noteq> []"
    and "list_hmas_tasks_by_brief x b s = (Inr ts, s')"
  shows "distinct ts \<and> set ts = set (filter (\<lambda>t. t_brief_id t = b) (map snd (s_hmas_tasks s)))"
proof -
  note reach = hmas_reachable_ok [OF assms(1)]
  let ?tasks = "map_of (s_hmas_tasks s)" and ?ks = "list_at (s_hmas_tasks_by_brief s) b"
  have wf: "umap_wf (s_hmas_tasks s)" and ids: "\<And>k t. ?tasks k = Some t \<Longrightarrow> t_id t = k"
    and dist: "distinct ?ks"
    and mem: "\<And>k. k \<in> set ?ks \<longleftrightarrow> (\<exists>t. ?tasks k = Some t \<and> t_brief_id t = b)"
    using reach assms(2) unfolding index_ok_def by blast+
  have ts: "ts = List.map_filter ?tasks ?ks"
    using assms(3) reach
    by (simp add: list_hmas_tasks_by_brief_def bind_op_def ensure_hmas_memory gets_def)
  have eq: "map (the \<circ> ?tasks) ?ks = ts"
    unfolding ts List.map_filter_def using mem by (auto intro!: arg_cong [of _ _ "map (the \<circ> ?tasks)"] filter_True [symmetric])
  have "inj_on (the \<circ> ?tasks) (set ?ks)"
    using mem ids by (intro inj_onI) (metis comp_apply option.sel)
  then have "distinct ts" using dist unfolding eq [symmetric] by (simp add: distinct_map)
  moreover have "set ts = {t. \<exists>k. ?tasks k = Some t \<and> t_brief_id t = b}"
    unfolding eq [symmetric] using mem by (force simp: image_iff)
  moreover have "(\<exists>k. ?tasks k = Some t) \<longleftrightarrow> t \<in> snd ` set (s_hmas_tasks s)" for t
    using map_of_Some_in_set [OF wf] by force
  ultimately show ?thesis by auto
qed


definition example_task :: "string \<Rightarrow> string \<Rightarrow> hmas_task" where
  "example_task k b = (new_task L3_TaskAgent Pending)\<lparr>t_id := k, t_brief_id := b\<rparr>"

lemma list_by_brief_refines_scan_witness:
  "let s = snd (create_hmas_task example_env (example_task ''k2'' ''b'')
             (snd (create_hmas_task example_env (example_task ''k1'' ''b'') (new_store False None))));
       ts = [example_task ''k1'' ''b'', example_task ''k2'' ''b'']
   in list_hmas_tasks_by_brief example_env ''b'' s = (Inr ts, s) \<and> distinct ts
      \<and> set ts = set (filter (\<lambda>t. t_brief_id t = ''b'') (map snd (s_hmas_tasks s)))"
proof -
  let ?s1 = "snd (create_hmas_task example_env (example_task ''k1'' ''b'') (new_store False None))"
  let ?s = "snd (create_hmas_task example_env (example_task ''k2'' ''b'') ?s1)"
  let ?ts = "[example_task ''k1'' ''b'', example_task ''k2'' ''b'']"
  have "hmas_reachable example_env ?s1"
    by (intro hmas_reachable.create hmas_reachable.start) (simp add: new_store_def)
  moreover have "map_of (s_hmas_tasks ?s1) (t_id (example_task ''k2'' ''b'')) = None"
    by code_simp
  ultimately have reach: "hmas_reachable example_env ?s"
    by (rule hmas_reachable.create)
  have run: "list_hmas_tasks_by_brief example_env ''b'' ?s = (Inr ?ts, ?s)"
    by code_simp
  show ?thesis
    using list_by_brief_refines_scan [OF reach _ run] run unfolding Let_def by simp
qed

end
