(* ===== verification/Orchestrator.thy ===== *)
theory Orchestrator
  imports Planning Task_Machine Store_Entities Store_Hmas
begin

text \<open>
  The HMAS orchestrator of \<open>src/orchestrator.cpp\<close>: submission of briefs, delegation, escalation,
  the handlers of worker messages, splitting of tasks, and the walk that delegates what a completion
  unblocks. Its state is the store and the messages handed to the NATS publisher, in order; a payload
  is recorded as the JSON value whose \<open>dump()\<close> is sent. A message is received as the result of
  \<open>json::parse\<close> on its payload. Every transition is given a clock reading; only the transitions that
  stamp a task use it.
\<close>

datatype out_msg =
    Publish string json
  | Publish_Log string string string json

record orch =
  o_store :: store
  o_out :: "out_msg list"

definition on_store :: "(store, 'a) op \<Rightarrow> (orch, 'a) op" where
  "on_store m s = (let (r, st) = m (o_store s) in (r, s\<lparr>o_store := st\<rparr>))"

definition emit :: "out_msg \<Rightarrow> (orch, unit) op" where
  "emit msg = modify (\<lambda>s. s\<lparr>o_out := o_out s @ [msg]\<rparr>)"

definition fire :: "store_env \<Rightarrow> task_event \<Rightarrow> hmas_task \<Rightarrow> (orch, bool \<times> hmas_task) op" where
  "fire x ev t = bind_op (on_store (now_iso8601 x)) (\<lambda>now. ret (try_transition now t ev))"

section \<open>Subjects and dispatch\<close>

definition publish_task_state :: "hmas_task \<Rightarrow> (orch, unit) op" where
  "publish_task_state task =
     (let state_token = map to_lower (task_state_to_string (t_state task));
          subj = ''hi.tasks.'' @ state_token;
          payload = jset ''brief_id'' (JStr (t_brief_id task)) (hmas_task_to_json task)
      in emit (Publish subj payload))"

fun layer_token :: "hmas_layer \<Rightarrow> string" where
  "layer_token L0_ChiefArchitect = ''chief_architect''"
| "layer_token L1_ComponentLead = ''component_lead''"
| "layer_token L2_ModuleLead = ''module_lead''"
| "layer_token L3_TaskAgent = ''task_agent''"

definition myrmidon_subject :: "hmas_layer \<Rightarrow> string \<Rightarrow> string" where
  "myrmidon_subject layer task_id = ''hi.myrmidon.'' @ layer_token layer @ ''.'' @ task_id"

definition dispatch_payload :: "hmas_task \<Rightarrow> json \<Rightarrow> json" where
  "dispatch_payload task payload =
     (let p1 = jset ''task_id'' (JStr (t_id task)) payload;
          p2 = (if jcontains p1 ''team_id'' then p1 else jset ''team_id'' (JStr ''mesh'') p1);
          p3 = jset ''domain'' (JStr ''pipeline'') (jset ''role'' (JStr (mesh_role_name (t_layer task))) p2)
      in if t_issue task \<noteq> 0 then jset ''issue'' (JInt (t_issue task)) p3 else p3)"

definition dispatch_task :: "hmas_task \<Rightarrow> json \<Rightarrow> (orch, unit) op" where
  "dispatch_task task payload =
     (let dumped = dispatch_payload task payload in
      bind_op (emit (Publish (myrmidon_subject (t_layer task) (t_id task)) dumped)) (\<lambda>_.
        emit (Publish (mesh_dispatch_subject ''pipeline'' (mesh_role_name (t_layer task)) (t_id task))
                dumped)))"

section \<open>Submission, delegation, escalation\<close>

definition run_decompose :: "store_env \<Rightarrow> task_brief \<Rightarrow> (store, hmas_task list) op" where
  "run_decompose x brief =
     bind_op (now_iso8601 x) (\<lambda>ts.
     bind_op (gets s_draws) (\<lambda>n.
     bind_op (lift_result (decompose (x_uuid x) n ts brief)) (\<lambda>(n', tasks).
     bind_op (modify (\<lambda>s. s\<lparr>s_draws := n'\<rparr>)) (\<lambda>_. ret tasks))))"

text \<open>The root leaves Pending by \<open>Submit\<close> and \<open>Delegate\<close> and is enqueued.\<close>

definition enqueue_root :: "store_env \<Rightarrow> string \<Rightarrow> nat \<Rightarrow> string \<Rightarrow> (orch, unit) op" where
  "enqueue_root x brief_id task_count root_id =
     bind_op (on_store (get_hmas_task x root_id)) (\<lambda>root_opt.
     case root_opt of
       None \<Rightarrow> ret ()
     | Some root0 \<Rightarrow>
         bind_op (fire x Submit root0) (\<lambda>(_, root1).
         bind_op (fire x Delegate root1) (\<lambda>(_, root).
         bind_op (on_store (update_hmas_task x root)) (\<lambda>_.
         bind_op (publish_task_state root) (\<lambda>_.
         bind_op (dispatch_task root
           (jset ''brief_id'' (JStr brief_id) (hmas_task_to_json root))) (\<lambda>_.
           emit (Publish_Log ''hi.logs.agamemnon.brief_submitted'' ''info''
             (''Brief submitted: '' @ brief_id)
             (jobj [(''brief_id'', JStr brief_id), (''root_task_id'', JStr (t_id root)),
                    (''task_count'', JInt (int task_count))]))))))))"

definition submit :: "store_env \<Rightarrow> task_brief \<Rightarrow> (orch, string) op" where
  "submit x brief0 =
     bind_op (if b_id brief0 = []
              then bind_op (on_store (generate_uuid x)) (\<lambda>i. ret (brief0\<lparr>b_id := i\<rparr>))
              else ret brief0) (\<lambda>brief.
     bind_op (on_store (create_task_brief x brief)) (\<lambda>_.
     bind_op (on_store (run_decompose x brief)) (\<lambda>tasks.
     bind_op (for_op (\<lambda>t. on_store (create_hmas_task x t)) tasks) (\<lambda>_.
     bind_op (case tasks of [] \<Rightarrow> ret () | t0 # _ \<Rightarrow> enqueue_root x (b_id brief) (length tasks) (t_id t0))
       (\<lambda>_. ret (b_id brief))))))"

text \<open>Pending to Delegated is for leaves; the other layers pass through Decomposing.\<close>

definition delegate_transitions :: "store_env \<Rightarrow> hmas_task \<Rightarrow> (orch, bool \<times> hmas_task) op" where
  "delegate_transitions x t0 =
     bind_op (fire x Delegate t0) (\<lambda>(ok, t1).
       if \<not> ok \<and> t_state t1 = Pending
       then bind_op (fire x Submit t1) (\<lambda>(submitted, t2).
              if submitted then fire x Delegate t2 else ret (False, t2))
       else ret (ok, t1))"

definition delegate :: "store_env \<Rightarrow> string \<Rightarrow> (orch, bool) op" where
  "delegate x task_id =
     bind_op (on_store (get_hmas_task x task_id)) (\<lambda>task_opt.
     case task_opt of
       None \<Rightarrow> ret False
     | Some t0 \<Rightarrow>
         bind_op (delegate_transitions x t0) (\<lambda>(ok, task).
         if \<not> ok then ret False
         else
           bind_op (on_store (update_hmas_task x task)) (\<lambda>_.
           bind_op (publish_task_state task) (\<lambda>_.
           bind_op (dispatch_task task (hmas_task_to_json task)) (\<lambda>_.
             ret True)))))"

fun parent_layer :: "hmas_layer \<Rightarrow> hmas_layer" where
  "parent_layer L0_ChiefArchitect = L0_ChiefArchitect"
| "parent_layer L1_ComponentLead = L0_ChiefArchitect"
| "parent_layer L2_ModuleLead = L1_ComponentLead"
| "parent_layer L3_TaskAgent = L2_ModuleLead"

definition escalate :: "store_env \<Rightarrow> string \<Rightarrow> string \<Rightarrow> (orch, bool) op" where
  "escalate x task_id reason =
     bind_op (on_store (get_hmas_task x task_id)) (\<lambda>task_opt.
     case task_opt of
       None \<Rightarrow> ret False
     | Some t0 \<Rightarrow>
         bind_op (fire x Escalate t0) (\<lambda>(ok, t1).
         if \<not> ok then ret False
         else
           bind_op (on_store (now_iso8601 x)) (\<lambda>now.
           let rec = \<lparr>e_task_id = task_id, e_reason = reason, e_escalated_at = now,
                      e_from_layer = t_layer t1\<rparr>;
               task = t1\<lparr>t_escalations := t_escalations t1 @ [rec]\<rparr> in
           bind_op (on_store (update_hmas_task x task)) (\<lambda>_.
           bind_op (publish_task_state task) (\<lambda>_.
           let up = parent_layer (t_layer task);
               payload = jset ''escalation_reason'' (JStr reason) (hmas_task_to_json task) in
           bind_op (emit (Publish (myrmidon_subject up (t_id task)) payload)) (\<lambda>_.
           bind_op (emit (Publish (mesh_dispatch_subject ''pipeline'' (mesh_role_name up) (t_id task)) payload)) (\<lambda>_.
           bind_op (emit (Publish_Log ''hi.logs.agamemnon.task_escalated'' ''warn''
               (''Task escalated: '' @ task_id)
               (jobj [(''task_id'', JStr task_id), (''reason'', JStr reason),
                      (''from_layer'', JStr (hmas_layer_to_string (t_layer task)))]))) (\<lambda>_.
             ret True))))))))"

section \<open>Delegation of unblocked children\<close>

text \<open>The inner loop stops at the first blocker that is missing or not completed.\<close>

fun all_clear :: "store_env \<Rightarrow> string list \<Rightarrow> (orch, bool) op" where
  "all_clear x [] = ret True"
| "all_clear x (blocker_id # blockers) =
     bind_op (on_store (get_hmas_task x blocker_id)) (\<lambda>blocker_opt.
       case blocker_opt of
         None \<Rightarrow> ret False
       | Some b \<Rightarrow> if t_state b \<noteq> Completed then ret False else all_clear x blockers)"

definition try_child :: "store_env \<Rightarrow> string \<Rightarrow> (orch, unit) op" where
  "try_child x child_id =
     bind_op (on_store (get_hmas_task x child_id)) (\<lambda>candidate_opt.
     case candidate_opt of
       None \<Rightarrow> ret ()
     | Some candidate \<Rightarrow>
         if t_state candidate \<noteq> Pending then ret ()
         else
           bind_op (all_clear x (t_blocked_by candidate)) (\<lambda>clear.
             if clear then bind_op (delegate x (t_id candidate)) (\<lambda>_. ret ()) else ret ()))"

definition delegate_unblocked_children :: "store_env \<Rightarrow> string \<Rightarrow> (orch, unit) op" where
  "delegate_unblocked_children x completed_task_id =
     bind_op (on_store (get_hmas_task x completed_task_id)) (\<lambda>completed_opt.
     case completed_opt of
       None \<Rightarrow> ret ()
     | Some completed \<Rightarrow> for_op (try_child x) (t_child_task_ids completed))"

section \<open>Worker messages\<close>

text \<open>One guarded step of the walk towards the running state.\<close>

definition step_if :: "store_env \<Rightarrow> task_state \<Rightarrow> task_event \<Rightarrow> hmas_task \<Rightarrow> (orch, hmas_task) op" where
  "step_if x st ev t =
     (if t_state t = st then bind_op (fire x ev t) (\<lambda>(_, t'). ret t') else ret t)"

definition leave_pending :: "store_env \<Rightarrow> hmas_task \<Rightarrow> (orch, hmas_task) op" where
  "leave_pending x t =
     (if t_state t = Pending
      then bind_op (fire x Delegate t) (\<lambda>(ok, t1).
             if \<not> ok then bind_op (fire x Submit t1) (\<lambda>(_, t2). ret t2) else ret t1)
      else ret t)"

text \<open>The two conditional blocks all three handlers share: out of Pending, then out of Decomposing.\<close>

definition reach_delegated :: "store_env \<Rightarrow> hmas_task \<Rightarrow> (orch, hmas_task) op" where
  "reach_delegated x t = bind_op (leave_pending x t) (\<lambda>t'. step_if x Decomposing Delegate t')"

definition completion_task_id :: "json \<Rightarrow> string result" where
  "completion_task_id msg =
     (case jlookup msg ''data'' of
        Some data \<Rightarrow>
          (case jlookup data ''task_id'' of
             Some v \<Rightarrow> get_string v
           | None \<Rightarrow> (case jlookup msg ''task_id'' of Some v \<Rightarrow> get_string v | None \<Rightarrow> Inr []))
      | None \<Rightarrow> (case jlookup msg ''task_id'' of Some v \<Rightarrow> get_string v | None \<Rightarrow> Inr []))"

definition completion_walk :: "store_env \<Rightarrow> hmas_task \<Rightarrow> (orch, hmas_task) op" where
  "completion_walk x t0 =
     bind_op (step_if x Escalated Retry t0) (\<lambda>t1.
     bind_op (reach_delegated x t1) (\<lambda>t2.
     bind_op (step_if x Delegated Start t2) (\<lambda>t3.
     bind_op (fire x Complete t3) (\<lambda>(_, task). ret task))))"

definition complete_task :: "store_env \<Rightarrow> string \<Rightarrow> hmas_task \<Rightarrow> (orch, unit) op" where
  "complete_task x task_id t0 =
     bind_op (completion_walk x t0) (\<lambda>task.
     bind_op (on_store (update_hmas_task x task)) (\<lambda>_.
     bind_op (publish_task_state task) (\<lambda>_.
     bind_op (delegate_unblocked_children x task_id) (\<lambda>_.
       if t_layer task = L0_ChiefArchitect
       then emit (Publish_Log ''hi.logs.agamemnon.brief_completed'' ''info''
              (''Brief completed: '' @ t_brief_id task)
              (jobj [(''brief_id'', JStr (t_brief_id task)), (''root_task_id'', JStr task_id)]))
       else ret ()))))"

text \<open>The handlers catch every exception: the caller sees a normal return.\<close>

definition on_myrmidon_completion :: "store_env \<Rightarrow> json option \<Rightarrow> (orch, unit) op" where
  "on_myrmidon_completion x parsed =
     catch_op
       (case parsed of
          None \<Rightarrow> throw Parse_Error
        | Some msg \<Rightarrow>
            bind_op (lift_result (completion_task_id msg)) (\<lambda>task_id.
            if task_id = [] then ret ()
            else
              bind_op (on_store (get_hmas_task x task_id)) (\<lambda>task_opt.
              case task_opt of
                None \<Rightarrow> on_store (mark_task_completed x task_id)
              | Some t0 \<Rightarrow> complete_task x task_id t0)))
       (\<lambda>e. ret ())"

definition start_walk :: "store_env \<Rightarrow> hmas_task \<Rightarrow> (orch, hmas_task) op" where
  "start_walk x t0 =
     bind_op (step_if x Escalated Retry t0) (\<lambda>t1.
     bind_op (reach_delegated x t1) (\<lambda>t2.
     bind_op (fire x Start t2) (\<lambda>(_, task). ret task)))"

definition start_task :: "store_env \<Rightarrow> string \<Rightarrow> json \<Rightarrow> hmas_task \<Rightarrow> (orch, unit) op" where
  "start_task x task_id msg t0 =
     bind_op (start_walk x t0) (\<lambda>t4.
     bind_op (lift_result (value_str msg ''agent_id'' [])) (\<lambda>agent_id.
     bind_op (lift_result (value_str msg ''exec_host'' [])) (\<lambda>exec_host.
     let task = (if agent_id \<noteq> []
                 then t4\<lparr>t_assigned_lead_id :=
                        (if exec_host = [] then agent_id else agent_id @ ''@'' @ exec_host)\<rparr>
                 else t4) in
     bind_op (on_store (update_hmas_task x task)) (\<lambda>_.
     bind_op (publish_task_state task) (\<lambda>_.
       emit (Publish_Log ''hi.logs.agamemnon.task_started'' ''info'' (''Task started: '' @ task_id)
         (jobj [(''task_id'', JStr task_id), (''agent_id'', JStr agent_id),
                (''exec_host'', JStr exec_host)])))))))"

definition on_myrmidon_started :: "store_env \<Rightarrow> json option \<Rightarrow> (orch, unit) op" where
  "on_myrmidon_started x parsed =
     catch_op
       (case parsed of
          None \<Rightarrow> throw Parse_Error
        | Some msg \<Rightarrow>
            bind_op (lift_result (value_str msg ''task_id'' [])) (\<lambda>task_id.
            if task_id = [] then ret ()
            else
              bind_op (on_store (get_hmas_task x task_id)) (\<lambda>task_opt.
              case task_opt of
                None \<Rightarrow> ret ()
              | Some t0 \<Rightarrow> start_task x task_id msg t0)))
       (\<lambda>e. ret ())"

definition fail_walk :: "store_env \<Rightarrow> hmas_task \<Rightarrow> (orch, hmas_task) op" where
  "fail_walk x t0 =
     bind_op (reach_delegated x t0) (\<lambda>t1.
     bind_op (step_if x Delegated Start t1) (\<lambda>t2.
     bind_op (fire x Fail t2) (\<lambda>(_, task). ret task)))"

definition fail_task :: "store_env \<Rightarrow> string \<Rightarrow> json \<Rightarrow> hmas_task \<Rightarrow> (orch, unit) op" where
  "fail_task x task_id msg t0 =
     bind_op (fail_walk x t0) (\<lambda>task.
     bind_op (on_store (update_hmas_task x task)) (\<lambda>_.
     bind_op (publish_task_state task) (\<lambda>_.
     bind_op (lift_result (value_json msg ''error'' (JObj []))) (\<lambda>error.
       emit (Publish_Log ''hi.logs.agamemnon.task_failed'' ''warn'' (''Task failed: '' @ task_id)
         (jobj [(''task_id'', JStr task_id), (''error'', error)]))))))"

definition on_myrmidon_failed :: "store_env \<Rightarrow> json option \<Rightarrow> (orch, unit) op" where
  "on_myrmidon_failed x parsed =
     catch_op
       (case parsed of
          None \<Rightarrow> throw Parse_Error
        | Some msg \<Rightarrow>
            bind_op (lift_result (value_str msg ''task_id'' [])) (\<lambda>task_id.
            if task_id = [] then ret ()
            else
              bind_op (on_store (get_hmas_task x task_id)) (\<lambda>task_opt.
              case task_opt of
                None \<Rightarrow> ret ()
              | Some t0 \<Rightarrow> fail_task x task_id msg t0)))
       (\<lambda>e. ret ())"

section \<open>Epics\<close>

definition epic_brief :: "string \<Rightarrow> string \<Rightarrow> string \<Rightarrow> int \<Rightarrow> task_brief" where
  "epic_brief ident key repo issue =
     new_brief\<lparr>b_id := ident, b_title := ''[epic] '' @ key,
       b_description := ''Decompose epic '' @ repo @ ''#'' @ string_of_int issue\<rparr>"

definition epic_root :: "string \<Rightarrow> string \<Rightarrow> task_brief \<Rightarrow> string \<Rightarrow> int \<Rightarrow> hmas_task" where
  "epic_root ident ts brief repo issue =
     (new_task L0_ChiefArchitect Pending)\<lparr>t_id := ident, t_brief_id := b_id brief,
        t_subject := b_title brief, t_description := b_description brief, t_repo := repo,
        t_issue := issue, t_created_at := ts\<rparr>"

definition register_epic :: "store_env \<Rightarrow> json \<Rightarrow> json \<Rightarrow> string \<Rightarrow> string \<Rightarrow> int \<Rightarrow> (orch, string) op" where
  "register_epic x msg epic repo key issue =
     bind_op (on_store (generate_uuid x)) (\<lambda>brief_id.
     let brief = epic_brief brief_id key repo issue in
     bind_op (on_store (create_task_brief x brief)) (\<lambda>_.
     bind_op (on_store (generate_uuid x)) (\<lambda>root_id.
     bind_op (on_store (now_iso8601 x)) (\<lambda>ts.
     let root0 = epic_root root_id ts brief repo issue in
     bind_op (on_store (create_hmas_task x root0)) (\<lambda>_.
     bind_op (fire x Submit root0) (\<lambda>(_, root).
     bind_op (on_store (update_hmas_task x root)) (\<lambda>_.
     bind_op (publish_task_state root) (\<lambda>_.
     bind_op (lift_result (value_str msg ''team_id'' ''mesh'')) (\<lambda>team_id.
     let dispatch = jset ''brief_id'' (JStr brief_id) (jset ''epic'' epic
           (jset ''team_id'' (JStr team_id) (jset ''task_id'' (JStr (t_id root)) (hmas_task_to_json root)))) in
     bind_op (dispatch_task root dispatch) (\<lambda>_.
     bind_op (emit (Publish_Log ''hi.logs.agamemnon.epic_registered'' ''info''
         (''Epic registered: '' @ key)
         (jobj [(''brief_id'', JStr brief_id), (''root_task_id'', JStr (t_id root)),
                (''repo'', JStr repo), (''issue'', JInt issue)]))) (\<lambda>_.
       ret brief_id)))))))))))"

definition on_epic_registered :: "store_env \<Rightarrow> json option \<Rightarrow> (orch, string) op" where
  "on_epic_registered x parsed =
     catch_op
       (case parsed of
          None \<Rightarrow> throw Parse_Error
        | Some msg \<Rightarrow>
            bind_op (lift_result (value_json msg ''epic'' (JObj []))) (\<lambda>epic.
            bind_op (lift_result (value_str epic ''repo'' [])) (\<lambda>repo.
            bind_op (lift_result (value_str epic ''key'' [])) (\<lambda>key.
            bind_op (lift_result (value_int epic ''issue'' 0)) (\<lambda>issue.
              if repo = [] \<or> key = [] \<or> issue = 0 then ret []
              else register_epic x msg epic repo key issue)))))
       (\<lambda>e. ret [])"

section \<open>Splitting a task\<close>

definition error_json :: "string \<Rightarrow> json" where
  "error_json msg = jobj [(''error'', JStr msg)]"

definition listed_blockers :: "json \<Rightarrow> string list" where
  "listed_blockers sub =
     (case jlookup sub ''blocked_by'' of
        Some (JArr bs) \<Rightarrow> List.map_filter (\<lambda>b. case b of JStr v \<Rightarrow> Some v | _ \<Rightarrow> None) bs
      | _ \<Rightarrow> [])"

definition split_child ::
    "hmas_task \<Rightarrow> string \<Rightarrow> string \<Rightarrow> string \<Rightarrow> json \<Rightarrow> hmas_task result" where
  "split_child original ts prev_id ident sub =
     bind_result (value_int sub ''issue'' 0) (\<lambda>issue.
     bind_result (value_str sub ''title'' []) (\<lambda>title.
     bind_result (value_str sub ''description'' []) (\<lambda>desc.
     bind_result (value_str sub ''base_branch'' []) (\<lambda>base_branch.
       Inr ((new_task (t_layer original) Pending)\<lparr>t_id := ident, t_brief_id := t_brief_id original,
         t_parent_task_id := t_parent_task_id original, t_repo := t_repo original,
         t_module := t_module original, t_issue := issue, t_subject := title,
         t_description := (if base_branch = [] then desc
           else desc @ (if desc = [] then [] else [newline]) @ ''Base branch: '' @ base_branch),
         t_created_at := ts,
         t_blocked_by := t_id original # (if prev_id = [] then [] else [prev_id]) @ listed_blockers sub\<rparr>)))))"

text \<open>
  The loop over the subtasks: \<open>Inl\<close> is the early return with an error value; the children created
  before it stay in the store.
\<close>

fun split_loop ::
    "store_env \<Rightarrow> hmas_task \<Rightarrow> string \<Rightarrow> json list \<Rightarrow> string \<Rightarrow> string list \<Rightarrow> (orch, json + string list) op"
where
  "split_loop x original ts [] prev_id created = ret (Inr created)"
| "split_loop x original ts (sub # subs) prev_id created =
     bind_op (if is_object sub then lift_result (value_str sub ''title'' []) else ret []) (\<lambda>title.
     if title = [] then ret (Inl (error_json (''each subtask needs a non-empty '' @ [CHR 0x27] @ ''title'' @ [CHR 0x27])))
     else
       bind_op (on_store (generate_uuid x)) (\<lambda>ident.
       bind_op (lift_result (split_child original ts prev_id ident sub)) (\<lambda>child.
       bind_op (on_store (create_hmas_task x child)) (\<lambda>_.
         split_loop x original ts subs ident (created @ [ident])))))"

definition split_task :: "store_env \<Rightarrow> string \<Rightarrow> json \<Rightarrow> (orch, json) op" where
  "split_task x task_id subtasks =
     bind_op (on_store (get_hmas_task x task_id)) (\<lambda>task_opt.
     case task_opt of
       None \<Rightarrow> ret (error_json ''task not found'')
     | Some original \<Rightarrow>
         if elements subtasks = [] then ret (error_json ''subtasks must be a non-empty array'')
         else
           bind_op (on_store (now_iso8601 x)) (\<lambda>ts.
           bind_op (split_loop x original ts (elements subtasks) [] []) (\<lambda>r.
           case r of
             Inl err \<Rightarrow> ret err
           | Inr created \<Rightarrow>
               bind_op (on_store (update_hmas_task x
                 (original\<lparr>t_child_task_ids := t_child_task_ids original @ created\<rparr>))) (\<lambda>_.
               bind_op (emit (Publish_Log ''hi.logs.agamemnon.task_split'' ''info''
                   (''Task split: '' @ task_id)
                   (jobj [(''task_id'', JStr task_id), (''created'', jstrs created)]))) (\<lambda>_.
                 ret (jobj [(''task_id'', JStr task_id), (''created'', jstrs created)]))))))"

section \<open>Plans\<close>

definition plan_root :: "hmas_task list \<Rightarrow> json" where
  "plan_root tasks =
     fold (\<lambda>t root. if t_parent_task_id t = [] then hmas_task_to_json t else root) tasks JNull"

definition get_plan :: "store_env \<Rightarrow> string \<Rightarrow> (orch, json) op" where
  "get_plan x brief_id =
     bind_op (on_store (list_hmas_tasks_by_brief x brief_id)) (\<lambda>tasks.
     let found = jobj [(''brief_id'', JStr brief_id), (''root'', plan_root tasks),
                       (''tasks'', JArr (map hmas_task_to_json tasks))] in
     if tasks = [] then
       bind_op (on_store (get_task_brief x brief_id)) (\<lambda>brief_opt.
         case brief_opt of
           None \<Rightarrow> ret found
         | Some b \<Rightarrow>
             ret (jobj [(''brief_id'', JStr brief_id), (''root'', JNull), (''tasks'', JArr []),
                        (''brief'', task_brief_to_json b)]))
     else ret found)"

end
