(* ===== verification/Orchestrator_Props.thy ===== *)
theory Orchestrator_Props
  imports Orchestrator
begin

text \<open>
  What the orchestrator does to the stored tasks, for the in-memory store: each handler refines a
  function on the map from identifiers to tasks. The store is used through the facts of the
  repository contract (\<open>repo\<close>); the state machine through its case table.
\<close>

abbreviation view :: "orch \<Rightarrow> string \<Rightarrow> hmas_task option" where
  "view s \<equiv> map_of (s_hmas_tasks (o_store s))"

abbreviation mem :: "orch \<Rightarrow> bool" where
  "mem s \<equiv> in_memory (o_store s)"

text \<open>A step that changes neither the tasks nor the outbox.\<close>

definition quiet :: "orch \<Rightarrow> orch \<Rightarrow> bool" where
  "quiet s s' \<longleftrightarrow> mem s' \<and> view s' = view s \<and> o_out s' = o_out s"

lemma quietD: "quiet s s' \<Longrightarrow> mem s'" "quiet s s' \<Longrightarrow> view s' = view s" "quiet s s' \<Longrightarrow> o_out s' = o_out s"
  by (simp_all add: quiet_def)

lemma quiet_trans [trans]: "quiet s s1 \<Longrightarrow> quiet s1 s2 \<Longrightarrow> quiet s s2"
  by (simp add: quiet_def)

lemma bind_run: "m s = (Inr r, s') \<Longrightarrow> bind_op m f s = f r s'"
  by (simp add: bind_op_def)

lemma on_store_run: "m (o_store s) = (r, st) \<Longrightarrow> on_store m s = (r, s\<lparr>o_store := st\<rparr>)"
  by (simp add: on_store_def)

lemma fetch_run:
  assumes "mem s"
  obtains s' where "on_store (get_hmas_task x k) s = (Inr (view s k), s')" and "quiet s s'"
proof -
  obtain st where "get_hmas_task x k (o_store s) = (Inr (view s k), st)"
      "map_of (s_hmas_tasks st) = view s" "in_memory st"
    using repo.fetch_law [OF assms] by blast
  then show thesis
    by (intro that [of "s\<lparr>o_store := st\<rparr>"]) (simp_all add: on_store_run quiet_def)
qed

lemma save_run:
  assumes "mem s" and "view s (t_id t) = Some old"
  obtains s' where "on_store (update_hmas_task x t) s = (Inr True, s')" and "mem s'"
    and "view s' = (view s)(t_id t \<mapsto> t)" and "o_out s' = o_out s"
proof -
  obtain st where "update_hmas_task x t (o_store s) = (Inr True, st)"
      "map_of (s_hmas_tasks st) = (view s)(t_id t \<mapsto> t)" "in_memory st"
    using repo.save_law [OF assms(1), of x t] assms(2) by auto
  then show thesis
    by (intro that [of "s\<lparr>o_store := st\<rparr>"]) (simp_all add: on_store_run)
qed

lemma clock_run:
  assumes "mem s"
  obtains s' where "on_store (now_iso8601 x) s = (Inr (x_now x (s_ticks (o_store s))), s')" and "quiet s s'"
  using assms that [of "s\<lparr>o_store := (o_store s)\<lparr>s_ticks := Suc (s_ticks (o_store s))\<rparr>\<rparr>"]
  by (simp add: on_store_def now_iso8601_def quiet_def)

lemma fire_run:
  assumes "mem s"
  obtains s' where "fire x ev t s = (Inr (try_transition (x_now x (s_ticks (o_store s))) t ev), s')"
    and "quiet s s'"
proof -
  obtain s' where s': "on_store (now_iso8601 x) s = (Inr (x_now x (s_ticks (o_store s))), s')" "quiet s s'"
    by (rule clock_run [OF assms])
  then show thesis by (intro that [of s']) (simp_all add: fire_def bind_op_def ret_def)
qed

lemma emit_run: "emit m s = (Inr (), s\<lparr>o_out := o_out s @ [m]\<rparr>)"
  by (simp add: emit_def modify_def)

section \<open>Delegation\<close>

text \<open>The three messages that announce a delegated task.\<close>

definition state_message :: "hmas_task \<Rightarrow> out_msg" where
  "state_message t =
     Publish (''hi.tasks.'' @ map to_lower (task_state_to_string (t_state t)))
       (jset ''brief_id'' (JStr (t_brief_id t)) (hmas_task_to_json t))"

definition dispatch_messages :: "hmas_task \<Rightarrow> json \<Rightarrow> out_msg list" where
  "dispatch_messages t payload =
     [Publish (myrmidon_subject (t_layer t) (t_id t)) (dispatch_payload t payload),
      Publish (mesh_dispatch_subject ''pipeline'' (mesh_role_name (t_layer t)) (t_id t))
        (dispatch_payload t payload)]"

definition announce :: "hmas_task \<Rightarrow> out_msg list" where
  "announce t = state_message t # dispatch_messages t (hmas_task_to_json t)"

lemma publish_task_state_run:
  "publish_task_state t s = (Inr (), s\<lparr>o_out := o_out s @ [state_message t]\<rparr>)"
  by (simp add: publish_task_state_def emit_run state_message_def Let_def)

lemma dispatch_task_run:
  "dispatch_task t p s = (Inr (), s\<lparr>o_out := o_out s @ dispatch_messages t p\<rparr>)"
  by (simp add: dispatch_task_def bind_op_def emit_run dispatch_messages_def Let_def)

definition delegable :: "hmas_task \<Rightarrow> bool" where
  "delegable t \<longleftrightarrow> t_state t = Pending \<or> t_state t = Decomposing"

abbreviation delegated :: "hmas_task \<Rightarrow> hmas_task" where
  "delegated t \<equiv> t\<lparr>t_state := Delegated\<rparr>"

text \<open>The transitions \<open>delegate\<close> tries, as one outcome.\<close>

lemma delegate_walk:
  assumes "mem s"
  obtains s' where
    "delegate_transitions x t s = (Inr (if delegable t then (True, delegated t) else (False, t)), s')"
    and "quiet s s'"
proof -
  obtain s1 where s1: "fire x Delegate t s = (Inr (try_transition (x_now x (s_ticks (o_store s))) t Delegate), s1)" "quiet s s1"
    using fire_run [OF assms] by blast
  show thesis
  proof (cases "t_state t = Pending \<and> \<not> is_leaf t")
    case True
    obtain s2 where s2: "fire x Submit t s1 = (Inr (try_transition (x_now x (s_ticks (o_store s1))) t Submit), s2)" "quiet s1 s2"
      using fire_run [OF quietD(1) [OF s1(2)]] by blast
    obtain s3 where s3: "fire x Delegate (t\<lparr>t_state := Decomposing\<rparr>) s2 =
        (Inr (try_transition (x_now x (s_ticks (o_store s2))) (t\<lparr>t_state := Decomposing\<rparr>) Delegate), s3)" "quiet s2 s3"
      using fire_run [OF quietD(1) [OF s2(2)]] by blast
    show thesis
      using True s1 s2 s3
      by (intro that [of s3])
        (auto simp: delegate_transitions_def bind_op_def try_transition_cases moved_to_def
          is_terminal_def delegable_def intro: quiet_trans)
  next
    case False
    then show thesis
      using s1
      by (intro that [of s1])
        (cases "t_state t"; simp add: delegate_transitions_def bind_op_def ret_def try_transition_cases
          moved_to_def is_terminal_def delegable_def)+
  qed
qed


lemma delegate_success:
  assumes "mem s" and "view s k = Some t" and "delegable t" and "view s (t_id t) = Some u"
  obtains s' where "delegate x k s = (Inr True, s')" and "mem s'"
    and "view s' = (view s)(t_id t \<mapsto> delegated t)" and "o_out s' = o_out s @ announce (delegated t)"
proof -
  obtain s1 where s1: "on_store (get_hmas_task x k) s = (Inr (view s k), s1)" "quiet s s1"
    by (rule fetch_run [OF assms(1)])
  obtain s2 where s2: "delegate_transitions x t s1 = (Inr (True, delegated t), s2)" "quiet s1 s2"
    using delegate_walk [OF quietD(1) [OF s1(2)], of x t] assms(3) by auto
  note q = quiet_trans [OF s1(2) s2(2)]
  obtain s3 where s3: "on_store (update_hmas_task x (delegated t)) s2 = (Inr True, s3)" "mem s3"
      "view s3 = (view s2)(t_id t \<mapsto> delegated t)" "o_out s3 = o_out s2"
    using save_run [OF quietD(1) [OF q], of "delegated t" u x] assms(4) quietD(2) [OF q] by auto
  show thesis
    using s1(1) s2(1) s3 assms(2) quietD [OF q]
    by (intro that [of "s3\<lparr>o_out := o_out s3 @ announce (delegated t)\<rparr>"])
      (simp_all add: delegate_def bind_op_def ret_def publish_task_state_run dispatch_task_run announce_def)
qed

lemma delegate_refused:
  assumes "mem s" and "\<forall>t. view s k = Some t \<longrightarrow> \<not> delegable t"
  obtains s' where "delegate x k s = (Inr False, s')" and "quiet s s'"
proof -
  obtain s1 where s1: "on_store (get_hmas_task x k) s = (Inr (view s k), s1)" "quiet s s1"
    by (rule fetch_run [OF assms(1)])
  show thesis
  proof (cases "view s k")
    case None
    then show thesis using s1 by (intro that [of s1]) (simp_all add: delegate_def bind_op_def ret_def)
  next
    case (Some t)
    obtain s2 where s2: "delegate_transitions x t s1 = (Inr (False, t), s2)" "quiet s1 s2"
      using delegate_walk [OF quietD(1) [OF s1(2)], of x t] assms(2) Some by auto
    show thesis
      using s1(1) s2(1) Some quiet_trans [OF s1(2) s2(2)]
      by (intro that [of s2]) (simp_all add: delegate_def bind_op_def ret_def)
  qed
qed

text \<open>Delegation succeeds exactly for stored tasks that are pending or decomposing. It then stores the
task as delegated, changes no other task, and publishes its state followed by one dispatch on the legacy
and one on the role subject; otherwise it returns false and changes no task and publishes nothing.\<close>

lemma delegate_correct:
  assumes "mem s" and "\<forall>k t. view s k = Some t \<longrightarrow> t_id t = k"
  shows "\<exists>s'. (case view s k of
      Some t \<Rightarrow>
        if t_state t = Pending \<or> t_state t = Decomposing
        then delegate x k s = (Inr True, s') \<and> view s' = (view s)(k \<mapsto> t\<lparr>t_state := Delegated\<rparr>)
          \<and> o_out s' = o_out s @ announce (t\<lparr>t_state := Delegated\<rparr>)
        else delegate x k s = (Inr False, s') \<and> view s' = view s \<and> o_out s' = o_out s
    | None \<Rightarrow> delegate x k s = (Inr False, s') \<and> view s' = view s \<and> o_out s' = o_out s)"
proof (cases "\<exists>t. view s k = Some t \<and> delegable t")
  case True
  then obtain t where t: "view s k = Some t" "delegable t" by blast
  then have "t_id t = k" using assms(2) by blast
  with t obtain s' where "delegate x k s = (Inr True, s')" "view s' = (view s)(k \<mapsto> delegated t)"
      "o_out s' = o_out s @ announce (delegated t)"
    using delegate_success [OF assms(1) t, of t x] by auto
  then show ?thesis using t by (intro exI [of _ s']) (simp add: delegable_def)
next
  case False
  then obtain s' where "delegate x k s = (Inr False, s')" "quiet s s'"
    using delegate_refused [OF assms(1), of k x] by (auto split: option.splits)
  then show ?thesis
    using False by (intro exI [of _ s']) (auto simp: delegable_def quiet_def split: option.split)
qed


definition example_orch :: orch where
  "example_orch = \<lparr>o_store = (new_store False None)\<lparr>s_hmas_tasks := [(''k1'', example_task ''k1'' ''b'')]\<rparr>,
     o_out = []\<rparr>"

lemma delegate_correct_witness:
  "\<exists>s'. delegate example_env ''k1'' example_orch = (Inr True, s')
     \<and> view s' ''k1'' = Some ((example_task ''k1'' ''b'')\<lparr>t_state := Delegated\<rparr>)"
proof -
  have v: "view example_orch = [''k1'' \<mapsto> example_task ''k1'' ''b'']" "mem example_orch"
    by (simp_all add: example_orch_def new_store_def fun_eq_iff)
  have "\<forall>k t. view example_orch k = Some t \<longrightarrow> t_id t = k"
    by (simp add: v example_task_def new_task_def)
  from delegate_correct [OF v(2) this, where k = "''k1''" and x = example_env] show ?thesis
    by (auto simp: v(1) example_task_def new_task_def)
qed

section \<open>Children of a completed task\<close>

text \<open>A pending task all of whose blockers are completed, in a map of tasks.\<close>

definition ready_child :: "(string \<Rightarrow> hmas_task option) \<Rightarrow> hmas_task \<Rightarrow> bool" where
  "ready_child v u \<longleftrightarrow> t_state u = Pending
     \<and> (\<forall>b \<in> set (t_blocked_by u). \<exists>w. v b = Some w \<and> t_state w = Completed)"

text \<open>The specification of the walk: every ready child in the list becomes delegated.\<close>

definition delegate_ready ::
    "(string \<Rightarrow> hmas_task option) \<Rightarrow> string list \<Rightarrow> string \<Rightarrow> hmas_task option" where
  "delegate_ready v cs j =
     map_option (\<lambda>u. if j \<in> set cs \<and> ready_child v u then u\<lparr>t_state := Delegated\<rparr> else u) (v j)"

definition ids_ok :: "(string \<Rightarrow> hmas_task option) \<Rightarrow> bool" where
  "ids_ok v \<longleftrightarrow> (\<forall>k t. v k = Some t \<longrightarrow> t_id t = k)"

lemma ids_ok_delegate_ready: "ids_ok v \<Longrightarrow> ids_ok (delegate_ready v cs)"
  by (auto simp: ids_ok_def delegate_ready_def)

lemma completed_delegate_ready:
  "(\<exists>w. delegate_ready v cs b = Some w \<and> t_state w = Completed) \<longleftrightarrow>
     (\<exists>w. v b = Some w \<and> t_state w = Completed)"
  by (cases "v b") (auto simp: delegate_ready_def ready_child_def)

lemma ready_child_delegate_ready: "ready_child (delegate_ready v cs) u = ready_child v u"
  by (simp only: ready_child_def completed_delegate_ready)

lemma delegate_ready_Cons:
  "delegate_ready (delegate_ready v [c]) cs = delegate_ready v (c # cs)"
proof
  fix j
  show "delegate_ready (delegate_ready v [c]) cs j = delegate_ready v (c # cs) j"
    unfolding delegate_ready_def [of "delegate_ready v [c]"] ready_child_delegate_ready
    by (cases "v j") (auto simp: delegate_ready_def ready_child_def)
qed

lemma all_clear_run:
  assumes "mem s"
  shows "\<exists>s'. all_clear x bs s = (Inr (\<forall>b \<in> set bs. \<exists>w. view s b = Some w \<and> t_state w = Completed), s')
     \<and> quiet s s'"
  using assms
proof (induction bs arbitrary: s)
  case Nil
  then show ?case by (auto simp: ret_def quiet_def)
next
  case (Cons b bs)
  obtain s1 where s1: "on_store (get_hmas_task x b) s = (Inr (view s b), s1)" "quiet s s1"
    by (rule fetch_run [OF Cons.prems])
  obtain s2 where s2: "all_clear x bs s1 =
      (Inr (\<forall>b \<in> set bs. \<exists>w. view s1 b = Some w \<and> t_state w = Completed), s2)" "quiet s1 s2"
    using Cons.IH [OF quietD(1) [OF s1(2)]] by blast
  show ?case
  proof (cases "\<exists>w. view s b = Some w \<and> t_state w = Completed")
    case True
    then show ?thesis
      using s1 s2 quietD(2) [OF s1(2)] quiet_trans [OF s1(2) s2(2)] by (auto simp: bind_op_def)
  next
    case False
    then have "all_clear x (b # bs) s = (Inr False, s1)"
      using s1(1) by (cases "view s b") (auto simp: bind_op_def ret_def)
    with False s1(2) show ?thesis by auto
  qed
qed

lemma try_child_run:
  assumes "mem s" and ids: "ids_ok (view s)"
  shows "\<exists>s'. try_child x c s = (Inr (), s') \<and> mem s' \<and> view s' = delegate_ready (view s) [c]"
proof -
  obtain s1 where s1: "on_store (get_hmas_task x c) s = (Inr (view s c), s1)" "quiet s s1"
    by (rule fetch_run [OF assms(1)])
  show ?thesis
  proof (cases "view s c")
    case None
    then have "delegate_ready (view s) [c] j = view s j" for j
      by (cases "view s j") (auto simp: delegate_ready_def)
    then have "delegate_ready (view s) [c] = view s" ..
    then show ?thesis using s1 None by (simp add: try_child_def bind_op_def ret_def quiet_def)
  next
    case (Some u)
    have other: "delegate_ready (view s) [c] = (if ready_child (view s) u then (view s)(c \<mapsto> delegated u) else view s)"
    proof
      fix j
      show "delegate_ready (view s) [c] j =
          (if ready_child (view s) u then (view s)(c \<mapsto> delegated u) else view s) j"
        using Some by (cases "view s j") (auto simp: delegate_ready_def)
    qed
    obtain s2 where s2: "all_clear x (t_blocked_by u) s1 =
        (Inr (\<forall>b \<in> set (t_blocked_by u). \<exists>w. view s1 b = Some w \<and> t_state w = Completed), s2)" "quiet s1 s2"
      using all_clear_run [OF quietD(1) [OF s1(2)]] by blast
    note q = quiet_trans [OF s1(2) s2(2)]
    have id: "t_id u = c" using ids Some by (simp add: ids_ok_def)
    consider (busy) "t_state u \<noteq> Pending" | (blocked) "t_state u = Pending" "\<not> ready_child (view s) u"
      | (ready) "ready_child (view s) u" by (auto simp: ready_child_def)
    then show ?thesis
    proof cases
      case busy
      then show ?thesis
        using s1 Some other by (simp add: try_child_def bind_op_def ret_def quiet_def ready_child_def)
    next
      case blocked
      then have "\<not> (\<forall>b \<in> set (t_blocked_by u). \<exists>w. view s1 b = Some w \<and> t_state w = Completed)"
        using quietD(2) [OF s1(2)] by (simp add: ready_child_def)
      then have "all_clear x (t_blocked_by u) s1 = (Inr False, s2)" using s2(1) by presburger
      then show ?thesis
        using blocked s1(1) Some other quietD [OF q] by (simp add: try_child_def bind_op_def ret_def)
    next
      case ready
      then have clear: "\<forall>b \<in> set (t_blocked_by u). \<exists>w. view s1 b = Some w \<and> t_state w = Completed"
        and pend: "t_state u = Pending"
        using quietD(2) [OF s1(2)] by (auto simp: ready_child_def)
      obtain s3 where s3: "delegate x c s2 = (Inr True, s3)" "mem s3" "view s3 = (view s2)(c \<mapsto> delegated u)"
        using delegate_success [OF quietD(1) [OF q], of c u u x] Some quietD(2) [OF q] pend id
        by (auto simp: delegable_def)
      then show ?thesis
        using clear pend s1(1) s2(1) Some other ready quietD(2) [OF q] id
        by (simp add: try_child_def bind_op_def ret_def)
    qed
  qed
qed


lemma children_run:
  assumes "mem s" and "ids_ok (view s)"
  shows "\<exists>s'. for_op (try_child x) cs s = (Inr (), s') \<and> mem s' \<and> view s' = delegate_ready (view s) cs"
  using assms
proof (induction cs arbitrary: s)
  case Nil
  have "delegate_ready (view s) [] j = view s j" for j
    by (cases "view s j") (auto simp: delegate_ready_def)
  then have "delegate_ready (view s) [] = view s" ..
  then show ?case using Nil by (simp add: ret_def)
next
  case (Cons c cs)
  obtain s1 where s1: "try_child x c s = (Inr (), s1)" "mem s1" "view s1 = delegate_ready (view s) [c]"
    using try_child_run [OF Cons.prems] by blast
  then have "ids_ok (view s1)" using ids_ok_delegate_ready [OF Cons.prems(2)] by simp
  from Cons.IH [OF s1(2) this] obtain s2
    where s2: "for_op (try_child x) cs s1 = (Inr (), s2)" "mem s2" "view s2 = delegate_ready (view s1) cs"
    by blast
  then show ?case using s1 by (simp add: bind_op_def delegate_ready_Cons)
qed

lemma unblocked_run:
  assumes "mem s" and "ids_ok (view s)" and "view s k = Some t"
  shows "\<exists>s'. delegate_unblocked_children x k s = (Inr (), s') \<and> mem s'
     \<and> view s' = delegate_ready (view s) (t_child_task_ids t)"
proof -
  obtain s1 where s1: "on_store (get_hmas_task x k) s = (Inr (view s k), s1)" "quiet s s1"
    by (rule fetch_run [OF assms(1)])
  then have "ids_ok (view s1)" using assms(2) by (simp add: quiet_def)
  from children_run [OF quietD(1) [OF s1(2)] this, of x "t_child_task_ids t"] show ?thesis
    using s1 assms(3) quietD(2) [OF s1(2)] by (auto simp: delegate_unblocked_children_def bind_op_def)
qed

section \<open>Worker messages\<close>

text \<open>The walks of the three handlers on the task itself.\<close>

lemma step_if_run:
  assumes "mem s"
  obtains s' where "step_if x st ev t s =
      (Inr (if t_state t = st then after (x_now x (s_ticks (o_store s))) ev t else t), s')" and "quiet s s'"
proof (cases "t_state t = st")
  case True
  obtain s' where "fire x ev t s = (Inr (try_transition (x_now x (s_ticks (o_store s))) t ev), s')" "quiet s s'"
    by (rule fire_run [OF assms])
  then show thesis
    using True that [of s'] by (simp add: step_if_def bind_op_def ret_def split_def)
next
  case False
  then show thesis using assms that [of s] by (simp add: step_if_def ret_def quiet_def)
qed

lemma leave_pending_run:
  assumes "mem s"
  obtains s' where "leave_pending x t s =
      (Inr (if t_state t = Pending then t\<lparr>t_state := (if is_leaf t then Delegated else Decomposing)\<rparr> else t), s')"
    and "quiet s s'"
proof (cases "t_state t = Pending")
  case True
  obtain s1 where s1: "fire x Delegate t s = (Inr (try_transition (x_now x (s_ticks (o_store s))) t Delegate), s1)" "quiet s s1"
    by (rule fire_run [OF assms])
  obtain s2 where s2: "fire x Submit t s1 = (Inr (try_transition (x_now x (s_ticks (o_store s1))) t Submit), s2)" "quiet s1 s2"
    by (rule fire_run [OF quietD(1) [OF s1(2)]])
  show thesis
    using True s1 s2 that [of s1] that [of s2] quiet_trans [OF s1(2) s2(2)]
    by (cases "is_leaf t")
      (auto simp: leave_pending_def bind_op_def ret_def try_transition_cases moved_to_def is_terminal_def)
next
  case False
  then show thesis using assms that [of s] by (simp add: leave_pending_def ret_def quiet_def)
qed

lemma reach_delegated_run:
  assumes "mem s"
  obtains s' where "reach_delegated x t s = (Inr (if delegable t then delegated t else t), s')"
    and "quiet s s'"
proof -
  define t1 where "t1 = (if t_state t = Pending
      then t\<lparr>t_state := (if is_leaf t then Delegated else Decomposing)\<rparr> else t)"
  obtain s1 where s1: "leave_pending x t s = (Inr t1, s1)" "quiet s s1"
    using leave_pending_run [OF assms, of x t] unfolding t1_def by blast
  obtain s2 where s2: "step_if x Decomposing Delegate t1 s1 = (Inr (if t_state t1 = Decomposing
      then after (x_now x (s_ticks (o_store s1))) Delegate t1 else t1), s2)" "quiet s1 s2"
    by (rule step_if_run [OF quietD(1) [OF s1(2)]])
  show thesis
    using s1(1) s2(1) quiet_trans [OF s1(2) s2(2)]
    by (intro that [of s2])
      (cases "t_state t"; auto simp: reach_delegated_def bind_op_def t1_def try_transition_cases
        moved_to_def is_terminal_def delegable_def)+
qed

text \<open>The state a walk ends in, by the state it starts in.\<close>

definition completed :: "string \<Rightarrow> hmas_task \<Rightarrow> hmas_task" where
  "completed now t = (if is_terminal (t_state t) then t
     else t\<lparr>t_state := Completed, t_completed_at := now\<rparr>)"

definition started :: "hmas_task \<Rightarrow> hmas_task" where
  "started t = (if is_terminal (t_state t) then t else t\<lparr>t_state := InProgress\<rparr>)"

definition failed :: "string \<Rightarrow> hmas_task \<Rightarrow> hmas_task" where
  "failed now t = (if is_terminal (t_state t) then t
     else t\<lparr>t_state := Failed, t_completed_at := now\<rparr>)"

lemma fire_ignored_run:
  assumes "mem s"
  obtains now s' where "bind_op (fire x ev t) (\<lambda>(_, t'). ret t') s = (Inr (after now ev t), s')" and "quiet s s'"
proof -
  obtain s' where "fire x ev t s = (Inr (try_transition (x_now x (s_ticks (o_store s))) t ev), s')" "quiet s s'"
    by (rule fire_run [OF assms])
  then show thesis
    by (intro that [of "x_now x (s_ticks (o_store s))" s']) (simp_all add: bind_op_def ret_def split_def)
qed

lemma retry_run:
  assumes "mem s"
  obtains s' where "step_if x Escalated Retry t s =
      (Inr (if t_state t = Escalated then delegated t else t), s')" and "quiet s s'"
proof -
  obtain s' where "step_if x Escalated Retry t s = (Inr (if t_state t = Escalated
      then after (x_now x (s_ticks (o_store s))) Retry t else t), s')" "quiet s s'"
    by (rule step_if_run [OF assms])
  then show thesis
    by (intro that [of s'])
      (cases "t_state t = Escalated"; simp add: try_transition_cases moved_to_def is_terminal_def)+
qed

lemma start_run:
  assumes "mem s"
  obtains s' where "step_if x Delegated Start t s =
      (Inr (if t_state t = Delegated then t\<lparr>t_state := InProgress\<rparr> else t), s')" and "quiet s s'"
proof -
  obtain s' where "step_if x Delegated Start t s = (Inr (if t_state t = Delegated
      then after (x_now x (s_ticks (o_store s))) Start t else t), s')" "quiet s s'"
    by (rule step_if_run [OF assms])
  then show thesis
    by (intro that [of s'])
      (cases "t_state t = Delegated"; simp add: try_transition_cases moved_to_def is_terminal_def)+
qed

lemma completion_walk_run:
  assumes "mem s"
  obtains now s' where "completion_walk x t s = (Inr (completed now t), s')" and "quiet s s'"
proof -
  define t1 where "t1 = (if t_state t = Escalated then delegated t else t)"
  obtain s1 where s1: "step_if x Escalated Retry t s = (Inr t1, s1)" "quiet s s1"
    using retry_run [OF assms, of x t] unfolding t1_def by blast
  define t2 where "t2 = (if delegable t1 then delegated t1 else t1)"
  obtain s2 where s2: "reach_delegated x t1 s1 = (Inr t2, s2)" "quiet s1 s2"
    using reach_delegated_run [OF quietD(1) [OF s1(2)], of x t1] unfolding t2_def by blast
  define t3 where "t3 = (if t_state t2 = Delegated then t2\<lparr>t_state := InProgress\<rparr> else t2)"
  obtain s3 where s3: "step_if x Delegated Start t2 s2 = (Inr t3, s3)" "quiet s2 s3"
    using start_run [OF quietD(1) [OF s2(2)], of x t2] unfolding t3_def by blast
  obtain now s4 where s4: "bind_op (fire x Complete t3) (\<lambda>(_, t'). ret t') s3 = (Inr (after now Complete t3), s4)" "quiet s3 s4"
    by (rule fire_ignored_run [OF quietD(1) [OF s3(2)]])
  have "after now Complete t3 = completed now t"
    by (cases "t_state t")
      (simp_all add: t1_def t2_def t3_def delegable_def try_transition_cases moved_to_def is_terminal_def completed_def)
  then show thesis
    using s1(1) s2(1) s3(1) s4 quiet_trans [OF quiet_trans [OF quiet_trans [OF s1(2) s2(2)] s3(2)] s4(2)]
    by (intro that [of now s4]) (simp_all add: completion_walk_def bind_run)
qed

lemma start_walk_run:
  assumes "mem s"
  obtains s' where "start_walk x t s = (Inr (started t), s')" and "quiet s s'"
proof -
  define t1 where "t1 = (if t_state t = Escalated then delegated t else t)"
  obtain s1 where s1: "step_if x Escalated Retry t s = (Inr t1, s1)" "quiet s s1"
    using retry_run [OF assms, of x t] unfolding t1_def by blast
  define t2 where "t2 = (if delegable t1 then delegated t1 else t1)"
  obtain s2 where s2: "reach_delegated x t1 s1 = (Inr t2, s2)" "quiet s1 s2"
    using reach_delegated_run [OF quietD(1) [OF s1(2)], of x t1] unfolding t2_def by blast
  obtain now s3 where s3: "bind_op (fire x Start t2) (\<lambda>(_, t'). ret t') s2 = (Inr (after now Start t2), s3)" "quiet s2 s3"
    by (rule fire_ignored_run [OF quietD(1) [OF s2(2)]])
  have "after now Start t2 = started t"
    by (cases "t_state t")
      (simp_all add: t1_def t2_def delegable_def try_transition_cases moved_to_def is_terminal_def started_def)
  then show thesis
    using s1(1) s2(1) s3 quiet_trans [OF quiet_trans [OF s1(2) s2(2)] s3(2)]
    by (intro that [of s3]) (simp_all add: start_walk_def bind_run)
qed

lemma fail_walk_run:
  assumes "mem s"
  obtains now s' where "fail_walk x t s = (Inr (failed now t), s')" and "quiet s s'"
proof -
  define t1 where "t1 = (if delegable t then delegated t else t)"
  obtain s1 where s1: "reach_delegated x t s = (Inr t1, s1)" "quiet s s1"
    using reach_delegated_run [OF assms, of x t] unfolding t1_def by blast
  define t2 where "t2 = (if t_state t1 = Delegated then t1\<lparr>t_state := InProgress\<rparr> else t1)"
  obtain s2 where s2: "step_if x Delegated Start t1 s1 = (Inr t2, s2)" "quiet s1 s2"
    using start_run [OF quietD(1) [OF s1(2)], of x t1] unfolding t2_def by blast
  obtain now s3 where s3: "bind_op (fire x Fail t2) (\<lambda>(_, t'). ret t') s2 = (Inr (after now Fail t2), s3)" "quiet s2 s3"
    by (rule fire_ignored_run [OF quietD(1) [OF s2(2)]])
  have "after now Fail t2 = failed now t"
    by (cases "t_state t")
      (simp_all add: t1_def t2_def delegable_def try_transition_cases moved_to_def is_terminal_def failed_def)
  then show thesis
    using s1(1) s2(1) s3 quiet_trans [OF quiet_trans [OF s1(2) s2(2)] s3(2)]
    by (intro that [of now s3]) (simp_all add: fail_walk_def bind_run)
qed


lemma completed_fields:
  "t_id (completed now t) = t_id t" "t_layer (completed now t) = t_layer t"
  "t_child_task_ids (completed now t) = t_child_task_ids t"
  by (simp_all add: completed_def)

lemma ids_ok_upd: "ids_ok v \<Longrightarrow> t_id t = k \<Longrightarrow> ids_ok (v(k \<mapsto> t))"
  by (simp add: ids_ok_def)

lemma complete_task_run:
  assumes "mem s" and "ids_ok (view s)" and "view s k = Some t"
  shows "\<exists>now s'. complete_task x k t s = (Inr (), s') \<and> mem s'
     \<and> view s' = delegate_ready ((view s)(k \<mapsto> completed now t)) (t_child_task_ids t)"
proof -
  have id: "t_id t = k" using assms(2,3) by (simp add: ids_ok_def)
  obtain now s1 where s1: "completion_walk x t s = (Inr (completed now t), s1)" "quiet s s1"
    by (rule completion_walk_run [OF assms(1)])
  obtain s2 where s2: "on_store (update_hmas_task x (completed now t)) s1 = (Inr True, s2)" "mem s2"
      "view s2 = (view s1)(k \<mapsto> completed now t)"
    using save_run [OF quietD(1) [OF s1(2)], of "completed now t" t x] assms(3) quietD(2) [OF s1(2)] id
    by (auto simp: completed_fields)
  let ?s3 = "s2\<lparr>o_out := o_out s2 @ [state_message (completed now t)]\<rparr>"
  have v3: "view ?s3 = (view s)(k \<mapsto> completed now t)" using s2(3) quietD(2) [OF s1(2)] by simp
  obtain s4 where s4: "delegate_unblocked_children x k ?s3 = (Inr (), s4)" "mem s4"
      "view s4 = delegate_ready ((view s)(k \<mapsto> completed now t)) (t_child_task_ids t)"
    using unblocked_run [of ?s3 k "completed now t" x] s2(2) v3
      ids_ok_upd [OF assms(2), of "completed now t" k] id
    by (auto simp: completed_fields)
  have "complete_task x k t s = (if t_layer t = L0_ChiefArchitect
      then emit (Publish_Log ''hi.logs.agamemnon.brief_completed'' ''info''
              (''Brief completed: '' @ t_brief_id (completed now t))
              (jobj [(''brief_id'', JStr (t_brief_id (completed now t))), (''root_task_id'', JStr k)]))
       else ret ()) s4"
    by (simp add: complete_task_def bind_op_def s1(1) s2(1) publish_task_state_run s4(1) completed_fields)
  then show ?thesis
    using s4(2,3) by (auto simp: emit_run ret_def)
qed



text \<open>A two-task plan: the root and a leaf it blocks.\<close>

definition example_pair :: orch where
  "example_pair = \<lparr>o_store = (new_store False None)\<lparr>s_hmas_tasks :=
       [(''r'', (new_task L0_ChiefArchitect InProgress)\<lparr>t_id := ''r'', t_child_task_ids := [''c'']\<rparr>),
        (''c'', (new_task L3_TaskAgent Pending)\<lparr>t_id := ''c'', t_blocked_by := [''r'']\<rparr>)]\<rparr>,
     o_out = []\<rparr>"

lemma example_pair_facts:
  "mem example_pair" "ids_ok (view example_pair)"
  "view example_pair ''r'' = Some ((new_task L0_ChiefArchitect InProgress)\<lparr>t_id := ''r'', t_child_task_ids := [''c'']\<rparr>)"
  "view example_pair ''c'' = Some ((new_task L3_TaskAgent Pending)\<lparr>t_id := ''c'', t_blocked_by := [''r'']\<rparr>)"
  by (auto simp: example_pair_def new_store_def ids_ok_def split: if_splits)



definition assigned :: "string \<Rightarrow> string \<Rightarrow> hmas_task \<Rightarrow> hmas_task" where
  "assigned agent_id exec_host t =
     (if agent_id \<noteq> []
      then t\<lparr>t_assigned_lead_id := (if exec_host = [] then agent_id else agent_id @ ''@'' @ exec_host)\<rparr>
      else t)"

lemma start_task_run:
  assumes "mem s" and "view s (t_id t) = Some u"
    and "value_str msg ''agent_id'' [] = Inr agent_id" and "value_str msg ''exec_host'' [] = Inr exec_host"
  shows "\<exists>s'. start_task x k msg t s = (Inr (), s') \<and> mem s'
     \<and> view s' = (view s)(t_id t \<mapsto> assigned agent_id exec_host (started t))"
proof -
  let ?t = "assigned agent_id exec_host (started t)"
  have id: "t_id ?t = t_id t" by (simp add: assigned_def started_def)
  obtain s1 where s1: "start_walk x t s = (Inr (started t), s1)" "quiet s s1"
    by (rule start_walk_run [OF assms(1)])
  obtain s2 where s2: "on_store (update_hmas_task x ?t) s1 = (Inr True, s2)" "mem s2"
      "view s2 = (view s1)(t_id ?t \<mapsto> ?t)"
    using save_run [OF quietD(1) [OF s1(2)], of ?t u x] assms(2) quietD(2) [OF s1(2)] id by auto
  have "start_task x k msg t s =
      emit (Publish_Log ''hi.logs.agamemnon.task_started'' ''info'' (''Task started: '' @ k)
         (jobj [(''task_id'', JStr k), (''agent_id'', JStr agent_id), (''exec_host'', JStr exec_host)]))
        (s2\<lparr>o_out := o_out s2 @ [state_message ?t]\<rparr>)"
    using s2(1) by (simp add: start_task_def bind_op_def s1(1) assms(3,4) lift_result_def
        publish_task_state_run assigned_def Let_def)
  then show ?thesis using s2(2,3) quietD(2) [OF s1(2)] id by (simp add: emit_run)
qed

text \<open>A start report moves the task to \<open>InProgress\<close> from every state that is not terminal and records
who took it; a terminal task keeps its state. No other task changes.\<close>

lemma started_correct:
  assumes "mem s" and "ids_ok (view s)" and "value_str msg ''task_id'' [] = Inr k" and "k \<noteq> []"
    and "view s k = Some t"
    and "value_str msg ''agent_id'' [] = Inr agent_id" and "value_str msg ''exec_host'' [] = Inr exec_host"
  shows "\<exists>s'. on_myrmidon_started x (Some msg) s = (Inr (), s')
     \<and> view s' = (view s)(k \<mapsto> assigned agent_id exec_host (started t))"
proof -
  have id: "t_id t = k" using assms(2,5) by (simp add: ids_ok_def)
  obtain s1 where s1: "on_store (get_hmas_task x k) s = (Inr (view s k), s1)" "quiet s s1"
    by (rule fetch_run [OF assms(1)])
  have v: "view s1 = view s" by (rule quietD(2) [OF s1(2)])
  obtain s' where run: "start_task x k msg t s1 = (Inr (), s')"
      "view s' = (view s)(k \<mapsto> assigned agent_id exec_host (started t))"
    using start_task_run [OF quietD(1) [OF s1(2)] _ assms(6,7), of t t x k] assms(5) v id by auto
  have "on_myrmidon_started x (Some msg) s = (Inr (), s')"
    using assms(3-5) s1(1) run(1)
    by (simp add: on_myrmidon_started_def catch_op_def bind_op_def lift_result_def)
  then show ?thesis using run(2) by blast
qed

lemma started_correct_witness:
  "\<exists>s'. on_myrmidon_started example_env
       (Some (jobj [(''task_id'', JStr ''c''), (''agent_id'', JStr ''a''), (''exec_host'', JStr ''h'')])) example_pair = (Inr (), s')
     \<and> map_option (\<lambda>t. (t_state t, t_assigned_lead_id t)) (view s' ''c'') = Some (InProgress, ''a@h'')"
proof -
  let ?msg = "jobj [(''task_id'', JStr ''c''), (''agent_id'', JStr ''a''), (''exec_host'', JStr ''h'')]"
  have "value_str ?msg ''task_id'' [] = Inr ''c''" "value_str ?msg ''agent_id'' [] = Inr ''a''"
    "value_str ?msg ''exec_host'' [] = Inr ''h''" by code_simp+
  from started_correct [OF example_pair_facts(1,2) this(1) _ example_pair_facts(4) this(2,3), of example_env]
  show ?thesis by (auto simp: assigned_def started_def is_terminal_def new_task_def)
qed

lemma fail_task_run:
  assumes "mem s" and "view s (t_id t) = Some u"
  shows "\<exists>now r s'. fail_task x k msg t s = (r, s') \<and> mem s' \<and> view s' = (view s)(t_id t \<mapsto> failed now t)"
proof -
  obtain now s1 where s1: "fail_walk x t s = (Inr (failed now t), s1)" "quiet s s1"
    by (rule fail_walk_run [OF assms(1)])
  let ?t = "failed now t"
  have id: "t_id ?t = t_id t" by (simp add: failed_def)
  obtain s2 where s2: "on_store (update_hmas_task x ?t) s1 = (Inr True, s2)" "mem s2"
      "view s2 = (view s1)(t_id ?t \<mapsto> ?t)"
    using save_run [OF quietD(1) [OF s1(2)], of ?t u x] assms(2) quietD(2) [OF s1(2)] id by auto
  show ?thesis
    using s2 quietD(2) [OF s1(2)] id
    by (cases "value_json msg ''error'' (JObj [])")
      (auto simp: fail_task_def bind_op_def s1(1) lift_result_def publish_task_state_run emit_run)
qed

text \<open>A failure report moves the task to \<open>Failed\<close> with a completion time from every state that is not
terminal; a terminal task keeps its state, so a late failure report cannot undo a completion. No other
task changes and the handler returns normally.\<close>

lemma failed_correct:
  assumes "mem s" and "ids_ok (view s)" and "value_str msg ''task_id'' [] = Inr k" and "k \<noteq> []"
    and "view s k = Some t"
  shows "\<exists>now s'. on_myrmidon_failed x (Some msg) s = (Inr (), s')
     \<and> view s' = (view s)(k \<mapsto> failed now t)"
proof -
  have id: "t_id t = k" using assms(2,5) by (simp add: ids_ok_def)
  obtain s1 where s1: "on_store (get_hmas_task x k) s = (Inr (view s k), s1)" "quiet s s1"
    by (rule fetch_run [OF assms(1)])
  have v: "view s1 = view s" by (rule quietD(2) [OF s1(2)])
  obtain now r s' where run: "fail_task x k msg t s1 = (r, s')" "view s' = (view s)(k \<mapsto> failed now t)"
    using fail_task_run [OF quietD(1) [OF s1(2)], of t t x k msg] assms(5) v id by auto
  have "on_myrmidon_failed x (Some msg) s = (Inr (), s')"
    using assms(3-5) s1(1) run(1)
    by (cases r) (simp_all add: on_myrmidon_failed_def catch_op_def bind_op_def lift_result_def ret_def)
  then show ?thesis using run(2) by blast
qed

lemma failed_correct_witness:
  "\<exists>s'. on_myrmidon_failed example_env (Some (jobj [(''task_id'', JStr ''c'')])) example_pair = (Inr (), s')
     \<and> map_option t_state (view s' ''c'') = Some Failed \<and> map_option t_state (view s' ''r'') = Some InProgress"
proof -
  have "value_str (jobj [(''task_id'', JStr ''c'')]) ''task_id'' [] = Inr ''c''" by code_simp
  from failed_correct [OF example_pair_facts(1,2) this _ example_pair_facts(4), of example_env]
  show ?thesis by (auto simp: failed_def is_terminal_def new_task_def example_pair_facts)
qed


section \<open>Escalation\<close>

definition escalated :: "string \<Rightarrow> string \<Rightarrow> hmas_task \<Rightarrow> hmas_task" where
  "escalated reason now t = t\<lparr>t_state := Escalated, t_escalations := t_escalations t @
     [\<lparr>e_task_id = t_id t, e_reason = reason, e_escalated_at = now, e_from_layer = t_layer t\<rparr>]\<rparr>"

text \<open>The task's state, the task with the reason on both subjects of the layer above, and a log event.\<close>

definition escalation_messages :: "string \<Rightarrow> hmas_task \<Rightarrow> out_msg list" where
  "escalation_messages reason t =
     (let up = parent_layer (t_layer t);
          payload = jset ''escalation_reason'' (JStr reason) (hmas_task_to_json t)
      in [state_message t, Publish (myrmidon_subject up (t_id t)) payload,
          Publish (mesh_dispatch_subject ''pipeline'' (mesh_role_name up) (t_id t)) payload,
          Publish_Log ''hi.logs.agamemnon.task_escalated'' ''warn'' (''Task escalated: '' @ t_id t)
            (jobj [(''task_id'', JStr (t_id t)), (''reason'', JStr reason),
                   (''from_layer'', JStr (hmas_layer_to_string (t_layer t)))])])"

lemma escalate_success:
  assumes "mem s" and "view s k = Some t" and "t_id t = k" and "t_state t = InProgress"
  shows "\<exists>now s'. escalate x k reason s = (Inr True, s') \<and> mem s'
     \<and> view s' = (view s)(k \<mapsto> escalated reason now t)
     \<and> o_out s' = o_out s @ escalation_messages reason (escalated reason now t)"
proof -
  obtain s1 where s1: "on_store (get_hmas_task x k) s = (Inr (view s k), s1)" "quiet s s1"
    by (rule fetch_run [OF assms(1)])
  obtain s2 where s2: "fire x Escalate t s1 = (Inr (try_transition (x_now x (s_ticks (o_store s1))) t Escalate), s2)" "quiet s1 s2"
    by (rule fire_run [OF quietD(1) [OF s1(2)]])
  obtain s3 where s3: "on_store (now_iso8601 x) s2 = (Inr (x_now x (s_ticks (o_store s2))), s3)" "quiet s2 s3"
    by (rule clock_run [OF quietD(1) [OF s2(2)]])
  define now where "now = x_now x (s_ticks (o_store s2))"
  let ?t = "escalated reason now t"
  note q = quiet_trans [OF quiet_trans [OF s1(2) s2(2)] s3(2)]
  obtain s4 where s4: "on_store (update_hmas_task x ?t) s3 = (Inr True, s4)" "mem s4"
      "view s4 = (view s3)(t_id ?t \<mapsto> ?t)" "o_out s4 = o_out s3"
    using save_run [OF quietD(1) [OF q], of ?t t x] assms(2,3) quietD(2) [OF q] by (auto simp: escalated_def)
  have fired: "try_transition n t Escalate = (True, t\<lparr>t_state := Escalated\<rparr>)" for n
    using assms(4) by (simp add: try_transition_cases moved_to_def is_terminal_def)
  have "escalate x k reason s =
      (Inr True, s4\<lparr>o_out := o_out s4 @ escalation_messages reason ?t\<rparr>)"
    using s4(1) assms(2,3)
    by (simp add: escalate_def bind_op_def s1(1) s2(1) s3(1) fired now_def [symmetric] escalated_def
        publish_task_state_run emit_run ret_def escalation_messages_def Let_def)
  then show ?thesis
    using s4(2-4) quietD [OF q] assms(3) by (auto simp: escalated_def)
qed

lemma escalate_refused:
  assumes "mem s" and "\<forall>t. view s k = Some t \<longrightarrow> t_state t \<noteq> InProgress"
  shows "\<exists>s'. escalate x k reason s = (Inr False, s') \<and> quiet s s'"
proof -
  obtain s1 where s1: "on_store (get_hmas_task x k) s = (Inr (view s k), s1)" "quiet s s1"
    by (rule fetch_run [OF assms(1)])
  show ?thesis
  proof (cases "view s k")
    case None
    then show ?thesis using s1 by (simp add: escalate_def bind_op_def ret_def)
  next
    case (Some t)
    obtain s2 where s2: "fire x Escalate t s1 = (Inr (try_transition (x_now x (s_ticks (o_store s1))) t Escalate), s2)" "quiet s1 s2"
      by (rule fire_run [OF quietD(1) [OF s1(2)]])
    have "try_transition n t Escalate = (False, t)" for n
      using assms(2) Some by (cases "t_state t") (simp_all add: try_transition_cases)
    then have "escalate x k reason s = (Inr False, s2)"
      by (simp add: escalate_def bind_op_def s1(1) s2(1) Some ret_def)
    then show ?thesis using quiet_trans [OF s1(2) s2(2)] by blast
  qed
qed



section \<open>Terminal tasks\<close>

text \<open>How a stored task may change under the handlers: it keeps its identity, and once terminal also its
state and completion time.\<close>

definition evolved :: "(string \<Rightarrow> hmas_task option) \<Rightarrow> (string \<Rightarrow> hmas_task option) \<Rightarrow> bool" where
  "evolved v v' \<longleftrightarrow> (\<forall>k u. v k = Some u \<longrightarrow>
     (\<exists>u'. v' k = Some u' \<and> t_id u' = t_id u
        \<and> (is_terminal (t_state u) \<longrightarrow> t_state u' = t_state u \<and> t_completed_at u' = t_completed_at u)))"

lemma evolved_refl [simp]: "evolved v v"
  by (simp add: evolved_def)

lemma evolved_trans: "evolved v v1 \<Longrightarrow> evolved v1 v2 \<Longrightarrow> evolved v v2"
  unfolding evolved_def by metis

lemma evolved_upd:
  "v k = Some t \<Longrightarrow> t_id t' = t_id t \<Longrightarrow>
     (is_terminal (t_state t) \<Longrightarrow> t_state t' = t_state t \<and> t_completed_at t' = t_completed_at t) \<Longrightarrow>
     evolved v (v(k \<mapsto> t'))"
  by (auto simp: evolved_def)

lemma evolved_delegate_ready: "evolved v (delegate_ready v cs)"
  by (auto simp: evolved_def delegate_ready_def ready_child_def is_terminal_def)

datatype orch_event =
    Ev_Delegate string
  | Ev_Escalate string string
  | Ev_Completion "json option"
  | Ev_Started "json option"
  | Ev_Failed "json option"

fun orch_step :: "store_env \<Rightarrow> orch_event \<Rightarrow> orch \<Rightarrow> orch" where
  "orch_step x (Ev_Delegate k) s = snd (delegate x k s)"
| "orch_step x (Ev_Escalate k reason) s = snd (escalate x k reason s)"
| "orch_step x (Ev_Completion m) s = snd (on_myrmidon_completion x m s)"
| "orch_step x (Ev_Started m) s = snd (on_myrmidon_started x m s)"
| "orch_step x (Ev_Failed m) s = snd (on_myrmidon_failed x m s)"

definition orch_run :: "store_env \<Rightarrow> orch_event list \<Rightarrow> orch \<Rightarrow> orch" where
  "orch_run x es = fold (orch_step x) es"

definition good :: "orch \<Rightarrow> orch \<Rightarrow> bool" where
  "good s s' \<longleftrightarrow> mem s' \<and> ids_ok (view s') \<and> evolved (view s) (view s')"

lemma quiet_good: "ids_ok (view s) \<Longrightarrow> quiet s s' \<Longrightarrow> good s s'"
  by (simp add: good_def quiet_def)


lemma goodI:
  assumes "mem s'" and "ids_ok (view s)" and "view s' = (view s)(k \<mapsto> t')" and "view s k = Some t"
    and "t_id t' = t_id t" and "is_terminal (t_state t) \<Longrightarrow> t_state t' = t_state t \<and> t_completed_at t' = t_completed_at t"
  shows "good s s'"
proof -
  have "t_id t' = k" using assms(2,4,5) by (simp add: ids_ok_def)
  then show ?thesis
    using assms ids_ok_upd [of "view s" t' k] evolved_upd [of "view s" k t t'] by (simp add: good_def)
qed

lemma delegate_good:
  assumes "mem s" and "ids_ok (view s)"
  shows "good s (snd (delegate x k s))"
proof (cases "\<exists>t. view s k = Some t \<and> delegable t")
  case True
  then obtain t where t: "view s k = Some t" "delegable t" by blast
  with assms(2) have id: "t_id t = k" by (simp add: ids_ok_def)
  with t obtain s' where "delegate x k s = (Inr True, s')" "mem s'" "view s' = (view s)(k \<mapsto> delegated t)"
    using delegate_success [OF assms(1) t, of t x] by auto
  then show ?thesis
    using t assms(2) by (auto simp: delegable_def is_terminal_def intro!: goodI)
next
  case False
  then show ?thesis
    using delegate_refused [OF assms(1), of k x] quiet_good [OF assms(2)] by (metis snd_conv)
qed

lemma escalate_good:
  assumes "mem s" and "ids_ok (view s)"
  shows "good s (snd (escalate x k reason s))"
proof (cases "\<exists>t. view s k = Some t \<and> t_state t = InProgress")
  case True
  then obtain t where t: "view s k = Some t" "t_state t = InProgress" by blast
  with assms(2) have id: "t_id t = k" by (simp add: ids_ok_def)
  obtain now s' where "escalate x k reason s = (Inr True, s')" "mem s'"
      "view s' = (view s)(k \<mapsto> escalated reason now t)"
    using escalate_success [OF assms(1) t(1) id t(2), of x reason] by blast
  then show ?thesis
    using t assms(2) by (auto simp: escalated_def is_terminal_def intro!: goodI)
next
  case False
  then show ?thesis
    using escalate_refused [OF assms(1), of k x reason] quiet_good [OF assms(2)] by (metis snd_conv)
qed

text \<open>The flat-task operations leave the typed tasks and the mode of the store alone.\<close>

definition typed_part :: "hmas_task umap \<Rightarrow> bool \<Rightarrow> store \<Rightarrow> bool" where
  "typed_part m gh s \<longleftrightarrow> s_hmas_tasks s = m \<and> s_gh s = gh"

lemma typed_part_set [simp]:
  "typed_part m gh (set_coll c e s) = typed_part m gh s"
  "typed_part m gh (set_loaded c s) = typed_part m gh s"
  by (cases c; simp add: typed_part_def)+

lemma typed_part_basic [wf_intros]:
  "preserves (typed_part m gh) (put_entity c k e)"
  "preserves (typed_part m gh) (with_metrics f)"
  "preserves (typed_part m gh) (now_iso8601 x)"
  "preserves (typed_part m gh) (gh_request call reply)"
  "preserves (typed_part m gh) (modify (set_loaded c))"
  by (simp_all add: preserves_def put_entity_def with_metrics_def now_iso8601_def gh_request_def modify_def)
    (simp_all add: typed_part_def)

lemma typed_part_flat [wf_intros]:
  "preserves (typed_part m gh) (ensure_loaded x c)"
  "preserves (typed_part m gh) (sync_issue x ty e)"
  unfolding ensure_loaded_def merge_issue_def sync_issue_def with_issue_def list_issues_def
    update_issue_body_def Let_def split_def
  by (intro wf_intros)+

lemma mark_task_completed_typed: "preserves (typed_part m gh) (mark_task_completed x k)"
  unfolding mark_task_completed_def ensure_tasks_loaded_def Let_def by (intro wf_intros)

lemma mark_task_completed_quiet:
  "mem s \<Longrightarrow> ids_ok (view s) \<Longrightarrow> good s (snd (on_store (mark_task_completed x k) s))"
  using preservesD [OF mark_task_completed_typed, of "s_hmas_tasks (o_store s)" "s_gh (o_store s)" "o_store s" x k]
  by (simp add: typed_part_def on_store_def split_def good_def Let_def)


lemma completion_good:
  assumes "mem s" and "ids_ok (view s)"
  shows "good s (snd (on_myrmidon_completion x m s))"
proof (cases "\<exists>msg k. m = Some msg \<and> completion_task_id msg = Inr k \<and> k \<noteq> []")
  case False
  then have "snd (on_myrmidon_completion x m s) = s"
    by (cases m; cases "completion_task_id (the m)")
      (auto simp: on_myrmidon_completion_def catch_op_def throw_def ret_def bind_op_def lift_result_def)
  then show ?thesis using quiet_good [OF assms(2)] assms(1) by (simp add: quiet_def)
next
  case True
  then obtain msg k where msg: "m = Some msg" "completion_task_id msg = Inr k" "k \<noteq> []" by blast
  obtain s1 where s1: "on_store (get_hmas_task x k) s = (Inr (view s k), s1)" "quiet s s1"
    by (rule fetch_run [OF assms(1)])
  note v = quietD(2) [OF s1(2)]
  have eq: "snd (on_myrmidon_completion x m s) = snd (case view s k of
      None \<Rightarrow> on_store (mark_task_completed x k) s1 | Some t \<Rightarrow> complete_task x k t s1)"
    using msg s1(1)
    by (auto simp: on_myrmidon_completion_def catch_op_def bind_op_def lift_result_def ret_def
        split: option.split prod.split sum.split)
  have "good s1 (snd (on_myrmidon_completion x m s))"
  proof (cases "view s k")
    case None
    then show ?thesis
      using mark_task_completed_quiet [OF quietD(1) [OF s1(2)]] assms(2) v eq by simp
  next
    case (Some t)
    obtain now s2 where s2: "complete_task x k t s1 = (Inr (), s2)" "mem s2"
        "view s2 = delegate_ready ((view s1)(k \<mapsto> completed now t)) (t_child_task_ids t)"
      using complete_task_run [OF quietD(1) [OF s1(2)], of k t x] assms(2) v Some by auto
    let ?v = "(view s1)(k \<mapsto> completed now t)"
    have id: "t_id t = k" using assms(2) Some by (simp add: ids_ok_def)
    have "evolved (view s1) ?v"
      using Some v by (intro evolved_upd [where t = t]) (auto simp: completed_def)
    moreover have "ids_ok ?v" using ids_ok_upd assms(2) v id by (simp add: completed_fields)
    ultimately show ?thesis
      using s2 eq Some evolved_trans [OF _ evolved_delegate_ready] ids_ok_delegate_ready
      by (simp add: good_def)
  qed
  then show ?thesis using v by (simp add: good_def)
qed

text \<open>The frame the start and failure handlers share.\<close>

lemma handler_good:
  assumes "mem s" and "ids_ok (view s)"
    and body: "\<And>s k msg t. mem s \<Longrightarrow> ids_ok (view s) \<Longrightarrow> view s k = Some t \<Longrightarrow> good s (snd (body k msg t s))"
  shows "good s (snd (catch_op
       (case parsed of
          None \<Rightarrow> throw Parse_Error
        | Some msg \<Rightarrow>
            bind_op (lift_result (value_str msg ''task_id'' [])) (\<lambda>task_id.
            if task_id = [] then ret ()
            else
              bind_op (on_store (get_hmas_task x task_id)) (\<lambda>task_opt.
              case task_opt of
                None \<Rightarrow> ret ()
              | Some t0 \<Rightarrow> body task_id msg t0)))
       (\<lambda>e. ret ()) s))" (is "good s (snd (catch_op ?m _ s))")
proof -
  have snd_catch: "snd (catch_op m (\<lambda>e. ret ()) s) = snd (m s)" for m :: "(orch, unit) op"
    by (simp add: catch_op_def ret_def split: prod.split sum.split)
  have same: "good s s" using assms(1,2) by (simp add: good_def)
  show ?thesis
  proof (cases "\<exists>msg k. parsed = Some msg \<and> value_str msg ''task_id'' [] = Inr k \<and> k \<noteq> []")
    case False
    then have "snd (?m s) = s"
      by (cases parsed; cases "value_str (the parsed) ''task_id'' []")
        (auto simp: throw_def ret_def bind_op_def lift_result_def)
    then show ?thesis using same by (simp add: snd_catch)
  next
    case True
    then obtain msg k where msg: "parsed = Some msg" "value_str msg ''task_id'' [] = Inr k" "k \<noteq> []" by blast
    obtain s1 where s1: "on_store (get_hmas_task x k) s = (Inr (view s k), s1)" "quiet s s1"
      by (rule fetch_run [OF assms(1)])
    have ok: "ids_ok (view s1)" using assms(2) quietD(2) [OF s1(2)] by simp
    have "snd (?m s) = snd (case view s k of None \<Rightarrow> ret () s1 | Some t \<Rightarrow> body k msg t s1)"
      using msg s1(1) by (simp add: bind_op_def lift_result_def split: option.split)
    moreover have "good s1 \<dots>"
      using body [OF quietD(1) [OF s1(2)] ok] quietD [OF s1(2)] ok
      by (cases "view s k") (simp_all add: ret_def good_def)
    ultimately show ?thesis using quietD(2) [OF s1(2)] by (simp add: snd_catch good_def)
  qed
qed

lemma start_task_good:
  assumes "mem s" and "ids_ok (view s)" and "view s k = Some t"
  shows "good s (snd (start_task x k msg t s))"
proof (cases "\<exists>a h. value_str msg ''agent_id'' [] = Inr a \<and> value_str msg ''exec_host'' [] = Inr h")
  case True
  then obtain a h where ah: "value_str msg ''agent_id'' [] = Inr a" "value_str msg ''exec_host'' [] = Inr h" by blast
  have id: "t_id t = k" using assms(2,3) by (simp add: ids_ok_def)
  with assms(3) have "view s (t_id t) = Some t" by simp
  from start_task_run [OF assms(1) this ah, of x k] obtain s'
    where "start_task x k msg t s = (Inr (), s')" "mem s'" "view s' = (view s)(k \<mapsto> assigned a h (started t))"
    using id by auto
  then show ?thesis
    using assms(2,3) by (auto simp: assigned_def started_def intro!: goodI)
next
  case False
  obtain s1 where s1: "start_walk x t s = (Inr (started t), s1)" "quiet s s1"
    by (rule start_walk_run [OF assms(1)])
  have "snd (start_task x k msg t s) = s1"
    using False
    by (cases "value_str msg ''agent_id'' []"; cases "value_str msg ''exec_host'' []")
      (auto simp: start_task_def bind_op_def s1(1) lift_result_def)
  then show ?thesis using quiet_good [OF assms(2) s1(2)] by simp
qed

lemma fail_task_good:
  assumes "mem s" and "ids_ok (view s)" and "view s k = Some t"
  shows "good s (snd (fail_task x k msg t s))"
proof -
  have id: "t_id t = k" using assms(2,3) by (simp add: ids_ok_def)
  obtain now r s' where "fail_task x k msg t s = (r, s')" "mem s'" "view s' = (view s)(k \<mapsto> failed now t)"
    using fail_task_run [OF assms(1), of t t x k msg] assms(3) id by auto
  then show ?thesis using assms(2,3) by (auto simp: failed_def intro!: goodI)
qed

lemma orch_step_good: "mem s \<Longrightarrow> ids_ok (view s) \<Longrightarrow> good s (orch_step x e s)"
  by (cases e)
    (simp_all add: delegate_good escalate_good completion_good on_myrmidon_started_def
      on_myrmidon_failed_def handler_good start_task_good fail_task_good)

interpretation orch_runs: stepping "orch_step x" "\<lambda>_. True"
  "\<lambda>s'. mem s' \<and> ids_ok (view s') \<and> evolved v (view s')"
  for x v
  using orch_step_good evolved_trans by unfold_locales (auto simp: good_def)

text \<open>C1: No sequence of delegations, escalations and worker reports, in any order and with any payloads,
loses a task or reopens a finished one: every stored task stays stored under its identifier, and a task
that is completed or failed keeps that state and its completion time.\<close>

theorem terminal_tasks_stay_terminal:
  assumes "mem s" and "ids_ok (view s)" and "view s k = Some t"
  shows "\<exists>t'. view (orch_run x es s) k = Some t' \<and> t_id t' = k
     \<and> (t_state t = Completed \<or> t_state t = Failed \<longrightarrow>
          t_state t' = t_state t \<and> t_completed_at t' = t_completed_at t)"
proof -
  have "evolved (view s) (view (orch_run x es s))"
    using orch_runs.run_inv [of s "view s" es x] assms(1,2) by (simp add: list_all_iff orch_run_def)
  then show ?thesis
    using assms(2,3) unfolding evolved_def ids_ok_def is_terminal_def by metis
qed

theorem terminal_tasks_stay_terminal_witness:
  "\<exists>t'. view (orch_run example_env
       [Ev_Completion (Some (jobj [(''task_id'', JStr ''r'')])), Ev_Failed (Some (jobj [(''task_id'', JStr ''r'')])),
        Ev_Delegate ''r'', Ev_Completion None]
       (example_pair\<lparr>o_store := (o_store example_pair)\<lparr>s_hmas_tasks :=
          [(''r'', (new_task L0_ChiefArchitect Completed)\<lparr>t_id := ''r'', t_completed_at := ''t9''\<rparr>)]\<rparr>\<rparr>)) ''r'' = Some t'
     \<and> t_state t' = Completed \<and> t_completed_at t' = ''t9''"
proof -
  let ?s = "example_pair\<lparr>o_store := (o_store example_pair)\<lparr>s_hmas_tasks :=
          [(''r'', (new_task L0_ChiefArchitect Completed)\<lparr>t_id := ''r'', t_completed_at := ''t9''\<rparr>)]\<rparr>\<rparr>"
  have "mem ?s" "ids_ok (view ?s)"
    "view ?s ''r'' = Some ((new_task L0_ChiefArchitect Completed)\<lparr>t_id := ''r'', t_completed_at := ''t9''\<rparr>)"
    by (simp_all add: example_pair_def new_store_def ids_ok_def)
  from terminal_tasks_stay_terminal [OF this] show ?thesis by (auto simp: new_task_def)
qed


section \<open>Submission\<close>















section \<open>Sequential siblings\<close>




end
