(* ===== verification/Circuit_Breaker.thy ===== *)
theory Circuit_Breaker
  imports Prelude
begin

text \<open>
  The three-state circuit breaker of \<open>src/circuit_breaker.cpp\<close>. Every method is one function on
  the object state; the steady-clock reading (milliseconds) it makes is an argument. The failure
  counter is a 32-bit integer and wraps.
\<close>

datatype cb_state = Closed | Open | HalfOpen

record breaker_config =
  c_failure_threshold :: int
  c_probe_interval :: int

record breaker =
  cb_cfg :: breaker_config
  cb_st :: cb_state
  cb_failure_count :: int
  cb_open_since :: int

definition default_config :: breaker_config where
  "default_config = \<lparr>c_failure_threshold = 5, c_probe_interval = 30000\<rparr>"

definition new_breaker :: "breaker_config \<Rightarrow> breaker" where
  "new_breaker cfg = \<lparr>cb_cfg = cfg, cb_st = Closed, cb_failure_count = 0, cb_open_since = 0\<rparr>"

definition transition_to_open :: "int \<Rightarrow> breaker \<Rightarrow> breaker" where
  "transition_to_open now b = b\<lparr>cb_open_since := now, cb_st := Open\<rparr>"

definition allow_attempt :: "int \<Rightarrow> breaker \<Rightarrow> bool \<times> breaker" where
  "allow_attempt now b =
     (case cb_st b of
        Closed \<Rightarrow> (True, b)
      | Open \<Rightarrow>
          (let elapsed = now - cb_open_since b
           in if c_probe_interval (cb_cfg b) \<le> elapsed
              then (True, b\<lparr>cb_st := HalfOpen\<rparr>)
              else (False, b))
      | HalfOpen \<Rightarrow> (True, b))"

definition record_success :: "breaker \<Rightarrow> breaker" where
  "record_success b = b\<lparr>cb_failure_count := 0, cb_st := Closed\<rparr>"

definition record_failure :: "int \<Rightarrow> breaker \<Rightarrow> breaker" where
  "record_failure now b =
     (let count = wrap32 (cb_failure_count b + 1);
          b1 = b\<lparr>cb_failure_count := count\<rparr>
      in if cb_st b1 = HalfOpen then transition_to_open now b1
         else if cb_st b1 = Closed \<and> c_failure_threshold (cb_cfg b1) \<le> count
         then transition_to_open now b1
         else b1)"

fun state_label :: "cb_state \<Rightarrow> string" where
  "state_label Closed = ''closed''"
| "state_label Open = ''open''"
| "state_label HalfOpen = ''half_open''"

section \<open>The documented transitions\<close>

text \<open>The four transitions the class comment lists, over abstract states and the operation made.\<close>

datatype cb_op = Allow int | Success | Failure int

fun cb_step :: "cb_op \<Rightarrow> breaker \<Rightarrow> breaker" where
  "cb_step (Allow now) b = snd (allow_attempt now b)"
| "cb_step Success b = record_success b"
| "cb_step (Failure now) b = record_failure now b"

inductive cb_move :: "cb_state \<Rightarrow> cb_state \<Rightarrow> bool" where
  trip: "cb_move Closed Open"
| probe: "cb_move Open HalfOpen"
| restored: "cb_move HalfOpen Closed"
| failed_probe: "cb_move HalfOpen Open"

code_pred cb_move .

inductive_simps cb_move_simps: "cb_move s s'"

lemma record_failure_cfg [simp]: "cb_cfg (record_failure now b) = cb_cfg b"
  by (simp add: record_failure_def transition_to_open_def Let_def)

lemma record_success_cfg [simp]: "cb_cfg (record_success b) = cb_cfg b"
  by (simp add: record_success_def)

lemma allow_attempt_cfg [simp]: "cb_cfg (snd (allow_attempt now b)) = cb_cfg b"
  by (simp add: allow_attempt_def Let_def split: cb_state.split)

lemma refused_unchanged: "\<not> fst (allow_attempt now b) \<Longrightarrow> snd (allow_attempt now b) = b"
  by (auto simp: allow_attempt_def Let_def split: cb_state.splits if_splits)

lemma allowed_not_open: "fst (allow_attempt now b) \<Longrightarrow> cb_st (snd (allow_attempt now b)) \<noteq> Open"
  by (auto simp: allow_attempt_def Let_def split: cb_state.splits if_splits)

lemma refused_iff:
  "\<not> fst (allow_attempt now b) \<longleftrightarrow>
     cb_st b = Open \<and> now < cb_open_since b + c_probe_interval (cb_cfg b)"
  by (auto simp: allow_attempt_def Let_def split: cb_state.splits)

text \<open>A caller that reports outcomes only of attempts it was allowed to make drives the breaker
along the documented transitions only: each operation keeps the state or makes one of the four moves,
and an outcome of a probe always leaves the half-open state.\<close>

lemma breaker_moves_documented:
  assumes "cb_st b \<noteq> Open \<or> (\<exists>now. oper = Allow now)"
  shows "(cb_st (cb_step oper b) = cb_st b \<or> cb_move (cb_st b) (cb_st (cb_step oper b)))
     \<and> (cb_st b = HalfOpen \<and> oper = Success \<longrightarrow> cb_st (cb_step oper b) = Closed)
     \<and> (cb_st b = HalfOpen \<and> oper = Failure t \<longrightarrow>
          cb_st (cb_step oper b) = Open \<and> cb_open_since (cb_step oper b) = t)"
  using assms
  by (cases oper; cases "cb_st b")
    (auto simp: cb_move_simps allow_attempt_def record_success_def record_failure_def
      transition_to_open_def Let_def)

lemma breaker_moves_documented_witness:
  "cb_st (cb_step (Failure 9) ((new_breaker default_config)\<lparr>cb_st := HalfOpen\<rparr>)) = Open
     \<and> cb_open_since (cb_step (Failure 9) ((new_breaker default_config)\<lparr>cb_st := HalfOpen\<rparr>)) = 9"
  using breaker_moves_documented [of "(new_breaker default_config)\<lparr>cb_st := HalfOpen\<rparr>" "Failure 9" 9]
  by simp

section \<open>Tripping\<close>

text \<open>Consecutive failures, at the given clock readings.\<close>

abbreviation failures :: "int list \<Rightarrow> breaker \<Rightarrow> breaker" where
  "failures \<equiv> fold record_failure"

lemma failures_cfg [simp]: "cb_cfg (failures nows b) = cb_cfg b"
  by (induction nows arbitrary: b) auto

lemma failures_closed:
  assumes "cb_st b = Closed" and "0 \<le> cb_failure_count b"
    and "cb_failure_count b + int (length nows) < c_failure_threshold (cb_cfg b)"
    and "c_failure_threshold (cb_cfg b) \<le> INT_MAX"
  shows "cb_st (failures nows b) = Closed
     \<and> cb_failure_count (failures nows b) = cb_failure_count b + int (length nows)"
  using assms
proof (induction nows arbitrary: b)
  case (Cons now nows)
  have w: "wrap32 (cb_failure_count b + 1) = cb_failure_count b + 1"
    using Cons.prems by (intro wrap32_id) (auto simp: INT_MIN_def)
  with Cons.prems have "record_failure now b = b\<lparr>cb_failure_count := cb_failure_count b + 1\<rparr>"
    by (simp add: record_failure_def Let_def)
  then show ?case using Cons.IH [of "record_failure now b"] Cons.prems by simp
qed simp

text \<open>The breaker trips at the threshold and not before. From a fresh breaker, any run of fewer
failures than the threshold leaves it closed and admitting; the failure that reaches the threshold
opens it, and until the probe interval has passed since that failure every attempt is refused.\<close>

lemma breaker_trips_at_threshold:
  assumes "0 < c_failure_threshold cfg" and "c_failure_threshold cfg \<le> INT_MAX"
    and "int (length nows) + 1 = c_failure_threshold cfg"
    and "k \<le> length nows"
  shows "cb_st (failures (take k nows) (new_breaker cfg)) = Closed
    \<and> fst (allow_attempt t (failures (take k nows) (new_breaker cfg)))
    \<and> (fst (allow_attempt t (failures (nows @ [now]) (new_breaker cfg)))
         \<longleftrightarrow> now + c_probe_interval cfg \<le> t)"
proof -
  let ?b = "new_breaker cfg"
  have closed: "cb_st (failures (take k nows) ?b) = Closed"
    using failures_closed [of ?b "take k nows"] assms by (simp add: new_breaker_def)
  have full: "cb_st (failures nows ?b) = Closed" "cb_failure_count (failures nows ?b) = int (length nows)"
    using failures_closed [of ?b nows] assms by (simp_all add: new_breaker_def)
  have w: "wrap32 (int (length nows) + 1) = int (length nows) + 1"
    using assms by (intro wrap32_id) (auto simp: INT_MIN_def)
  have "cb_st (failures (nows @ [now]) ?b) = Open \<and> cb_open_since (failures (nows @ [now]) ?b) = now"
    using full assms(3) w by (simp add: record_failure_def Let_def transition_to_open_def new_breaker_def)
  then show ?thesis
    using closed refused_iff [of t "failures (nows @ [now]) ?b"]
    by (auto simp: allow_attempt_def new_breaker_def)
qed

lemma breaker_trips_at_threshold_witness:
  "cb_st (failures [1, 2, 3, 4] (new_breaker default_config)) = Closed
     \<and> \<not> fst (allow_attempt 30004 (failures [1, 2, 3, 4, 5] (new_breaker default_config)))
     \<and> fst (allow_attempt 30005 (failures [1, 2, 3, 4, 5] (new_breaker default_config)))"
  using breaker_trips_at_threshold [of default_config "[1, 2, 3, 4]" 4 30004 5]
    breaker_trips_at_threshold [of default_config "[1, 2, 3, 4]" 4 30005 5]
  by (simp add: default_config_def INT_MAX_def)

end
