(* ===== verification/Dead_Letter.thy ===== *)
theory Dead_Letter
  imports Prelude
begin

text \<open>
  The bounded dead-letter queue of \<open>src/dead_letter_queue.cpp\<close>. The clock reading \<open>push\<close> makes is
  an argument. With capacity 0 the source calls \<open>pop_front\<close> on an empty deque, which has no defined
  result; the claims below are about positive capacities.
\<close>

record dlq_entry =
  d_subject :: string
  d_payload :: string
  d_attempts :: int
  d_timestamp_ms :: int
  d_level :: string
  d_service :: string

record dlq =
  q_capacity :: nat
  q_entries :: "dlq_entry list"

definition new_dlq :: "nat \<Rightarrow> dlq" where
  "new_dlq capacity = \<lparr>q_capacity = capacity, q_entries = []\<rparr>"

definition mk_entry :: "string \<Rightarrow> string \<Rightarrow> int \<Rightarrow> int \<Rightarrow> string \<Rightarrow> string \<Rightarrow> dlq_entry" where
  "mk_entry subject payload attempts now level service =
     \<lparr>d_subject = subject, d_payload = payload, d_attempts = attempts, d_timestamp_ms = now,
      d_level = level, d_service = service\<rparr>"

definition dlq_push :: "dlq_entry \<Rightarrow> dlq \<Rightarrow> dlq" where
  "dlq_push e q =
     (let kept = (if q_capacity q \<le> length (q_entries q) then tl (q_entries q) else q_entries q)
      in q\<lparr>q_entries := kept @ [e]\<rparr>)"

definition drain :: "dlq \<Rightarrow> dlq_entry list \<times> dlq" where
  "drain q = (q_entries q, q\<lparr>q_entries := []\<rparr>)"

definition clear :: "dlq \<Rightarrow> dlq" where
  "clear q = q\<lparr>q_entries := []\<rparr>"

definition dlq_size :: "dlq \<Rightarrow> nat" where
  "dlq_size q = length (q_entries q)"

definition dlq_empty :: "dlq \<Rightarrow> bool" where
  "dlq_empty q \<longleftrightarrow> q_entries q = []"

section \<open>Bounded buffers\<close>

text \<open>
  The contract of a buffer that keeps the most recent elements: a push appends, and drops the
  oldest element once the bound is reached.
\<close>

definition last_n :: "nat \<Rightarrow> 'a list \<Rightarrow> 'a list" where
  "last_n n xs = drop (length xs - n) xs"

lemma last_n_short [simp]: "length xs \<le> n \<Longrightarrow> last_n n xs = xs"
  by (simp add: last_n_def)

lemma length_last_n [simp]: "length (last_n n xs) = min n (length xs)"
  by (simp add: last_n_def)

lemma last_n_append: "last_n n (last_n n xs @ ys) = last_n n (xs @ ys)"
  by (cases "n \<le> length xs") (simp_all add: last_n_def add.commute)

lemma suffix_last_n: "suffix (last_n n xs) xs"
  by (simp add: last_n_def suffix_drop)

locale recent_buffer =
  fixes push :: "'a \<Rightarrow> 'q \<Rightarrow> 'q"
    and contents :: "'q \<Rightarrow> 'a list"
    and bound :: "'q \<Rightarrow> nat"
    and valid :: "'q \<Rightarrow> bool"
  assumes contents_push: "valid q \<Longrightarrow> contents (push x q) = last_n (bound q) (contents q @ [x])"
    and bound_push: "bound (push x q) = bound q"
    and valid_push: "valid q \<Longrightarrow> valid (push x q)"
    and valid_bound: "valid q \<Longrightarrow> length (contents q) \<le> bound q"
begin

lemma pushes_valid: "valid q \<Longrightarrow> valid (fold push xs q)"
  by (induction xs arbitrary: q) (auto simp: valid_push)

lemma pushes_bound: "bound (fold push xs q) = bound q"
  by (induction xs arbitrary: q) (auto simp: bound_push)

lemma pushes_contents: "valid q \<Longrightarrow> contents (fold push xs q) = last_n (bound q) (contents q @ xs)"
proof (induction xs arbitrary: q)
  case Nil
  then show ?case using valid_bound by simp
next
  case (Cons x xs)
  then show ?case using last_n_append [of "bound q" "contents q @ [x]" xs]
    by (simp add: valid_push contents_push bound_push)
qed

lemma newest_kept: "valid q \<Longrightarrow> 0 < bound q \<Longrightarrow> last (contents (push x q)) = x"
  by (simp add: contents_push last_n_def)

end

definition dlq_valid :: "dlq \<Rightarrow> bool" where
  "dlq_valid q \<longleftrightarrow> 0 < q_capacity q \<and> length (q_entries q) \<le> q_capacity q"

interpretation dead: recent_buffer dlq_push q_entries q_capacity dlq_valid
proof
  fix q x
  assume "dlq_valid q"
  then show "q_entries (dlq_push x q) = last_n (q_capacity q) (q_entries q @ [x])"
    by (cases "q_entries q") (auto simp: dlq_push_def dlq_valid_def last_n_def Let_def Suc_diff_le)
  show "dlq_valid (dlq_push x q)"
    using \<open>dlq_valid q\<close> by (auto simp: dlq_push_def dlq_valid_def Let_def)
qed (auto simp: dlq_push_def dlq_valid_def Let_def)

text \<open>The queue holds the most recent messages: draining a new queue of positive capacity after any
sequence of pushes returns the last \<open>capacity\<close> pushed entries, oldest first, and leaves it empty.\<close>

lemma drain_after_pushes:
  assumes "0 < capacity"
  shows "fst (drain (fold dlq_push es (new_dlq capacity))) = last_n capacity es
    \<and> dlq_size (fold dlq_push es (new_dlq capacity)) = min capacity (length es)
    \<and> dlq_empty (snd (drain (fold dlq_push es (new_dlq capacity))))"
  using dead.pushes_contents [of "new_dlq capacity" es] assms
  by (simp add: drain_def dlq_size_def dlq_empty_def new_dlq_def dlq_valid_def)

lemma drain_after_pushes_witness:
  "fst (drain (fold dlq_push (map (\<lambda>n. mk_entry ''s'' [] n 0 [] []) [1, 2, 3]) (new_dlq 2)))
     = map (\<lambda>n. mk_entry ''s'' [] n 0 [] []) [2, 3]"
  using drain_after_pushes [of 2 "map (\<lambda>n. mk_entry ''s'' [] n 0 [] []) [1, 2, 3]"]
  by (simp add: last_n_def)

end
