(* ===== verification/Nats_Client.thy ===== *)
theory Nats_Client
  imports Json Metrics Circuit_Breaker Dead_Letter
begin

text \<open>
  The NATS publisher of \<open>src/nats_client.cpp\<close>: connection flags, the publish loop with retries and
  exponential backoff, the circuit breaker around it and the dead-letter queue behind it. What the
  nats.c library answers, the clocks, the environment and \<open>json::dump\<close> are the fields of a
  \<open>nats_world\<close>, an argument of every operation; \<open>w_publish w k\<close> is the status of the \<open>k\<close>-th publish
  call and \<open>w_clock w k\<close> the \<open>k\<close>-th clock reading. The client records the messages nats.c accepted,
  the number of publish calls, and the delays it slept.
\<close>

datatype nats_status =
    NATS_OK
  | NATS_CONNECTION_CLOSED
  | NATS_CONNECTION_DISCONNECTED
  | NATS_IO_ERROR
  | NATS_NO_SERVER
  | NATS_TIMEOUT
  | NATS_OTHER nat

record nats_world =
  w_getenv :: "string \<Rightarrow> string option"
  w_connect :: nats_status
  w_connect_to :: "string \<Rightarrow> nats_status"
  w_jetstream :: nats_status
  w_publish :: "nat \<Rightarrow> bool \<Rightarrow> string \<Rightarrow> string \<Rightarrow> nats_status"
  w_subscribe :: "string \<Rightarrow> nats_status"
  w_add_stream :: "string \<Rightarrow> string \<Rightarrow> nats_status"
  w_clock :: "nat \<Rightarrow> int"
  w_system_time :: real
  w_dump :: "json \<Rightarrow> string"

record nats_client =
  n_metrics :: "metrics option"
  n_url :: string
  n_conn :: bool
  n_js :: bool
  n_connected :: bool
  n_breaker :: breaker
  n_dlq :: dlq
  n_calls :: nat
  n_ticks :: nat
  n_delivered :: "(string \<times> string) list"
  n_slept :: "int list"
  n_subscriptions :: "string list"
  n_streams :: "(string \<times> string \<times> int \<times> int) list"

definition kMaxRetries :: nat where
  "kMaxRetries = 3"

definition kBaseRetryMs :: int where
  "kBaseRetryMs = 50"

definition new_client :: "string \<Rightarrow> breaker_config \<Rightarrow> nat \<Rightarrow> nats_client" where
  "new_client url cfg dlq_capacity =
     \<lparr>n_metrics = None, n_url = url, n_conn = False, n_js = False, n_connected = False,
      n_breaker = new_breaker cfg, n_dlq = new_dlq dlq_capacity, n_calls = 0, n_ticks = 0,
      n_delivered = [], n_slept = [], n_subscriptions = [], n_streams = []\<rparr>"

fun is_infra_error :: "nats_status \<Rightarrow> bool" where
  "is_infra_error NATS_CONNECTION_CLOSED = True"
| "is_infra_error NATS_CONNECTION_DISCONNECTED = True"
| "is_infra_error NATS_IO_ERROR = True"
| "is_infra_error NATS_NO_SERVER = True"
| "is_infra_error NATS_TIMEOUT = True"
| "is_infra_error _ = False"

definition effective_retry_base_ms :: "nats_world \<Rightarrow> int" where
  "effective_retry_base_ms w =
     (case w_getenv w ''AGAMEMNON_NATS_RETRY_BASE_MS'' of
        None \<Rightarrow> kBaseRetryMs
      | Some env \<Rightarrow>
          (case stoi env of
             Inl e \<Rightarrow> kBaseRetryMs
           | Inr val \<Rightarrow> if 0 \<le> val then val else kBaseRetryMs))"

section \<open>Connection\<close>

definition set_connected :: "bool \<Rightarrow> nats_client \<Rightarrow> nats_client" where
  "set_connected b c =
     c\<lparr>n_connected := b, n_metrics := map_option (set_nats_connected b) (n_metrics c)\<rparr>"

definition connect :: "nats_world \<Rightarrow> nats_client \<Rightarrow> bool \<times> nats_client" where
  "connect w c =
     (let s = (if w_connect w \<noteq> NATS_OK then w_connect_to w (n_url c) else NATS_OK)
      in if s \<noteq> NATS_OK then (False, set_connected False c)
         else
           let c1 = set_connected True (c\<lparr>n_conn := True\<rparr>)
           in (True, if w_jetstream w \<noteq> NATS_OK then c1 else c1\<lparr>n_js := True\<rparr>))"

definition close_client :: "nats_client \<Rightarrow> nats_client" where
  "close_client c = set_connected False (c\<lparr>n_js := False, n_conn := False\<rparr>)"

definition kStreams :: "(string \<times> string) list" where
  "kStreams =
     [(''homeric-agents'', ''hi.agents.>''), (''homeric-tasks'', ''hi.tasks.>''),
      (''homeric-myrmidon'', ''hi.myrmidon.>''), (''homeric-research'', ''hi.research.>''),
      (''homeric-pipeline'', ''hi.pipeline.>''), (''homeric-logs'', ''hi.logs.>'')]"

text \<open>\<open>std::stoll\<close>, and the products with the unit factors modulo \<open>2 ^ 64\<close>.\<close>

definition wrap64 :: "int \<Rightarrow> int" where
  "wrap64 i = (i + 2 ^ 63) mod 2 ^ 64 - 2 ^ 63"

definition stoll :: "string \<Rightarrow> int result" where
  "stoll s =
     (let (neg, u) = split_sign (dropWhile is_space s); ds = takeWhile is_digit u in
      if ds = [] then Inl (Invalid_Argument ''stoll'')
      else let v = (if neg then - int (nat_of_digits ds) else int (nat_of_digits ds)) in
        if v < - (2 ^ 63) \<or> 2 ^ 63 \<le> v then Inl Out_Of_Range else Inr v)"

definition env_int64 :: "nats_world \<Rightarrow> string \<Rightarrow> int \<Rightarrow> int result" where
  "env_int64 w name def_val =
     (case w_getenv w name of None \<Rightarrow> Inr def_val | Some v \<Rightarrow> stoll v)"

definition ensure_streams :: "nats_world \<Rightarrow> (nats_client, unit) op" where
  "ensure_streams w c =
     (if \<not> n_connected c \<or> \<not> n_js c then (Inr (), c)
      else case env_int64 w ''NATS_STREAM_MAX_BYTES_MB'' 50 of
        Inl e \<Rightarrow> (Inl e, c)
      | Inr mb \<Rightarrow>
          (case env_int64 w ''NATS_STREAM_MAX_AGE_SEC'' 3600 of
             Inl e \<Rightarrow> (Inl e, c)
           | Inr sec \<Rightarrow>
               let max_bytes = wrap64 (mb * 1024 * 1024); max_age = wrap64 (sec * 1000000000);
                   created = filter (\<lambda>(name, subject). w_add_stream w name subject = NATS_OK) kStreams
               in (Inr (), c\<lparr>n_streams := n_streams c
                     @ map (\<lambda>(name, subject). (name, subject, max_bytes, max_age)) created\<rparr>)))"

definition subscribe :: "nats_world \<Rightarrow> string \<Rightarrow> nats_client \<Rightarrow> bool \<times> nats_client" where
  "subscribe w subject c =
     (if \<not> n_connected c \<or> \<not> n_conn c then (False, c)
      else if w_subscribe w subject \<noteq> NATS_OK then (False, c)
      else (True, c\<lparr>n_subscriptions := n_subscriptions c @ [subject]\<rparr>))"

section \<open>Publishing\<close>

definition do_publish_once ::
    "nats_world \<Rightarrow> string \<Rightarrow> string \<Rightarrow> nats_client \<Rightarrow> nats_status \<times> nats_client" where
  "do_publish_once w subject payload c =
     (let s = w_publish w (n_calls c) (n_js c) subject payload
      in (s, c\<lparr>n_calls := Suc (n_calls c),
               n_delivered := n_delivered c @ (if s = NATS_OK then [(subject, payload)] else [])\<rparr>))"

definition breaker_allow :: "nats_world \<Rightarrow> nats_client \<Rightarrow> bool \<times> nats_client" where
  "breaker_allow w c =
     (let (ok, b) = allow_attempt (w_clock w (n_ticks c)) (n_breaker c)
      in (ok, c\<lparr>n_breaker := b, n_ticks := Suc (n_ticks c)\<rparr>))"

definition breaker_success :: "nats_client \<Rightarrow> nats_client" where
  "breaker_success c = c\<lparr>n_breaker := record_success (n_breaker c)\<rparr>"

definition breaker_failure :: "nats_world \<Rightarrow> nats_client \<Rightarrow> nats_client" where
  "breaker_failure w c =
     c\<lparr>n_breaker := record_failure (w_clock w (n_ticks c)) (n_breaker c), n_ticks := Suc (n_ticks c)\<rparr>"

definition dead_letter ::
    "nats_world \<Rightarrow> string \<Rightarrow> string \<Rightarrow> nat \<Rightarrow> string \<Rightarrow> string \<Rightarrow> nats_client \<Rightarrow> nats_client" where
  "dead_letter w subject payload attempts level service c =
     c\<lparr>n_dlq := dlq_push (mk_entry subject payload (int attempts) (w_clock w (n_ticks c)) level service)
                  (n_dlq c),
       n_ticks := Suc (n_ticks c)\<rparr>"

text \<open>The \<open>for\<close> loop shared by \<open>publish\<close> (empty level and service) and \<open>publish_log\<close>.\<close>

function publish_loop ::
    "nats_world \<Rightarrow> string \<Rightarrow> string \<Rightarrow> string \<Rightarrow> string \<Rightarrow> nat \<Rightarrow> int \<Rightarrow> nats_client
       \<Rightarrow> bool \<times> nats_client" where
  "publish_loop w subject payload level service attempt delay_ms c =
     (if kMaxRetries < attempt then (False, c)
      else
        let (s, c1) = do_publish_once w subject payload c
        in if s = NATS_OK then (True, breaker_success c1)
           else if \<not> is_infra_error s \<or> attempt = kMaxRetries
           then (False, dead_letter w subject payload attempt level service (breaker_failure w c1))
           else publish_loop w subject payload level service (Suc attempt) (wrap32 (delay_ms * 2))
                  (if 0 < delay_ms then c1\<lparr>n_slept := n_slept c1 @ [delay_ms]\<rparr> else c1))"
  by pat_completeness auto
termination
  by (relation "measure (\<lambda>(w, subject, payload, level, service, attempt, delay, c). Suc kMaxRetries - attempt)")
    auto

declare publish_loop.simps [simp del]

definition publish :: "nats_world \<Rightarrow> string \<Rightarrow> string \<Rightarrow> nats_client \<Rightarrow> bool \<times> nats_client" where
  "publish w subject payload c =
     (if \<not> n_connected c \<or> \<not> n_conn c then (False, c)
      else
        let (ok, c1) = breaker_allow w c
        in if \<not> ok then (False, dead_letter w subject payload 0 [] [] c1)
           else publish_loop w subject payload [] [] 1 (effective_retry_base_ms w) c1)"

definition log_payload :: "real \<Rightarrow> string \<Rightarrow> string \<Rightarrow> json \<Rightarrow> json" where
  "log_payload ts level message metadata =
     jobj [(''timestamp'', JReal ts), (''service'', JStr ''agamemnon''), (''level'', JStr level),
           (''message'', JStr message), (''metadata'', metadata)]"

definition publish_log ::
    "nats_world \<Rightarrow> string \<Rightarrow> string \<Rightarrow> string \<Rightarrow> json \<Rightarrow> nats_client \<Rightarrow> nats_client" where
  "publish_log w subject level message metadata c =
     (let service = ''agamemnon'';
          payload_str = w_dump w (log_payload (w_system_time w) level message metadata)
      in if \<not> n_connected c \<or> \<not> n_conn c
         then dead_letter w subject payload_str 0 level service c
         else
           let (ok, c1) = breaker_allow w c
           in if \<not> ok then dead_letter w subject payload_str 0 level service c1
              else snd (publish_loop w subject payload_str level service 1 (effective_retry_base_ms w) c1))"

section \<open>Accounting for messages\<close>

text \<open>
  A connected client with a usable queue. One call changes it in one of two ways: nats.c accepted
  the message, or the message went to the dead-letter queue.
\<close>

definition ready :: "nats_client \<Rightarrow> bool" where
  "ready c \<longleftrightarrow> n_connected c \<and> n_conn c \<and> dlq_valid (n_dlq c)"

definition accepted :: "string \<Rightarrow> string \<Rightarrow> nats_client \<Rightarrow> nats_client \<Rightarrow> bool" where
  "accepted subject payload c c' \<longleftrightarrow>
     n_delivered c' = n_delivered c @ [(subject, payload)] \<and> n_dlq c' = n_dlq c
     \<and> cb_st (n_breaker c') = Closed \<and> cb_failure_count (n_breaker c') = 0"

definition dead_lettered :: "string \<Rightarrow> string \<Rightarrow> string \<Rightarrow> string \<Rightarrow> nats_client \<Rightarrow> nats_client \<Rightarrow> bool" where
  "dead_lettered subject payload level service c c' \<longleftrightarrow>
     n_delivered c' = n_delivered c \<and>
     (\<exists>now. n_dlq c' = dlq_push
        (mk_entry subject payload (int (n_calls c' - n_calls c)) now level service) (n_dlq c))"

definition outcome :: "string \<Rightarrow> string \<Rightarrow> string \<Rightarrow> string \<Rightarrow> bool \<Rightarrow> nats_client \<Rightarrow> nats_client \<Rightarrow> bool" where
  "outcome subject payload level service ok c c' \<longleftrightarrow>
     (if ok then accepted subject payload c c' else dead_lettered subject payload level service c c')"

definition same_link :: "nats_client \<Rightarrow> nats_client \<Rightarrow> bool" where
  "same_link c c' \<longleftrightarrow> n_connected c' = n_connected c \<and> n_conn c' = n_conn c"

lemmas client_ops = do_publish_once_def breaker_success_def breaker_failure_def dead_letter_def
  record_success_def same_link_def Let_def

lemma publish_loop_outcome:
  assumes "publish_loop w subject payload level service attempt delay c = (ok, c')"
    and "1 \<le> attempt" and "attempt \<le> kMaxRetries" and "n_calls c = n0 + (attempt - 1)"
  shows "same_link c c' \<and> n_calls c < n_calls c' \<and> n_calls c' \<le> n0 + kMaxRetries
     \<and> (if ok then accepted subject payload c c'
        else n_delivered c' = n_delivered c \<and> (\<exists>now. n_dlq c' = dlq_push
          (mk_entry subject payload (int (n_calls c' - n0)) now level service) (n_dlq c)))"
  using assms
proof (induction w subject payload level service attempt delay c rule: publish_loop.induct)
  case (1 w subject payload level service attempt delay c)
  obtain s c1 where once: "do_publish_once w subject payload c = (s, c1)" by fastforce
  have c1: "c1 = c\<lparr>n_calls := Suc (n_calls c),
      n_delivered := n_delivered c @ (if s = NATS_OK then [(subject, payload)] else [])\<rparr>"
    using once by (auto simp: do_publish_once_def Let_def)
  consider (ok) "s = NATS_OK" | (stop) "s \<noteq> NATS_OK" "\<not> is_infra_error s \<or> attempt = kMaxRetries"
    | (retry) "s \<noteq> NATS_OK" "is_infra_error s" "attempt \<noteq> kMaxRetries" by blast
  then show ?case
  proof cases
    case ok
    then show ?thesis
      using "1.prems" once c1
      by (subst (asm) publish_loop.simps) (auto simp: client_ops accepted_def)
  next
    case stop
    then show ?thesis
      using "1.prems" once c1
      by (subst (asm) publish_loop.simps) (auto simp: client_ops)
  next
    case retry
    let ?c2 = "if 0 < delay then c1\<lparr>n_slept := n_slept c1 @ [delay]\<rparr> else c1"
    have "publish_loop w subject payload level service (Suc attempt) (wrap32 (delay * 2)) ?c2 = (ok, c')"
      using "1.prems" once retry by (subst (asm) publish_loop.simps) simp
    then have "same_link ?c2 c' \<and> n_calls ?c2 < n_calls c' \<and> n_calls c' \<le> n0 + kMaxRetries
     \<and> (if ok then accepted subject payload ?c2 c'
        else n_delivered c' = n_delivered ?c2 \<and> (\<exists>now. n_dlq c' = dlq_push
          (mk_entry subject payload (int (n_calls c' - n0)) now level service) (n_dlq ?c2)))"
      by (rule "1.IH" [OF _ once [symmetric] refl, rotated 3])
        (use "1.prems" retry c1 in auto)
    moreover have "n_calls ?c2 = Suc (n_calls c)" "n_delivered ?c2 = n_delivered c" "n_dlq ?c2 = n_dlq c"
      "same_link c c' = same_link ?c2 c'"
      using retry(1) c1 by (simp_all add: same_link_def)
    ultimately show ?thesis by (auto simp: accepted_def)
  qed
qed


lemma breaker_allow_fields:
  "breaker_allow w c = (ok, c1) \<Longrightarrow>
     n_delivered c1 = n_delivered c \<and> n_dlq c1 = n_dlq c \<and> n_calls c1 = n_calls c \<and> same_link c c1"
  by (auto simp: breaker_allow_def same_link_def split: prod.splits)

lemma guarded_loop_outcome:
  assumes "breaker_allow w c = (True, c1)"
    and "publish_loop w subject payload level service 1 delay c1 = (ok, c')"
  shows "outcome subject payload level service ok c c' \<and> same_link c c'
     \<and> n_calls c < n_calls c' \<and> n_calls c' \<le> n_calls c + kMaxRetries"
  using publish_loop_outcome [OF assms(2), of "n_calls c1"] breaker_allow_fields [OF assms(1)]
  by (auto simp: outcome_def accepted_def dead_lettered_def same_link_def kMaxRetries_def)

lemma refused_outcome:
  assumes "breaker_allow w c = (False, c1)"
  shows "outcome subject payload level service False c (dead_letter w subject payload 0 level service c1)
     \<and> same_link c (dead_letter w subject payload 0 level service c1)
     \<and> n_calls (dead_letter w subject payload 0 level service c1) = n_calls c"
  using breaker_allow_fields [OF assms]
  by (auto simp: outcome_def dead_lettered_def same_link_def dead_letter_def)

lemma publish_outcome:
  assumes "n_connected c" and "n_conn c" and "publish w subject payload c = (ok, c')"
  shows "outcome subject payload [] [] ok c c' \<and> same_link c c'
    \<and> n_calls c' \<le> n_calls c + kMaxRetries"
proof -
  obtain a c1 where allow: "breaker_allow w c = (a, c1)" by fastforce
  show ?thesis
  proof (cases a)
    case True
    then show ?thesis
      using assms allow guarded_loop_outcome [of w c c1 subject payload "[]" "[]" "effective_retry_base_ms w" ok c']
      by (simp add: publish_def)
  next
    case False
    then show ?thesis
      using assms allow refused_outcome [of w c c1 subject payload "[]" "[]"]
      by (auto simp: publish_def)
  qed
qed

lemma outcome_ready: "ready c \<Longrightarrow> outcome s p l v ok c c' \<Longrightarrow> same_link c c' \<Longrightarrow> ready c'"
  by (auto simp: ready_def outcome_def accepted_def dead_lettered_def same_link_def dead.valid_push
      split: if_splits)



definition example_world :: nats_world where
  "example_world =
     \<lparr>w_getenv = (\<lambda>_. None), w_connect = NATS_OK, w_connect_to = (\<lambda>_. NATS_OK), w_jetstream = NATS_OK,
      w_publish = (\<lambda>k _ _ _. if k < 4 then NATS_TIMEOUT else NATS_OK), w_subscribe = (\<lambda>_. NATS_OK),
      w_add_stream = (\<lambda>_ _. NATS_OK), w_clock = int, w_system_time = 0, w_dump = (\<lambda>_. [])\<rparr>"

definition example_client :: nats_client where
  "example_client = snd (connect example_world (new_client ''nats://localhost'' default_config 2))"

lemma example_ready: "ready example_client"
  by code_simp


section \<open>Sequences of publishes\<close>

fun publish_all :: "nats_world \<Rightarrow> (string \<times> string) list \<Rightarrow> nats_client \<Rightarrow> bool list \<times> nats_client" where
  "publish_all w [] c = ([], c)"
| "publish_all w ((subject, payload) # msgs) c =
     (let (ok, c1) = publish w subject payload c; (oks, c2) = publish_all w msgs c1
      in (ok # oks, c2))"

abbreviation letters :: "nats_client \<Rightarrow> (string \<times> string) list" where
  "letters c \<equiv> map (\<lambda>e. (d_subject e, d_payload e)) (q_entries (n_dlq c))"

lemma map_last_n: "map f (last_n n xs) = last_n n (map f xs)"
  by (simp add: last_n_def drop_map)

lemma outcome_letters:
  assumes "ready c" and "outcome s p l v ok c c'"
  shows "letters c' = last_n (q_capacity (n_dlq c)) (letters c @ (if ok then [] else [(s, p)]))
     \<and> q_capacity (n_dlq c') = q_capacity (n_dlq c)
     \<and> n_delivered c' = n_delivered c @ (if ok then [(s, p)] else [])"
  using assms
  by (auto simp: outcome_def accepted_def dead_lettered_def ready_def map_last_n dead.contents_push
      dead.bound_push mk_entry_def dlq_valid_def)

text \<open>Over any sequence of publishes on a connected client, the messages nats.c accepted are exactly
those whose call returned true, in order, and the dead-letter queue holds the most recent of the others:
the two outcomes partition the traffic.\<close>

lemma publish_all_partition:
  assumes "ready c" and "publish_all w msgs c = (oks, c')"
  shows "n_delivered c' = n_delivered c @ map fst (filter snd (zip msgs oks))
    \<and> letters c' = last_n (q_capacity (n_dlq c))
        (letters c @ map fst (filter (\<lambda>x. \<not> snd x) (zip msgs oks)))
    \<and> length oks = length msgs \<and> n_calls c' \<le> n_calls c + kMaxRetries * length msgs"
  using assms
proof (induction w msgs c arbitrary: oks rule: publish_all.induct)
  case (1 w c)
  then show ?case by (auto simp: ready_def dlq_valid_def)
next
  case (2 w subject payload msgs c)
  obtain ok c1 where pub: "publish w subject payload c = (ok, c1)" by fastforce
  obtain oks' where rest: "publish_all w msgs c1 = (oks', c')" and oks: "oks = ok # oks'"
    using "2.prems"(2) pub by (auto split: prod.splits)
  have out: "outcome subject payload [] [] ok c c1" "same_link c c1" "n_calls c1 \<le> n_calls c + kMaxRetries"
    using publish_outcome [OF _ _ pub] "2.prems"(1) by (auto simp: ready_def)
  have ih: "n_delivered c' = n_delivered c1 @ map fst (filter snd (zip msgs oks'))
    \<and> letters c' = last_n (q_capacity (n_dlq c1))
        (letters c1 @ map fst (filter (\<lambda>x. \<not> snd x) (zip msgs oks')))
    \<and> length oks' = length msgs \<and> n_calls c' \<le> n_calls c1 + kMaxRetries * length msgs"
    using "2.IH" [OF pub [symmetric] refl outcome_ready [OF "2.prems"(1) out(1,2)] rest] .
  show ?case
    using ih outcome_letters [OF "2.prems"(1) out(1)] out(3) by (auto simp: oks last_n_append)
qed

lemma publish_all_partition_witness:
  "let msgs = [(''a'', ''1''), (''b'', ''2''), (''c'', ''3'')];
       c' = snd (publish_all example_world msgs example_client)
   in n_delivered c' = [(''b'', ''2''), (''c'', ''3'')] \<and> letters c' = [(''a'', ''1'')]"
proof -
  let ?msgs = "[(''a'', ''1''), (''b'', ''2''), (''c'', ''3'')]"
  let ?r = "publish_all example_world ?msgs example_client"
  obtain oks c' where r: "?r = (oks, c')" by (rule prod.exhaust)
  have "fst ?r = [False, True, True]" "q_capacity (n_dlq example_client) = 2"
    "n_delivered example_client = []" "q_entries (n_dlq example_client) = []"
    by code_simp+
  then show ?thesis
    using publish_all_partition [OF example_ready r] unfolding r Let_def by simp
qed

section \<open>Backoff\<close>

lemma effective_retry_base_nonneg: "0 \<le> effective_retry_base_ms w"
  by (auto simp: effective_retry_base_ms_def kBaseRetryMs_def split: option.split sum.split)

lemma publish_loop_slept:
  "n_slept (snd (publish_loop w subject payload level service 3 delay c)) = n_slept c"
  "\<exists>k. n_slept (snd (publish_loop w subject payload level service 2 delay c)) =
      n_slept c @ take k (filter ((<) 0) [delay])"
  "\<exists>k. n_slept (snd (publish_loop w subject payload level service 1 delay c)) =
      n_slept c @ take k (filter ((<) 0) [delay, wrap32 (delay * 2)])"
proof -
  have eq: "publish_loop w subject payload level service attempt d c =
      (if kMaxRetries < attempt then (False, c)
       else let (s, c1) = do_publish_once w subject payload c
         in if s = NATS_OK then (True, breaker_success c1)
            else if \<not> is_infra_error s \<or> attempt = kMaxRetries
            then (False, dead_letter w subject payload attempt level service (breaker_failure w c1))
            else publish_loop w subject payload level service (Suc attempt) (wrap32 (d * 2))
                   (if 0 < d then c1\<lparr>n_slept := n_slept c1 @ [d]\<rparr> else c1))" for attempt d c
    by (rule publish_loop.simps)
  show third: "n_slept (snd (publish_loop w subject payload level service 3 delay c)) = n_slept c" for delay c
    by (subst eq) (simp add: client_ops kMaxRetries_def)
  show second: "\<exists>k. n_slept (snd (publish_loop w subject payload level service 2 delay c)) =
      n_slept c @ take k (filter ((<) 0) [delay])" for delay c
    by (subst eq) (auto simp: client_ops kMaxRetries_def third numeral_3_eq_3 [symmetric] intro: exI [of _ 0] exI [of _ 1])
  show "\<exists>k. n_slept (snd (publish_loop w subject payload level service 1 delay c)) =
      n_slept c @ take k (filter ((<) 0) [delay, wrap32 (delay * 2)])"
  proof -
    obtain s c1 where once: "do_publish_once w subject payload c = (s, c1)" by fastforce
    then have c1: "n_slept c1 = n_slept c" by (auto simp: do_publish_once_def Let_def)
    let ?c2 = "if 0 < delay then c1\<lparr>n_slept := n_slept c1 @ [delay]\<rparr> else c1"
    obtain k where k: "n_slept (snd (publish_loop w subject payload level service 2 (wrap32 (delay * 2)) ?c2)) =
        n_slept ?c2 @ take k (filter ((<) 0) [wrap32 (delay * 2)])"
      using second by blast
    show ?thesis
    proof (cases "s = NATS_OK \<or> \<not> is_infra_error s")
      case True
      then show ?thesis
        by (subst eq) (auto simp: once c1 breaker_success_def breaker_failure_def dead_letter_def
            kMaxRetries_def intro: exI [of _ 0])
    next
      case False
      then have "publish_loop w subject payload level service 1 delay c =
          publish_loop w subject payload level service 2 (wrap32 (delay * 2)) ?c2"
        by (subst eq) (simp add: once kMaxRetries_def numeral_2_eq_2)
      with k c1 show ?thesis
        by (intro exI [of _ "if 0 < delay then Suc k else k"]) simp
    qed
  qed
qed

text \<open>Retries back off exponentially: a publish sleeps at most twice, for the base delay and then for
twice that, whenever the doubled delay fits an \<open>int\<close>; so a request thread is held for at most three times
the base delay.\<close>

lemma publish_backoff:
  assumes "2 * effective_retry_base_ms w \<le> INT_MAX"
  shows "\<exists>k. n_slept (snd (publish w subject payload c)) = n_slept c @
     take k (filter ((<) 0) [effective_retry_base_ms w, 2 * effective_retry_base_ms w])"
proof -
  let ?base = "effective_retry_base_ms w"
  have w: "wrap32 (?base * 2) = 2 * ?base"
    using assms effective_retry_base_nonneg [of w] by (subst wrap32_id) (auto simp: INT_MIN_def)
  obtain ok c1 where allow: "breaker_allow w c = (ok, c1)" by fastforce
  then have "n_slept c1 = n_slept c" by (auto simp: breaker_allow_def split: prod.splits)
  moreover obtain k where "n_slept (snd (publish_loop w subject payload [] [] 1 ?base c1)) =
      n_slept c1 @ take k (filter ((<) 0) [?base, 2 * ?base])"
    using publish_loop_slept(3) [of w subject payload "[]" "[]" ?base c1] unfolding w by blast
  ultimately show ?thesis
    by (cases "n_connected c \<and> n_conn c \<and> ok")
      (auto simp: publish_def allow dead_letter_def simp del: filter.simps intro: exI [of _ 0])
qed

lemma publish_backoff_witness:
  "effective_retry_base_ms example_world = 50
   \<and> (\<exists>k. n_slept (snd (publish example_world ''s'' ''p'' example_client)) = take k [50, 100])"
proof -
  have "effective_retry_base_ms example_world = 50" "n_slept example_client = []" by code_simp+
  then show ?thesis
    using publish_backoff [of example_world "''s''" "''p''" example_client] by (simp add: INT_MAX_def)
qed

end
