(* ===== verification/Auth.thy ===== *)
theory Auth
  imports Prelude
begin

text \<open>
  API-key authentication (\<open>src/auth.cpp\<close>, \<open>src/auth_middleware.hpp\<close>) and the HTTP request as the handlers
  read it. Matching of header and parameter names is done by cpp-httplib: a request carries the two lookups
  as functions, \<open>None\<close> for an absent header or parameter.
\<close>

record http_request =
  rq_method :: string
  rq_path :: string
  rq_header :: "string \<Rightarrow> string option"
  rq_param :: "string \<Rightarrow> string option"
  rq_body :: string
  rq_remote_addr :: string

text \<open>\<open>get_header_value\<close>: the empty string for an absent header.\<close>

definition header_value :: "http_request \<Rightarrow> string \<Rightarrow> string" where
  "header_value req k = (case rq_header req k of None \<Rightarrow> [] | Some v \<Rightarrow> v)"

definition is_exempt :: "string \<Rightarrow> bool" where
  "is_exempt path \<longleftrightarrow> path = ''/health'' \<or> path = ''/v1/health''"

definition bearer :: string where
  "bearer = ''Bearer ''"

definition validate :: "string \<Rightarrow> http_request \<Rightarrow> bool" where
  "validate api_key req =
     (if is_exempt (rq_path req) then True
      else if api_key = [] then True
      else
        let x_api_key = (case rq_header req ''X-API-Key'' of Some v \<Rightarrow> v = api_key | None \<Rightarrow> False) in
        case rq_header req ''Authorization'' of
          Some auth \<Rightarrow>
            if length auth > length bearer \<and> take (length bearer) auth = bearer
            then drop (length bearer) auth = api_key
            else x_api_key
        | None \<Rightarrow> x_api_key)"

text \<open>The free function reads the key from the environment on every call.\<close>

definition validate_api_key :: "string option \<Rightarrow> http_request \<Rightarrow> bool" where
  "validate_api_key key req =
     (case key of
        None \<Rightarrow> True
      | Some k \<Rightarrow> if k = [] then True
          else (case rq_header req ''X-Api-Key'' of Some v \<Rightarrow> v = k | None \<Rightarrow> False))"

text \<open>A request that names the key in one of the two headers.\<close>

definition carries_key :: "string \<Rightarrow> http_request \<Rightarrow> bool" where
  "carries_key key req \<longleftrightarrow> rq_header req ''Authorization'' = Some (bearer @ key) \<or> rq_header req ''X-API-Key'' = Some key"

lemma validate_sound:
  "key \<noteq> [] \<Longrightarrow> \<not> is_exempt (rq_path req) \<Longrightarrow> validate key req \<Longrightarrow> carries_key key req"
  by (auto simp: validate_def carries_key_def Let_def split: option.splits if_splits)
    (metis append_take_drop_id)+

lemma validate_bearer:
  "key \<noteq> [] \<Longrightarrow> rq_header req ''Authorization'' = Some (bearer @ key) \<Longrightarrow> validate key req"
  by (simp add: validate_def Let_def bearer_def)

lemma validate_x_api_key:
  "rq_header req ''X-API-Key'' = Some key \<Longrightarrow> rq_header req ''Authorization'' = None \<Longrightarrow> validate key req"
  by (simp add: validate_def)

end
