(* ===== verification/Webhook.thy ===== *)
theory Webhook
  imports Json "HOL-Library.Word"
begin

text \<open>
  GitHub webhook intake of \<open>src/github_webhook.cpp\<close>: verification of the signature header and reduction
  of an \<open>issues\<close> payload to the event the store consumes. OpenSSL's HMAC-SHA-256 is the argument \<open>hmac\<close>,
  \<open>None\<close> when the library call fails.
\<close>

unbundle bit_operations_syntax

section \<open>Signatures\<close>

definition kSha256Prefix :: string where
  "kSha256Prefix = ''sha256=''"

definition kSha256HexLength :: nat where
  "kSha256HexLength = 64"

text \<open>\<open>std::isxdigit(c) ? std::stoi(c, nullptr, 16) : -1\<close>\<close>

definition hex_val :: "char \<Rightarrow> nat option" where
  "hex_val c =
     (if is_digit c then Some (digit_val c)
      else if 65 \<le> ord_of c \<and> ord_of c \<le> 70 then Some (ord_of c - 55)
      else if 97 \<le> ord_of c \<and> ord_of c \<le> 102 then Some (ord_of c - 87)
      else None)"

definition byte_of :: "nat \<Rightarrow> nat \<Rightarrow> 8 word" where
  "byte_of high low = push_bit 4 (of_nat high) OR of_nat low"

fun hex_decode :: "string \<Rightarrow> 8 word list option" where
  "hex_decode [] = Some []"
| "hex_decode [c] = None"
| "hex_decode (c # d # hex) =
     (case (hex_val c, hex_val d) of
        (Some high, Some low) \<Rightarrow> map_option ((#) (byte_of high low)) (hex_decode hex)
      | _ \<Rightarrow> None)"

definition verify_github_signature ::
    "(string \<Rightarrow> string \<Rightarrow> 8 word list option) \<Rightarrow> string \<Rightarrow> string \<Rightarrow> string \<Rightarrow> bool" where
  "verify_github_signature hmac secret header_value raw_body =
     (if secret = [] then False
      else if length header_value \<noteq> length kSha256Prefix + kSha256HexLength then False
      else if \<not> starts_with kSha256Prefix header_value then False
      else
        case hex_decode (drop (length kSha256Prefix) header_value) of
          None \<Rightarrow> False
        | Some expected_sig \<Rightarrow>
            (case hmac secret raw_body of
               None \<Rightarrow> False
             | Some computed_sig \<Rightarrow>
                 if length computed_sig \<noteq> length expected_sig then False
                 else computed_sig = expected_sig))"

section \<open>Events\<close>

record normalized_event =
  ne_action :: string
  ne_entity_label :: string
  ne_issue_shape :: json
  ne_updated_at :: string

definition kAllowedActions :: "string list" where
  "kAllowedActions = [''opened'', ''edited'', ''closed'', ''reopened'', ''labeled'', ''unlabeled'']"

definition str_member :: "json \<Rightarrow> string \<Rightarrow> string option" where
  "str_member j k = (case jlookup j k of Some (JStr s) \<Rightarrow> Some s | _ \<Rightarrow> None)"

text \<open>The first label object whose name starts with \<open>agamemnon-\<close>; the empty string when there is none.\<close>

fun find_label :: "json list \<Rightarrow> string" where
  "find_label [] = []"
| "find_label (label_obj # labels) =
     (case str_member label_obj ''name'' of
        None \<Rightarrow> find_label labels
      | Some label_name \<Rightarrow>
          if starts_with ''agamemnon-'' label_name then label_name else find_label labels)"

definition normalize_issues_event :: "json \<Rightarrow> normalized_event option" where
  "normalize_issues_event payload =
     (case str_member payload ''action'' of
        None \<Rightarrow> None
      | Some action \<Rightarrow>
        if action \<notin> set kAllowedActions then None
        else case jlookup payload ''issue'' of
          Some (JObj kvs) \<Rightarrow>
            (let issue = JObj kvs in
             case (jlookup issue ''number'', str_member issue ''body'') of
               (Some (JInt number), Some body) \<Rightarrow>
                 (let entity_label = (case jlookup issue ''labels'' of
                        Some (JArr labels) \<Rightarrow> find_label labels | _ \<Rightarrow> []);
                      updated_at = (case str_member issue ''updated_at'' of Some ts \<Rightarrow> ts | None \<Rightarrow> []);
                      shape = jobj [(''number'', JInt (wrap32 number)), (''body'', JStr body)];
                      issue_shape = (case str_member issue ''state'' of
                        Some st \<Rightarrow> jset ''state'' (JStr st) shape | None \<Rightarrow> shape)
                  in if entity_label = [] then None
                     else Some \<lparr>ne_action = action, ne_entity_label = entity_label,
                            ne_issue_shape = issue_shape, ne_updated_at = updated_at\<rparr>)
             | _ \<Rightarrow> None)
        | _ \<Rightarrow> None)"

section \<open>Signatures accepted\<close>

text \<open>The lower-case hexadecimal form of a byte sequence, as GitHub writes it.\<close>

definition hex_char :: "nat \<Rightarrow> char" where
  "hex_char n = (if n < 10 then digit_char n else char_of (n + 87))"

definition show_hex :: "8 word list \<Rightarrow> string" where
  "show_hex bs = concat (map (\<lambda>b. [hex_char (unat b div 16), hex_char (unat b mod 16)]) bs)"

lemma ord_hex_char: "n < 16 \<Longrightarrow> ord_of (hex_char n) = (if n < 10 then n + 48 else n + 87)"
  by (auto simp: hex_char_def ord_digit_char)

lemma ord_to_lower: "ord_of (to_lower c) = (if 65 \<le> ord_of c \<and> ord_of c \<le> 90 then ord_of c + 32 else ord_of c)"
  by (simp add: to_lower_def)

lemma nibble_arith:
  fixes m n :: nat
  shows "n < 16 \<and> (if 65 \<le> m \<and> m \<le> 90 then m + 32 else m) = (if n < 10 then n + 48 else n + 87) \<longleftrightarrow>
    (if 48 \<le> m \<and> m \<le> 57 then Some (m - 48) else if 65 \<le> m \<and> m \<le> 70 then Some (m - 55)
     else if 97 \<le> m \<and> m \<le> 102 then Some (m - 87) else None) = Some n"
  by auto

lemma hex_val_iff: "hex_val c = Some n \<longleftrightarrow> n < 16 \<and> to_lower c = hex_char n"
proof -
  have "n < 16 \<and> to_lower c = hex_char n \<longleftrightarrow> n < 16 \<and> ord_of (to_lower c) = ord_of (hex_char n)" by simp
  also have "\<dots> \<longleftrightarrow> n < 16 \<and> (if 65 \<le> ord_of c \<and> ord_of c \<le> 90 then ord_of c + 32 else ord_of c)
        = (if n < 10 then n + 48 else n + 87)"
    by (cases "n < 16") (simp_all add: ord_hex_char ord_to_lower del: of_char_eq_iff)
  also have "\<dots> \<longleftrightarrow> hex_val c = Some n"
    unfolding hex_val_def is_digit_def digit_val_def by (rule nibble_arith)
  finally show ?thesis by blast
qed

lemma unat_byte_of:
  assumes "h < 16" and "l < 16"
  shows "unat (byte_of h l) = 16 * h + l"
proof -
  have low: "take_bit 4 l = l" using assms(2) by (simp add: take_bit_nat_eq_self)
  have "\<not> bit (push_bit 4 h) n \<or> \<not> bit l n" for n
    by (subst low [symmetric]) (auto simp: bit_push_bit_iff bit_take_bit_iff)
  then have "push_bit 4 h OR l = 16 * h + l"
    by (simp add: disjunctive_add [symmetric] push_bit_eq_mult)
  then have "byte_of h l = of_nat (16 * h + l)"
    by (metis byte_of_def of_nat_or_eq of_nat_push_bit)
  moreover have "unat (of_nat (16 * h + l) :: 8 word) = take_bit 8 (16 * h + l)"
    unfolding unsigned_of_nat by simp
  ultimately show ?thesis using assms by (simp add: take_bit_nat_eq_self)
qed


lemma unat_byte_less: "unat (b :: 8 word) < 256"
proof -
  have "unat b < 2 ^ LENGTH(8)" by (rule unsigned_less)
  then show ?thesis by simp
qed

lemma byte_of_unat: "byte_of (unat b div 16) (unat b mod 16) = b"
proof -
  have "unat b < 256" by (rule unat_byte_less)
  then have "unat (byte_of (unat b div 16) (unat b mod 16)) = unat b"
    by (simp add: unat_byte_of less_mult_imp_div_less)
  then show ?thesis by (simp add: word_unat_eq_iff)
qed

lemma hex_decode_iff: "hex_decode hex = Some bs \<longleftrightarrow> map to_lower hex = show_hex bs"
proof (induction hex arbitrary: bs rule: hex_decode.induct)
  case 1
  then show ?case by (auto simp: show_hex_def)
next
  case (2 c)
  then show ?case by (cases bs) (auto simp: show_hex_def)
next
  case (3 c d hex)
  show ?case
  proof (cases bs)
    case Nil
    then show ?thesis by (auto simp: show_hex_def split: option.splits)
  next
    case (Cons b bs')
    have "map to_lower (c # d # hex) = show_hex bs \<longleftrightarrow>
        hex_val c = Some (unat b div 16) \<and> hex_val d = Some (unat b mod 16) \<and> map to_lower hex = show_hex bs'"
      using unat_byte_less [of b] by (auto simp: Cons show_hex_def hex_val_iff less_mult_imp_div_less)
    also have "\<dots> \<longleftrightarrow> hex_decode (c # d # hex) = Some bs"
    proof
      assume a: "hex_val c = Some (unat b div 16) \<and> hex_val d = Some (unat b mod 16) \<and> map to_lower hex = show_hex bs'"
      with 3 have "hex_decode hex = Some bs'" by blast
      with a show "hex_decode (c # d # hex) = Some bs" by (simp add: Cons byte_of_unat)
    next
      assume "hex_decode (c # d # hex) = Some bs"
      then obtain h l where hl: "hex_val c = Some h" "hex_val d = Some l" "byte_of h l = b" "hex_decode hex = Some bs'"
        by (auto simp: Cons split: option.splits)
      then have "unat b = 16 * h + l" "l < 16" using unat_byte_of [of h l] hex_val_iff by auto
      with hl 3 show "hex_val c = Some (unat b div 16) \<and> hex_val d = Some (unat b mod 16) \<and> map to_lower hex = show_hex bs'"
        by auto
    qed
    finally show ?thesis by blast
  qed
qed

lemma length_show_hex [simp]: "length (show_hex bs) = 2 * length bs"
  by (induction bs) (auto simp: show_hex_def)

text \<open>C33: The signature check accepts exactly the right header. If the keyed hash has 32 bytes, a header is
accepted if and only if the secret is not empty and the header is \<open>sha256=\<close> followed by the hexadecimal
form, in either case, of the hash of the body under the secret.\<close>

theorem verify_signature_iff:
  assumes "\<And>secret body sig. hmac secret body = Some sig \<Longrightarrow> length sig = 32"
  shows "verify_github_signature hmac secret hdr body \<longleftrightarrow>
    secret \<noteq> [] \<and> (\<exists>sig hex. hmac secret body = Some sig \<and> hdr = kSha256Prefix @ hex \<and> map to_lower hex = show_hex sig)"
    (is "?V \<longleftrightarrow> ?R")
proof
  assume ?V
  then obtain sig where sig: "secret \<noteq> []" "starts_with kSha256Prefix hdr"
      "hex_decode (drop (length kSha256Prefix) hdr) = Some sig" "hmac secret body = Some sig"
    by (auto simp: verify_github_signature_def split: if_splits option.splits)
  then obtain hex where "hdr = kSha256Prefix @ hex" "map to_lower hex = show_hex sig"
    by (auto simp: starts_with_iff hex_decode_iff)
  with sig show ?R by blast
next
  assume ?R
  then obtain sig hex where sig: "secret \<noteq> []" "hmac secret body = Some sig" "hdr = kSha256Prefix @ hex"
      "map to_lower hex = show_hex sig" by blast
  have "length hex = 2 * length sig" using arg_cong [OF sig(4), of length] by simp
  moreover have "hex_decode hex = Some sig" using sig(4) by (simp add: hex_decode_iff)
  ultimately show ?V
    using sig assms by (simp add: verify_github_signature_def kSha256HexLength_def)
qed

theorem verify_signature_iff_witness:
  "verify_github_signature (\<lambda>s b. Some (replicate 32 171)) ''k'' (''sha256='' @ concat (replicate 32 ''aB'')) ''{}''"
proof -
  have "\<And>secret body sig. (\<lambda>s b. Some (replicate 32 (171 :: 8 word))) secret body = Some sig \<Longrightarrow> length sig = 32"
    by auto
  moreover have "map to_lower ''aB'' = show_hex [171]" by code_simp
  then have "map to_lower (concat (replicate n ''aB'')) = show_hex (replicate n 171)" for n
    by (induction n) (simp_all add: show_hex_def)
  ultimately show ?thesis
    using verify_signature_iff [of "\<lambda>s b. Some (replicate 32 171)" "''k''" "''sha256='' @ concat (replicate 32 ''aB'')" "''{}''"]
    unfolding kSha256Prefix_def by blast
qed

end
