(* ===== verification/Rate_Limiter.thy ===== *)
theory Rate_Limiter
  imports Prelude Complex_Main
begin

text \<open>
  The token-bucket limiter of \<open>src/rate_limiter.cpp\<close>. A bucket per client address, refilled by the time
  since it was last seen and capped at the burst; every hundredth request drops the buckets not seen for
  five minutes. Clock readings are arguments, in nanoseconds as \<open>steady_clock\<close> counts them; \<open>double\<close> is
  \<^typ>\<open>real\<close>, so rounding is not part of the model. The mutex makes each operation atomic.
\<close>

record bucket =
  bk_tokens :: real
  bk_last_seen :: int

record limiter =
  l_tokens_per_second :: real
  l_burst_capacity :: real
  l_buckets :: "bucket umap"
  l_request_count :: nat

definition kEvictAfter :: int where
  "kEvictAfter = 5 * 60 * 1000000000"

definition kEvictCheckInterval :: nat where
  "kEvictCheckInterval = 100"

definition new_limiter :: "real \<Rightarrow> real \<Rightarrow> limiter" where
  "new_limiter tokens_per_second burst_capacity =
     \<lparr>l_tokens_per_second = tokens_per_second, l_burst_capacity = burst_capacity, l_buckets = [],
      l_request_count = 0\<rparr>"

text \<open>\<open>std::chrono::duration<double>(later - earlier).count()\<close>\<close>

definition seconds_between :: "int \<Rightarrow> int \<Rightarrow> real" where
  "seconds_between earlier later = real_of_int (later - earlier) / 1000000000"

definition refill :: "limiter \<Rightarrow> int \<Rightarrow> bucket \<Rightarrow> bucket" where
  "refill l now b =
     b\<lparr>bk_tokens := min (l_burst_capacity l)
          (bk_tokens b + seconds_between (bk_last_seen b) now * l_tokens_per_second l),
       bk_last_seen := now\<rparr>"

definition evict_stale :: "int \<Rightarrow> bucket umap \<Rightarrow> bucket umap" where
  "evict_stale now = filter (\<lambda>(_, b). \<not> now - bk_last_seen b > kEvictAfter)"

definition limiter_allow :: "string \<Rightarrow> int \<Rightarrow> limiter \<Rightarrow> bool \<times> limiter" where
  "limiter_allow client_ip now l =
     (let bucket = (case map_of (l_buckets l) client_ip of
            None \<Rightarrow> \<lparr>bk_tokens = l_burst_capacity l, bk_last_seen = now\<rparr>
          | Some b \<Rightarrow> refill l now b);
          stored = AList.update client_ip bucket (l_buckets l);
          l1 = (if Suc (l_request_count l) \<ge> kEvictCheckInterval
                then l\<lparr>l_request_count := 0, l_buckets := evict_stale now stored\<rparr>
                else l\<lparr>l_request_count := Suc (l_request_count l), l_buckets := stored\<rparr>)
      in if bk_tokens bucket \<ge> 1
         then (True, l1\<lparr>l_buckets := AList.map_entry client_ip
                 (\<lambda>b. b\<lparr>bk_tokens := bk_tokens b - 1\<rparr>) (l_buckets l1)\<rparr>)
         else (False, l1))"

definition retry_after_seconds :: "string \<Rightarrow> int \<Rightarrow> limiter \<Rightarrow> real" where
  "retry_after_seconds client_ip now l =
     (case map_of (l_buckets l) client_ip of
        None \<Rightarrow> 0
      | Some b \<Rightarrow>
          let bucket = refill l now b in
          if bk_tokens bucket \<ge> 1 then 0
          else (1 - bk_tokens bucket) / l_tokens_per_second l)"

section \<open>What a client may still use\<close>

text \<open>The tokens a client could use at a time: a missing bucket counts as a full one.\<close>

definition budget :: "string \<Rightarrow> int \<Rightarrow> limiter \<Rightarrow> real" where
  "budget k t l =
     (case map_of (l_buckets l) k of
        None \<Rightarrow> l_burst_capacity l
      | Some b \<Rightarrow> bk_tokens (refill l t b))"

definition limiter_ok :: "int \<Rightarrow> limiter \<Rightarrow> bool" where
  "limiter_ok t l \<longleftrightarrow> umap_wf (l_buckets l) \<and> 0 \<le> l_tokens_per_second l \<and> 0 \<le> l_burst_capacity l
     \<and> (\<forall>(k, b) \<in> set (l_buckets l). 0 \<le> bk_tokens b \<and> bk_tokens b \<le> l_burst_capacity l \<and> bk_last_seen b \<le> t)"

lemma seconds_between_simps [simp]:
  "seconds_between t t = 0" "a \<le> b \<Longrightarrow> 0 \<le> seconds_between a b"
  by (simp_all add: seconds_between_def)

lemma seconds_between_add: "seconds_between a c = seconds_between a b + seconds_between b c"
  by (simp add: seconds_between_def diff_divide_distrib)

lemma seconds_between_mult: "seconds_between a c * r = seconds_between a b * r + seconds_between b c * r"
  by (metis seconds_between_add distrib_right)

lemma refill_fields [simp]:
  "bk_last_seen (refill l t b) = t"
  "bk_tokens (refill l t b) = min (l_burst_capacity l)
     (bk_tokens b + seconds_between (bk_last_seen b) t * l_tokens_per_second l)"
  by (simp_all add: refill_def)

lemma limiter_okD:
  assumes "limiter_ok t l" and "map_of (l_buckets l) k = Some b"
  shows "0 \<le> bk_tokens b" "bk_tokens b \<le> l_burst_capacity l" "bk_last_seen b \<le> t"
  using assms by (auto simp: limiter_ok_def map_of_Some_in_set)

lemma limiter_ok_later: "limiter_ok t l \<Longrightarrow> t \<le> t' \<Longrightarrow> limiter_ok t' l"
  by (force simp: limiter_ok_def)

lemma map_of_evict:
  "umap_wf m \<Longrightarrow> map_of (evict_stale t m) k =
     (case map_of m k of None \<Rightarrow> None | Some b \<Rightarrow> if t - bk_last_seen b > kEvictAfter then None else Some b)"
  by (induction m) (auto simp: evict_stale_def map_of_eq_None_iff split: option.splits)

lemma umap_wf_evict: "umap_wf m \<Longrightarrow> umap_wf (evict_stale t m)"
  by (simp add: evict_stale_def distinct_map_filter)

section \<open>One request\<close>

definition seen_bucket :: "string \<Rightarrow> int \<Rightarrow> limiter \<Rightarrow> bucket" where
  "seen_bucket k t l = (case map_of (l_buckets l) k of
     None \<Rightarrow> \<lparr>bk_tokens = l_burst_capacity l, bk_last_seen = t\<rparr> | Some b \<Rightarrow> refill l t b)"

lemma seen_bucket_budget: "bk_tokens (seen_bucket k t l) = budget k t l" "bk_last_seen (seen_bucket k t l) = t"
  by (auto simp: seen_bucket_def budget_def split: option.splits)

lemma budget_bounds:
  assumes "limiter_ok t l"
  shows "0 \<le> budget k t l" "budget k t l \<le> l_burst_capacity l"
  using assms limiter_okD [OF assms]
  by (auto simp: budget_def limiter_ok_def split: option.splits intro!: add_nonneg_nonneg mult_nonneg_nonneg)

lemma allow_decision: "fst (limiter_allow k t l) \<longleftrightarrow> 1 \<le> budget k t l"
  by (simp add: limiter_allow_def Let_def seen_bucket_budget(1) [symmetric] seen_bucket_def)

lemma allow_params [simp]:
  "l_tokens_per_second (snd (limiter_allow k t l)) = l_tokens_per_second l"
  "l_burst_capacity (snd (limiter_allow k t l)) = l_burst_capacity l"
  by (simp_all add: limiter_allow_def Let_def)

lemma allow_lookup_self:
  assumes "umap_wf (l_buckets l)"
  shows "map_of (l_buckets (snd (limiter_allow k t l))) k =
    Some ((seen_bucket k t l)\<lparr>bk_tokens := budget k t l - (if 1 \<le> budget k t l then 1 else 0)\<rparr>)"
proof -
  have "\<not> 0 > kEvictAfter" by (simp add: kEvictAfter_def)
  then show ?thesis
    using assms seen_bucket_budget [of k t l]
    by (simp add: limiter_allow_def Let_def seen_bucket_def [symmetric] map_of_map_entry map_of_evict distinct_update
        split: if_splits)
qed

lemma allow_lookup_other:
  assumes "umap_wf (l_buckets l)" and "j \<noteq> k"
  shows "map_of (l_buckets (snd (limiter_allow k t l))) j = map_of (l_buckets l) j
    \<or> (\<exists>b. map_of (l_buckets l) j = Some b \<and> t - bk_last_seen b > kEvictAfter
         \<and> map_of (l_buckets (snd (limiter_allow k t l))) j = None)"
  using assms
  by (auto simp: limiter_allow_def Let_def map_of_map_entry map_of_evict distinct_update split: option.splits)

lemma umap_wf_allow: "umap_wf (l_buckets l) \<Longrightarrow> umap_wf (l_buckets (snd (limiter_allow k t l)))"
  by (simp add: limiter_allow_def Let_def umap_wf_evict distinct_update distinct_map_entry)


lemma limiter_ok_allow:
  assumes "limiter_ok t l"
  shows "limiter_ok t (snd (limiter_allow k t l))"
proof -
  have wf: "umap_wf (l_buckets l)" using assms by (simp add: limiter_ok_def)
  have "0 \<le> bk_tokens b \<and> bk_tokens b \<le> l_burst_capacity l \<and> bk_last_seen b \<le> t"
    if "map_of (l_buckets (snd (limiter_allow k t l))) j = Some b" for j b
  proof (cases "j = k")
    case True
    with that have "b = (seen_bucket k t l)\<lparr>bk_tokens := budget k t l - (if 1 \<le> budget k t l then 1 else 0)\<rparr>"
      by (simp add: allow_lookup_self [OF wf])
    then show ?thesis
      using budget_bounds [OF assms, of k] by (auto simp: seen_bucket_budget)
  next
    case False
    then have "map_of (l_buckets l) j = Some b"
      using that allow_lookup_other [OF wf False, of t] by auto
    from limiter_okD [OF assms this] show ?thesis by simp
  qed
  then show ?thesis
    using assms umap_wf_allow [OF wf, of k t] unfolding limiter_ok_def by (auto simp: map_of_Some_in_set)
qed

text \<open>An admission costs one token, whoever asks and whatever is dropped: a bucket dropped after five
minutes would have been full again.\<close>

lemma allow_budget:
  assumes "limiter_ok t l" and "l_burst_capacity l \<le> 300 * l_tokens_per_second l"
  shows "budget j t (snd (limiter_allow k t l)) =
    budget j t l - (if j = k \<and> fst (limiter_allow k t l) then 1 else 0)"
proof (cases "j = k")
  case True
  have wf: "umap_wf (l_buckets l)" using assms by (simp add: limiter_ok_def)
  have "budget k t (snd (limiter_allow k t l)) = min (l_burst_capacity l)
      (budget k t l - (if 1 \<le> budget k t l then 1 else 0))"
    by (simp add: budget_def [of k t "snd (limiter_allow k t l)"] allow_lookup_self [OF wf] seen_bucket_budget)
  with True show ?thesis
    using budget_bounds [OF assms(1), of k] by (simp add: allow_decision)
next
  case False
  have wf: "umap_wf (l_buckets l)" using assms by (simp add: limiter_ok_def)
  from allow_lookup_other [OF wf False, of t] show ?thesis
  proof
    assume "map_of (l_buckets (snd (limiter_allow k t l))) j = map_of (l_buckets l) j"
    with False show ?thesis by (simp add: budget_def split: option.splits)
  next
    assume "\<exists>b. map_of (l_buckets l) j = Some b \<and> t - bk_last_seen b > kEvictAfter
      \<and> map_of (l_buckets (snd (limiter_allow k t l))) j = None"
    then obtain b where b: "map_of (l_buckets l) j = Some b" "t - bk_last_seen b > kEvictAfter"
        "map_of (l_buckets (snd (limiter_allow k t l))) j = None" by blast
    have tok: "0 \<le> bk_tokens b" using limiter_okD [OF assms(1) b(1)] by simp
    have "300 \<le> seconds_between (bk_last_seen b) t"
      using b(2) by (simp add: seconds_between_def kEvictAfter_def)
    then have "300 * l_tokens_per_second l \<le> seconds_between (bk_last_seen b) t * l_tokens_per_second l"
      using assms(1) by (intro mult_right_mono) (auto simp: limiter_ok_def)
    with b tok assms(2) False show ?thesis by (simp add: budget_def)
  qed
qed

lemma budget_split:
  assumes "map_of (l_buckets l) k = Some b"
  shows "budget k t' l = min (l_burst_capacity l)
    (bk_tokens b + seconds_between (bk_last_seen b) t * l_tokens_per_second l
     + seconds_between t t' * l_tokens_per_second l)"
proof -
  have "seconds_between (bk_last_seen b) t' = seconds_between (bk_last_seen b) t + seconds_between t t'"
    by (rule seconds_between_add)
  then show ?thesis by (simp add: budget_def assms distrib_right)
qed

lemma budget_later:
  assumes "limiter_ok t l" and "t \<le> t'"
  shows "budget k t' l \<le> budget k t l + seconds_between t t' * l_tokens_per_second l"
    and "min (l_burst_capacity l) (budget k t l + seconds_between t t' * l_tokens_per_second l) \<le> budget k t' l"
proof -
  have pos: "0 \<le> seconds_between t t' * l_tokens_per_second l"
    using assms by (simp add: limiter_ok_def)
  show "budget k t' l \<le> budget k t l + seconds_between t t' * l_tokens_per_second l"
    using pos budget_split [of l k _ t' t] budget_split [of l k _ t t]
    by (cases "map_of (l_buckets l) k") (auto simp: budget_def [of k _ l])
  show "min (l_burst_capacity l) (budget k t l + seconds_between t t' * l_tokens_per_second l) \<le> budget k t' l"
    using pos budget_split [of l k _ t' t] budget_split [of l k _ t t]
    by (cases "map_of (l_buckets l) k") (auto simp: budget_def [of k _ l])
qed

section \<open>Runs\<close>

fun serve :: "(string \<times> int) list \<Rightarrow> limiter \<Rightarrow> bool list \<times> limiter" where
  "serve [] l = ([], l)"
| "serve (r # rs) l =
     (let (ok, l1) = limiter_allow (fst r) (snd r) l; (oks, l2) = serve rs l1 in (ok # oks, l2))"

text \<open>How many requests of a client were admitted.\<close>

definition admitted :: "string \<Rightarrow> (string \<times> int) list \<Rightarrow> bool list \<Rightarrow> nat" where
  "admitted k rs oks = length (filter (\<lambda>((j, _), ok). j = k \<and> ok) (zip rs oks))"

lemma serve_params [simp]:
  "l_tokens_per_second (snd (serve rs l)) = l_tokens_per_second l"
  "l_burst_capacity (snd (serve rs l)) = l_burst_capacity l"
  by (induction rs arbitrary: l) (simp_all add: Let_def split_beta)

lemma serve_length [simp]: "length (fst (serve rs l)) = length rs"
  by (induction rs arbitrary: l) (simp_all add: Let_def split_beta)

lemma serve_append:
  "fst (serve (rs @ ss) l) = fst (serve rs l) @ fst (serve ss (snd (serve rs l)))"
  "snd (serve (rs @ ss) l) = snd (serve ss (snd (serve rs l)))"
  by (induction rs arbitrary: l) (simp_all add: Let_def split_beta)

lemma serve_ok:
  assumes "limiter_ok t l" and "sorted (t # map snd rs)"
  shows "limiter_ok (last (t # map snd rs)) (snd (serve rs l))"
  using assms
proof (induction rs arbitrary: l t)
  case (Cons r rs)
  have "t \<le> snd r" using Cons.prems(2) by simp
  with Cons.prems(1) have "limiter_ok (snd r) (snd (limiter_allow (fst r) (snd r) l))"
    by (intro limiter_ok_allow) (rule limiter_ok_later)
  from Cons.IH [OF this] Cons.prems(2) show ?case by (simp add: Let_def split_beta)
qed simp

lemma serve_budget:
  assumes "limiter_ok t l" and "sorted (t # map snd rs)"
    and "l_burst_capacity l \<le> 300 * l_tokens_per_second l"
  shows "real (admitted k rs (fst (serve rs l))) + budget k (last (t # map snd rs)) (snd (serve rs l))
    \<le> budget k t l + seconds_between t (last (t # map snd rs)) * l_tokens_per_second l"
  using assms
proof (induction rs arbitrary: l t)
  case Nil
  then show ?case by (simp add: admitted_def)
next
  case (Cons r rs)
  obtain j u where r: "r = (j, u)" by fastforce
  let ?l = "snd (limiter_allow j u l)"
  have tu: "t \<le> u" and sorted: "sorted (u # map snd rs)" using Cons.prems(2) r by auto
  have u: "limiter_ok u l" using Cons.prems(1) tu by (rule limiter_ok_later)
  have step: "budget k u ?l = budget k u l - (if k = j \<and> fst (limiter_allow j u l) then 1 else 0)"
    using Cons.prems(3) by (rule allow_budget [OF u])
  have ih: "real (admitted k rs (fst (serve rs ?l))) + budget k (last (u # map snd rs)) (snd (serve rs ?l))
    \<le> budget k u ?l + seconds_between u (last (u # map snd rs)) * l_tokens_per_second l"
    using Cons.IH [OF limiter_ok_allow [OF u] sorted] Cons.prems(3) by simp
  have "budget k u l \<le> budget k t l + seconds_between t u * l_tokens_per_second l"
    by (rule budget_later(1) [OF Cons.prems(1) tu])
  moreover have "seconds_between t (last (u # map snd rs)) * l_tokens_per_second l =
      seconds_between t u * l_tokens_per_second l
      + seconds_between u (last (u # map snd rs)) * l_tokens_per_second l"
    by (rule seconds_between_mult)
  moreover have "real (admitted k (r # rs) (fst (serve (r # rs) l))) =
      (if k = j \<and> fst (limiter_allow j u l) then 1 else 0) + real (admitted k rs (fst (serve rs ?l)))"
    by (auto simp: admitted_def Let_def split_beta r)
  moreover have eqs: "snd (serve (r # rs) l) = snd (serve rs ?l)" "last (t # map snd (r # rs)) = last (u # map snd rs)"
    by (simp_all add: Let_def split_beta r)
  ultimately show ?case using ih step unfolding eqs by linarith
qed


lemma serve_others_budget:
  assumes "limiter_ok now l" and "l_burst_capacity l \<le> 300 * l_tokens_per_second l"
    and "sorted (now # map snd others @ [later])" and "\<forall>r \<in> set others. fst r \<noteq> k"
  shows "min (l_burst_capacity l) (budget k now l + seconds_between now later * l_tokens_per_second l)
    \<le> budget k later (snd (serve others l))"
  using assms
proof (induction others arbitrary: now l)
  case Nil
  then show ?case using budget_later(2) [of now l later k] by simp
next
  case (Cons r rs)
  let ?l = "snd (limiter_allow (fst r) (snd r) l)" and ?C = "l_burst_capacity l" and ?R = "l_tokens_per_second l"
  have le: "now \<le> snd r" "snd r \<le> later" and sorted: "sorted (snd r # map snd rs @ [later])"
    using Cons.prems(3) by (auto simp: sorted_append)
  have ok: "limiter_ok (snd r) l" using Cons.prems(1) le(1) by (rule limiter_ok_later)
  have "budget k (snd r) ?l = budget k (snd r) l"
    using Cons.prems(2,4) allow_budget [OF ok, of k "fst r"] by auto
  then have ih: "min ?C (budget k (snd r) l + seconds_between (snd r) later * ?R) \<le> budget k later (snd (serve rs ?l))"
    using Cons.IH [OF limiter_ok_allow [OF ok, of "fst r"] _ sorted] Cons.prems(2,4) by simp
  have "min ?C (budget k now l + seconds_between now (snd r) * ?R) \<le> budget k (snd r) l"
    by (rule budget_later(2) [OF Cons.prems(1) le(1)])
  moreover have "0 \<le> seconds_between (snd r) later * ?R"
    using ok le(2) by (simp add: limiter_ok_def)
  moreover have "seconds_between now later * ?R = seconds_between now (snd r) * ?R + seconds_between (snd r) later * ?R"
    by (rule seconds_between_mult)
  moreover have "snd (serve (r # rs) l) = snd (serve rs ?l)" by (simp add: Let_def split_beta)
  ultimately show ?case using ih by (auto simp: min_def split: if_splits)
qed

lemma new_limiter_ok: "0 \<le> r \<Longrightarrow> 0 \<le> c \<Longrightarrow> limiter_ok t (new_limiter r c)"
  by (simp add: limiter_ok_def new_limiter_def)

text \<open>C17: The limiter enforces its rate. In any run of requests from any clients with a clock that does not
go back, the requests of one client admitted in a window number at most the burst plus the rate times the
length of the window, provided five minutes at the sustained rate refill a whole burst. Without that
proviso the eviction of idle buckets would hand out tokens early.\<close>

theorem rate_bound:
  assumes "0 \<le> r" and "0 \<le> c" and "c \<le> 300 * r" and "sorted (map snd (before @ (j, t) # window))"
  shows "real (admitted k ((j, t) # window) (fst (serve ((j, t) # window) (snd (serve before (new_limiter r c))))))
    \<le> c + r * seconds_between t (last (t # map snd window))"
proof -
  let ?l = "snd (serve before (new_limiter r c))" and ?w = "(j, t) # window"
  let ?start = "if before = [] then t else snd (hd before)"
  have "limiter_ok (last (?start # map snd before)) ?l"
    using assms(4) by (intro serve_ok new_limiter_ok assms(1,2)) (cases before; auto simp: sorted_append)
  moreover have "last (?start # map snd before) \<le> t"
    using assms(4) by (auto simp: sorted_append last_map)
  ultimately have ok: "limiter_ok t ?l" by (rule limiter_ok_later)
  have params: "l_burst_capacity ?l = c" "l_tokens_per_second ?l = r" by (simp_all add: new_limiter_def)
  have sorted: "sorted (t # map snd ?w)" using assms(4) by (simp add: sorted_append)
  have cap: "l_burst_capacity ?l \<le> 300 * l_tokens_per_second ?l" unfolding params by (rule assms(3))
  have "limiter_ok (last (t # map snd ?w)) (snd (serve ?w ?l))" by (rule serve_ok [OF ok sorted])
  from budget_bounds(1) [OF this, of k] serve_budget [OF ok sorted cap, of k] budget_bounds(2) [OF ok, of k]
  show ?thesis unfolding params by (simp add: mult.commute)
qed

theorem rate_bound_witness:
  "real (admitted ''a'' [(''a'', 5), (''a'', 6), (''b'', 6), (''a'', 6)]
     (fst (serve [(''a'', 5), (''a'', 6), (''b'', 6), (''a'', 6)] (snd (serve [(''a'', 0)] (new_limiter 1 2))))))
   \<le> 2 + 1 * seconds_between 5 6"
  using rate_bound [of 1 2 "[(''a'', 0)]" "''a''" 5 "[(''a'', 6), (''b'', 6), (''a'', 6)]" "''a''"] by simp

text \<open>The announced waiting time suffices: when a request is refused, a request of the same client made
after \<open>retry_after_seconds\<close> is admitted, whatever other clients did in between.\<close>

lemma retry_after_suffices:
  assumes "limiter_ok now l" and "0 < l_tokens_per_second l" and "1 \<le> l_burst_capacity l"
    and "l_burst_capacity l \<le> 300 * l_tokens_per_second l"
    and "sorted (now # map snd others @ [later])" and "\<forall>r \<in> set others. fst r \<noteq> k"
    and "seconds_between now later \<ge> retry_after_seconds k now l"
  shows "fst (limiter_allow k later (snd (serve others l)))"
proof -
  have "1 \<le> min (l_burst_capacity l) (budget k now l + seconds_between now later * l_tokens_per_second l)"
  proof (cases "budget k now l \<ge> 1")
    case True
    have "0 \<le> seconds_between now later * l_tokens_per_second l" using assms(2,5) by (simp add: sorted_append)
    with True assms(3) show ?thesis by simp
  next
    case False
    then have "retry_after_seconds k now l = (1 - budget k now l) / l_tokens_per_second l"
      using assms(3) by (auto simp: retry_after_seconds_def budget_def Let_def split: option.splits)
    with assms(2,3,7) show ?thesis by (simp add: pos_divide_le_eq)
  qed
  also have "\<dots> \<le> budget k later (snd (serve others l))"
    by (rule serve_others_budget [OF assms(1,4,5,6)])
  finally show ?thesis by (simp add: allow_decision)
qed


lemma retry_after_suffices_witness:
  "fst (limiter_allow ''a'' 2000000000 (snd (serve [(''b'', 1500000000)]
     \<lparr>l_tokens_per_second = 1, l_burst_capacity = 1, l_buckets = [(''a'', \<lparr>bk_tokens = 0, bk_last_seen = 1000000000\<rparr>)],
      l_request_count = 1\<rparr>)))"
proof -
  let ?l = "\<lparr>l_tokens_per_second = 1, l_burst_capacity = 1,
     l_buckets = [(''a'', \<lparr>bk_tokens = 0, bk_last_seen = 1000000000\<rparr>)], l_request_count = 1\<rparr>"
  have "limiter_ok 1000000000 ?l" by (simp add: limiter_ok_def)
  moreover have "retry_after_seconds ''a'' 1000000000 ?l \<le> seconds_between 1000000000 2000000000"
    by (simp add: retry_after_seconds_def seconds_between_def)
  ultimately show ?thesis
    using retry_after_suffices [of 1000000000 ?l "[(''b'', 1500000000)]" 2000000000 "''a''"] by simp
qed

end
