(* ===== verification/Routes.thy ===== *)
theory Routes
  imports Orchestrator Circuit_Breaker Dead_Letter Auth Webhook Rate_Limiter
begin

text \<open>
  The REST interface of \<open>src/routes.cpp\<close>: validation of request bodies, one handler per route, the
  pre-routing filter for authentication and rate limiting, and the dispatch on method and path that
  \<open>register_routes\<close> sets up. A handler reads the request and the server state and returns a response;
  \<open>Inl\<close> is an exception that leaves the handler, which the server (built without exception support)
  does not catch. What is published goes to the message log of the orchestrator state. JSON parsing,
  the keyed hash, the exposition format of the metrics and exception texts are fields of the environment.
\<close>

datatype content =
    Json_Content json
  | Text_Content string string

record http_response =
  rs_status :: nat
  rs_headers :: "(string \<times> string) list"
  rs_content :: content

record app =
  a_orch :: orch
  a_limiter :: limiter
  a_breaker :: "breaker option"
  a_dlq :: "dlq option"

record route_env =
  r_store :: store_env
  r_api_key :: string
  r_secret :: "string option"
  r_hmac :: "string \<Rightarrow> string \<Rightarrow> 8 word list option"
  r_serialize :: "metrics \<Rightarrow> string"
  r_parse_message :: "string \<Rightarrow> string"
  r_what :: "exn \<Rightarrow> string"

definition on_orch :: "(orch, 'a) op \<Rightarrow> (app, 'a) op" where
  "on_orch m a = (let (r, s) = m (a_orch a) in (r, a\<lparr>a_orch := s\<rparr>))"

abbreviation on_db :: "(store, 'a) op \<Rightarrow> (app, 'a) op" where
  "on_db m \<equiv> on_orch (on_store m)"

abbreviation publish_msg :: "string \<Rightarrow> json \<Rightarrow> (app, unit) op" where
  "publish_msg subj payload \<equiv> on_orch (emit (Publish subj payload))"

abbreviation publish_log_msg :: "string \<Rightarrow> string \<Rightarrow> string \<Rightarrow> json \<Rightarrow> (app, unit) op" where
  "publish_log_msg subj level message metadata \<equiv> on_orch (emit (Publish_Log subj level message metadata))"

section \<open>Limits and replies\<close>

definition kMaxNameLen :: nat where "kMaxNameLen = 256"
definition kMaxLabelLen :: nat where "kMaxLabelLen = 256"
definition kMaxDescriptionLen :: nat where "kMaxDescriptionLen = 4096"
definition kMaxSubjectLen :: nat where "kMaxSubjectLen = 512"
definition kMaxProgramLen :: nat where "kMaxProgramLen = 1024"
definition kMaxBodyBytes :: nat where "kMaxBodyBytes = 1024 * 1024"
definition kVersion :: string where "kVersion = ''0.1.0''"

definition quoted :: "string \<Rightarrow> string" where
  "quoted s = [CHR 0x27] @ s @ [CHR 0x27]"

primrec strip_internal_fields :: "json \<Rightarrow> json" where
  "strip_internal_fields JNull = JNull"
| "strip_internal_fields (JBool b) = JBool b"
| "strip_internal_fields (JInt i) = JInt i"
| "strip_internal_fields (JReal r) = JReal r"
| "strip_internal_fields (JStr s) = JStr s"
| "strip_internal_fields (JArr xs) = JArr (map strip_internal_fields xs)"
| "strip_internal_fields (JObj kvs) =
     JObj (filter (\<lambda>kv. fst kv \<noteq> ''_github_issue'') (map (map_prod id strip_internal_fields) kvs))"

definition reply_json :: "nat \<Rightarrow> json \<Rightarrow> http_response" where
  "reply_json status body =
     \<lparr>rs_status = status, rs_headers = [(''X-API-Version'', kVersion)],
      rs_content = Json_Content (strip_internal_fields body)\<rparr>"

definition reply_not_found :: "string \<Rightarrow> http_response" where
  "reply_not_found what = reply_json 404 (jobj [(''error'', JStr (what @ '' not found''))])"

definition reply_bad_request :: "string \<Rightarrow> http_response" where
  "reply_bad_request msg = reply_json 400 (jobj [(''error'', JStr msg)])"

section \<open>Validation\<close>

text \<open>A check yields \<open>Some\<close> of the response it sets when it fails.\<close>

definition check_field_length :: "string \<Rightarrow> nat \<Rightarrow> string \<Rightarrow> http_response option" where
  "check_field_length field_name max_len v =
     (if length v > max_len
      then Some (reply_bad_request (''field '' @ quoted field_name @ '' exceeds maximum length of '' @ string_of_nat max_len))
      else None)"

definition parse_body :: "route_env \<Rightarrow> http_request \<Rightarrow> http_response + json" where
  "parse_body env req =
     (if length (rq_body req) > kMaxBodyBytes
      then Inl (reply_json 413 (jobj [(''error'', JStr ''request body too large'')]))
      else if rq_body req = [] then Inr (JObj [])
      else case x_parse (r_store env) (rq_body req) of
        Some j \<Rightarrow> Inr j
      | None \<Rightarrow> Inl (reply_bad_request (''invalid JSON: '' @ r_parse_message env (rq_body req))))"

definition kValidAgentStatuses :: "string list" where
  "kValidAgentStatuses = [''offline'', ''online'', ''error'']"

definition kValidTaskStatuses :: "string list" where
  "kValidTaskStatuses = [''pending'', ''running'', ''completed'', ''failed'', ''blocked'']"

definition kValidTaskTypes :: "string list" where
  "kValidTaskTypes = [''general'', ''research'', ''implementation'', ''review'', ''testing'', ''hello'']"

definition require_nonempty_string :: "string \<Rightarrow> string \<Rightarrow> http_response option" where
  "require_nonempty_string field_name v =
     (if v = [] \<or> list_all is_space v
      then Some (reply_bad_request (quoted field_name @ '' must be a non-empty string'')) else None)"

definition require_enum :: "string \<Rightarrow> string list \<Rightarrow> string \<Rightarrow> http_response option" where
  "require_enum field_name allowlist v =
     (if v \<notin> set allowlist
      then Some (reply_bad_request (quoted field_name @ '' has invalid value '' @ quoted v)) else None)"

definition require_string_if_present :: "json \<Rightarrow> string \<Rightarrow> http_response option" where
  "require_string_if_present body field_name =
     (case jlookup body field_name of
        None \<Rightarrow> None
      | Some v \<Rightarrow> if is_string v then None
          else Some (reply_bad_request (quoted field_name @ '' must be a string'')))"

definition require_field_present :: "json \<Rightarrow> string \<Rightarrow> http_response option" where
  "require_field_present body field_name =
     (if jcontains body field_name then None
      else Some (reply_bad_request (quoted field_name @ '' is required'')))"

definition require_string_array :: "string \<Rightarrow> json \<Rightarrow> http_response option" where
  "require_string_array field_name arr =
     (if \<not> is_array arr then Some (reply_bad_request (quoted field_name @ '' must be an array''))
      else if list_ex (\<lambda>e. \<not> is_string e) (elements arr)
      then Some (reply_bad_request (quoted field_name @ '' elements must be strings''))
      else None)"

text \<open>\<open>if (body.contains(k) && !check(body[k].get<std::string>())) return;\<close>: the conversion throws on a
value that is not a string.\<close>

definition if_present :: "json \<Rightarrow> string \<Rightarrow> (json \<Rightarrow> http_response option result) \<Rightarrow> http_response option result" where
  "if_present body k check = (case jlookup body k of None \<Rightarrow> Inr None | Some v \<Rightarrow> check v)"

definition as_string :: "(string \<Rightarrow> http_response option) \<Rightarrow> json \<Rightarrow> http_response option result" where
  "as_string check v = bind_result (get_string v) (\<lambda>s. Inr (check s))"

text \<open>\<open>if (body.contains(k) && body[k].is_string() && !check(...)) return;\<close>\<close>

definition if_string :: "(string \<Rightarrow> http_response option) \<Rightarrow> json \<Rightarrow> http_response option result" where
  "if_string check v = (case v of JStr s \<Rightarrow> Inr (check s) | _ \<Rightarrow> Inr None)"

text \<open>The checks in order: the first that fails or throws decides.\<close>

fun first_failure :: "http_response option result list \<Rightarrow> http_response option result" where
  "first_failure [] = Inr None"
| "first_failure (Inl e # vs) = Inl e"
| "first_failure (Inr (Some r) # vs) = Inr (Some r)"
| "first_failure (Inr None # vs) = first_failure vs"

definition checked :: "http_response option result list \<Rightarrow> (app, http_response) op \<Rightarrow> (app, http_response) op" where
  "checked vs m =
     bind_op (lift_result (first_failure vs)) (\<lambda>bad. case bad of Some r \<Rightarrow> ret r | None \<Rightarrow> m)"

definition with_body :: "route_env \<Rightarrow> http_request \<Rightarrow> (json \<Rightarrow> (app, http_response) op) \<Rightarrow> (app, http_response) op" where
  "with_body env req m = (case parse_body env req of Inl r \<Rightarrow> ret r | Inr body \<Rightarrow> m body)"

section \<open>Pagination\<close>

definition kDefaultLimit :: nat where "kDefaultLimit = 100"
definition kMaxLimit :: nat where "kMaxLimit = 1000"

definition parse_pagination :: "http_request \<Rightarrow> http_response + nat \<times> nat" where
  "parse_pagination req =
     (let limit = (case rq_param req ''limit'' of
            None \<Rightarrow> Inr kDefaultLimit
          | Some s \<Rightarrow> bind_result (stoul s) (\<lambda>v. Inr (min v kMaxLimit)));
          offset = (case rq_param req ''offset'' of None \<Rightarrow> Inr 0 | Some s \<Rightarrow> stoul s)
      in case bind_result limit (\<lambda>l. bind_result offset (\<lambda>k. Inr (l, k))) of
           Inl _ \<Rightarrow> Inl (reply_bad_request ''limit and offset must be non-negative integers'')
         | Inr p \<Rightarrow> Inr p)"

definition paged :: "http_request \<Rightarrow> (nat \<Rightarrow> nat \<Rightarrow> (app, json) op) \<Rightarrow> (app, http_response) op" where
  "paged req m =
     (case parse_pagination req of
        Inl r \<Rightarrow> ret r
      | Inr (limit, offset) \<Rightarrow> bind_op (m limit offset) (\<lambda>j. ret (reply_json 200 j)))"


section \<open>Health, metrics, dead letters\<close>

definition get_metrics :: "route_env \<Rightarrow> (app, http_response) op" where
  "get_metrics env =
     gets (\<lambda>a. \<lparr>rs_status = 200, rs_headers = [],
       rs_content = Text_Content ''text/plain; version=0.0.4; charset=utf-8''
         (r_serialize env (case s_metrics (o_store (a_orch a)) of Some m \<Rightarrow> m | None \<Rightarrow> new_metrics))\<rparr>)"

definition get_health :: "(app, http_response) op" where
  "get_health = ret (reply_json 200 (jobj [(''status'', JStr ''ok''), (''service'', JStr ''Agamemnon'')]))"

definition get_v1_health :: "(app, http_response) op" where
  "get_v1_health =
     gets (\<lambda>a. let b0 = jobj [(''status'', JStr ''ok'')];
        b1 = (case a_breaker a of None \<Rightarrow> b0 | Some b \<Rightarrow> jset ''nats_circuit'' (JStr (state_label (cb_st b))) b0);
        b2 = (case a_dlq a of None \<Rightarrow> b1 | Some q \<Rightarrow> jset ''dlq_depth'' (JInt (int (dlq_size q))) b1)
      in reply_json 200 b2)"

definition dead_letter_json :: "dlq_entry \<Rightarrow> json" where
  "dead_letter_json e =
     jobj [(''subject'', JStr (d_subject e)), (''payload'', JStr (d_payload e)),
           (''attempts'', JInt (d_attempts e)), (''timestamp_ms'', JInt (d_timestamp_ms e))]"

definition get_dead_letter :: "(app, http_response) op" where
  "get_dead_letter a =
     (case a_dlq a of
        None \<Rightarrow> (Inr (reply_json 200 (jobj [(''dead_letter_queue'', JArr [])])), a)
      | Some q \<Rightarrow>
          let (entries, q') = drain q in
          (Inr (reply_json 200 (jobj [(''dead_letter_queue'', JArr (map dead_letter_json entries))])),
           a\<lparr>a_dlq := Some q'\<rparr>))"

definition delete_dead_letter :: "(app, http_response) op" where
  "delete_dead_letter =
     bind_op (modify (\<lambda>a. a\<lparr>a_dlq := map_option clear (a_dlq a)\<rparr>)) (\<lambda>_.
       ret (reply_json 200 (jobj [(''cleared'', JBool True)])))"

definition get_version :: "(app, http_response) op" where
  "get_version = ret (reply_json 200 (jobj [(''version'', JStr kVersion), (''name'', JStr ''Agamemnon'')]))"

section \<open>Agents\<close>

definition get_agents :: "route_env \<Rightarrow> http_request \<Rightarrow> (app, http_response) op" where
  "get_agents env req = paged req (\<lambda>limit offset. on_db (list_agents (r_store env) limit offset))"

definition jget :: "json \<Rightarrow> string \<Rightarrow> json" where
  "jget j k = (case jlookup j k of None \<Rightarrow> JNull | Some v \<Rightarrow> v)"

definition post_agents :: "route_env \<Rightarrow> http_request \<Rightarrow> (app, http_response) op" where
  "post_agents env req =
     with_body env req (\<lambda>body.
     checked
       [Inr (require_field_present body ''name''),
        Inr (require_string_if_present body ''name''),
        if_present body ''name'' (as_string (require_nonempty_string ''name'')),
        if_present body ''name'' (as_string (check_field_length ''name'' kMaxNameLen)),
        if_present body ''label'' (as_string (check_field_length ''label'' kMaxLabelLen)),
        if_present body ''program'' (as_string (check_field_length ''program'' kMaxProgramLen)),
        if_present body ''taskDescription'' (as_string (check_field_length ''taskDescription'' kMaxDescriptionLen)),
        if_present body ''status'' (if_string (require_enum ''status'' kValidAgentStatuses))]
       (bind_op (on_db (create_agent (r_store env) body)) (\<lambda>result.
        let agent = jget result ''agent'' in
        bind_op (lift_result (value_str agent ''host'' ''local'')) (\<lambda>host.
        bind_op (lift_result (value_str agent ''name'' ''unknown'')) (\<lambda>name.
        bind_op (lift_result (value_str agent ''id'' ''unknown'')) (\<lambda>agent_id.
        bind_op (lift_result (value_str agent ''type'' ''unknown'')) (\<lambda>agent_type.
        bind_op (publish_msg (''hi.agents.'' @ host @ ''.'' @ name @ ''.created'') result) (\<lambda>_.
        bind_op (publish_log_msg ''hi.logs.agamemnon.agent_created'' ''info'' (''Agent created: '' @ agent_id)
          (jobj [(''agent_id'', JStr agent_id), (''name'', JStr name), (''type'', JStr agent_type),
                 (''host'', JStr host)])) (\<lambda>_.
          ret (reply_json 201 result))))))))))"

text \<open>Publication of a changed agent under its host and name.\<close>

definition publish_agent_updated :: "json \<Rightarrow> (app, unit) op" where
  "publish_agent_updated result =
     bind_op (lift_result (value_str result ''host'' ''local'')) (\<lambda>host.
     bind_op (lift_result (value_str result ''name'' ''unknown'')) (\<lambda>name.
       publish_msg (''hi.agents.'' @ host @ ''.'' @ name @ ''.updated'') result))"

definition post_agent_start :: "route_env \<Rightarrow> string \<Rightarrow> (app, http_response) op" where
  "post_agent_start env ident =
     bind_op (on_db (start_agent (r_store env) ident)) (\<lambda>result.
       if is_null result then ret (reply_not_found ''agent'')
       else bind_op (publish_agent_updated result) (\<lambda>_. ret (reply_json 200 result)))"

definition post_agent_stop :: "route_env \<Rightarrow> string \<Rightarrow> (app, http_response) op" where
  "post_agent_stop env ident =
     bind_op (on_db (stop_agent (r_store env) ident)) (\<lambda>result.
       if is_null result then ret (reply_not_found ''agent'')
       else bind_op (publish_agent_updated result) (\<lambda>_. ret (reply_json 200 result)))"

text \<open>\<open>if (v.is_null()) reply_not_found(what) else reply_json(200, {{what, v}})\<close>\<close>

definition reply_entity :: "string \<Rightarrow> json \<Rightarrow> http_response" where
  "reply_entity what v = (if is_null v then reply_not_found what else reply_json 200 (jobj [(what, v)]))"

definition get_agent_named :: "route_env \<Rightarrow> string \<Rightarrow> (app, http_response) op" where
  "get_agent_named env name =
     bind_op (on_db (get_agent_by_name (r_store env) name)) (\<lambda>agent. ret (reply_entity ''agent'' agent))"

definition get_agent_route :: "route_env \<Rightarrow> string \<Rightarrow> (app, http_response) op" where
  "get_agent_route env ident =
     bind_op (on_db (get_agent (r_store env) ident)) (\<lambda>agent. ret (reply_entity ''agent'' agent))"

definition patch_agent :: "route_env \<Rightarrow> http_request \<Rightarrow> string \<Rightarrow> (app, http_response) op" where
  "patch_agent env req ident =
     with_body env req (\<lambda>body.
     checked
       [Inr (require_string_if_present body ''name''),
        if_present body ''name'' (as_string (require_nonempty_string ''name'')),
        if_present body ''name'' (as_string (check_field_length ''name'' kMaxNameLen)),
        Inr (require_string_if_present body ''label''),
        if_present body ''label'' (as_string (check_field_length ''label'' kMaxLabelLen)),
        Inr (require_string_if_present body ''program''),
        if_present body ''program'' (as_string (check_field_length ''program'' kMaxProgramLen)),
        Inr (require_string_if_present body ''taskDescription''),
        if_present body ''taskDescription'' (as_string (check_field_length ''taskDescription'' kMaxDescriptionLen)),
        if_present body ''status'' (if_string (require_enum ''status'' kValidAgentStatuses))]
       (bind_op (on_db (update_agent (r_store env) ident body)) (\<lambda>result.
          if is_null result then ret (reply_not_found ''agent'')
          else bind_op (publish_agent_updated result) (\<lambda>_.
                 ret (reply_json 200 (jobj [(''agent'', result)]))))))"

definition delete_agent_route :: "route_env \<Rightarrow> string \<Rightarrow> (app, http_response) op" where
  "delete_agent_route env ident =
     bind_op (on_db (get_agent (r_store env) ident)) (\<lambda>agent.
     bind_op (on_db (delete_agent (r_store env) ident)) (\<lambda>deleted.
     if \<not> deleted then ret (reply_not_found ''agent'')
     else
       bind_op (if is_null agent then ret ''local'' else lift_result (value_str agent ''host'' ''local'')) (\<lambda>host.
       bind_op (if is_null agent then ret ''unknown'' else lift_result (value_str agent ''name'' ''unknown'')) (\<lambda>name.
       bind_op (publish_msg (''hi.agents.'' @ host @ ''.'' @ name @ ''.deleted'') (jobj [(''id'', JStr ident)])) (\<lambda>_.
         ret (reply_json 200 (jobj [(''deleted'', JStr ident)])))))))"

section \<open>Teams\<close>

definition get_teams :: "route_env \<Rightarrow> http_request \<Rightarrow> (app, http_response) op" where
  "get_teams env req = paged req (\<lambda>limit offset. on_db (list_teams (r_store env) limit offset))"

text \<open>The checks of team bodies after the presence of a name.\<close>

definition team_checks :: "json \<Rightarrow> http_response option result list" where
  "team_checks body =
     [Inr (require_string_if_present body ''name''),
      if_present body ''name'' (as_string (require_nonempty_string ''name'')),
      if_present body ''name'' (as_string (check_field_length ''name'' kMaxNameLen)),
      if_present body ''agentIds'' (\<lambda>v. Inr (require_string_array ''agentIds'' v)),
      if_present body ''agent_ids'' (\<lambda>v. Inr (require_string_array ''agent_ids'' v))]"

definition post_teams :: "route_env \<Rightarrow> http_request \<Rightarrow> (app, http_response) op" where
  "post_teams env req =
     with_body env req (\<lambda>body.
     checked (Inr (require_field_present body ''name'') # team_checks body)
       (bind_op (on_db (create_team (r_store env) body)) (\<lambda>result.
        bind_op (publish_msg ''hi.agents.team.created'' result) (\<lambda>_.
          ret (reply_json 201 result)))))"

definition get_team_route :: "route_env \<Rightarrow> string \<Rightarrow> (app, http_response) op" where
  "get_team_route env ident =
     bind_op (on_db (get_team (r_store env) ident)) (\<lambda>team. ret (reply_entity ''team'' team))"

definition put_team :: "route_env \<Rightarrow> http_request \<Rightarrow> string \<Rightarrow> (app, http_response) op" where
  "put_team env req ident =
     with_body env req (\<lambda>body.
     checked (team_checks body)
       (bind_op (on_db (update_team (r_store env) ident body)) (\<lambda>result.
          if is_null result then ret (reply_not_found ''team'')
          else bind_op (publish_msg ''hi.agents.team.updated'' result) (\<lambda>_.
                 ret (reply_json 200 (jobj [(''team'', result)]))))))"

definition delete_team_route :: "route_env \<Rightarrow> string \<Rightarrow> (app, http_response) op" where
  "delete_team_route env ident =
     bind_op (on_db (delete_team (r_store env) ident)) (\<lambda>deleted.
       if \<not> deleted then ret (reply_not_found ''team'')
       else bind_op (publish_msg ''hi.agents.team.deleted'' (jobj [(''id'', JStr ident)])) (\<lambda>_.
              ret (reply_json 200 (jobj [(''deleted'', JStr ident)]))))"


section \<open>Tasks\<close>

definition get_tasks :: "route_env \<Rightarrow> http_request \<Rightarrow> (app, http_response) op" where
  "get_tasks env req = paged req (\<lambda>limit offset. on_db (list_all_tasks (r_store env) limit offset))"

definition get_team_tasks :: "route_env \<Rightarrow> http_request \<Rightarrow> string \<Rightarrow> (app, http_response) op" where
  "get_team_tasks env req team_id =
     paged req (\<lambda>limit offset. on_db (list_tasks_for_team (r_store env) team_id limit offset))"

text \<open>The two dispatches of a flat task and the log entry about them.\<close>

definition dispatch_flat_task :: "string \<Rightarrow> json \<Rightarrow> (app, unit) op" where
  "dispatch_flat_task team_id task =
     bind_op (lift_result (value_str task ''type'' ''general'')) (\<lambda>task_type.
     bind_op (lift_result (value_str task ''id'' ''unknown'')) (\<lambda>task_id.
     bind_op (lift_result (value_str task ''subject'' [])) (\<lambda>subj.
     bind_op (lift_result (value_str task ''description'' [])) (\<lambda>desc.
     bind_op (lift_result (value_str task ''assigneeAgentId'' [])) (\<lambda>assignee.
     let subject = ''hi.myrmidon.'' @ task_type @ ''.'' @ task_id;
         payload = jobj [(''task_id'', JStr task_id), (''team_id'', JStr team_id), (''subject'', JStr subj),
           (''description'', JStr desc), (''type'', JStr task_type), (''assignee'', JStr assignee)] in
     bind_op (publish_msg subject payload) (\<lambda>_.
     bind_op (publish_msg (mesh_dispatch_subject ''pipeline'' task_type task_id) payload) (\<lambda>_.
       publish_log_msg ''hi.logs.agamemnon.task_dispatched'' ''info'' (''Task dispatched: '' @ task_id)
         (jobj [(''task_id'', JStr task_id), (''team_id'', JStr team_id), (''type'', JStr task_type),
                (''subject'', JStr subject)]))))))))"

definition post_team_tasks :: "route_env \<Rightarrow> http_request \<Rightarrow> string \<Rightarrow> (app, http_response) op" where
  "post_team_tasks env req team_id =
     with_body env req (\<lambda>body.
     checked
       [Inr (require_field_present body ''subject''),
        Inr (require_string_if_present body ''subject''),
        if_present body ''subject'' (as_string (require_nonempty_string ''subject'')),
        if_present body ''subject'' (as_string (check_field_length ''subject'' kMaxSubjectLen)),
        Inr (require_string_if_present body ''description''),
        if_present body ''description'' (as_string (check_field_length ''description'' kMaxDescriptionLen)),
        if_present body ''type'' (if_string (require_enum ''type'' kValidTaskTypes)),
        if_present body ''blockedBy'' (\<lambda>v. Inr (require_string_array ''blockedBy'' v))]
       (bind_op (on_db (create_task (r_store env) team_id body)) (\<lambda>result.
        bind_op (publish_msg ''hi.tasks.created'' result) (\<lambda>_.
        bind_op (dispatch_flat_task team_id (jget result ''task'')) (\<lambda>_.
          ret (reply_json 201 result))))))"

definition get_task_route :: "route_env \<Rightarrow> string \<Rightarrow> string \<Rightarrow> (app, http_response) op" where
  "get_task_route env team_id task_id =
     bind_op (on_db (get_task (r_store env) team_id task_id)) (\<lambda>task. ret (reply_entity ''task'' task))"

text \<open>\<open>PUT\<close> and \<open>PATCH\<close> share this handler.\<close>

definition update_task_handler :: "route_env \<Rightarrow> http_request \<Rightarrow> string \<Rightarrow> string \<Rightarrow> (app, http_response) op" where
  "update_task_handler env req team_id task_id =
     with_body env req (\<lambda>body.
     checked
       [Inr (require_string_if_present body ''subject''),
        if_present body ''subject'' (as_string (check_field_length ''subject'' kMaxSubjectLen)),
        Inr (require_string_if_present body ''description''),
        if_present body ''description'' (as_string (check_field_length ''description'' kMaxDescriptionLen)),
        if_present body ''status'' (if_string (require_enum ''status'' kValidTaskStatuses)),
        if_present body ''type'' (if_string (require_enum ''type'' kValidTaskTypes)),
        if_present body ''blockedBy'' (\<lambda>v. Inr (require_string_array ''blockedBy'' v))]
       (bind_op (on_db (update_task (r_store env) team_id task_id body)) (\<lambda>result.
        if is_null result then ret (reply_not_found ''task'')
        else
          bind_op (lift_result (value_str result ''status'' [])) (\<lambda>status.
          let wrapped = jobj [(''task'', result)] in
          bind_op (publish_msg (''hi.tasks.'' @ team_id @ ''.'' @ task_id @ ''.updated'') wrapped) (\<lambda>_.
          bind_op (if status = ''completed'' then
              bind_op (lift_result (value_str result ''type'' ''unknown'')) (\<lambda>task_type.
              bind_op (lift_result (value_str result ''assigneeAgentId'' [])) (\<lambda>assignee.
                publish_log_msg ''hi.logs.agamemnon.task_completed'' ''info'' (''Task completed: '' @ task_id)
                  (jobj [(''task_id'', JStr task_id), (''team_id'', JStr team_id), (''type'', JStr task_type),
                         (''assignee'', JStr assignee)])))
            else ret ()) (\<lambda>_.
            ret (reply_json 200 wrapped)))))))"

section \<open>Chaos\<close>

definition get_chaos :: "route_env \<Rightarrow> http_request \<Rightarrow> (app, http_response) op" where
  "get_chaos env req = paged req (\<lambda>limit offset. on_db (list_faults (r_store env) limit offset))"

definition post_chaos :: "route_env \<Rightarrow> string \<Rightarrow> (app, http_response) op" where
  "post_chaos env type =
     bind_op (on_db (create_fault (r_store env) type)) (\<lambda>result.
     bind_op (publish_msg ''hi.agents.chaos.injected'' result) (\<lambda>_.
       ret (reply_json 201 result)))"

definition delete_chaos :: "route_env \<Rightarrow> string \<Rightarrow> (app, http_response) op" where
  "delete_chaos env ident =
     bind_op (on_db (remove_fault (r_store env) ident)) (\<lambda>removed.
       if \<not> removed then ret (reply_not_found ''fault'')
       else bind_op (publish_msg ''hi.agents.chaos.removed'' (jobj [(''id'', JStr ident)])) (\<lambda>_.
              ret (reply_json 200 (jobj [(''deleted'', JStr ident)]))))"

section \<open>HMAS orchestration\<close>

definition post_briefs :: "route_env \<Rightarrow> http_request \<Rightarrow> (app, http_response) op" where
  "post_briefs env req =
     with_body env req (\<lambda>body.
     bind_op (case jlookup body ''title'' of
         None \<Rightarrow> ret True
       | Some v \<Rightarrow> bind_op (lift_result (get_string v)) (\<lambda>t. ret (t = []))) (\<lambda>missing.
     if missing then ret (reply_bad_request ''title is required'')
     else
       catch_op
         (bind_op (lift_result (task_brief_from_json body)) (\<lambda>brief.
          bind_op (on_orch (submit (r_store env) brief)) (\<lambda>brief_id.
          bind_op (on_orch (get_plan (r_store env) brief_id)) (\<lambda>plan.
            ret (reply_json 201 plan)))))
         (\<lambda>e. ret (reply_bad_request (''invalid brief: '' @ r_what env e)))))"

definition get_brief_plan :: "route_env \<Rightarrow> string \<Rightarrow> (app, http_response) op" where
  "get_brief_plan env brief_id =
     bind_op (on_orch (get_plan (r_store env) brief_id)) (\<lambda>plan.
       let no_tasks = (elements (jget plan ''tasks'') = []);
           no_brief = (\<not> jcontains plan ''brief'' \<and> is_null (jget plan ''root'')) in
       ret (if no_tasks \<and> no_brief then reply_not_found ''brief'' else reply_json 200 plan))"

definition post_task_escalate :: "route_env \<Rightarrow> http_request \<Rightarrow> string \<Rightarrow> (app, http_response) op" where
  "post_task_escalate env req task_id =
     with_body env req (\<lambda>body.
     bind_op (lift_result (value_str body ''reason'' ''unspecified'')) (\<lambda>reason.
     bind_op (on_orch (escalate (r_store env) task_id reason)) (\<lambda>ok.
       ret (if \<not> ok then reply_not_found ''task''
            else reply_json 200 (jobj [(''task_id'', JStr task_id), (''escalated'', JBool True)])))))"

definition post_task_split :: "route_env \<Rightarrow> http_request \<Rightarrow> string \<Rightarrow> (app, http_response) op" where
  "post_task_split env req task_id =
     with_body env req (\<lambda>body.
     if elements (jget body ''subtasks'') = []
     then ret (reply_bad_request ''subtasks must be a non-empty array'')
     else
       bind_op (on_orch (split_task (r_store env) task_id (jget body ''subtasks''))) (\<lambda>result.
       case jlookup result ''error'' of
         None \<Rightarrow> ret (reply_json 201 result)
       | Some err \<Rightarrow>
           if err = JStr ''task not found'' then ret (reply_not_found ''task'')
           else bind_op (lift_result (get_string err)) (\<lambda>msg. ret (reply_bad_request msg))))"

text \<open>The payload is printed and parsed again on its way into the handler of worker messages.\<close>

definition post_task_complete :: "route_env \<Rightarrow> http_request \<Rightarrow> string \<Rightarrow> (app, http_response) op" where
  "post_task_complete env req task_id =
     with_body env req (\<lambda>body.
     bind_op (on_orch (on_myrmidon_completion (r_store env) (Some (jobj [(''task_id'', JStr task_id)])))) (\<lambda>_.
       ret (reply_json 200 (jobj [(''task_id'', JStr task_id), (''completed'', JBool True)]))))"

definition get_task_state :: "route_env \<Rightarrow> string \<Rightarrow> (app, http_response) op" where
  "get_task_state env task_id =
     bind_op (on_db (get_hmas_task (r_store env) task_id)) (\<lambda>task_opt.
     case task_opt of
       None \<Rightarrow> ret (reply_not_found ''task'')
     | Some task \<Rightarrow>
         ret (reply_json 200 (jobj [(''task_id'', JStr task_id),
           (''state'', JStr (task_state_to_string (t_state task))),
           (''layer'', JStr (hmas_layer_to_string (t_layer task))), (''task'', hmas_task_to_json task)])))"

section \<open>Webhook\<close>

definition post_webhook :: "route_env \<Rightarrow> http_request \<Rightarrow> (app, http_response) op" where
  "post_webhook env req =
     (case r_secret env of
        None \<Rightarrow> ret (reply_json 503 (jobj [(''error'', JStr ''webhook not configured'')]))
      | Some secret \<Rightarrow>
        if secret = [] then ret (reply_json 503 (jobj [(''error'', JStr ''webhook not configured'')]))
        else if \<not> verify_github_signature (r_hmac env) secret (header_value req ''X-Hub-Signature-256'') (rq_body req)
        then ret (reply_json 401 (jobj [(''error'', JStr ''invalid signature'')]))
        else
          let event = header_value req ''X-GitHub-Event'' in
          if event = ''ping'' then ret (reply_json 200 (jobj [(''pong'', JBool True)]))
          else if event \<noteq> ''issues'' then ret (reply_json 200 (jobj [(''ignored'', JStr event)]))
          else
            with_body env req (\<lambda>payload.
            case normalize_issues_event payload of
              None \<Rightarrow> ret (reply_json 200 (jobj [(''ignored'', JStr ''no-op action or label'')]))
            | Some ev \<Rightarrow>
                bind_op (on_db (apply_github_event (r_store env) (ne_entity_label ev) (ne_action ev)
                    (ne_issue_shape ev) (ne_updated_at ev))) (\<lambda>changed.
                  ret (reply_json 200 (jobj [(''applied'', JBool changed), (''action'', JStr (ne_action ev))])))))"


section \<open>Pre-routing\<close>

text \<open>\<open>Some\<close> is a response that ends the request (\<open>Handled\<close>); \<open>now\<close> and \<open>now'\<close> are the clock readings of
the two calls of the limiter.\<close>

definition rate_limited :: "nat \<Rightarrow> http_response" where
  "rate_limited retry =
     \<lparr>rs_status = 429, rs_headers = [(''Retry-After'', string_of_nat retry)],
      rs_content = Text_Content ''application/json''
        (''{'' @ [CHR 0x22] @ ''error'' @ [CHR 0x22] @ '':'' @ [CHR 0x22] @ ''rate limit exceeded'' @ [CHR 0x22] @ '',''
          @ [CHR 0x22] @ ''retry_after_seconds'' @ [CHR 0x22] @ '':'' @ string_of_nat retry @ ''}'')\<rparr>"

definition unauthorized :: http_response where
  "unauthorized =
     \<lparr>rs_status = 401, rs_headers = [],
      rs_content = Text_Content ''application/json''
        (''{'' @ [CHR 0x22] @ ''error'' @ [CHR 0x22] @ '':'' @ [CHR 0x22] @ ''unauthorized'' @ [CHR 0x22] @ ''}'')\<rparr>"

definition pre_routing :: "route_env \<Rightarrow> int \<Rightarrow> int \<Rightarrow> http_request \<Rightarrow> (app, http_response option) op" where
  "pre_routing env now now' req a =
     (if rq_path req = ''/v1/github/webhook'' then (Inr None, a)
      else if \<not> validate (r_api_key env) req then (Inr (Some unauthorized), a)
      else if rq_path req \<in> {''/health'', ''/v1/health'', ''/v1/version''} then (Inr None, a)
      else
        let (ok, l) = limiter_allow (rq_remote_addr req) now (a_limiter a); a' = a\<lparr>a_limiter := l\<rparr> in
        if ok then (Inr None, a')
        else (Inr (Some (rate_limited (nat \<lfloor>retry_after_seconds (rq_remote_addr req) now' l\<rfloor> + 1))), a'))"

section \<open>Dispatch\<close>

text \<open>The path between slashes; the route patterns match one or more characters other than a slash.\<close>

fun split_slash :: "string \<Rightarrow> string \<Rightarrow> string list" where
  "split_slash acc [] = [rev acc]"
| "split_slash acc (c # s) = (if c = CHR ''/'' then rev acc # split_slash [] s else split_slash (c # acc) s)"

definition segments :: "string \<Rightarrow> string list" where
  "segments path = (case path of c # s \<Rightarrow> if c = CHR ''/'' then split_slash [] s else [] | [] \<Rightarrow> [])"

definition no_route :: "(app, http_response) op" where
  "no_route = ret \<lparr>rs_status = 404, rs_headers = [], rs_content = Text_Content [] []\<rparr>"

definition dispatch2 :: "route_env \<Rightarrow> http_request \<Rightarrow> string \<Rightarrow> string \<Rightarrow> (app, http_response) op" where
  "dispatch2 env req m a =
     (if m = ''GET'' \<and> a = ''health'' then get_v1_health
      else if m = ''GET'' \<and> a = ''dead-letter'' then get_dead_letter
      else if m = ''DELETE'' \<and> a = ''dead-letter'' then delete_dead_letter
      else if m = ''GET'' \<and> a = ''version'' then get_version
      else if m = ''GET'' \<and> a = ''agents'' then get_agents env req
      else if m = ''POST'' \<and> a = ''agents'' then post_agents env req
      else if m = ''GET'' \<and> a = ''teams'' then get_teams env req
      else if m = ''POST'' \<and> a = ''teams'' then post_teams env req
      else if m = ''GET'' \<and> a = ''tasks'' then get_tasks env req
      else if m = ''GET'' \<and> a = ''chaos'' then get_chaos env req
      else if m = ''POST'' \<and> a = ''briefs'' then post_briefs env req
      else no_route)"

definition dispatch3 :: "route_env \<Rightarrow> http_request \<Rightarrow> string \<Rightarrow> string \<Rightarrow> string \<Rightarrow> (app, http_response) op" where
  "dispatch3 env req m a i =
     (if m = ''GET'' \<and> a = ''agents'' then get_agent_route env i
      else if m = ''PATCH'' \<and> a = ''agents'' then patch_agent env req i
      else if m = ''DELETE'' \<and> a = ''agents'' then delete_agent_route env i
      else if m = ''GET'' \<and> a = ''teams'' then get_team_route env i
      else if m = ''PUT'' \<and> a = ''teams'' then put_team env req i
      else if m = ''DELETE'' \<and> a = ''teams'' then delete_team_route env i
      else if m = ''POST'' \<and> a = ''chaos'' then post_chaos env i
      else if m = ''DELETE'' \<and> a = ''chaos'' then delete_chaos env i
      else if m = ''POST'' \<and> a = ''github'' \<and> i = ''webhook'' then post_webhook env req
      else no_route)"

definition dispatch4 :: "route_env \<Rightarrow> http_request \<Rightarrow> string \<Rightarrow> string \<Rightarrow> string \<Rightarrow> string \<Rightarrow> (app, http_response) op" where
  "dispatch4 env req m a i b =
     (if m = ''POST'' \<and> a = ''agents'' \<and> b = ''start'' then post_agent_start env i
      else if m = ''POST'' \<and> a = ''agents'' \<and> b = ''stop'' then post_agent_stop env i
      else if m = ''GET'' \<and> a = ''agents'' \<and> i = ''by-name'' then get_agent_named env b
      else if m = ''GET'' \<and> a = ''teams'' \<and> b = ''tasks'' then get_team_tasks env req i
      else if m = ''POST'' \<and> a = ''teams'' \<and> b = ''tasks'' then post_team_tasks env req i
      else if m = ''GET'' \<and> a = ''briefs'' \<and> b = ''plan'' then get_brief_plan env i
      else if m = ''POST'' \<and> a = ''tasks'' \<and> b = ''escalate'' then post_task_escalate env req i
      else if m = ''POST'' \<and> a = ''tasks'' \<and> b = ''split'' then post_task_split env req i
      else if m = ''POST'' \<and> a = ''tasks'' \<and> b = ''complete'' then post_task_complete env req i
      else if m = ''GET'' \<and> a = ''tasks'' \<and> b = ''state'' then get_task_state env i
      else no_route)"

text \<open>A \<open>HEAD\<close> request is answered by the handler of \<open>GET\<close>.\<close>

definition handle :: "route_env \<Rightarrow> http_request \<Rightarrow> (app, http_response) op" where
  "handle env req =
     (let segs = segments (rq_path req);
          m = (if rq_method req = ''HEAD'' then ''GET'' else rq_method req) in
      if [] \<in> set segs then no_route
      else case segs of
        [a] \<Rightarrow> if m = ''GET'' \<and> a = ''metrics'' then get_metrics env
               else if m = ''GET'' \<and> a = ''health'' then get_health else no_route
      | [v, a] \<Rightarrow> if v = ''v1'' then dispatch2 env req m a else no_route
      | [v, a, i] \<Rightarrow> if v = ''v1'' then dispatch3 env req m a i else no_route
      | [v, a, i, b] \<Rightarrow> if v = ''v1'' then dispatch4 env req m a i b else no_route
      | [v, a, i, b, j] \<Rightarrow>
          if v = ''v1'' \<and> a = ''teams'' \<and> b = ''tasks'' \<and> m = ''GET'' then get_task_route env i j
          else if v = ''v1'' \<and> a = ''teams'' \<and> b = ''tasks'' \<and> (m = ''PUT'' \<or> m = ''PATCH'')
          then update_task_handler env req i j else no_route
      | _ \<Rightarrow> no_route)"

definition serve_request :: "route_env \<Rightarrow> int \<Rightarrow> int \<Rightarrow> http_request \<Rightarrow> (app, http_response) op" where
  "serve_request env now now' req =
     bind_op (pre_routing env now now' req) (\<lambda>early.
       case early of Some r \<Rightarrow> ret r | None \<Rightarrow> handle env req)"

end
