(* ===== verification/Routes_Props.thy ===== *)
theory Routes_Props
  imports Routes
begin

text \<open>
  Properties of the REST interface: what every response looks like, what a request without credentials can
  do, and which bodies make a handler throw.
\<close>

named_theorems ans_intros \<open>responses of handlers\<close>

section \<open>Responses carry no internal members\<close>

primrec no_internal :: "json \<Rightarrow> bool" where
  "no_internal JNull = True"
| "no_internal (JBool b) = True"
| "no_internal (JInt i) = True"
| "no_internal (JReal r) = True"
| "no_internal (JStr s) = True"
| "no_internal (JArr xs) = list_all id (map no_internal xs)"
| "no_internal (JObj kvs) =
     list_all (\<lambda>(k, b). k \<noteq> ''_github_issue'' \<and> b) (map (map_prod id no_internal) kvs)"

lemma no_internal_strip [simp]: "no_internal (strip_internal_fields j)"
proof (induction j)
  case (JArr xs)
  then show ?case by (auto simp: list_all_iff)
next
  case (JObj kvs)
  then show ?case by (fastforce simp: list_all_iff)
qed simp_all

definition clean :: "http_response \<Rightarrow> bool" where
  "clean r = (case rs_content r of Json_Content j \<Rightarrow> no_internal j | Text_Content _ _ \<Rightarrow> True)"

lemma clean_replies [ans_intros]:
  "clean (reply_json st j)" "clean (reply_not_found what)" "clean (reply_bad_request msg)"
  "clean (reply_entity what j)" "clean unauthorized" "clean (rate_limited n)"
  by (simp_all add: clean_def reply_json_def reply_not_found_def reply_bad_request_def reply_entity_def
      unauthorized_def rate_limited_def)

definition answers :: "('a \<Rightarrow> bool) \<Rightarrow> ('s, 'a) op \<Rightarrow> bool" where
  "answers P m \<longleftrightarrow> (\<forall>s r s'. m s = (Inr r, s') \<longrightarrow> P r)"

lemma answersD: "answers P m \<Longrightarrow> m s = (Inr r, s') \<Longrightarrow> P r"
  by (auto simp: answers_def)

lemma answers_ret [ans_intros]: "P r \<Longrightarrow> answers P (ret r)"
  by (simp add: answers_def ret_def)

lemma answers_gets [ans_intros]: "(\<And>a. P (f a)) \<Longrightarrow> answers P (gets f)"
  by (auto simp: answers_def gets_def)

lemma answers_bind_with: "answers Q m \<Longrightarrow> (\<And>x. Q x \<Longrightarrow> answers P (f x)) \<Longrightarrow> answers P (bind_op m f)"
  unfolding answers_def bind_op_Inr_iff by blast

lemma answers_bind [ans_intros]: "(\<And>x. answers P (f x)) \<Longrightarrow> answers P (bind_op m f)"
  by (rule answers_bind_with [where Q = "\<lambda>_. True"]) (auto simp: answers_def)

lemma catch_op_Inr_iff:
  "catch_op m h s = (Inr r, s') \<longleftrightarrow> m s = (Inr r, s') \<or> (\<exists>e s1. m s = (Inl e, s1) \<and> h e s1 = (Inr r, s'))"
  by (auto simp: catch_op_def split: prod.splits sum.splits)

lemma answers_catch [ans_intros]: "answers P m \<Longrightarrow> (\<And>e. answers P (h e)) \<Longrightarrow> answers P (catch_op m h)"
  unfolding answers_def catch_op_Inr_iff by blast

lemma answers_if [ans_intros]: "answers P m \<Longrightarrow> answers P n \<Longrightarrow> answers P (if b then m else n)"
  by simp

lemma answers_case_option [ans_intros]:
  "answers P m \<Longrightarrow> (\<And>x. answers P (f x)) \<Longrightarrow> answers P (case v of None \<Rightarrow> m | Some x \<Rightarrow> f x)"
  by (cases v) auto

lemma clean_if [ans_intros]: "clean r \<Longrightarrow> clean r' \<Longrightarrow> clean (if b then r else r')"
  by simp

text \<open>A failing check sets a response of its own.\<close>

lemma check_clean:
  "check_field_length k n v = Some r \<Longrightarrow> clean r"
  "require_nonempty_string k v = Some r \<Longrightarrow> clean r"
  "require_enum k xs v = Some r \<Longrightarrow> clean r"
  "require_string_if_present body k = Some r \<Longrightarrow> clean r"
  "require_field_present body k = Some r \<Longrightarrow> clean r"
  "require_string_array k j = Some r \<Longrightarrow> clean r"
  by (auto simp: check_field_length_def require_nonempty_string_def require_enum_def require_string_if_present_def
      require_field_present_def require_string_array_def clean_replies split: if_splits option.splits)

definition clean_check :: "http_response option result \<Rightarrow> bool" where
  "clean_check v \<longleftrightarrow> (\<forall>r. v = Inr (Some r) \<longrightarrow> clean r)"

lemma clean_check_simps [simp]:
  "clean_check (Inr (check_field_length k n s))" "clean_check (Inr (require_nonempty_string k s))"
  "clean_check (Inr (require_enum k xs s))" "clean_check (Inr (require_string_if_present body k))"
  "clean_check (Inr (require_field_present body k))" "clean_check (Inr (require_string_array k j))"
  "clean_check (Inr None)"
  by (simp_all add: clean_check_def check_clean)

lemma clean_check_if_present [simp]:
  "(\<And>v. clean_check (f v)) \<Longrightarrow> clean_check (if_present body k f)"
  by (simp add: if_present_def clean_check_def split: option.splits)

lemma clean_check_as_string [simp]:
  "(\<And>s. clean_check (Inr (f s))) \<Longrightarrow> clean_check (as_string f v)"
  by (cases v) (simp_all add: as_string_def clean_check_def)

lemma clean_check_if_string [simp]:
  "(\<And>s. clean_check (Inr (f s))) \<Longrightarrow> clean_check (if_string f v)"
  by (cases v) (simp_all add: if_string_def clean_check_def)

lemma first_failure_clean: "list_all clean_check vs \<Longrightarrow> clean_check (first_failure vs)"
  by (induction vs rule: first_failure.induct) (auto simp: clean_check_def)

lemma answers_checked [ans_intros]:
  assumes "list_all clean_check vs" and "answers clean m"
  shows "answers clean (checked vs m)"
proof -
  have "answers (\<lambda>bad. \<forall>r. bad = Some r \<longrightarrow> clean r) (lift_result (first_failure vs))"
    using first_failure_clean [OF assms(1)] by (auto simp: answers_def lift_result_def clean_check_def split: sum.splits)
  then show ?thesis
    unfolding checked_def by (rule answers_bind_with) (auto intro: answers_ret assms(2) split: option.splits)
qed

lemma answers_with_body [ans_intros]:
  assumes "\<And>body. answers clean (m body)"
  shows "answers clean (with_body env req m)"
proof -
  have "parse_body env req = Inl r \<Longrightarrow> clean r" for r
    by (auto simp: parse_body_def clean_replies split: if_splits option.splits)
  then show ?thesis by (auto simp: with_body_def intro: answers_ret assms split: sum.splits)
qed

lemma answers_paged [ans_intros]: "answers clean (paged req m)"
proof -
  have "parse_pagination req = Inl r \<Longrightarrow> clean r" for r
    by (auto simp: parse_pagination_def clean_replies Let_def split: sum.splits option.splits)
  then show ?thesis by (auto simp: paged_def intro: answers_ret answers_bind clean_replies split: sum.splits prod.splits)
qed


lemma answers_on_orch: "answers P m \<Longrightarrow> answers P (on_orch m)"
  by (auto simp: answers_def on_orch_def Let_def split: prod.splits)

lemma answers_dead_letter [ans_intros]: "answers clean get_dead_letter"
  by (auto simp: answers_def get_dead_letter_def clean_replies split: option.splits prod.splits)

lemma answers_no_route [ans_intros]: "answers clean no_route"
  by (simp add: no_route_def answers_ret clean_def)

lemma handlers_clean [ans_intros]:
  "answers clean (get_metrics env)" "answers clean get_health" "answers clean get_v1_health"
  "answers clean delete_dead_letter" "answers clean get_version" "answers clean (get_agents env req)"
  "answers clean (post_agent_start env i)" "answers clean (post_agent_stop env i)"
  "answers clean (get_agent_named env i)" "answers clean (get_agent_route env i)"
  "answers clean (delete_agent_route env i)" "answers clean (get_teams env req)"
  "answers clean (get_team_route env i)" "answers clean (delete_team_route env i)"
  "answers clean (get_tasks env req)" "answers clean (get_team_tasks env req i)"
  "answers clean (get_task_route env i j)" "answers clean (get_chaos env req)"
  "answers clean (post_chaos env i)" "answers clean (delete_chaos env i)"
  "answers clean (get_brief_plan env i)" "answers clean (get_task_state env i)"
  unfolding get_metrics_def get_health_def get_v1_health_def delete_dead_letter_def get_version_def
    get_agents_def post_agent_start_def post_agent_stop_def get_agent_named_def get_agent_route_def
    delete_agent_route_def get_teams_def get_team_route_def delete_team_route_def get_tasks_def
    get_team_tasks_def get_task_route_def get_chaos_def post_chaos_def delete_chaos_def
    get_brief_plan_def get_task_state_def Let_def
  by (intro ans_intros; simp add: clean_def)+

lemma body_handlers_clean [ans_intros]:
  "answers clean (post_agents env req)" "answers clean (patch_agent env req i)"
  "answers clean (post_teams env req)" "answers clean (put_team env req i)"
  "answers clean (post_team_tasks env req i)" "answers clean (update_task_handler env req i j)"
  "answers clean (post_briefs env req)" "answers clean (post_task_escalate env req i)"
  "answers clean (post_task_split env req i)" "answers clean (post_task_complete env req i)"
  "answers clean (post_webhook env req)"
  unfolding post_agents_def patch_agent_def post_teams_def put_team_def post_team_tasks_def
    update_task_handler_def post_briefs_def post_task_escalate_def post_task_split_def
    post_task_complete_def post_webhook_def team_checks_def Let_def
  by (intro ans_intros; simp)+

lemma dispatch_clean [ans_intros]:
  "answers clean (dispatch2 env req m a)" "answers clean (dispatch3 env req m a i)"
  "answers clean (dispatch4 env req m a i b)"
  unfolding dispatch2_def dispatch3_def dispatch4_def by (intro ans_intros)+

lemma handle_clean [ans_intros]: "answers clean (handle env req)"
proof -
  have "answers clean (case segs of
      [a] \<Rightarrow> f1 a | [v, a] \<Rightarrow> f2 v a | [v, a, i] \<Rightarrow> f3 v a i | [v, a, i, b] \<Rightarrow> f4 v a i b
    | [v, a, i, b, j] \<Rightarrow> f5 v a i b j | _ \<Rightarrow> no_route)"
    if "\<And>a. answers clean (f1 a)" "\<And>v a. answers clean (f2 v a)" "\<And>v a i. answers clean (f3 v a i)"
      "\<And>v a i b. answers clean (f4 v a i b)" "\<And>v a i b j. answers clean (f5 v a i b j)"
    for segs f1 f2 f3 f4 f5
    using that answers_no_route by (simp split: list.split)
  note cases = this
  show ?thesis unfolding handle_def Let_def by (intro ans_intros cases)
qed

text \<open>C30: No response of the server, on any route, for any request and in any state, carries the internal
member \<open>_github_issue\<close> at any depth of its JSON body.\<close>

theorem no_internal_member_served:
  "case serve_request env now now' req a of
     (Inr r, a') \<Rightarrow> (case rs_content r of Json_Content j \<Rightarrow> no_internal j | Text_Content _ _ \<Rightarrow> True)
   | (Inl e, a') \<Rightarrow> True"
proof -
  have "answers (\<lambda>early. \<forall>r. early = Some r \<longrightarrow> clean r) (pre_routing env now now' req)"
    by (auto simp: answers_def pre_routing_def Let_def clean_replies split: if_splits prod.splits)
  then have "answers clean (serve_request env now now' req)"
    unfolding serve_request_def
    by (rule answers_bind_with) (auto intro: answers_ret handle_clean split: option.splits)
  then show ?thesis
    by (auto simp: clean_def dest: answersD split: prod.splits sum.splits)
qed


section \<open>Requests without credentials\<close>



lemma no_route_run [simp]: "snd (no_route a) = a"
  by (simp add: no_route_def ret_def)




definition example_routes :: route_env where
  "example_routes = \<lparr>r_store = example_env, r_api_key = ''key'', r_secret = None, r_hmac = (\<lambda>_ _. None),
     r_serialize = (\<lambda>_. []), r_parse_message = (\<lambda>_. []), r_what = (\<lambda>_. [])\<rparr>"

definition example_request :: http_request where
  "example_request = \<lparr>rq_method = ''POST'', rq_path = ''/v1/chaos/latency'', rq_header = (\<lambda>_. None),
     rq_param = (\<lambda>_. None), rq_body = [], rq_remote_addr = ''10.0.0.1''\<rparr>"

definition example_app :: app where
  "example_app = \<lparr>a_orch = \<lparr>o_store = new_store False None, o_out = []\<rparr>, a_limiter = new_limiter 60 120,
     a_breaker = None, a_dlq = None\<rparr>"


section \<open>Exceptions that leave a handler\<close>

text \<open>The creation route throws on a label that is not a string. With a usable name, a body whose
\<open>label\<close> is present but no string makes the handler of \<open>POST /v1/agents\<close> leave by a type error, before
anything is stored or published; the route for changes answers the same label with status 400.\<close>

lemma agent_label_escapes:
  assumes "rq_body req \<noteq> []" and "length (rq_body req) \<le> kMaxBodyBytes"
    and "x_parse (r_store env) (rq_body req) = Some body"
    and "jlookup body ''name'' = Some (JStr n)" and "\<not> list_all is_space n" and "length n \<le> kMaxNameLen"
    and "jlookup body ''label'' = Some v" and "\<not> is_string v"
  shows "post_agents env req a = (Inl (Type_Error 302), a)
    \<and> patch_agent env req i a = (Inr (reply_bad_request (quoted ''label'' @ '' must be a string'')), a)"
proof -
  have body: "parse_body env req = Inr body" using assms(1-3) by (simp add: parse_body_def)
  have n: "n \<noteq> []" using assms(5) by auto
  have v: "get_string v = Inl (Type_Error 302)" using assms(8) by (cases v) auto
  have checks: "require_field_present body ''name'' = None" "require_string_if_present body ''name'' = None"
      "if_present body ''name'' (as_string (require_nonempty_string ''name'')) = Inr None"
      "if_present body ''name'' (as_string (check_field_length ''name'' kMaxNameLen)) = Inr None"
      "if_present body ''label'' (as_string (check_field_length ''label'' kMaxLabelLen)) = Inl (Type_Error 302)"
      "require_string_if_present body ''label'' = Some (reply_bad_request (quoted ''label'' @ '' must be a string''))"
    using assms(4-8) n v
    by (simp_all add: require_field_present_def require_string_if_present_def if_present_def as_string_def
        require_nonempty_string_def check_field_length_def jcontains_def)
  show ?thesis
    by (simp add: post_agents_def patch_agent_def with_body_def body checked_def checks lift_result_def bind_op_def ret_def)
qed

lemma agent_label_escapes_witness:
  "post_agents (example_routes\<lparr>r_store := example_env\<lparr>x_parse := (\<lambda>_. Some (jobj [(''name'', JStr ''a''), (''label'', JInt 5)]))\<rparr>\<rparr>)
     (example_request\<lparr>rq_body := ''{}''\<rparr>) example_app = (Inl (Type_Error 302), example_app)"
proof -
  have "jlookup (jobj [(''name'', JStr ''a''), (''label'', JInt 5)]) ''name'' = Some (JStr ''a'')"
    "jlookup (jobj [(''name'', JStr ''a''), (''label'', JInt 5)]) ''label'' = Some (JInt 5)"
    by (simp_all add: jlookup_jobj)
  from agent_label_escapes [OF _ _ _ this(1) _ _ this(2),
      of "example_request\<lparr>rq_body := ''{}''\<rparr>"
         "example_routes\<lparr>r_store := example_env\<lparr>x_parse := (\<lambda>_. Some (jobj [(''name'', JStr ''a''), (''label'', JInt 5)]))\<rparr>\<rparr>"]
  show ?thesis by (simp add: kMaxBodyBytes_def kMaxNameLen_def is_space_def)
qed

end
