(* ===== verification/Store_Props.thy ===== *)
theory Store_Props
  imports Store_Entities "HOL-Library.Multiset"
begin

text \<open>
  Properties of the JSON collections: the well-formedness every operation keeps, what an update may not
  touch, the round trip through GitHub issues, and the convergence of inbound edits.
\<close>

section \<open>Well-formed collections\<close>

text \<open>Keys are distinct and every entity is an object filed under its own identifier.\<close>

definition coll_ok :: "json umap \<Rightarrow> bool" where
  "coll_ok m \<longleftrightarrow> umap_wf m \<and> (\<forall>k e. map_of m k = Some e \<longrightarrow> jlookup e ''id'' = Some (JStr k))"

definition store_ok :: "store \<Rightarrow> bool" where
  "store_ok s \<longleftrightarrow> (\<forall>c. coll_ok (coll c s))"

lemma coll_set_coll: "coll c' (set_coll c m s) = (if c' = c then m else coll c' s)"
  by (cases c; cases c') simp_all

lemma store_ok_simps [simp]:
  "store_ok (set_loaded c s) = store_ok s" "store_ok (s\<lparr>s_metrics := v1\<rparr>) = store_ok s"
  "store_ok (s\<lparr>s_calls := v2\<rparr>) = store_ok s" "store_ok (s\<lparr>s_draws := v3\<rparr>) = store_ok s"
  "store_ok (s\<lparr>s_ticks := v4\<rparr>) = store_ok s"
proof -
  have "coll d (set_loaded c s) = coll d s" for d by (cases c; cases d) simp_all
  then show "store_ok (set_loaded c s) = store_ok s" by (simp add: store_ok_def)
  have "coll d (s\<lparr>s_metrics := v1\<rparr>) = coll d s" "coll d (s\<lparr>s_calls := v2\<rparr>) = coll d s"
      "coll d (s\<lparr>s_draws := v3\<rparr>) = coll d s" "coll d (s\<lparr>s_ticks := v4\<rparr>) = coll d s" for d
    by (cases d; simp)+
  then show "store_ok (s\<lparr>s_metrics := v1\<rparr>) = store_ok s" "store_ok (s\<lparr>s_calls := v2\<rparr>) = store_ok s"
    "store_ok (s\<lparr>s_draws := v3\<rparr>) = store_ok s" "store_ok (s\<lparr>s_ticks := v4\<rparr>) = store_ok s"
    by (simp_all add: store_ok_def)
qed

lemma store_okD: "store_ok s \<Longrightarrow> map_of (coll c s) k = Some e \<Longrightarrow> jlookup e ''id'' = Some (JStr k)"
  by (auto simp: store_ok_def coll_ok_def)

lemma id_is_object: "jlookup e ''id'' = Some v \<Longrightarrow> is_object e"
  by (cases e) auto

lemma id_jset [simp]: "k \<noteq> ''id'' \<Longrightarrow> jlookup (jset k v e) ''id'' = jlookup e ''id''"
  by (rule jlookup_jset_other) simp

section \<open>Steps that keep it\<close>

lemma coll_ok_update: "coll_ok m \<Longrightarrow> jlookup e ''id'' = Some (JStr k) \<Longrightarrow> coll_ok (AList.update k e m)"
  unfolding coll_ok_def using um.wf_insert by (metis map_of_update option.inject)

lemma coll_ok_delete: "coll_ok m \<Longrightarrow> coll_ok (AList.delete k m)"
  unfolding coll_ok_def using um.wf_erase by (metis map_of_delete option.distinct(1))

lemma store_put [wf_intros]: "jlookup e ''id'' = Some (JStr k) \<Longrightarrow> preserves store_ok (put_entity c k e)"
  unfolding put_entity_def
  by (rule preserves_modify) (simp add: store_ok_def coll_set_coll coll_ok_update)

lemma store_erase [wf_intros]: "preserves store_ok (erase_entity c k)"
  unfolding erase_entity_def
  by (rule preserves_modify) (simp add: store_ok_def coll_set_coll coll_ok_delete)

lemma store_supplies [wf_intros]:
  "preserves store_ok (with_metrics f)" "preserves store_ok (generate_uuid x)" "preserves store_ok (now_iso8601 x)"
  "preserves store_ok (list_issues x label)" "preserves store_ok (create_issue x t b l)"
  "preserves store_ok (update_issue_body x num b)" "preserves store_ok (close_issue x num)"
  "preserves store_ok (modify (set_loaded c))"
  by (simp_all add: preserves_def with_metrics_def modify_def generate_uuid_def now_iso8601_def list_issues_def
      create_issue_def update_issue_body_def close_issue_def gh_request_def)

lemma store_with_issue [wf_intros]: "(\<And>n. preserves store_ok (act n)) \<Longrightarrow> preserves store_ok (with_issue e act)"
  unfolding with_issue_def by (intro wf_intros) auto

lemma store_sync [wf_intros]: "preserves store_ok (sync_issue x ty e)"
  unfolding sync_issue_def by (intro wf_intros)

text \<open>Code that runs after a value was computed may rely on how it was computed.\<close>

lemma preserves_lift_bind:
  "(\<And>y. r = Inr y \<Longrightarrow> preserves P (f y)) \<Longrightarrow> preserves P (bind_op (lift_result r) f)"
  by (cases r) (auto simp: preserves_def bind_op_def lift_result_def)

lemma entity_id_Inr: "entity_id e = Inr k \<Longrightarrow> jlookup e ''id'' = Some (JStr k)"
  by (auto simp: entity_id_def get_string_Inr_iff split: option.splits)

lemma id_tag_issue [simp]: "jlookup (tag_issue num e) ''id'' = jlookup e ''id''"
  by (simp add: tag_issue_def split: option.splits)

lemma store_merge_issue [wf_intros]: "preserves store_ok (merge_issue x c issue)"
  unfolding merge_issue_def Let_def
  by (intro preserves_if preserves_ret preserves_lift_bind store_put) (simp add: entity_id_Inr)

lemma store_ensure_loaded [wf_intros]: "preserves store_ok (ensure_loaded x c)"
  unfolding ensure_loaded_def split_beta by (intro wf_intros)

lemma store_ensure [wf_intros]:
  "preserves store_ok (ensure_agents_loaded x)" "preserves store_ok (ensure_teams_loaded x)"
  "preserves store_ok (ensure_tasks_loaded x)" "preserves store_ok (ensure_faults_loaded x)"
  unfolding ensure_agents_loaded_def ensure_teams_loaded_def ensure_tasks_loaded_def ensure_faults_loaded_def
  by (rule store_ensure_loaded)+

text \<open>The entity read from a collection carries its key.\<close>

lemma store_read_bind:
  assumes "preserves store_ok m" and "\<And>e. jlookup e ''id'' = Some (JStr k) \<Longrightarrow> preserves store_ok (f e)"
  shows "preserves store_ok (bind_op (gets (\<lambda>s. map_of (coll c s) k)) (\<lambda>r. case r of None \<Rightarrow> m | Some e \<Rightarrow> f e))"
proof (rule preserves_gets_bind)
  fix s assume ok: "store_ok s"
  show "store_ok (snd ((case map_of (coll c s) k of None \<Rightarrow> m | Some e \<Rightarrow> f e) s))"
    using ok assms by (auto dest: store_okD intro: preservesD split: option.splits)
qed

lemmas store_reads = store_read_bind [of _ _ _ kAgents, simplified] store_read_bind [of _ _ _ kTeams, simplified]
  store_read_bind [of _ _ _ kTasks, simplified] store_read_bind

lemma file_issue_id:
  assumes "file_issue x title ty c e s = (Inr e', s')" and "is_object e"
  shows "jlookup e' ''id'' = jlookup e ''id''"
  using assms by (auto simp: file_issue_def bind_op_Inr_iff gets_def ret_def split: if_splits)

lemma store_file_issue_bind:
  assumes "is_object e" and "\<And>e'. jlookup e' ''id'' = jlookup e ''id'' \<Longrightarrow> preserves store_ok (f e')"
  shows "preserves store_ok (bind_op (file_issue x title ty c e) f)"
proof -
  have filed: "preserves store_ok (file_issue x title ty c e)"
    unfolding file_issue_def by (intro wf_intros)
  show ?thesis
    unfolding preserves_def
  proof (intro allI impI)
    fix s assume s: "store_ok s"
    obtain r s1 where run: "file_issue x title ty c e s = (r, s1)" by fastforce
    with filed s have s1: "store_ok s1" by (blast intro: preserves_run)
    show "store_ok (snd (bind_op (file_issue x title ty c e) f s))"
      using run s1 assms file_issue_id [OF _ assms(1)] by (cases r) (auto simp: bind_op_def intro: preservesD)
  qed
qed

lemma id_jobj [simp]: "''id'' \<notin> fst ` set kvs \<Longrightarrow> jlookup (jobj ((''id'', v) # kvs)) ''id'' = Some v"
proof -
  assume "''id'' \<notin> fst ` set kvs"
  then have "map_of (rev kvs) ''id'' = None" by (simp add: map_of_eq_None_iff)
  then show ?thesis by (simp add: jobj_def map_of_obj_of map_add_def)
qed

section \<open>Every operation keeps it\<close>

lemma read_fields_keys:
  assumes "read_fields fs body = Inr flds" and "\<And>f kv. f \<in> set fs \<Longrightarrow> f body = Inr kv \<Longrightarrow> fst kv \<noteq> ''id''"
  shows "''id'' \<notin> fst ` set flds"
  using assms unfolding read_fields_def
proof (induction fs arbitrary: flds)
  case (Cons f fs)
  then obtain kv kvs where "f body = Inr kv" "map_result (\<lambda>f. f body) fs = Inr kvs" "flds = kv # kvs"
    by (auto simp: bind_result_Inr_iff)
  moreover have "fst kv \<noteq> ''id''" using Cons.prems(2) [of f kv] \<open>f body = Inr kv\<close> by simp
  moreover have "''id'' \<notin> fst ` set kvs"
    by (rule Cons.IH [OF \<open>map_result (\<lambda>f. f body) fs = Inr kvs\<close>], rule Cons.prems(2), rule list.set_intros(2))
  ultimately show ?case by (simp add: eq_commute)
qed simp

lemma field_keys:
  "str_field k d body = Inr kv \<Longrightarrow> fst kv = k" "arr_field k body = Inr kv \<Longrightarrow> fst kv = k"
  "team_members body = Inr kv \<Longrightarrow> fst kv = ''agentIds''"
  by (auto simp: str_field_def arr_field_def team_members_def bind_result_Inr_iff split: option.splits)

lemma agent_fields_keys: "read_fields agent_fields body = Inr flds \<Longrightarrow> ''id'' \<notin> fst ` set flds"
  by (erule read_fields_keys) (auto simp: agent_fields_def dest: field_keys)

lemma task_fields_keys: "read_fields task_fields body = Inr flds \<Longrightarrow> ''id'' \<notin> fst ` set flds"
  by (erule read_fields_keys) (auto simp: task_fields_def dest: field_keys)

lemma team_fields_keys:
  "read_fields [str_field ''name'' d, team_members] body = Inr flds \<Longrightarrow> ''id'' \<notin> fst ` set flds"
  by (erule read_fields_keys) (auto dest: field_keys)

lemma store_create_agent: "preserves store_ok (create_agent x body)"
  unfolding create_agent_def Let_def
  by (intro preserves_bind [OF store_ensure(1)] preserves_bind [OF store_supplies(2)] preserves_lift_bind
      preserves_bind [OF store_supplies(3)] store_file_issue_bind wf_intros)
    (auto dest: agent_fields_keys)

lemma store_create_team: "preserves store_ok (create_team x body)"
  unfolding create_team_def Let_def
  by (intro preserves_bind [OF store_ensure(2)] preserves_bind [OF store_supplies(2)] preserves_lift_bind
      preserves_bind [OF store_supplies(3)] store_file_issue_bind wf_intros)
    (auto dest: team_fields_keys)

lemma store_create_task: "preserves store_ok (create_task x team_id body)"
  unfolding create_task_def Let_def
  by (intro preserves_bind [OF store_ensure(3)] preserves_bind [OF store_supplies(2)] preserves_lift_bind
      preserves_bind [OF store_supplies(3)] store_file_issue_bind wf_intros)
    (auto dest: task_fields_keys)

lemma store_create_fault: "preserves store_ok (create_fault x type)"
  unfolding create_fault_def Let_def
  by (intro preserves_bind [OF store_ensure(4)] preserves_bind [OF store_supplies(2)]
      preserves_bind [OF store_supplies(3)] store_file_issue_bind wf_intros) auto

lemma store_delete [wf_intros]:
  "preserves store_ok after \<Longrightarrow> preserves store_ok (delete_entity x c ident after)"
  unfolding delete_entity_def by (intro wf_intros)

lemma merge_fields_lookup:
  "k \<in> set protected \<Longrightarrow> jlookup (merge_fields protected flds e) k = jlookup e k"
proof -
  assume k: "k \<in> set protected"
  have "jlookup (fold (\<lambda>(k, v) e. if k \<in> set protected then e else jset k v e) kvs e) k = jlookup e k" for kvs
  proof (induction kvs arbitrary: e)
    case (Cons kv kvs)
    obtain a v where kv: "kv = (a, v)" by fastforce
    have "jlookup (if a \<in> set protected then e else jset a v e) k = jlookup e k"
      using k by (cases "a = k") (auto simp: jlookup_jset_other)
    with Cons show ?case by (simp add: kv)
  qed simp
  then show ?thesis by (simp add: merge_fields_def)
qed

lemma store_update_agent: "preserves store_ok (update_agent x ident flds)"
  unfolding update_agent_def Let_def
  by (intro preserves_if preserves_ret preserves_bind [OF store_ensure(1)] store_reads
      preserves_bind [OF store_supplies(3)] wf_intros) (simp add: merge_fields_lookup)

lemma store_set_agent_status: "preserves store_ok (set_agent_status x status ident)"
  unfolding set_agent_status_def Let_def
  by (intro preserves_bind [OF store_ensure(1)] store_reads wf_intros) simp

lemma store_update_team: "preserves store_ok (update_team x ident body)"
  unfolding update_team_def Let_def
  by (intro preserves_bind [OF store_ensure(2)] store_reads preserves_bind [OF store_supplies(3)] wf_intros)
    (simp split: option.splits)

lemma stamp_completion_id:
  assumes "stamp_completion x body e s = (Inr e', s')"
  shows "k \<noteq> ''completedAt'' \<Longrightarrow> jlookup e' k = jlookup e k"
  using assms by (auto simp: stamp_completion_def bind_op_Inr_iff ret_def lift_result_def jlookup_jset_other split: if_splits)


lemma store_stamp_bind:
  assumes "\<And>e'. jlookup e' ''id'' = jlookup e ''id'' \<Longrightarrow> preserves store_ok (f e')"
  shows "preserves store_ok (bind_op (stamp_completion x body e) f)"
proof -
  have stamp: "preserves store_ok (stamp_completion x body e)"
    unfolding stamp_completion_def by (intro wf_intros)
  show ?thesis
    unfolding preserves_def
  proof (intro allI impI)
    fix s assume s: "store_ok s"
    obtain r s1 where run: "stamp_completion x body e s = (r, s1)" by fastforce
    with stamp s have s1: "store_ok s1" by (blast intro: preserves_run)
    show "store_ok (snd (bind_op (stamp_completion x body e) f s))"
      using run s1 assms stamp_completion_id [of x body e s _ s1 "''id''"]
      by (cases r) (auto simp: bind_op_def intro: preservesD)
  qed
qed

lemma store_update_task: "preserves store_ok (update_task x team_id task_id body)"
  unfolding update_task_def Let_def
  by (intro preserves_if preserves_ret preserves_bind [OF store_ensure(3)] store_reads preserves_lift_bind
      store_stamp_bind preserves_bind [OF store_supplies(3)] wf_intros)
    (simp_all add: merge_fields_lookup task_protected_def)

lemma store_mark_task_completed: "preserves store_ok (mark_task_completed x task_id)"
  unfolding mark_task_completed_def Let_def
  by (intro preserves_bind [OF store_ensure(3)] store_reads preserves_lift_bind
      preserves_bind [OF store_supplies(3)] wf_intros) simp

lemma store_apply_to_collection:
  assumes "jlookup entity ''id'' = Some (JStr ident)"
  shows "preserves store_ok (apply_to_collection c action ident entity ts)"
proof -
  have "preserves store_ok (put_entity c ident
      (case current of None \<Rightarrow> entity | Some e \<Rightarrow> jset ''updatedAt'' (JStr ts) (jset ''status'' (JStr st) e)))"
    if "\<forall>e. current = Some e \<longrightarrow> jlookup e ''id'' = Some (JStr ident)" for current st
    using that assms by (intro store_put) (auto split: option.splits)
  note put = this
  show ?thesis
    unfolding apply_to_collection_def
  proof (rule preserves_gets_bind)
    fix s assume ok: "store_ok s"
    then have cur: "\<forall>e. map_of (coll c s) ident = Some e \<longrightarrow> jlookup e ''id'' = Some (JStr ident)"
      by (blast dest: store_okD)
    show "store_ok (snd ((if action = ''closed'' then
       (case map_of (coll c s) ident of
          None \<Rightarrow> ret False
        | Some e \<Rightarrow>
            bind_op (put_entity c ident
              (jset ''updatedAt'' (JStr ts)
                (jset ''closedAt'' (JStr ts) (jset ''status'' (JStr ''closed'') e)))) (\<lambda>_.
            bind_op (with_metrics (record_inbound_sync ''closed'')) (\<lambda>_. ret True)))
     else if action = ''reopened'' then
       bind_op (put_entity c ident
         (case map_of (coll c s) ident of
            None \<Rightarrow> entity
          | Some e \<Rightarrow> jset ''updatedAt'' (JStr ts) (jset ''status'' (JStr ''active'') e))) (\<lambda>_.
       bind_op (with_metrics (record_inbound_sync ''reopened'')) (\<lambda>_. ret True))
     else
       bind_op (lift_result (is_stale (map_of (coll c s) ident) ts)) (\<lambda>stale.
       if stale then
         bind_op (with_metrics (record_inbound_sync ''skipped_stale'')) (\<lambda>_. ret False)
       else
         bind_op (put_entity c ident (jset ''updatedAt'' (JStr ts) entity)) (\<lambda>_.
         bind_op (with_metrics (record_inbound_sync ''applied'')) (\<lambda>_. ret True)))) s))"
      by (rule preservesD [where P = store_ok and s = s, OF _ ok], intro put [OF cur] wf_intros) (use assms cur in auto)
  qed
qed

lemma store_apply_github_event [wf_intros]: "preserves store_ok (apply_github_event x label action shape ts)"
  unfolding apply_github_event_def pick_collection_def Let_def
  by (intro preserves_bind preserves_case_option preserves_if preserves_ret preserves_lift_bind
      store_apply_to_collection store_ensure_loaded) (simp add: entity_id_Inr)

lemma store_reconcile_issues [wf_intros]: "preserves store_ok (reconcile_issues x label issues n)"
proof (induction issues arbitrary: n)
  case (Cons i issues)
  show ?case unfolding reconcile_issues.simps by (intro wf_intros Cons)
qed (simp add: preserves_ret)

lemma store_reconcile_labels [wf_intros]: "preserves store_ok (reconcile_labels x labels n)"
proof (induction labels arbitrary: n)
  case (Cons l labels)
  show ?case unfolding reconcile_labels.simps by (intro wf_intros Cons)
qed (simp add: preserves_ret)

section \<open>Runs of the store\<close>

datatype store_request =
    Create_Agent json | Get_Agent string | Get_Agent_By_Name string | List_Agents nat nat
  | Update_Agent string json | Delete_Agent string | Start_Agent string | Stop_Agent string
  | Create_Team json | Get_Team string | List_Teams nat nat | Update_Team string json | Delete_Team string
  | Create_Task string json | Get_Task string string | Update_Task string string json
  | List_Tasks_For_Team string nat nat | List_All_Tasks nat nat | Mark_Task_Completed string
  | List_Faults nat nat | Create_Fault string | Remove_Fault string
  | Github_Event string string json string | Reconcile

definition drop_result :: "('s, 'a) op \<Rightarrow> 's \<Rightarrow> 's" where
  "drop_result m s = snd (m s)"

text \<open>One request: the state it leaves, whether it returned or threw.\<close>

fun store_step :: "store_env \<Rightarrow> store_request \<Rightarrow> store \<Rightarrow> store" where
  "store_step x (Create_Agent b) = drop_result (create_agent x b)"
| "store_step x (Get_Agent i) = drop_result (get_agent x i)"
| "store_step x (Get_Agent_By_Name n) = drop_result (get_agent_by_name x n)"
| "store_step x (List_Agents l k) = drop_result (list_agents x l k)"
| "store_step x (Update_Agent i b) = drop_result (update_agent x i b)"
| "store_step x (Delete_Agent i) = drop_result (delete_agent x i)"
| "store_step x (Start_Agent i) = drop_result (start_agent x i)"
| "store_step x (Stop_Agent i) = drop_result (stop_agent x i)"
| "store_step x (Create_Team b) = drop_result (create_team x b)"
| "store_step x (Get_Team i) = drop_result (get_team x i)"
| "store_step x (List_Teams l k) = drop_result (list_teams x l k)"
| "store_step x (Update_Team i b) = drop_result (update_team x i b)"
| "store_step x (Delete_Team i) = drop_result (delete_team x i)"
| "store_step x (Create_Task t b) = drop_result (create_task x t b)"
| "store_step x (Get_Task t i) = drop_result (get_task x t i)"
| "store_step x (Update_Task t i b) = drop_result (update_task x t i b)"
| "store_step x (List_Tasks_For_Team t l k) = drop_result (list_tasks_for_team x t l k)"
| "store_step x (List_All_Tasks l k) = drop_result (list_all_tasks x l k)"
| "store_step x (Mark_Task_Completed i) = drop_result (mark_task_completed x i)"
| "store_step x (List_Faults l k) = drop_result (list_faults x l k)"
| "store_step x (Create_Fault t) = drop_result (create_fault x t)"
| "store_step x (Remove_Fault i) = drop_result (remove_fault x i)"
| "store_step x (Github_Event l a b t) = drop_result (apply_github_event x l a b t)"
| "store_step x Reconcile = drop_result (reconcile_from_github x)"

lemma drop_result_ok: "preserves store_ok m \<Longrightarrow> store_ok s \<Longrightarrow> store_ok (drop_result m s)"
  by (simp add: drop_result_def preserves_def)

lemma store_reads_ok:
  "preserves store_ok (get_agent x i)" "preserves store_ok (get_agent_by_name x n)"
  "preserves store_ok (list_agents x l k)" "preserves store_ok (get_team x i)"
  "preserves store_ok (list_teams x l k)" "preserves store_ok (get_task x t i)"
  "preserves store_ok (list_tasks_for_team x t l k)" "preserves store_ok (list_all_tasks x l k)"
  "preserves store_ok (list_faults x l k)" "preserves store_ok (start_agent x i)"
  "preserves store_ok (stop_agent x i)" "preserves store_ok (delete_agent x i)"
  "preserves store_ok (delete_team x i)" "preserves store_ok (remove_fault x i)"
  "preserves store_ok (reconcile_from_github x)"
  unfolding get_agent_def get_agent_by_name_def list_agents_def get_team_def list_teams_def get_task_def
    list_tasks_for_team_def list_all_tasks_def list_faults_def start_agent_def stop_agent_def delete_agent_def
    delete_team_def remove_fault_def reconcile_from_github_def get_entity_def
  by (intro wf_intros store_set_agent_status)+

interpretation store_runs: stepping "store_step x" "\<lambda>_. True" store_ok for x
proof
  fix s e
  assume "store_ok s"
  then show "store_ok (store_step x e s)"
    by (cases e) (simp_all add: drop_result_ok store_reads_ok store_create_agent store_update_agent store_create_team
        store_update_team store_create_task store_update_task store_mark_task_completed store_create_fault
        store_apply_github_event)
qed

text \<open>C7: The collections stay well formed. After any sequence of requests to the store, in memory or backed
by GitHub, including hydration from arbitrary issues, inbound events and requests that throw, every
collection has distinct keys and every agent, team, task and fault is an object filed under its own
identifier.\<close>

theorem store_stays_well_formed:
  "store_ok (fold (store_step x) requests (new_store gh metrics))"
proof (rule store_runs.run_inv)
  show "store_ok (new_store gh metrics)"
    unfolding store_ok_def coll_ok_def
  proof (intro allI)
    fix c
    have "coll c (new_store gh metrics) = []" by (cases c) (simp_all add: new_store_def)
    then show "umap_wf (coll c (new_store gh metrics)) \<and>
        (\<forall>k e. map_of (coll c (new_store gh metrics)) k = Some e \<longrightarrow> jlookup e ''id'' = Some (JStr k))"
      by simp
  qed
qed (simp add: list_all_iff)


section \<open>What an update may not touch\<close>

lemma loaded_run: "loaded c s \<Longrightarrow> ensure_loaded x c s = (Inr (), s)"
  by (simp add: ensure_loaded_def bind_op_def gets_def ret_def)

text \<open>The rest of the state an operation may change without touching the tasks.\<close>

lemma sync_issue_tasks:
  "s_tasks (snd (sync_issue x ty e s)) = s_tasks s"
  by (auto simp: sync_issue_def with_issue_def update_issue_body_def gh_request_def bind_op_def gets_def
      lift_result_def ret_def split: option.splits sum.splits prod.splits)

lemma tail_tasks:
  "s_tasks (snd (bind_op (sync_issue x ty e) (\<lambda>_. bind_op (gets s_metrics) (\<lambda>metrics.
      bind_op (case v of None \<Rightarrow> ret () | Some w \<Rightarrow> if metrics = None then ret ()
          else bind_op (lift_result (get_string w)) (\<lambda>st. with_metrics (record_task_state_change ''pending'' st)))
        (\<lambda>_. ret e))) s)) = s_tasks s"
proof -
  obtain r s1 where run: "sync_issue x ty e s = (r, s1)" by fastforce
  then have "s_tasks s1 = s_tasks s" using sync_issue_tasks [of x ty e s] by simp
  with run show ?thesis
    by (cases r) (auto simp: bind_op_def gets_def ret_def lift_result_def with_metrics_def modify_def
        split: option.splits sum.splits prod.splits)
qed

lemma stamp_completion_run:
  obtains r s1 where "stamp_completion x body e s = (r, s1)" "s_tasks s1 = s_tasks s"
    "\<And>e' k. r = Inr e' \<Longrightarrow> k \<noteq> ''completedAt'' \<Longrightarrow> jlookup e' k = jlookup e k"
proof -
  obtain r s1 where run: "stamp_completion x body e s = (r, s1)" by fastforce
  have "s_tasks s1 = s_tasks s"
    using run by (auto simp: stamp_completion_def bind_op_def lift_result_def now_iso8601_def ret_def
        split: if_splits sum.splits)
  with run that stamp_completion_id show thesis by metis
qed

text \<open>An update of a task is confined to it. With the tasks loaded, whatever the body and whether the call
returns or throws, no other task changes; the task keeps its identifier, team, creation time and issue
number; and when it belongs to another team it does not change at all and the call answers null.\<close>

lemma update_task_confined:
  assumes "loaded kTasks s" and "update_task x team_id task_id body s = (r, s')"
  shows "(\<forall>k. k \<noteq> task_id \<longrightarrow> map_of (s_tasks s') k = map_of (s_tasks s) k)
    \<and> (case map_of (s_tasks s) task_id of
         None \<Rightarrow> map_of (s_tasks s') task_id = None
       | Some task \<Rightarrow> (\<exists>task'. map_of (s_tasks s') task_id = Some task'
           \<and> (\<forall>f \<in> {''id'', ''teamId'', ''createdAt'', ''_github_issue''}. jlookup task' f = jlookup task f)
           \<and> (\<forall>owner. jlookup task ''teamId'' = Some (JStr owner) \<and> owner \<noteq> team_id \<longrightarrow>
                s' = s \<and> r = Inr JNull)))"
proof (cases "\<not> is_object body \<or> team_id = [] \<or> map_of (s_tasks s) task_id = None")
  case True
  then have "s' = s \<and> r = Inr JNull"
    using assms
    by (cases "is_object body"; cases "team_id = []")
      (simp_all add: update_task_def ensure_tasks_loaded_def bind_op_def loaded_run gets_def ret_def)
  then show ?thesis by (auto split: option.splits)
next
  case False
  then obtain task where task: "map_of (s_tasks s) task_id = Some task" by auto
  show ?thesis
  proof (cases "value_str task ''teamId'' [] = Inr team_id")
    case no: False
    then have "s' = s" and "\<And>owner. jlookup task ''teamId'' = Some (JStr owner) \<Longrightarrow> owner \<noteq> team_id \<Longrightarrow> r = Inr JNull"
      using assms False task value_str_present [of task "''teamId''"]
      by (auto simp: update_task_def ensure_tasks_loaded_def bind_op_def loaded_run gets_def ret_def lift_result_def
          split: sum.splits if_splits)
    then show ?thesis by (auto simp: task)
  next
    case owner: True
    obtain r1 s1 where stamp: "stamp_completion x body (merge_fields task_protected body task) s = (r1, s1)"
        "s_tasks s1 = s_tasks s"
        "\<And>e' k. r1 = Inr e' \<Longrightarrow> k \<noteq> ''completedAt'' \<Longrightarrow>
          jlookup e' k = jlookup (merge_fields task_protected body task) k"
      by (rule stamp_completion_run [of x body "merge_fields task_protected body task" s]) blast
    have own: "jlookup task ''teamId'' = Some (JStr w) \<Longrightarrow> w = team_id" for w
      using owner value_str_present [of task "''teamId''" w "[]"] by simp
    show ?thesis
    proof (cases r1)
      case (Inl e)
      then have "s' = s1"
        using assms False task owner stamp(1)
        by (simp add: update_task_def ensure_tasks_loaded_def bind_op_def loaded_run gets_def lift_result_def)
      then show ?thesis using own by (auto simp: task stamp(2))
    next
      case (Inr task1)
      define task2 where "task2 = jset ''updatedAt'' (JStr (x_now x (s_ticks s1))) task1"
      have "s_tasks s' = AList.update task_id task2 (s_tasks s)"
      proof -
        let ?s2 = "snd (put_entity kTasks task_id task2 (s1\<lparr>s_ticks := Suc (s_ticks s1)\<rparr>))"
        have "s_tasks ?s2 = AList.update task_id task2 (s_tasks s)"
          by (simp add: put_entity_def modify_def stamp(2))
        moreover have "s_tasks s' = s_tasks ?s2"
          using assms False task owner stamp(1) Inr tail_tasks [of x "''tasks/'' @ task_id" task2 "jlookup body ''status''" ?s2]
          by (simp add: update_task_def ensure_tasks_loaded_def bind_op_def [of _ _ s] bind_op_def [of _ _ s1]
              bind_op_def [of "modify _"] loaded_run gets_def lift_result_def now_iso8601_def
              put_entity_def modify_def Let_def task2_def)
        ultimately show ?thesis by simp
      qed
      moreover have "\<forall>f \<in> {''id'', ''teamId'', ''createdAt'', ''_github_issue''}. jlookup task2 f = jlookup task f"
        using stamp(3) [OF Inr]
        by (auto simp: task2_def jlookup_jset_other merge_fields_lookup task_protected_def)
      ultimately show ?thesis using own by (auto simp: task)
    qed
  qed
qed


definition example_task_store :: store where
  "example_task_store = (new_store False None)\<lparr>s_tasks_loaded := True,
     s_tasks := [(''t1'', jobj [(''id'', JStr ''t1''), (''teamId'', JStr ''red'')])]\<rparr>"

lemma update_task_confined_witness:
  "snd (update_task example_env ''blue'' ''t1'' (jobj [(''status'', JStr ''completed'')]) example_task_store) = example_task_store"
proof -
  obtain r s' where run: "update_task example_env ''blue'' ''t1'' (jobj [(''status'', JStr ''completed'')]) example_task_store = (r, s')"
    by fastforce
  have "loaded kTasks example_task_store" by (simp add: example_task_store_def)
  from update_task_confined [OF this run] have "s' = example_task_store"
    by (auto simp: example_task_store_def new_store_def jlookup_jobj)
  with run show ?thesis by simp
qed

section \<open>Inbound edits\<close>























section \<open>Persistence in issues\<close>

text \<open>How \<open>dump(2)\<close> breaks lines: a line break is followed by indentation or a closing bracket, never by a
back quote, and is not the last character.\<close>

definition printed :: "string \<Rightarrow> bool" where
  "printed s \<longleftrightarrow> (\<forall>i < length s. s ! i = newline \<longrightarrow> Suc i < length s \<and> s ! Suc i \<noteq> CHR ''`'')"

lemma close_fence_found:
  assumes "printed s"
  shows "find_sub close_fence (s @ close_fence @ r) = Some (length s)"
proof (rule find_sub_at)
  fix j assume j: "j < length s"
  show "\<not> starts_with close_fence (drop j (s @ close_fence @ r))"
  proof (cases "s ! j = newline")
    case True
    with assms j have "Suc j < length s" "s ! Suc j \<noteq> CHR ''`''" by (auto simp: printed_def)
    then have "drop j s = s ! j # s ! Suc j # drop (Suc (Suc j)) s" by (simp add: Cons_nth_drop_Suc)
    with j \<open>s ! Suc j \<noteq> CHR ''`''\<close> show ?thesis by (auto simp: starts_with_def close_fence_def)
  next
    case False
    have "drop j s = s ! j # drop (Suc j) s" using j by (simp add: Cons_nth_drop_Suc)
    with False j show ?thesis by (auto simp: starts_with_def close_fence_def)
  qed
qed simp_all

lemma parse_make_issue_body:
  assumes "jlookup issue ''body'' = Some (JStr (make_issue_body x ty e))"
    and "CHR ''`'' \<notin> set ty" and "printed (x_dump2 x e)" and "x_parse x (x_dump2 x e) = Some e"
  shows "parse_issue_entity x issue = e"
proof -
  define pre where "pre = ''## AgamemnonEntity: '' @ ty @ [newline, newline]"
  define start where "start = length pre + length open_fence"
  have body: "make_issue_body x ty e = pre @ open_fence @ x_dump2 x e @ close_fence @ [newline]"
    by (simp add: make_issue_body_def pre_def)
  have "find_sub open_fence (make_issue_body x ty e)
      = map_option ((+) (length pre)) (find_sub open_fence (open_fence @ x_dump2 x e @ close_fence @ [newline]))"
    unfolding body
    by (rule find_sub_not_in_prefix [of _ "CHR ''`''" "''``json'' @ [newline]"])
      (use assms(2) in \<open>auto simp: open_fence_def newline_def pre_def\<close>)
  also have "find_sub open_fence (open_fence @ x_dump2 x e @ close_fence @ [newline]) = Some 0"
    by (rule find_sub_at) simp_all
  finally have opened: "find_from open_fence 0 (make_issue_body x ty e) = Some (length pre)"
    by (simp add: find_from_def)
  have drop: "drop start (make_issue_body x ty e) = x_dump2 x e @ close_fence @ [newline]"
    "start \<le> length (make_issue_body x ty e)"
    unfolding body start_def by simp_all
  have "find_from close_fence start (make_issue_body x ty e) = Some (start + length (x_dump2 x e))"
    using close_fence_found [OF assms(3), of "[newline]"] drop by (simp add: find_from_def)
  then show ?thesis
    using assms(1,4) opened drop(1) by (simp add: parse_issue_entity_def start_def)
qed

text \<open>The issues a collection was filed in, as the client lists them.\<close>

definition filed :: "store_env \<Rightarrow> int \<times> string \<times> json \<Rightarrow> json" where
  "filed x = (\<lambda>(num, ty, e). jobj [(''number'', JInt num), (''body'', JStr (make_issue_body x ty e))])"

definition restorable :: "store_env \<Rightarrow> int \<times> string \<times> json \<Rightarrow> bool" where
  "restorable x = (\<lambda>(num, ty, e). CHR ''`'' \<notin> set ty \<and> printed (x_dump2 x e) \<and> x_parse x (x_dump2 x e) = Some e
     \<and> 0 \<le> num \<and> num \<le> INT_MAX \<and> (\<exists>k. jlookup e ''id'' = Some (JStr k)))"

definition key_of :: "json \<Rightarrow> string" where
  "key_of e = (case jlookup e ''id'' of Some (JStr k) \<Rightarrow> k | _ \<Rightarrow> [])"

definition restored :: "int \<times> string \<times> json \<Rightarrow> string \<times> json" where
  "restored = (\<lambda>(num, ty, e). (key_of e, tag_issue (Some (string_of_int num)) e))"

lemma merge_filed:
  assumes "restorable x it"
  shows "merge_issue x c (filed x it) s =
    (Inr (), set_coll c (AList.update (fst (restored it)) (snd (restored it)) (coll c s)) s)"
proof -
  obtain num ty e k where it: "it = (num, ty, e)" "jlookup e ''id'' = Some (JStr k)"
    using assms by (cases it) (auto simp: restorable_def)
  have issue: "jlookup (filed x it) ''body'' = Some (JStr (make_issue_body x ty e))"
      "jlookup (filed x it) ''number'' = Some (JInt num)"
    by (simp_all add: filed_def it(1) jlookup_jobj)
  have "parse_issue_entity x (filed x it) = e"
    by (rule parse_make_issue_body [OF issue(1)]) (use assms it(1) in \<open>auto simp: restorable_def\<close>)
  moreover have "issue_number (filed x it) = Inr (Some (string_of_int num))"
  proof -
    have "0 \<le> num" "num \<le> INT_MAX" using assms it(1) by (auto simp: restorable_def)
    then show ?thesis by (simp add: issue_number_def issue(2) wrap32_id INT_MIN_def)
  qed
  moreover have "has_id e" "entity_id e = Inr k" "key_of e = k"
    using it(2) id_is_object [OF it(2)] by (auto simp: has_id_def entity_id_def key_of_def jcontains_def is_null_iff)
  ultimately show ?thesis
    by (simp add: merge_issue_def bind_op_def lift_result_def put_entity_def modify_def restored_def it(1))
qed

lemma merge_all_filed:
  assumes "\<forall>it \<in> set its. restorable x it"
  shows "\<exists>s'. for_op (merge_issue x c) (map (filed x) its) s = (Inr (), s')
    \<and> map_of (coll c s') = map_of (coll c s) ++ map_of (rev (map restored its))"
  using assms
proof (induction its arbitrary: s)
  case (Cons it its)
  let ?s1 = "set_coll c (AList.update (fst (restored it)) (snd (restored it)) (coll c s)) s"
  obtain s' where s': "for_op (merge_issue x c) (map (filed x) its) ?s1 = (Inr (), s')"
      "map_of (coll c s') = map_of (coll c ?s1) ++ map_of (rev (map restored its))"
    using Cons.IH [of ?s1] Cons.prems by auto
  have "map_of (coll c ?s1) = (map_of (coll c s))(fst (restored it) \<mapsto> snd (restored it))"
    by (simp add: coll_set_coll fun_eq_iff)
  with s' Cons.prems show ?case
    by (auto simp: bind_op_def merge_filed fun_eq_iff map_add_def split: option.splits)
qed (simp add: ret_def)

text \<open>C29: A restart loses nothing that was filed. When the client lists the issues that the entities of a
collection were written to, hydration of an empty store brings back every entity under its identifier,
unchanged but for the number of its issue, and nothing else; later accesses do not fetch again.\<close>

theorem hydration_restores:
  assumes "s_gh s" and "\<not> loaded c s" and "coll c s = []"
    and "x_list_issues x (length (s_calls s)) (label_of c) = Inr (map (filed x) its)"
    and "\<forall>it \<in> set its. restorable x it" and "distinct (map (fst \<circ> restored) its)"
  shows "\<exists>s'. ensure_loaded x c s = (Inr (), s') \<and> map_of (coll c s') = map_of (map restored its)
    \<and> ensure_loaded x c s' = (Inr (), s')"
proof -
  let ?s0 = "s\<lparr>s_calls := s_calls s @ [List_Issues (label_of c)]\<rparr>"
  obtain s1 where s1: "for_op (merge_issue x c) (map (filed x) its) ?s0 = (Inr (), s1)"
      "map_of (coll c s1) = map_of (coll c ?s0) ++ map_of (rev (map restored its))"
    using merge_all_filed [OF assms(5), of c ?s0] by blast
  have empty: "coll c ?s0 = []" using assms(3) by (cases c) simp_all
  have "ensure_loaded x c s = (Inr (), set_loaded c s1)"
    using assms(1,2,4) s1(1)
    by (simp add: ensure_loaded_def bind_op_def gets_def catch_op_def list_issues_def gh_request_def ret_def modify_def)
  moreover have "coll c (set_loaded c s1) = coll c s1" "loaded c (set_loaded c s1)" by (cases c; simp)+
  moreover have "map_of (rev (map restored its)) = map_of (map restored its)"
    using assms(6) by (intro map_of_rev_eq) simp
  ultimately show ?thesis
    using s1(2) empty loaded_run [of c "set_loaded c s1" x] by simp
qed


definition example_entity :: json where
  "example_entity = jobj [(''id'', JStr ''k''), (''name'', JStr ''n'')]"

definition example_dump_env :: store_env where
  "example_dump_env = example_env\<lparr>x_dump2 := (\<lambda>_. ''D''), x_parse := (\<lambda>_. Some example_entity)\<rparr>"

definition example_restart_env :: store_env where
  "example_restart_env = example_dump_env\<lparr>x_list_issues :=
     (\<lambda>_ _. Inr [filed example_dump_env (7, ''agents/k'', example_entity)])\<rparr>"

theorem hydration_restores_witness:
  "\<exists>s'. ensure_loaded example_restart_env kAgents (new_store True None) = (Inr (), s')
     \<and> map_of (s_agents s') ''k'' = Some (jset ''_github_issue'' (JStr ''7'') example_entity)"
proof -
  let ?it = "(7, ''agents/k'', example_entity)"
  have id: "jlookup example_entity ''id'' = Some (JStr ''k'')" by (simp add: example_entity_def jlookup_jobj)
  have "filed example_restart_env ?it = filed example_dump_env ?it"
    by (simp add: filed_def make_issue_body_def example_restart_env_def)
  then have "x_list_issues example_restart_env (length (s_calls (new_store True None))) (label_of kAgents)
      = Inr (map (filed example_restart_env) [?it])"
    by (simp add: example_restart_env_def)
  moreover have "\<forall>it \<in> set [?it]. restorable example_restart_env it"
    by (simp add: restorable_def printed_def example_restart_env_def example_dump_env_def id newline_def INT_MAX_def)
  moreover have "string_of_int 7 = ''7''" by code_simp
  then have "restored ?it = (''k'', jset ''_github_issue'' (JStr ''7'') example_entity)"
    by (simp add: restored_def key_of_def id tag_issue_def)
  ultimately show ?thesis
    using hydration_restores [of "new_store True None" kAgents example_restart_env "[?it]"]
    by (auto simp: new_store_def)
qed

end
