(* ===== verification/Server_Config.thy ===== *)
theory Server_Config
  imports Prelude Complex_Main
begin

text \<open>
  Start-up of the server (\<open>src/server_main.cpp\<close>) as far as it decides anything: the settings read from the
  environment, the refusal to start without an API key, and the reader of port numbers
  (\<open>include/agamemnon/port_parse.hpp\<close>). The environment is a function from names to values; \<open>std::stod\<close> is
  an argument. Sockets, threads, signals and log output are left out.
\<close>

section \<open>Port numbers\<close>





section \<open>Settings\<close>
















end
