(* ===== verification/GitHub_Client.thy ===== *)
theory GitHub_Client
  imports Json
begin

text \<open>
  The GitHub client of \<open>src/github_client.cpp\<close>: reading of the \<open>Retry-After\<close> header, the retry loop, the
  requests of the issues API and the paged listing. libcurl is the argument \<open>net\<close>: \<open>net k\<close> says how the
  \<open>k\<close>-th transfer asked of it ends. The state records the transfers and the pauses in milliseconds. The listing
  has no bound in the code; it takes a number of pages as fuel.
\<close>

record gh_response =
  h_status :: int
  h_body :: string
  h_retry_after :: string

record gh_client =
  g_repo :: string
  g_token :: string

text \<open>The options of a transfer: the request line, the header lines, the posted text and whether redirections
are followed. A payload is kept as the value it is the \<open>dump()\<close> of.\<close>

datatype gh_verb = Get | Post | Patch

record gh_request =
  q_verb :: gh_verb
  q_url :: string
  q_headers :: "string list"
  q_payload :: "json option"
  q_follow :: bool

text \<open>How a transfer ends: \<open>curl_easy_init\<close> returns no handle, \<open>curl_easy_perform\<close> fails with an error text, or
a status, the header lines in the order of their arrival and a body are received.\<close>

datatype transfer =
    No_Handle
  | Failed string
  | Received int "string list" string

record gh_state =
  gh_requests :: "gh_request list"
  gh_sleeps :: "int list"

type_synonym gh_net = "nat \<Rightarrow> gh_request \<Rightarrow> transfer"

definition kMaxRetries_gh :: nat where
  "kMaxRetries_gh = 3"

definition kBaseRetryMs_gh :: int where
  "kBaseRetryMs_gh = 1000"

section \<open>The Retry-After header\<close>

definition is_blank :: "char \<Rightarrow> bool" where
  "is_blank c \<longleftrightarrow> c = CHR '' '' \<or> ord_of c = 9 \<or> ord_of c = 13 \<or> ord_of c = 10"

text \<open>The value from the first to the last character that is no blank; \<open>None\<close> when there is none.\<close>

definition trimmed :: "string \<Rightarrow> string option" where
  "trimmed s = (if list_all is_blank s then None
     else Some (rev (dropWhile is_blank (rev (dropWhile is_blank s)))))"

definition header_callback :: "string \<Rightarrow> string \<Rightarrow> string" where
  "header_callback line retry_after =
     (if starts_with ''retry-after:'' (map to_lower line)
      then (case trimmed (drop (length ''retry-after:'') line) of Some v \<Rightarrow> v | None \<Rightarrow> retry_after)
      else retry_after)"

definition is_transient_status :: "int \<Rightarrow> bool" where
  "is_transient_status status \<longleftrightarrow> status = 429 \<or> (status \<ge> 500 \<and> status < 600)"

section \<open>Retries\<close>

primrec verb_name :: "gh_verb \<Rightarrow> string" where
  "verb_name Get = ''GET''"
| "verb_name Post = ''POST''"
| "verb_name Patch = ''PATCH''"

text \<open>The operation the three requests hand to the retry loop: the headers received are fed to
\<open>header_callback\<close> one by one.\<close>

definition perform :: "gh_net \<Rightarrow> nat \<Rightarrow> gh_request \<Rightarrow> string + gh_response" where
  "perform net k q =
     (case net k q of
        No_Handle \<Rightarrow> Inl ''curl_easy_init failed''
      | Failed what \<Rightarrow> Inl (''curl '' @ verb_name (q_verb q) @ '' failed: '' @ what)
      | Received status headers body \<Rightarrow>
          Inr \<lparr>h_status = status, h_body = body, h_retry_after = fold header_callback headers []\<rparr>)"

definition attempt :: "gh_net \<Rightarrow> gh_request \<Rightarrow> (gh_state, gh_response) op" where
  "attempt net q s =
     (case perform net (length (gh_requests s)) q of Inl what \<Rightarrow> Inl (Runtime_Error what) | Inr r \<Rightarrow> Inr r,
      s\<lparr>gh_requests := gh_requests s @ [q]\<rparr>)"

definition sleep_for :: "int \<Rightarrow> (gh_state, unit) op" where
  "sleep_for ms = modify (\<lambda>s. s\<lparr>gh_sleeps := gh_sleeps s @ [ms]\<rparr>)"

text \<open>\<open>secs * 1000\<close> is a 32-bit product.\<close>

definition pause_ms :: "int \<Rightarrow> string \<Rightarrow> int" where
  "pause_ms delay_ms retry_after =
     (if retry_after = [] then delay_ms
      else case stoi retry_after of
        Inr secs \<Rightarrow> if secs > 0 then wrap32 (secs * 1000) else delay_ms
      | Inl e \<Rightarrow> delay_ms)"

text \<open>The loop with the attempts left: one left is the last attempt.\<close>

fun retry_loop :: "gh_net \<Rightarrow> gh_request \<Rightarrow> nat \<Rightarrow> int \<Rightarrow> (gh_state, gh_response) op" where
  "retry_loop net q 0 delay_ms = ret \<lparr>h_status = 0, h_body = [], h_retry_after = []\<rparr>"
| "retry_loop net q (Suc left) delay_ms =
     bind_op (catch_op (bind_op (attempt net q) (\<lambda>r. ret (Inr r))) (\<lambda>e. ret (Inl e))) (\<lambda>outcome.
     case outcome of
       Inl e \<Rightarrow>
         if left = 0 then throw e
         else bind_op (sleep_for delay_ms) (\<lambda>_. retry_loop net q left (delay_ms * 2))
     | Inr resp \<Rightarrow>
         if \<not> is_transient_status (h_status resp) then ret resp
         else if left = 0 then ret resp
         else bind_op (sleep_for (pause_ms delay_ms (h_retry_after resp))) (\<lambda>_.
                retry_loop net q left (delay_ms * 2)))"

definition with_retry :: "gh_net \<Rightarrow> gh_request \<Rightarrow> (gh_state, gh_response) op" where
  "with_retry net q = retry_loop net q kMaxRetries_gh kBaseRetryMs_gh"

definition common_headers :: "gh_client \<Rightarrow> string list" where
  "common_headers c =
     [''Accept: application/vnd.github+json'', ''X-GitHub-Api-Version: 2022-11-28'',
      ''Authorization: Bearer '' @ g_token c]"

definition get_request :: "gh_client \<Rightarrow> string \<Rightarrow> gh_request" where
  "get_request c url =
     \<lparr>q_verb = Get, q_url = url, q_headers = common_headers c @ [''User-Agent: Agamemnon/1.0''],
      q_payload = None, q_follow = True\<rparr>"

definition do_get :: "gh_net \<Rightarrow> gh_client \<Rightarrow> string \<Rightarrow> (gh_state, gh_response) op" where
  "do_get net c url = with_retry net (get_request c url)"

definition do_post :: "gh_net \<Rightarrow> gh_client \<Rightarrow> string \<Rightarrow> json \<Rightarrow> (gh_state, gh_response) op" where
  "do_post net c url payload = with_retry net
     \<lparr>q_verb = Post, q_url = url,
      q_headers = common_headers c @ [''Content-Type: application/json'', ''User-Agent: Agamemnon/1.0''],
      q_payload = Some payload, q_follow = False\<rparr>"

definition do_patch :: "gh_net \<Rightarrow> gh_client \<Rightarrow> string \<Rightarrow> json \<Rightarrow> (gh_state, gh_response) op" where
  "do_patch net c url payload = with_retry net
     \<lparr>q_verb = Patch, q_url = url,
      q_headers = common_headers c @ [''Content-Type: application/json'', ''User-Agent: Agamemnon/1.0''],
      q_payload = Some payload, q_follow = False\<rparr>"

section \<open>Issues\<close>

definition issues_url :: "gh_client \<Rightarrow> string" where
  "issues_url c = ''https://api.github.com/repos/'' @ g_repo c @ ''/issues''"

definition page_url :: "gh_client \<Rightarrow> string \<Rightarrow> nat \<Rightarrow> string" where
  "page_url c label page =
     issues_url c @ ''?state=open&labels='' @ label @ ''&per_page=100&page='' @ string_of_nat page"

text \<open>\<open>None\<close> is a loop that has not ended within the fuel.\<close>

fun list_pages ::
    "(string \<Rightarrow> json option) \<Rightarrow> gh_net \<Rightarrow> gh_client \<Rightarrow> string \<Rightarrow> nat \<Rightarrow> nat \<Rightarrow> json list \<Rightarrow> (gh_state, json list option) op"
where
  "list_pages parse net c label 0 page results = ret None"
| "list_pages parse net c label (Suc fuel) page results =
     bind_op (catch_op (bind_op (do_get net c (page_url c label page)) (\<lambda>r. ret (Some r))) (\<lambda>e. ret None)) (\<lambda>fetched.
     case fetched of
       None \<Rightarrow> ret (Some results)
     | Some resp \<Rightarrow>
         if h_status resp \<noteq> 200 then ret (Some results)
         else case parse (h_body resp) of
           Some (JArr issues) \<Rightarrow>
             if issues = [] then ret (Some results)
             else if length issues < 100 then ret (Some (results @ issues))
             else list_pages parse net c label fuel (Suc page) (results @ issues)
         | _ \<Rightarrow> ret (Some results))"

definition list_issues_gh ::
    "(string \<Rightarrow> json option) \<Rightarrow> gh_net \<Rightarrow> gh_client \<Rightarrow> nat \<Rightarrow> string \<Rightarrow> (gh_state, json list option) op" where
  "list_issues_gh parse net c fuel label = list_pages parse net c label fuel 1 []"

text \<open>\<open>result["number"]\<close> of a value that is not an object, or without the member, throws and is caught.\<close>

definition create_issue_gh ::
    "(string \<Rightarrow> json option) \<Rightarrow> gh_net \<Rightarrow> gh_client \<Rightarrow> string \<Rightarrow> string \<Rightarrow> string \<Rightarrow> (gh_state, string) op" where
  "create_issue_gh parse net c title body label =
     bind_op (do_post net c (issues_url c)
       (jobj [(''title'', JStr title), (''body'', JStr body), (''labels'', JArr [JStr label])])) (\<lambda>resp.
     if h_status resp \<noteq> 201 then ret []
     else case parse (h_body resp) of
       None \<Rightarrow> ret []
     | Some result \<Rightarrow>
         (case jlookup result ''number'' of
            None \<Rightarrow> ret []
          | Some v \<Rightarrow> (case get_int v of Inl e \<Rightarrow> ret [] | Inr n \<Rightarrow> ret (string_of_int n))))"

definition update_issue_body_gh :: "gh_net \<Rightarrow> gh_client \<Rightarrow> string \<Rightarrow> string \<Rightarrow> (gh_state, unit) op" where
  "update_issue_body_gh net c issue_number body =
     bind_op (do_patch net c (issues_url c @ ''/'' @ issue_number) (jobj [(''body'', JStr body)])) (\<lambda>resp. ret ())"

definition close_issue_gh :: "gh_net \<Rightarrow> gh_client \<Rightarrow> string \<Rightarrow> (gh_state, unit) op" where
  "close_issue_gh net c issue_number =
     bind_op (do_patch net c (issues_url c @ ''/'' @ issue_number) (jobj [(''state'', JStr ''closed'')])) (\<lambda>resp. ret ())"


section \<open>What a request comes to\<close>

text \<open>An attempt after which the loop does not go on.\<close>

definition settled :: "string + gh_response \<Rightarrow> bool" where
  "settled outcome = (case outcome of Inl what \<Rightarrow> False | Inr r \<Rightarrow> \<not> is_transient_status (h_status r))"

definition as_result :: "string + gh_response \<Rightarrow> gh_response result" where
  "as_result outcome = (case outcome of Inl what \<Rightarrow> Inl (Runtime_Error what) | Inr r \<Rightarrow> Inr r)"

lemma retry_loop_step:
  "retry_loop net q (Suc left) d s =
    (let out = perform net (length (gh_requests s)) q; s1 = s\<lparr>gh_requests := gh_requests s @ [q]\<rparr> in
     if settled out \<or> left = 0 then (as_result out, s1)
     else retry_loop net q left (d * 2) (s1\<lparr>gh_sleeps := gh_sleeps s1 @
       [case out of Inl what \<Rightarrow> d | Inr r \<Rightarrow> pause_ms d (h_retry_after r)]\<rparr>))"
  by (cases "perform net (length (gh_requests s)) q")
    (simp_all add: attempt_def bind_op_def catch_op_def ret_def throw_def sleep_for_def modify_def settled_def
      as_result_def Let_def)

lemma retry_loop_run:
  "\<exists>k s'. k \<le> left \<and> retry_loop net q (Suc left) d s = (as_result (perform net (length (gh_requests s) + k) q), s')
     \<and> gh_requests s' = gh_requests s @ replicate (Suc k) q
     \<and> (\<forall>i < k. \<not> settled (perform net (length (gh_requests s) + i) q))
     \<and> (k = left \<or> settled (perform net (length (gh_requests s) + k) q))
     \<and> length (gh_sleeps s') = length (gh_sleeps s) + k"
proof (induction left arbitrary: d s)
  case 0
  show ?case
    by (rule exI [of _ 0]) (simp add: retry_loop_step Let_def del: retry_loop.simps)
next
  case (Suc left)
  let ?out = "perform net (length (gh_requests s)) q"
  show ?case
  proof (cases "settled ?out")
    case True
    then show ?thesis
      by (intro exI [of _ 0]) (simp add: retry_loop_step [of _ _ "Suc left"] Let_def del: retry_loop.simps)
  next
    case False
    define p where "p = (case ?out of Inl what \<Rightarrow> d | Inr r \<Rightarrow> pause_ms d (h_retry_after r))"
    let ?s1 = "s\<lparr>gh_requests := gh_requests s @ [q], gh_sleeps := gh_sleeps s @ [p]\<rparr>"
    obtain k s' where k: "k \<le> left"
        "retry_loop net q (Suc left) (d * 2) ?s1 = (as_result (perform net (Suc (length (gh_requests s)) + k) q), s')"
        "gh_requests s' = gh_requests ?s1 @ replicate (Suc k) q"
        "\<forall>i < k. \<not> settled (perform net (Suc (length (gh_requests s)) + i) q)"
        "k = left \<or> settled (perform net (Suc (length (gh_requests s)) + k) q)"
        "length (gh_sleeps s') = length (gh_sleeps ?s1) + k"
      using Suc.IH [of "d * 2" ?s1] by (auto simp del: retry_loop.simps)
    have "retry_loop net q (Suc (Suc left)) d s = retry_loop net q (Suc left) (d * 2) ?s1"
      using False by (simp add: retry_loop_step [of _ _ "Suc left"] Let_def p_def del: retry_loop.simps)
    moreover have "\<forall>i < Suc k. \<not> settled (perform net (length (gh_requests s) + i) q)"
      using k(4) False by (auto simp: less_Suc_eq_0_disj)
    ultimately show ?thesis
      using k by (intro exI [of _ "Suc k"] exI [of _ s']) (simp del: retry_loop.simps)
  qed
qed

text \<open>A request is retried a bounded number of times and ends with the first settled answer. It makes at
most three attempts, all of the same request; each but the last was a transport error, a 429 or a 5xx, and
was followed by one pause; the result is that of the last attempt, which is settled or the third.\<close>

lemma with_retry_correct:
  "\<exists>k s'. k < 3 \<and> with_retry net q s = (as_result (perform net (length (gh_requests s) + k) q), s')
     \<and> gh_requests s' = gh_requests s @ replicate (Suc k) q
     \<and> list_all (\<lambda>i. \<not> settled (perform net (length (gh_requests s) + i) q)) [0..<k]
     \<and> (k = 2 \<or> settled (perform net (length (gh_requests s) + k) q))
     \<and> length (gh_sleeps s') = length (gh_sleeps s) + k"
proof -
  have three: "kMaxRetries_gh = Suc 2" by (simp add: kMaxRetries_gh_def)
  obtain k s' where "k \<le> 2" "with_retry net q s = (as_result (perform net (length (gh_requests s) + k) q), s')"
      "gh_requests s' = gh_requests s @ replicate (Suc k) q"
      "\<forall>i < k. \<not> settled (perform net (length (gh_requests s) + i) q)"
      "k = 2 \<or> settled (perform net (length (gh_requests s) + k) q)"
      "length (gh_sleeps s') = length (gh_sleeps s) + k"
    using retry_loop_run [of 2 net q kBaseRetryMs_gh s] unfolding with_retry_def three by blast
  then show ?thesis by (intro exI [of _ k] exI [of _ s']) (simp add: list_all_iff)
qed


section \<open>Listings\<close>

text \<open>A server that answers the page requests in turn: full pages of a hundred issues, then a shorter one.\<close>

definition serves_pages :: "(string \<Rightarrow> json option) \<Rightarrow> gh_net \<Rightarrow> json list list \<Rightarrow> nat \<Rightarrow> bool" where
  "serves_pages parse net pages n \<longleftrightarrow>
     (\<forall>i < length pages. \<forall>q. \<exists>r. perform net (n + i) q = Inr r \<and> h_status r = 200 \<and> parse (h_body r) = Some (JArr (pages ! i)))
     \<and> pages \<noteq> [] \<and> (\<forall>p \<in> set (butlast pages). length p = 100) \<and> length (last pages) < 100"

lemma serves_pages_tl:
  assumes "serves_pages parse net (p # pages) n" and "pages \<noteq> []"
  shows "serves_pages parse net pages (Suc n)"
proof -
  have "\<forall>i < length pages. \<forall>q. \<exists>r. perform net (Suc n + i) q = Inr r \<and> h_status r = 200 \<and> parse (h_body r) = Some (JArr (pages ! i))"
  proof (intro allI impI)
    fix i q assume "i < length pages"
    then have "Suc i < length (p # pages)" by simp
    then show "\<exists>r. perform net (Suc n + i) q = Inr r \<and> h_status r = 200 \<and> parse (h_body r) = Some (JArr (pages ! i))"
      using assms(1) unfolding serves_pages_def by (metis add_Suc_shift nth_Cons_Suc)
  qed
  with assms show ?thesis by (simp add: serves_pages_def)
qed

lemma get_request_url [simp]: "q_url (get_request c url) = url"
  by (simp add: get_request_def)

lemma do_get_ok:
  assumes "perform net (length (gh_requests s)) (get_request c url) = Inr r" and "h_status r = 200"
  shows "do_get net c url s = (Inr r, s\<lparr>gh_requests := gh_requests s @ [get_request c url]\<rparr>)"
  using assms
  by (simp add: do_get_def with_retry_def kMaxRetries_gh_def numeral_3_eq_3 retry_loop_step settled_def as_result_def
      is_transient_status_def del: retry_loop.simps)

lemma list_pages_complete:
  assumes "serves_pages parse net pages (length (gh_requests s))" and "length pages \<le> fuel"
  shows "\<exists>s'. list_pages parse net c label fuel page results s = (Inr (Some (results @ concat pages)), s')
    \<and> map q_url (gh_requests s') = map q_url (gh_requests s) @ map (page_url c label) [page..<page + length pages]"
  using assms
proof (induction pages arbitrary: fuel page results s)
  case Nil
  then show ?case by (simp add: serves_pages_def)
next
  case (Cons p pages)
  obtain fuel' where fuel: "fuel = Suc fuel'" using Cons.prems(2) by (cases fuel) auto
  let ?q = "get_request c (page_url c label page)"
  have "\<forall>q. \<exists>r. perform net (length (gh_requests s) + 0) q = Inr r \<and> h_status r = 200
      \<and> parse (h_body r) = Some (JArr ((p # pages) ! 0))"
    using Cons.prems(1) unfolding serves_pages_def by blast
  then obtain r where r: "perform net (length (gh_requests s)) ?q = Inr r" "h_status r = 200" "parse (h_body r) = Some (JArr p)"
    by auto
  let ?s1 = "s\<lparr>gh_requests := gh_requests s @ [?q]\<rparr>"
  have get: "do_get net c (page_url c label page) s = (Inr r, ?s1)" by (rule do_get_ok) (rule r)+
  show ?case
  proof (cases "pages = []")
    case True
    then have "length p < 100" using Cons.prems(1) by (simp add: serves_pages_def)
    with True get r show ?thesis
      by (cases "p = []") (simp_all add: fuel bind_op_def catch_op_def ret_def)
  next
    case False
    then have full: "length p = 100" "p \<noteq> []" using Cons.prems(1) by (auto simp: serves_pages_def)
    obtain s' where "list_pages parse net c label fuel' (Suc page) (results @ p) ?s1 =
        (Inr (Some ((results @ p) @ concat pages)), s')"
        "map q_url (gh_requests s') = map q_url (gh_requests ?s1) @ map (page_url c label) [Suc page..<Suc page + length pages]"
      using Cons.IH [of ?s1 fuel' "Suc page" "results @ p"] serves_pages_tl [OF Cons.prems(1) False] Cons.prems(2)
      by (auto simp: fuel)
    moreover have "[page..<page + length (p # pages)] = page # [Suc page..<Suc page + length pages]"
      by (simp add: upt_conv_Cons del: upt_Suc)
    ultimately show ?thesis
      using get r full by (simp add: fuel bind_op_def catch_op_def ret_def del: upt_Suc)
  qed
qed

text \<open>C34: The listing of issues ends and is complete. Against a server that answers with full pages of a
hundred issues and then a shorter page, the loop ends within that many pages and returns all issues, in
order, after requesting every page from 1 on exactly once.\<close>

theorem list_issues_complete:
  assumes "serves_pages parse net pages (length (gh_requests s))" and "length pages \<le> fuel"
  shows "\<exists>s'. list_issues_gh parse net c fuel label s = (Inr (Some (concat pages)), s')
    \<and> map q_url (gh_requests s') = map q_url (gh_requests s) @ map (page_url c label) [1..<Suc (length pages)]"
  using list_pages_complete [OF assms, of c label 1 "[]"] by (simp add: list_issues_gh_def)

theorem list_issues_complete_witness:
  "\<exists>s'. list_issues_gh (\<lambda>b. Some (JArr (if b = ''full'' then replicate 100 JNull else [JNull])))
      (\<lambda>k q. Received 200 [] (if k = 0 then ''full'' else ''last''))
      \<lparr>g_repo = ''o/r'', g_token = ''t''\<rparr> 2 ''agamemnon-task'' \<lparr>gh_requests = [], gh_sleeps = []\<rparr> = (Inr (Some (replicate 100 JNull @ [JNull])), s')"
proof -
  let ?parse = "\<lambda>b. Some (JArr (if b = ''full'' then replicate 100 JNull else [JNull]))"
  let ?net = "\<lambda>k q. Received 200 [] (if k = 0 then ''full'' else ''last'')"
  let ?pages = "[replicate 100 JNull, [JNull]]"
  have "serves_pages ?parse ?net ?pages 0"
    by (auto simp: serves_pages_def perform_def less_Suc_eq)
  then show ?thesis
    using list_issues_complete [of ?parse ?net ?pages "\<lparr>gh_requests = [], gh_sleeps = []\<rparr>" 2 "\<lparr>g_repo = ''o/r'', g_token = ''t''\<rparr>" "''agamemnon-task''"]
    by auto
qed

end
