(* ===== verification/Mock_GitHub.thy ===== *)
theory Mock_GitHub
  imports GitHub_Client
begin

text \<open>
  The in-memory client that stands in for GitHub in the tests (\<open>MockGitHubClient\<close> of
  \<open>include/agamemnon/github_client.hpp\<close>).
\<close>

record gh_mock =
  mk_calls :: "(string \<times> string \<times> string \<times> string) list"
  mk_seed_issues :: "json list umap"
  mk_fail_list_on_label :: string
  mk_created_issues :: "json umap"
  mk_updated_bodies :: "string umap"
  mk_closed_issues :: "string list"
  mk_next_issue_number :: int

definition note_call :: "string \<Rightarrow> string \<Rightarrow> string \<Rightarrow> string \<Rightarrow> gh_mock \<Rightarrow> gh_mock" where
  "note_call method arg1 arg2 arg3 m = m\<lparr>mk_calls := mk_calls m @ [(method, arg1, arg2, arg3)]\<rparr>"

definition mock_list_issues :: "string \<Rightarrow> (gh_mock, json list) op" where
  "mock_list_issues label m =
     (let m1 = note_call ''list_issues'' label [] [] m in
      if mk_fail_list_on_label m1 \<noteq> [] \<and> mk_fail_list_on_label m1 = label
      then (Inl (Runtime_Error (''simulated GitHub list failure for label: '' @ label)), m1)
      else (Inr (case map_of (mk_seed_issues m1) label of None \<Rightarrow> [] | Some issues \<Rightarrow> issues), m1))"

definition mock_create_issue :: "string \<Rightarrow> string \<Rightarrow> string \<Rightarrow> gh_mock \<Rightarrow> string \<times> gh_mock" where
  "mock_create_issue title body label m =
     (let m1 = note_call ''create_issue'' title body label m;
          n = mk_next_issue_number m1 + 1; num = string_of_int n
      in (num, m1\<lparr>mk_next_issue_number := n,
            mk_created_issues := AList.update num
              (jobj [(''title'', JStr title), (''body'', JStr body), (''label'', JStr label)]) (mk_created_issues m1)\<rparr>))"

definition mock_update_issue_body :: "string \<Rightarrow> string \<Rightarrow> gh_mock \<Rightarrow> gh_mock" where
  "mock_update_issue_body issue_number body m =
     (let m1 = note_call ''update_issue_body'' issue_number body [] m;
          m2 = (case map_of (mk_created_issues m1) issue_number of
              None \<Rightarrow> m1
            | Some issue \<Rightarrow> m1\<lparr>mk_created_issues := AList.update issue_number (jset ''body'' (JStr body) issue) (mk_created_issues m1)\<rparr>)
      in m2\<lparr>mk_updated_bodies := AList.update issue_number body (mk_updated_bodies m2)\<rparr>)"

definition mock_close_issue :: "string \<Rightarrow> gh_mock \<Rightarrow> gh_mock" where
  "mock_close_issue issue_number m =
     (let m1 = note_call ''close_issue'' issue_number [] [] m
      in m1\<lparr>mk_closed_issues := mk_closed_issues m1 @ [issue_number]\<rparr>)"

text \<open>Closing an issue does not remove it from the listing, which only shows the seeded issues.\<close>

lemma mock_listing_fixed:
  "fst (mock_list_issues l (mock_close_issue i m)) = fst (mock_list_issues l m)"
  "fst (mock_list_issues l (snd (mock_create_issue t b k m))) = fst (mock_list_issues l m)"
  by (simp_all add: mock_list_issues_def mock_close_issue_def mock_create_issue_def note_call_def Let_def)

lemma mock_body_last_written:
  assumes "mock_create_issue title body label m = (num, m1)"
  shows "map_of (mk_created_issues (mock_update_issue_body num body' m1)) num =
      Some (jobj [(''title'', JStr title), (''body'', JStr body'), (''label'', JStr label)])"
    and "map_of (mk_updated_bodies (mock_update_issue_body num body' m1)) num = Some body'"
  using assms
  by (auto simp: mock_create_issue_def mock_update_issue_body_def note_call_def Let_def update_conv' jobj_def obj_of_def)

end
