(* ===== verification/Peer_Discovery.thy ===== *)
theory Peer_Discovery
  imports Json
begin

text \<open>
  Discovery of a NATS server among Tailscale peers (\<open>src/peer_discovery.cpp\<close>): the address filter, the reader
  of \<open>tailscale status\<close>, the hostname filter and the parallel probe. The worker threads are a step relation:
  one step is one access to the shared variables of the source, so every interleaving is a run. Sockets are
  the argument \<open>alive\<close> (the result of \<open>probe_nats_peer\<close>), the clock is the choice of a worker to find its
  budget used up, \<open>std::regex\<close> is an argument (\<open>None\<close> for a pattern it rejects).
\<close>

record peer_candidate =
  p_tailscale_ip :: string
  p_hostname :: string

section \<open>Addresses and host names\<close>

definition is_tailscale_ip :: "string \<Rightarrow> bool" where
  "is_tailscale_ip ip =
     (if ip = ''127.0.0.1'' then True
      else if \<not> starts_with ''100.'' ip then False
      else
        let rest = drop 4 ip in
        case find_from ''.'' 0 rest of
          None \<Rightarrow> False
        | Some dot \<Rightarrow>
            (case stoi (take dot rest) of
               Inl e \<Rightarrow> False
             | Inr second \<Rightarrow> second \<ge> 64 \<and> second \<le> 127))"

definition contains_sub :: "string \<Rightarrow> string \<Rightarrow> bool" where
  "contains_sub pat s \<longleftrightarrow> find_from pat 0 s \<noteq> None"

definition matches_hostname_pattern :: "(string \<Rightarrow> string \<Rightarrow> bool option) \<Rightarrow> string \<Rightarrow> string \<Rightarrow> bool" where
  "matches_hostname_pattern regex_match hostname pattern =
     (if pattern = [] then True
      else if hostname = [] then False
      else if contains_sub ''^'' pattern \<or> contains_sub ''.*'' pattern then
        (case regex_match pattern hostname of
           Some b \<Rightarrow> b
         | None \<Rightarrow> contains_sub pattern hostname)
      else contains_sub pattern hostname)"

section \<open>Probing a peer\<close>

text \<open>The socket calls are arguments: whether \<open>socket\<close> returns a descriptor when so many are open, whether
\<open>inet_pton\<close> reads the address, whether \<open>connect\<close> to an address and port succeeds within the timeout, whether
\<open>send\<close> succeeds, and the bytes \<open>recv\<close> delivers (none for an error or a closed connection). The state is the
list of open descriptors.\<close>

record sock_api =
  api_socket :: "nat \<Rightarrow> bool"
  api_pton :: "string \<Rightarrow> bool"
  api_connect :: "string \<Rightarrow> int \<Rightarrow> int \<Rightarrow> bool"
  api_send :: "string \<Rightarrow> int \<Rightarrow> string \<Rightarrow> bool"
  api_recv :: "string \<Rightarrow> int \<Rightarrow> string"

record socks =
  sk_open :: "nat list"
  sk_next :: nat

definition sys_socket :: "sock_api \<Rightarrow> (socks, nat option) op" where
  "sys_socket api s =
     (if api_socket api (length (sk_open s))
      then (Inr (Some (sk_next s)), s\<lparr>sk_open := sk_next s # sk_open s, sk_next := Suc (sk_next s)\<rparr>)
      else (Inr None, s))"

definition sys_close :: "nat \<Rightarrow> (socks, unit) op" where
  "sys_close sock = modify (\<lambda>s. s\<lparr>sk_open := remove1 sock (sk_open s)\<rparr>)"

definition port16 :: "int \<Rightarrow> int" where
  "port16 port = port mod 65536"

definition tcp_connect_with_timeout :: "sock_api \<Rightarrow> string \<Rightarrow> int \<Rightarrow> int \<Rightarrow> (socks, bool) op" where
  "tcp_connect_with_timeout api ip port timeout_ms =
     bind_op (sys_socket api) (\<lambda>opened. case opened of
       None \<Rightarrow> ret False
     | Some sock \<Rightarrow>
         if \<not> api_pton api ip then bind_op (sys_close sock) (\<lambda>_. ret False)
         else
           let ok = api_connect api ip (port16 port) timeout_ms in
           bind_op (sys_close sock) (\<lambda>_. ret ok))"

definition varz_request :: "string \<Rightarrow> string" where
  "varz_request ip =
     (let crlf = [char_of (13 :: nat), char_of (10 :: nat)]
      in ''GET /varz HTTP/1.0'' @ crlf @ ''Host: '' @ ip @ crlf @ crlf)"

definition check_nats_monitoring :: "sock_api \<Rightarrow> string \<Rightarrow> int \<Rightarrow> int \<Rightarrow> (socks, bool) op" where
  "check_nats_monitoring api ip monitor_port timeout_ms =
     bind_op (sys_socket api) (\<lambda>opened. case opened of
       None \<Rightarrow> ret False
     | Some sock \<Rightarrow>
         if \<not> api_pton api ip then bind_op (sys_close sock) (\<lambda>_. ret False)
         else if \<not> api_connect api ip (port16 monitor_port) timeout_ms
         then bind_op (sys_close sock) (\<lambda>_. ret False)
         else if \<not> api_send api ip (port16 monitor_port) (varz_request ip)
         then bind_op (sys_close sock) (\<lambda>_. ret False)
         else
           let buf = take 255 (api_recv api ip (port16 monitor_port)) in
           bind_op (sys_close sock) (\<lambda>_.
           if buf = [] then ret False else ret (starts_with ''HTTP/1'' buf)))"

definition probe_nats_peer :: "sock_api \<Rightarrow> string \<Rightarrow> int \<Rightarrow> int \<Rightarrow> int \<Rightarrow> (socks, bool) op" where
  "probe_nats_peer api ip nats_port monitor_port timeout_ms =
     bind_op (check_nats_monitoring api ip monitor_port timeout_ms) (\<lambda>ok.
     if \<not> ok then ret False
     else tcp_connect_with_timeout api ip nats_port timeout_ms)"

lemmas sock_defs = bind_op_def ret_def sys_socket_def sys_close_def modify_def Let_def

lemma tcp_connect_run:
  "fst (tcp_connect_with_timeout api ip port ms s) =
     Inr (api_socket api (length (sk_open s)) \<and> api_pton api ip \<and> api_connect api ip (port16 port) ms)"
  "sk_open (snd (tcp_connect_with_timeout api ip port ms s)) = sk_open s"
  by (simp_all add: tcp_connect_with_timeout_def sock_defs)

lemma check_monitoring_run:
  "fst (check_nats_monitoring api ip port ms s) =
     Inr (api_socket api (length (sk_open s)) \<and> api_pton api ip \<and> api_connect api ip (port16 port) ms
       \<and> api_send api ip (port16 port) (varz_request ip) \<and> starts_with ''HTTP/1'' (api_recv api ip (port16 port)))"
  "sk_open (snd (check_nats_monitoring api ip port ms s)) = sk_open s"
  by (simp_all add: check_nats_monitoring_def sock_defs starts_with_def)

text \<open>A probe holds no resource and confirms both ports: whatever the socket calls do, every descriptor it
opened is closed again on every path, and it answers true exactly when the monitoring port accepted a
connection and the request and began its answer with \<open>HTTP/1\<close>, and the NATS port accepted a connection.\<close>

lemma probe_nats_peer_correct:
  "fst (probe_nats_peer api ip nats_port monitor_port ms s) =
     Inr (api_socket api (length (sk_open s)) \<and> api_pton api ip
       \<and> api_connect api ip (monitor_port mod 65536) ms
       \<and> api_send api ip (monitor_port mod 65536) (varz_request ip)
       \<and> starts_with ''HTTP/1'' (api_recv api ip (monitor_port mod 65536))
       \<and> api_connect api ip (nats_port mod 65536) ms)
   \<and> sk_open (snd (probe_nats_peer api ip nats_port monitor_port ms s)) = sk_open s"
proof (cases "check_nats_monitoring api ip monitor_port ms s")
  case (Pair r s1)
  then have "r = fst (check_nats_monitoring api ip monitor_port ms s)" "sk_open s1 = sk_open s"
    using check_monitoring_run(2) [of api ip monitor_port ms s] by simp_all
  with Pair show ?thesis
    by (auto simp: probe_nats_peer_def bind_op_def ret_def check_monitoring_run(1) tcp_connect_run port16_def)
qed

section \<open>Peers from the status report\<close>

text \<open>The first address of a list in the Tailscale range other than \<open>self_ip\<close>; an entry that is no string throws.\<close>

fun first_ip :: "string \<Rightarrow> json list \<Rightarrow> string option result" where
  "first_ip self_ip [] = Inr None"
| "first_ip self_ip (ip_val # ips) =
     bind_result (get_string ip_val) (\<lambda>ip.
       if \<not> is_tailscale_ip ip then first_ip self_ip ips
       else if self_ip \<noteq> [] \<and> ip = self_ip then first_ip self_ip ips
       else Inr (Some ip))"

definition self_address :: "json \<Rightarrow> string result" where
  "self_address report =
     (case jlookup report ''Self'' of
        Some self \<Rightarrow>
          (case jlookup self ''TailscaleIPs'' of
             Some (JArr ips) \<Rightarrow>
               bind_result (first_ip [] ips) (\<lambda>r. Inr (case r of None \<Rightarrow> [] | Some ip \<Rightarrow> ip))
           | _ \<Rightarrow> Inr [])
      | None \<Rightarrow> Inr [])"

text \<open>The loop over the peers; an exception ends it and the candidates found so far are returned.\<close>

fun collect_peers :: "string \<Rightarrow> (string \<times> json) list \<Rightarrow> peer_candidate list \<Rightarrow> peer_candidate list" where
  "collect_peers self_ip [] candidates = candidates"
| "collect_peers self_ip ((key, peer) # peers) candidates =
     (case jlookup peer ''TailscaleIPs'' of
        Some (JArr ips) \<Rightarrow>
          (case (case jlookup peer ''HostName'' of None \<Rightarrow> Inr [] | Some v \<Rightarrow> get_string v) of
             Inl e \<Rightarrow> candidates
           | Inr hostname \<Rightarrow>
               (case first_ip self_ip ips of
                  Inl e \<Rightarrow> candidates
                | Inr None \<Rightarrow> collect_peers self_ip peers candidates
                | Inr (Some ip) \<Rightarrow>
                    collect_peers self_ip peers (candidates @ [\<lparr>p_tailscale_ip = ip, p_hostname = hostname\<rparr>])))
      | _ \<Rightarrow> collect_peers self_ip peers candidates)"

definition enumerate_tailscale_peers ::
    "(string \<Rightarrow> json option) \<Rightarrow> string \<Rightarrow> string \<Rightarrow> peer_candidate list" where
  "enumerate_tailscale_peers parse tailscale_status status_json =
     (let json_str = (if status_json = [] then tailscale_status else status_json) in
      if json_str = [] then []
      else case parse json_str of
        None \<Rightarrow> []
      | Some report \<Rightarrow>
          (case self_address report of
             Inl e \<Rightarrow> []
           | Inr self_ip \<Rightarrow>
               (case jlookup report ''Peer'' of
                  Some (JObj peers) \<Rightarrow> collect_peers self_ip peers []
                | _ \<Rightarrow> [])))"

section \<open>The parallel probe\<close>

record discovery_options =
  do_total_budget_ms :: int
  do_per_probe_timeout_ms :: int
  do_max_workers :: nat

definition default_options :: discovery_options where
  "default_options = \<lparr>do_total_budget_ms = 2000, do_per_probe_timeout_ms = 500, do_max_workers = 8\<rparr>"

definition worker_count :: "discovery_options \<Rightarrow> peer_candidate list \<Rightarrow> nat" where
  "worker_count opts matched = min (length matched) (min 32 (max 1 (do_max_workers opts)))"

text \<open>Where a worker stands: at the loop test, before \<open>fetch_add\<close>, holding an index before the budget test,
probing it, before the compare-exchange, before the write of the URL, or returned.\<close>

datatype worker =
    Testing
  | Fetching
  | Claimed nat
  | Probing nat
  | Exchanging nat
  | Writing nat
  | Returned

record discovery =
  d_next_idx :: nat
  d_found :: bool
  d_winning_url :: string
  d_workers :: "worker list"
  d_expired :: bool

definition url_of :: "int \<Rightarrow> peer_candidate \<Rightarrow> string" where
  "url_of nats_port peer = ''nats://'' @ p_tailscale_ip peer @ '':'' @ string_of_int nats_port"

definition new_discovery :: "nat \<Rightarrow> discovery" where
  "new_discovery workers = \<lparr>d_next_idx = 0, d_found = False, d_winning_url = [],
     d_workers = replicate workers Testing, d_expired = False\<rparr>"

abbreviation move :: "nat \<Rightarrow> worker \<Rightarrow> discovery \<Rightarrow> discovery" where
  "move w pc d \<equiv> d\<lparr>d_workers := (d_workers d)[w := pc]\<rparr>"

abbreviation at_pc :: "discovery \<Rightarrow> nat \<Rightarrow> worker \<Rightarrow> bool" where
  "at_pc d w pc \<equiv> w < length (d_workers d) \<and> d_workers d ! w = pc"

inductive disc_step :: "int \<Rightarrow> peer_candidate list \<Rightarrow> (string \<Rightarrow> bool) \<Rightarrow> discovery \<Rightarrow> discovery \<Rightarrow> bool"
  for port :: int and matched :: "peer_candidate list" and alive :: "string \<Rightarrow> bool"
where
  Test_Found: "at_pc d w Testing \<Longrightarrow> d_found d \<Longrightarrow> disc_step port matched alive d (move w Returned d)"
| Test_Open: "at_pc d w Testing \<Longrightarrow> \<not> d_found d \<Longrightarrow> disc_step port matched alive d (move w Fetching d)"
| Fetch: "at_pc d w Fetching \<Longrightarrow> d_next_idx d < length matched \<Longrightarrow>
    disc_step port matched alive d ((move w (Claimed (d_next_idx d)) d)\<lparr>d_next_idx := Suc (d_next_idx d)\<rparr>)"
| Fetch_End: "at_pc d w Fetching \<Longrightarrow> d_next_idx d \<ge> length matched \<Longrightarrow>
    disc_step port matched alive d ((move w Returned d)\<lparr>d_next_idx := Suc (d_next_idx d)\<rparr>)"
| Budget_Out: "at_pc d w (Claimed i) \<Longrightarrow> disc_step port matched alive d ((move w Returned d)\<lparr>d_expired := True\<rparr>)"
| Budget_Left: "at_pc d w (Claimed i) \<Longrightarrow> disc_step port matched alive d (move w (Probing i) d)"
| Dead: "at_pc d w (Probing i) \<Longrightarrow> \<not> alive (p_tailscale_ip (matched ! i)) \<Longrightarrow>
    disc_step port matched alive d (move w Testing d)"
| Alive: "at_pc d w (Probing i) \<Longrightarrow> alive (p_tailscale_ip (matched ! i)) \<Longrightarrow>
    disc_step port matched alive d (move w (Exchanging i) d)"
| Win: "at_pc d w (Exchanging i) \<Longrightarrow> \<not> d_found d \<Longrightarrow>
    disc_step port matched alive d ((move w (Writing i) d)\<lparr>d_found := True\<rparr>)"
| Lose: "at_pc d w (Exchanging i) \<Longrightarrow> d_found d \<Longrightarrow> disc_step port matched alive d (move w Returned d)"
| Write: "at_pc d w (Writing i) \<Longrightarrow>
    disc_step port matched alive d ((move w Returned d)\<lparr>d_winning_url := url_of port (matched ! i)\<rparr>)"

text \<open>The result once all workers are joined, after any run.\<close>

definition joined :: "discovery \<Rightarrow> bool" where
  "joined d \<longleftrightarrow> (\<forall>w < length (d_workers d). d_workers d ! w = Returned)"

definition discover_nats_url ::
    "(string \<Rightarrow> string \<Rightarrow> bool option) \<Rightarrow> peer_candidate list \<Rightarrow> string \<Rightarrow> int \<Rightarrow> (string \<Rightarrow> bool)
      \<Rightarrow> discovery_options \<Rightarrow> string \<Rightarrow> bool" where
  "discover_nats_url regex_match peers hostname_pattern nats_port alive opts url \<longleftrightarrow>
     (let matched = filter (\<lambda>p. matches_hostname_pattern regex_match (p_hostname p) hostname_pattern) peers in
      if peers = [] \<or> matched = [] then url = []
      else \<exists>d. (disc_step nats_port matched alive)\<^sup>*\<^sup>* (new_discovery (worker_count opts matched)) d
        \<and> joined d \<and> url = d_winning_url d)"

section \<open>Settings of discovery\<close>

text \<open>\<open>std::atoi\<close>: zero when there is no number.\<close>

definition atoi :: "string \<Rightarrow> int" where
  "atoi s = (case stoi s of Inr v \<Rightarrow> v | Inl e \<Rightarrow> 0)"

definition port_env :: "string option \<Rightarrow> int \<Rightarrow> int" where
  "port_env e def = (case e of None \<Rightarrow> def | Some s \<Rightarrow> let v = atoi s in if v > 0 \<and> v \<le> 65535 then v else def)"

definition positive_env :: "string option \<Rightarrow> int \<Rightarrow> int" where
  "positive_env e def = (case e of None \<Rightarrow> def | Some s \<Rightarrow> let v = atoi s in if v > 0 then v else def)"

definition discover_nats_url_impl ::
    "(string \<Rightarrow> string \<Rightarrow> bool option) \<Rightarrow> (int \<Rightarrow> int \<Rightarrow> string \<Rightarrow> bool) \<Rightarrow> (string \<Rightarrow> string option) \<Rightarrow> string
      \<Rightarrow> peer_candidate list \<Rightarrow> string \<Rightarrow> bool" where
  "discover_nats_url_impl regex_match probe env hostname_pattern peers url =
     (let pattern = (if hostname_pattern = []
            then (case env ''NATS_PEER_HOSTNAME_PATTERN'' of None \<Rightarrow> [] | Some p \<Rightarrow> p) else hostname_pattern);
          nats_port = port_env (env ''NATS_PORT'') 4222;
          monitor_port = port_env (env ''NATS_MONITOR_PORT'') 8222;
          opts = \<lparr>do_total_budget_ms = positive_env (env ''NATS_DISCOVERY_BUDGET_MS'') (do_total_budget_ms default_options),
            do_per_probe_timeout_ms = positive_env (env ''NATS_DISCOVERY_TIMEOUT_MS'') (do_per_probe_timeout_ms default_options),
            do_max_workers = nat (positive_env (env ''NATS_DISCOVERY_MAX_WORKERS'') (int (do_max_workers default_options)))\<rparr>
      in discover_nats_url regex_match peers pattern nats_port (probe nats_port monitor_port) opts url)"


section \<open>Invariant of the probe\<close>

fun held :: "worker \<Rightarrow> nat option" where
  "held (Claimed i) = Some i"
| "held (Probing i) = Some i"
| "held (Exchanging i) = Some i"
| "held (Writing i) = Some i"
| "held _ = None"

fun worker_ok :: "peer_candidate list \<Rightarrow> (string \<Rightarrow> bool) \<Rightarrow> nat \<Rightarrow> bool \<Rightarrow> worker \<Rightarrow> bool" where
  "worker_ok matched alive next found (Claimed i) = (i < length matched \<and> i < next)"
| "worker_ok matched alive next found (Probing i) = (i < length matched \<and> i < next)"
| "worker_ok matched alive next found (Exchanging i) = (i < length matched \<and> i < next \<and> alive (p_tailscale_ip (matched ! i)))"
| "worker_ok matched alive next found (Writing i) =
     (i < length matched \<and> i < next \<and> alive (p_tailscale_ip (matched ! i)) \<and> found)"
| "worker_ok matched alive next found _ = True"

lemma worker_ok_mono:
  "worker_ok matched alive n f pc \<Longrightarrow> n \<le> n' \<Longrightarrow> (f \<Longrightarrow> f') \<Longrightarrow> worker_ok matched alive n' f' pc"
  by (cases pc) auto

text \<open>Every worker stands where it may; the URL is that of a live peer; a found flag is followed by the URL;
an index handed out is held, dead, or the search is over; a worker returns only when it is over.\<close>

definition disc_inv :: "int \<Rightarrow> peer_candidate list \<Rightarrow> (string \<Rightarrow> bool) \<Rightarrow> discovery \<Rightarrow> bool" where
  "disc_inv port matched alive d \<longleftrightarrow>
     (\<forall>pc \<in> set (d_workers d). worker_ok matched alive (d_next_idx d) (d_found d) pc)
     \<and> (d_winning_url d = [] \<or> (\<exists>p \<in> set matched. alive (p_tailscale_ip p) \<and> d_winning_url d = url_of port p))
     \<and> (d_found d \<longrightarrow> d_winning_url d \<noteq> [] \<or> (\<exists>i. Writing i \<in> set (d_workers d)))
     \<and> (\<forall>i. i < d_next_idx d \<and> i < length matched \<longrightarrow> d_found d \<or> d_expired d
          \<or> \<not> alive (p_tailscale_ip (matched ! i)) \<or> Some i \<in> held ` set (d_workers d))
     \<and> (Returned \<in> set (d_workers d) \<longrightarrow> d_found d \<or> d_expired d \<or> length matched \<le> d_next_idx d)"

lemma set_update_keep: "y \<in> set ws \<Longrightarrow> y \<noteq> ws ! w \<Longrightarrow> y \<in> set (ws[w := x])"
  by (metis in_set_conv_nth length_list_update nth_list_update_neq)

lemma set_update_new: "w < length ws \<Longrightarrow> x \<in> set (ws[w := x])"
  by (rule set_update_memI)

lemma held_update_keep:
  assumes "Some i \<in> held ` set ws" and "w < length ws" and "held (ws ! w) = Some i \<Longrightarrow> held x = Some i"
  shows "Some i \<in> held ` set (ws[w := x])"
proof -
  from assms(1) obtain pc where pc: "pc \<in> set ws" "held pc = Some i" by (metis imageE)
  show ?thesis
  proof (cases "pc = ws ! w")
    case True
    with assms(3) pc have "held x = Some i" by simp
    with set_update_new [OF assms(2), of x] show ?thesis by (metis image_eqI)
  next
    case False
    from set_update_keep [OF pc(1) this, of x] pc(2) show ?thesis by (metis image_eqI)
  qed
qed

lemma url_of_nonempty [simp]: "url_of port p \<noteq> []"
  by (simp add: url_of_def)

text \<open>A move of one worker that keeps the shared variables or only raises them.\<close>

lemma disc_inv_move:
  assumes inv: "disc_inv port matched alive d" and w: "w < length (d_workers d)"
    and d': "d_workers d' = (d_workers d)[w := x]" "d_next_idx d \<le> d_next_idx d'"
      "d_found d \<longrightarrow> d_found d'" "d_expired d \<longrightarrow> d_expired d'"
    and ok: "worker_ok matched alive (d_next_idx d') (d_found d') x"
    and url: "d_winning_url d' = d_winning_url d \<or>
      (\<exists>p \<in> set matched. alive (p_tailscale_ip p) \<and> d_winning_url d' = url_of port p)"
    and wrote: "d_found d' \<Longrightarrow> d_winning_url d' = [] \<Longrightarrow>
      (\<exists>i. x = Writing i) \<or> (d_found d \<and> (\<forall>i. d_workers d ! w \<noteq> Writing i))"
    and handed: "\<And>i. i < d_next_idx d' \<Longrightarrow> i < length matched \<Longrightarrow> \<not> d_found d' \<Longrightarrow> \<not> d_expired d' \<Longrightarrow>
      alive (p_tailscale_ip (matched ! i)) \<Longrightarrow> held x = Some i \<or> (i < d_next_idx d \<and> held (d_workers d ! w) \<noteq> Some i)"
    and gone: "x = Returned \<Longrightarrow> d_found d' \<or> d_expired d' \<or> length matched \<le> d_next_idx d'"
  shows "disc_inv port matched alive d'"
proof -
  have set: "set (d_workers d') \<subseteq> insert x (set (d_workers d))"
    unfolding d'(1) by (rule set_update_subset_insert)
  have "\<forall>pc \<in> set (d_workers d'). worker_ok matched alive (d_next_idx d') (d_found d') pc"
    using inv set ok d'(2,3) unfolding disc_inv_def by (blast intro: worker_ok_mono)
  moreover have "d_winning_url d' = [] \<or> (\<exists>p \<in> set matched. alive (p_tailscale_ip p) \<and> d_winning_url d' = url_of port p)"
    using url inv unfolding disc_inv_def by metis
  moreover have "d_winning_url d' \<noteq> [] \<or> (\<exists>i. Writing i \<in> set (d_workers d'))" if found: "d_found d'"
  proof (rule disjCI)
    assume no: "\<not> (\<exists>i. Writing i \<in> set (d_workers d'))"
    have "x \<in> set (d_workers d')" unfolding d'(1) by (rule set_update_new [OF w])
    with no have x: "\<nexists>i. x = Writing i" by blast
    show "d_winning_url d' \<noteq> []"
    proof
      assume empty: "d_winning_url d' = []"
      with wrote found x have d: "d_found d" "\<forall>i. d_workers d ! w \<noteq> Writing i" by blast+
      from empty url have "d_winning_url d = []" by (metis url_of_nonempty)
      with inv d(1) obtain i where "Writing i \<in> set (d_workers d)" unfolding disc_inv_def by blast
      then have "Writing i \<in> set (d_workers d')"
        unfolding d'(1) using d(2) by (metis set_update_keep)
      with no show False by blast
    qed
  qed
  moreover have "d_found d' \<or> d_expired d' \<or> \<not> alive (p_tailscale_ip (matched ! i)) \<or> Some i \<in> held ` set (d_workers d')"
    if i: "i < d_next_idx d'" "i < length matched" for i
  proof (rule ccontr)
    assume not: "\<not> ?thesis"
    then have "held x = Some i \<or> (i < d_next_idx d \<and> held (d_workers d ! w) \<noteq> Some i)" using handed [OF i] by blast
    then show False
    proof
      assume "held x = Some i"
      with not set_update_new [OF w, of x] d'(1) show False by (metis image_eqI)
    next
      assume a: "i < d_next_idx d \<and> held (d_workers d ! w) \<noteq> Some i"
      have "Some i \<in> held ` set (d_workers d)"
        using inv not a i(2) d'(3,4) unfolding disc_inv_def by blast
      then have "Some i \<in> held ` set (d_workers d')"
        unfolding d'(1) using a by (intro held_update_keep [OF _ w]) auto
      with not show False by blast
    qed
  qed
  moreover have "d_found d' \<or> d_expired d' \<or> length matched \<le> d_next_idx d'" if "Returned \<in> set (d_workers d')"
  proof -
    from that set have "x = Returned \<or> Returned \<in> set (d_workers d)" by blast
    with gone inv d'(2-4) show ?thesis unfolding disc_inv_def by (meson order_trans)
  qed
  ultimately show ?thesis unfolding disc_inv_def by blast
qed


lemma disc_inv_new: "disc_inv port matched alive (new_discovery n)"
  by (auto simp: disc_inv_def new_discovery_def)

lemma worker_at: "disc_inv port matched alive d \<Longrightarrow> at_pc d w pc \<Longrightarrow> worker_ok matched alive (d_next_idx d) (d_found d) pc"
  by (auto simp: disc_inv_def)

lemma disc_inv_step:
  assumes "disc_step port matched alive d d'" and "disc_inv port matched alive d"
  shows "disc_inv port matched alive d'"
  using assms(1)
proof cases
  case (Test_Found w)
  then show ?thesis by (intro disc_inv_move [OF assms(2), of w _ Returned]) auto
next
  case (Test_Open w)
  then show ?thesis by (intro disc_inv_move [OF assms(2), of w _ Fetching]) auto
next
  case (Fetch w)
  then show ?thesis by (intro disc_inv_move [OF assms(2), of w _ "Claimed (d_next_idx d)"]) (auto simp: less_Suc_eq)
next
  case (Fetch_End w)
  then show ?thesis by (intro disc_inv_move [OF assms(2), of w _ Returned]) auto
next
  case (Budget_Out w i)
  then show ?thesis by (intro disc_inv_move [OF assms(2), of w _ Returned]) auto
next
  case (Budget_Left w i)
  then show ?thesis
    using worker_at [OF assms(2) Budget_Left(2)] by (intro disc_inv_move [OF assms(2), of w _ "Probing i"]) auto
next
  case (Dead w i)
  then show ?thesis by (intro disc_inv_move [OF assms(2), of w _ Testing]) auto
next
  case (Alive w i)
  then show ?thesis
    using worker_at [OF assms(2) Alive(2)] by (intro disc_inv_move [OF assms(2), of w _ "Exchanging i"]) auto
next
  case (Win w i)
  then show ?thesis
    using worker_at [OF assms(2) Win(2)] by (intro disc_inv_move [OF assms(2), of w _ "Writing i"]) auto
next
  case (Lose w i)
  then show ?thesis by (intro disc_inv_move [OF assms(2), of w _ Returned]) auto
next
  case (Write w i)
  then show ?thesis
    using worker_at [OF assms(2) Write(2)] by (intro disc_inv_move [OF assms(2), of w _ Returned]) auto
qed

lemma disc_inv_run: "(disc_step port matched alive)\<^sup>*\<^sup>* (new_discovery n) d \<Longrightarrow> disc_inv port matched alive d"
  by (induction rule: rtranclp_induct) (auto intro: disc_inv_new disc_inv_step)

lemma workers_kept: "disc_step port matched alive d d' \<Longrightarrow> length (d_workers d') = length (d_workers d)"
  by (induction rule: disc_step.induct) auto

lemma workers_run:
  "(disc_step port matched alive)\<^sup>*\<^sup>* d d' \<Longrightarrow> length (d_workers d') = length (d_workers d)"
  by (induction rule: rtranclp_induct) (auto dest: workers_kept)

text \<open>What is returned once all workers have.\<close>

lemma joined_result:
  assumes "(disc_step port matched alive)\<^sup>*\<^sup>* (new_discovery n) d" and "joined d" and "0 < n"
  shows "(d_winning_url d \<noteq> [] \<longrightarrow> (\<exists>p \<in> set matched. alive (p_tailscale_ip p) \<and> d_winning_url d = url_of port p))
    \<and> (d_winning_url d = [] \<and> \<not> d_expired d \<longrightarrow> (\<forall>p \<in> set matched. \<not> alive (p_tailscale_ip p)))"
proof (intro conjI impI)
  have inv: "disc_inv port matched alive d" by (rule disc_inv_run [OF assms(1)])
  have len: "length (d_workers d) = n" using workers_run [OF assms(1)] by (simp add: new_discovery_def)
  have set: "set (d_workers d) = {Returned}"
  proof -
    have "\<forall>pc \<in> set (d_workers d). pc = Returned" using assms(2) by (auto simp: joined_def in_set_conv_nth)
    moreover have "d_workers d \<noteq> []" using assms(3) len by auto
    ultimately show ?thesis by (cases "d_workers d") auto
  qed
  show "\<exists>p \<in> set matched. alive (p_tailscale_ip p) \<and> d_winning_url d = url_of port p" if "d_winning_url d \<noteq> []"
    using inv that by (auto simp: disc_inv_def)
  assume none: "d_winning_url d = [] \<and> \<not> d_expired d"
  then have "\<not> d_found d" using inv set by (auto simp: disc_inv_def)
  with none inv set have "length matched \<le> d_next_idx d" by (auto simp: disc_inv_def)
  with none inv set \<open>\<not> d_found d\<close> show "\<forall>p \<in> set matched. \<not> alive (p_tailscale_ip p)"
    by (auto simp: disc_inv_def in_set_conv_nth)
qed


section \<open>Termination of the probe\<close>

fun weight :: "worker \<Rightarrow> nat" where
  "weight Testing = 2"
| "weight Fetching = 1"
| "weight (Claimed i) = 6"
| "weight (Probing i) = 5"
| "weight (Exchanging i) = 4"
| "weight (Writing i) = 3"
| "weight Returned = 0"

definition work_left :: "peer_candidate list \<Rightarrow> discovery \<Rightarrow> nat" where
  "work_left matched d = 6 * (length matched - d_next_idx d) + sum_list (map weight (d_workers d))"

lemma weight_update:
  assumes "at_pc d w pc"
  shows "sum_list (map weight ((d_workers d)[w := x])) + weight pc = sum_list (map weight (d_workers d)) + weight x"
proof -
  have "weight pc \<le> sum_list (map weight (d_workers d))"
    using assms by (auto intro!: member_le_sum_list)
  then show ?thesis using assms by (simp add: map_update sum_list_update)
qed

lemma work_left_step: "disc_step port matched alive d d' \<Longrightarrow> work_left matched d' < work_left matched d"
proof (induction rule: disc_step.induct)
  case (Fetch d w)
  then show ?case using weight_update [of w d Fetching "Claimed (d_next_idx d)"] by (simp add: work_left_def)
next
  case (Fetch_End d w)
  then show ?case using weight_update [of w d Fetching Returned] by (simp add: work_left_def)
next
  case (Budget_Left d w i)
  then show ?case using weight_update [of w d "Claimed i" "Probing i"] by (simp add: work_left_def)
next
  case (Alive d w i)
  then show ?case using weight_update [of w d "Probing i" "Exchanging i"] by (simp add: work_left_def)
next
  case (Win d w i)
  then show ?case using weight_update [of w d "Exchanging i" "Writing i"] by (simp add: work_left_def)
next
  case (Dead d w i)
  then show ?case using weight_update [of w d "Probing i" Testing] by (simp add: work_left_def)
next
  case (Test_Open d w)
  then show ?case using weight_update [of w d Testing Fetching] by (simp add: work_left_def)
next
  case (Test_Found d w)
  then show ?case using weight_update [of w d Testing Returned] by (simp add: work_left_def)
next
  case (Budget_Out d w i)
  then show ?case using weight_update [of w d "Claimed i" Returned] by (simp add: work_left_def)
next
  case (Lose d w i)
  then show ?case using weight_update [of w d "Exchanging i" Returned] by (simp add: work_left_def)
next
  case (Write d w i)
  then show ?case using weight_update [of w d "Writing i" Returned] by (simp add: work_left_def)
qed

lemma work_left_run: "(disc_step port matched alive ^^ k) d d' \<Longrightarrow> work_left matched d' + k \<le> work_left matched d"
proof (induction k arbitrary: d')
  case (Suc k)
  then obtain e where "(disc_step port matched alive ^^ k) d e" "disc_step port matched alive e d'" by auto
  with Suc.IH [of e] work_left_step [of port matched alive e d'] show ?case by simp
qed simp

lemma step_possible:
  assumes "w < length (d_workers d)" and "d_workers d ! w \<noteq> Returned"
  shows "\<exists>d'. disc_step port matched alive d d'"
proof (cases "d_workers d ! w")
  case Testing
  with assms show ?thesis by (cases "d_found d") (blast intro: Test_Found Test_Open)+
next
  case Fetching
  with assms show ?thesis by (cases "d_next_idx d < length matched") (blast intro: Fetch Fetch_End [OF _ leI])+
next
  case (Claimed i)
  with assms show ?thesis by (blast intro: Budget_Left)
next
  case (Probing i)
  with assms show ?thesis by (cases "alive (p_tailscale_ip (matched ! i))") (blast intro: Alive Dead)+
next
  case (Exchanging i)
  with assms show ?thesis by (cases "d_found d") (blast intro: Win Lose)+
next
  case (Writing i)
  with assms show ?thesis by (blast intro: Write)
qed (use assms in simp)

lemma probe_bounded:
  assumes "(disc_step port matched alive ^^ k) (new_discovery n) d"
  shows "k \<le> 6 * length matched + 2 * n"
proof -
  have "sum_list (map weight (replicate n Testing)) = 2 * n" by (induction n) auto
  then have "work_left matched (new_discovery n) = 6 * length matched + 2 * n"
    by (simp add: work_left_def new_discovery_def)
  with work_left_run [OF assms] show ?thesis by simp
qed

text \<open>C10: Whatever the interleaving of its workers, the parallel probe ends, and its result is sound and
complete. A run of \<open>n\<close> workers makes at most six steps per matched peer and two per worker, and can go on
until all workers have returned. Then a URL that is not empty is that of a matched peer that answered the
probe; and if it is empty and no worker ran out of budget, no matched peer answers.\<close>

theorem discovery_correct:
  assumes "(disc_step port matched alive ^^ k) (new_discovery n) d" and "0 < n"
  shows "k \<le> 6 * length matched + 2 * n \<and> (joined d \<or> (\<exists>d'. disc_step port matched alive d d'))
    \<and> (joined d \<longrightarrow>
         (d_winning_url d \<noteq> [] \<longrightarrow> (\<exists>p \<in> set matched. alive (p_tailscale_ip p) \<and> d_winning_url d = url_of port p))
         \<and> (d_winning_url d = [] \<and> \<not> d_expired d \<longrightarrow> (\<forall>p \<in> set matched. \<not> alive (p_tailscale_ip p))))"
proof (intro conjI [OF probe_bounded [OF assms(1)]] conjI)
  have run: "(disc_step port matched alive)\<^sup>*\<^sup>* (new_discovery n) d"
    using assms(1) by (rule relpowp_imp_rtranclp)
  show "joined d \<or> (\<exists>d'. disc_step port matched alive d d')"
    using step_possible [of _ d port matched alive] by (auto simp: joined_def)
  show "joined d \<longrightarrow>
      (d_winning_url d \<noteq> [] \<longrightarrow> (\<exists>p \<in> set matched. alive (p_tailscale_ip p) \<and> d_winning_url d = url_of port p))
      \<and> (d_winning_url d = [] \<and> \<not> d_expired d \<longrightarrow> (\<forall>p \<in> set matched. \<not> alive (p_tailscale_ip p)))"
    using joined_result [OF run _ assms(2)] by blast
qed

text \<open>One worker, one live peer: six steps to the URL.\<close>

definition example_peers :: "peer_candidate list" where
  "example_peers = [\<lparr>p_tailscale_ip = ''100.64.0.1'', p_hostname = ''a''\<rparr>]"

definition after_win :: discovery where
  "after_win = \<lparr>d_next_idx = 1, d_found = True, d_winning_url = url_of 4222 (example_peers ! 0),
     d_workers = [Returned], d_expired = False\<rparr>"

lemma example_run: "(disc_step 4222 example_peers (\<lambda>_. True) ^^ 6) (new_discovery 1) after_win"
proof -
  let ?st = "disc_step 4222 example_peers (\<lambda>_. True)"
  let ?d = "\<lambda>n f pc. \<lparr>d_next_idx = n, d_found = f, d_winning_url = [], d_workers = [pc], d_expired = False\<rparr>"
  have len: "length example_peers = 1" by (simp add: example_peers_def)
  have "?st (?d 0 False Testing) (?d 0 False Fetching)"
    using Test_Open [of 0 "?d 0 False Testing" 4222 example_peers "\<lambda>_. True"] by simp
  moreover have "?st (?d 0 False Fetching) (?d 1 False (Claimed 0))"
    using Fetch [of 0 "?d 0 False Fetching" example_peers 4222 "\<lambda>_. True"] by (simp add: len)
  moreover have "?st (?d 1 False (Claimed 0)) (?d 1 False (Probing 0))"
    using Budget_Left [of 0 "?d 1 False (Claimed 0)" 0 4222 example_peers "\<lambda>_. True"] by simp
  moreover have "?st (?d 1 False (Probing 0)) (?d 1 False (Exchanging 0))"
    using Alive [of 0 "?d 1 False (Probing 0)" 0 "\<lambda>_. True" example_peers 4222] by simp
  moreover have "?st (?d 1 False (Exchanging 0)) (?d 1 True (Writing 0))"
    using Win [of 0 "?d 1 False (Exchanging 0)" 0 4222 example_peers "\<lambda>_. True"] by simp
  moreover have "?st (?d 1 True (Writing 0)) after_win"
    using Write [of 0 "?d 1 True (Writing 0)" 0 4222 example_peers "\<lambda>_. True"] by (simp add: after_win_def)
  ultimately show ?thesis
    by (simp add: numeral_eq_Suc new_discovery_def relcompp_apply) blast
qed

theorem discovery_correct_witness:
  "(6 :: nat) \<le> 6 * length example_peers + 2 * 1 \<and> joined after_win
    \<and> d_winning_url after_win = url_of 4222 (example_peers ! 0)
    \<and> (\<exists>p \<in> set example_peers. d_winning_url after_win = url_of 4222 p)"
proof -
  have final: "joined after_win" "d_winning_url after_win = url_of 4222 (example_peers ! 0)"
      "d_winning_url after_win \<noteq> []"
    by (simp_all add: joined_def after_win_def url_of_def)
  then show ?thesis
    using discovery_correct [OF example_run zero_less_one] by blast
qed

end
