(* ===== verification/Agent_Message.thy ===== *)
theory Agent_Message
  imports Prelude
begin

text \<open>
  Messages of the agent runtime: the message and response structures of
  \<open>include/agamemnon_agents/core/message.hpp\<close> and \<open>src/core/message.cpp\<close>, and the envelopes that carry
  orchestration actions over the transport (\<open>include/agamemnon/agents/agent_envelope.hpp\<close>,
  \<open>src/agents/agent_envelope.cpp\<close>). Times are nanoseconds; a fresh identifier and the reading of the clock are
  arguments of the functions that create a message.
\<close>

section \<open>Messages\<close>

datatype priority = HIGH | NORMAL | LOW

datatype action_type = DECOMPOSE | EXECUTE | RETURN_RESULT | SHUTDOWN | CANCEL_TASK | TASK_FAILED

datatype content_type = TEXT_PLAIN | BINARY_CISTA

primrec priorityToString :: "priority \<Rightarrow> string" where
  "priorityToString HIGH = ''HIGH''"
| "priorityToString NORMAL = ''NORMAL''"
| "priorityToString LOW = ''LOW''"

primrec actionTypeToString :: "action_type \<Rightarrow> string" where
  "actionTypeToString DECOMPOSE = ''DECOMPOSE''"
| "actionTypeToString EXECUTE = ''EXECUTE''"
| "actionTypeToString RETURN_RESULT = ''RETURN_RESULT''"
| "actionTypeToString SHUTDOWN = ''SHUTDOWN''"
| "actionTypeToString CANCEL_TASK = ''CANCEL_TASK''"
| "actionTypeToString TASK_FAILED = ''TASK_FAILED''"

primrec contentTypeToString :: "content_type \<Rightarrow> string" where
  "contentTypeToString TEXT_PLAIN = ''TEXT_PLAIN''"
| "contentTypeToString BINARY_CISTA = ''BINARY_CISTA''"

record keystone_message =
  m_msg_id :: string
  m_sender_id :: string
  m_receiver_id :: string
  m_action_type :: action_type
  m_content_type :: content_type
  m_session_id :: string
  m_metadata :: "(string \<times> string) list"
  m_priority :: priority
  m_deadline :: "int option"
  m_task_id :: "string option"
  m_correlation_id :: "string option"
  m_command :: string
  m_payload :: "string option"
  m_timestamp :: int

text \<open>\<open>generate_uuid\<close>: 32 hexadecimal digits drawn by \<open>dis\<close>, with a dash before the digits 8, 12, 16 and 20.\<close>

definition hex_digit :: "nat \<Rightarrow> char" where
  "hex_digit d = ''0123456789abcdef'' ! d"

definition generate_uuid_agents :: "(nat \<Rightarrow> nat) \<Rightarrow> string" where
  "generate_uuid_agents dis =
     concat (map (\<lambda>i. (if i \<in> {8, 12, 16, 20} then ''-'' else []) @ [hex_digit (dis i)]) [0..<32])"

text \<open>The two overloads of \<open>KeystoneMessage::create\<close>, by command and by action.\<close>

definition create_command ::
    "string \<Rightarrow> int \<Rightarrow> string \<Rightarrow> string \<Rightarrow> string \<Rightarrow> string option \<Rightarrow> keystone_message" where
  "create_command uuid now sender receiver cmd data =
     \<lparr>m_msg_id = uuid, m_sender_id = sender, m_receiver_id = receiver, m_action_type = EXECUTE,
      m_content_type = TEXT_PLAIN, m_session_id = ''default'', m_metadata = [], m_priority = NORMAL,
      m_deadline = None, m_task_id = None, m_correlation_id = None, m_command = cmd, m_payload = data,
      m_timestamp = now\<rparr>"

definition create_action ::
    "string \<Rightarrow> int \<Rightarrow> string \<Rightarrow> string \<Rightarrow> action_type \<Rightarrow> string \<Rightarrow> string option \<Rightarrow> content_type \<Rightarrow> keystone_message"
where
  "create_action uuid now sender receiver act session data content =
     \<lparr>m_msg_id = uuid, m_sender_id = sender, m_receiver_id = receiver, m_action_type = act,
      m_content_type = content, m_session_id = session, m_metadata = [], m_priority = NORMAL,
      m_deadline = None, m_task_id = None, m_correlation_id = None, m_command = actionTypeToString act,
      m_payload = data, m_timestamp = now\<rparr>"

definition createCancellation ::
    "string \<Rightarrow> int \<Rightarrow> string \<Rightarrow> string \<Rightarrow> string \<Rightarrow> string \<Rightarrow> keystone_message" where
  "createCancellation uuid now sender receiver task_id session =
     \<lparr>m_msg_id = uuid, m_sender_id = sender, m_receiver_id = receiver, m_action_type = CANCEL_TASK,
      m_content_type = TEXT_PLAIN, m_session_id = session, m_metadata = [], m_priority = HIGH,
      m_deadline = None, m_task_id = Some task_id, m_correlation_id = None, m_command = ''CANCEL_TASK'',
      m_payload = None, m_timestamp = now\<rparr>"

definition setDeadlineFromNow :: "int \<Rightarrow> int \<Rightarrow> keystone_message \<Rightarrow> keystone_message" where
  "setDeadlineFromNow now duration_ms msg = msg\<lparr>m_deadline := Some (now + duration_ms * 1000000)\<rparr>"

definition hasDeadlinePassed :: "int \<Rightarrow> keystone_message \<Rightarrow> bool" where
  "hasDeadlinePassed now msg = (case m_deadline msg of None \<Rightarrow> False | Some deadline \<Rightarrow> now > deadline)"

definition getTimeUntilDeadline :: "int \<Rightarrow> keystone_message \<Rightarrow> int option" where
  "getTimeUntilDeadline now msg =
     (case m_deadline msg of
        None \<Rightarrow> None
      | Some deadline \<Rightarrow> if now > deadline then Some 0 else Some ((deadline - now) div 1000000))"

lemma deadline_set:
  "hasDeadlinePassed t (setDeadlineFromNow now d msg) \<longleftrightarrow> t > now + d * 1000000"
  "0 \<le> d \<Longrightarrow> getTimeUntilDeadline now (setDeadlineFromNow now d msg) = Some d"
  by (simp_all add: hasDeadlinePassed_def setDeadlineFromNow_def getTimeUntilDeadline_def)

section \<open>Responses\<close>

datatype response_status = Success | Error

record response =
  rp_msg_id :: string
  rp_sender_id :: string
  rp_receiver_id :: string
  rp_status :: response_status
  rp_result :: string
  rp_timestamp :: int

definition createSuccess :: "int \<Rightarrow> keystone_message \<Rightarrow> string \<Rightarrow> string \<Rightarrow> response" where
  "createSuccess now original_msg sender result_data =
     \<lparr>rp_msg_id = m_msg_id original_msg, rp_sender_id = sender, rp_receiver_id = m_sender_id original_msg,
      rp_status = Success, rp_result = result_data, rp_timestamp = now\<rparr>"

definition createError :: "int \<Rightarrow> keystone_message \<Rightarrow> string \<Rightarrow> string \<Rightarrow> response" where
  "createError now original_msg sender error_msg =
     \<lparr>rp_msg_id = m_msg_id original_msg, rp_sender_id = sender, rp_receiver_id = m_sender_id original_msg,
      rp_status = Error, rp_result = error_msg, rp_timestamp = now\<rparr>"

section \<open>Envelopes\<close>

datatype transport_action_type = T_EXECUTE | T_RETURN_RESULT | T_SHUTDOWN

datatype agent_action_type = A_DECOMPOSE | A_CANCEL_TASK | A_TASK_FAILED

record transport_message =
  tm_sender_id :: string
  tm_receiver_id :: string
  tm_action_type :: transport_action_type
  tm_payload :: "string option"
  tm_priority :: priority

definition transport_create ::
    "string \<Rightarrow> string \<Rightarrow> transport_action_type \<Rightarrow> string option \<Rightarrow> transport_message" where
  "transport_create sender receiver act data =
     \<lparr>tm_sender_id = sender, tm_receiver_id = receiver, tm_action_type = act, tm_payload = data,
      tm_priority = NORMAL\<rparr>"

record agent_envelope =
  ev_transport_msg :: transport_message
  ev_agent_action :: "agent_action_type option"
  ev_session_id :: string
  ev_task_id :: "string option"
  ev_metadata :: "(string \<times> string) list"

definition kCancelPrefix :: string where
  "kCancelPrefix = ''CANCEL_TASK:''"

definition kFailedPrefix :: string where
  "kFailedPrefix = ''TASK_FAILED:''"

definition kDecomposePrefix :: string where
  "kDecomposePrefix = ''DECOMPOSE:''"

primrec agentActionTypeToString :: "agent_action_type \<Rightarrow> string" where
  "agentActionTypeToString A_DECOMPOSE = ''DECOMPOSE''"
| "agentActionTypeToString A_CANCEL_TASK = ''CANCEL_TASK''"
| "agentActionTypeToString A_TASK_FAILED = ''TASK_FAILED''"

definition envelope_wrap :: "transport_message \<Rightarrow> agent_envelope" where
  "envelope_wrap msg =
     (let env = \<lparr>ev_transport_msg = msg, ev_agent_action = None, ev_session_id = ''default'',
        ev_task_id = None, ev_metadata = []\<rparr> in
      case tm_payload msg of
        None \<Rightarrow> env
      | Some p \<Rightarrow>
          if starts_with kCancelPrefix p then
            let tid = drop (length kCancelPrefix) p in
            env\<lparr>ev_agent_action := Some A_CANCEL_TASK, ev_task_id := (if tid \<noteq> [] then Some tid else None)\<rparr>
          else if starts_with kFailedPrefix p then env\<lparr>ev_agent_action := Some A_TASK_FAILED\<rparr>
          else if starts_with kDecomposePrefix p then env\<lparr>ev_agent_action := Some A_DECOMPOSE\<rparr>
          else env)"

primrec action_prefix :: "agent_action_type \<Rightarrow> string" where
  "action_prefix A_CANCEL_TASK = kCancelPrefix"
| "action_prefix A_TASK_FAILED = kFailedPrefix"
| "action_prefix A_DECOMPOSE = kDecomposePrefix"

definition envelope_create ::
    "string \<Rightarrow> string \<Rightarrow> agent_action_type \<Rightarrow> string \<Rightarrow> string option \<Rightarrow> agent_envelope" where
  "envelope_create sender receiver act session data =
     (let payload = action_prefix act @ (case data of None \<Rightarrow> [] | Some d \<Rightarrow> d) in
      \<lparr>ev_transport_msg = transport_create sender receiver T_EXECUTE (Some payload),
       ev_agent_action = Some act, ev_session_id = session, ev_task_id = None, ev_metadata = []\<rparr>)"

definition envelope_createCancellation :: "string \<Rightarrow> string \<Rightarrow> string \<Rightarrow> string \<Rightarrow> agent_envelope" where
  "envelope_createCancellation sender receiver task_id_val session =
     \<lparr>ev_transport_msg =
        (transport_create sender receiver T_EXECUTE (Some (kCancelPrefix @ task_id_val)))\<lparr>tm_priority := HIGH\<rparr>,
      ev_agent_action = Some A_CANCEL_TASK, ev_session_id = session, ev_task_id = Some task_id_val,
      ev_metadata = []\<rparr>"

definition envelope_createFailure :: "string \<Rightarrow> string \<Rightarrow> string \<Rightarrow> string \<Rightarrow> agent_envelope" where
  "envelope_createFailure sender receiver error_msg session =
     \<lparr>ev_transport_msg = transport_create sender receiver T_EXECUTE (Some (kFailedPrefix @ error_msg)),
      ev_agent_action = Some A_TASK_FAILED, ev_session_id = session, ev_task_id = None, ev_metadata = []\<rparr>"

lemma action_prefix_eq: "action_prefix act = agentActionTypeToString act @ '':''"
  by (cases act) (simp_all add: kCancelPrefix_def kFailedPrefix_def kDecomposePrefix_def)

lemma wrap_action:
  "ev_agent_action (envelope_wrap msg) = (case tm_payload msg of
     None \<Rightarrow> None
   | Some p \<Rightarrow> if starts_with kCancelPrefix p then Some A_CANCEL_TASK
       else if starts_with kFailedPrefix p then Some A_TASK_FAILED
       else if starts_with kDecomposePrefix p then Some A_DECOMPOSE else None)"
  by (simp add: envelope_wrap_def Let_def split: option.split)

lemma wrap_prefix:
  assumes "tm_payload msg = Some (action_prefix act @ d)"
  shows "ev_agent_action (envelope_wrap msg) = Some act"
  using assms
  by (cases act) (simp_all add: wrap_action starts_with_def kCancelPrefix_def kFailedPrefix_def kDecomposePrefix_def)

lemma wrap_only_prefix:
  assumes "ev_agent_action (envelope_wrap msg) = Some act"
  shows "\<exists>d. tm_payload msg = Some (action_prefix act @ d)"
proof -
  obtain p where p: "tm_payload msg = Some p" using assms by (cases "tm_payload msg") (simp_all add: wrap_action)
  have "starts_with (action_prefix act) p"
    using assms by (cases act) (simp_all add: wrap_action p split: if_splits)
  with p show ?thesis by (auto simp: starts_with_iff)
qed

text \<open>An orchestration action survives the transport. Decoding the transport message of an envelope made
for any action gives back the action; a cancellation gives back its task identifier unless that is empty, a
failure or decomposition gives none; the transport message is untouched. The session is not transported: it
comes back as \<open>default\<close>. Conversely an action is decoded only from its own prefix.\<close>

lemma envelope_roundtrip:
  "envelope_wrap (ev_transport_msg (envelope_createCancellation s r tid sess)) =
     (envelope_createCancellation s r tid ''default'')\<lparr>ev_task_id := (if tid = [] then None else Some tid)\<rparr>
   \<and> envelope_wrap (ev_transport_msg (envelope_createFailure s r err sess)) = envelope_createFailure s r err ''default''
   \<and> envelope_wrap (ev_transport_msg (envelope_create s r A_DECOMPOSE sess d)) =
       envelope_create s r A_DECOMPOSE ''default'' d
   \<and> ev_agent_action (envelope_wrap (ev_transport_msg (envelope_create s r act sess d))) = Some act
   \<and> (ev_agent_action (envelope_wrap msg) = Some act \<longleftrightarrow> (\<exists>x. tm_payload msg = Some (action_prefix act @ x)))"
proof (intro conjI)
  show "ev_agent_action (envelope_wrap msg) = Some act \<longleftrightarrow> (\<exists>x. tm_payload msg = Some (action_prefix act @ x))"
    using wrap_prefix wrap_only_prefix by metis
  show "ev_agent_action (envelope_wrap (ev_transport_msg (envelope_create s r act sess d))) = Some act"
    by (rule wrap_prefix [of _ _ "case d of None \<Rightarrow> [] | Some d \<Rightarrow> d"])
      (simp add: envelope_create_def transport_create_def)
qed (simp_all add: envelope_wrap_def envelope_create_def envelope_createCancellation_def
    envelope_createFailure_def transport_create_def starts_with_def kCancelPrefix_def kFailedPrefix_def
    kDecomposePrefix_def)

end
