(* ===== verification/Concurrent_Queue.thy ===== *)
theory Concurrent_Queue
  imports Prelude "HOL-Library.Multiset"
begin

text \<open>
  The lock-free queue of the moodycamel library, which the agent runtime uses for inboxes and work items: a list of
  which \<open>try_dequeue\<close> hands out the element chosen by the argument \<open>pick\<close>. A queue that is not empty yields each
  element once; that it is the oldest one holds for a single producer only.
\<close>

definition try_dequeue ::
    "('a list \<Rightarrow> nat) \<Rightarrow> 'a list \<Rightarrow> ('a \<times> 'a list) option" where
  "try_dequeue pick q =
     (if q = [] then None
      else let i = pick q mod length q in Some (q ! i, take i q @ drop (Suc i) q))"

lemma try_dequeue_None [simp]: "try_dequeue pick q = None \<longleftrightarrow> q = []"
  by (simp add: try_dequeue_def Let_def)

lemma try_dequeue_Nil [simp]: "try_dequeue pick [] = None"
  by simp

lemma try_dequeue_mset:
  assumes "try_dequeue pick q = Some (m, q')"
  shows "mset q = add_mset m (mset q')"
proof -
  let ?i = "pick q mod length q"
  have q: "q \<noteq> []" using assms by (auto simp: try_dequeue_def)
  then have i: "?i < length q" by simp
  have split: "m = q ! ?i" "q' = take ?i q @ drop (Suc ?i) q" using assms q by (auto simp: try_dequeue_def Let_def)
  have "mset q = mset (take ?i q @ q ! ?i # drop (Suc ?i) q)" using i by (metis id_take_nth_drop)
  then show ?thesis by (simp add: split)
qed

lemma try_dequeue_set: "try_dequeue pick q = Some (m, q') \<Longrightarrow> set q = insert m (set q')"
  by (metis set_mset_add_mset_insert set_mset_mset try_dequeue_mset)

text \<open>A sum over the positions of a list, after one position was changed.\<close>

lemma sum_list_update:
  fixes g :: "nat \<Rightarrow> 'a \<Rightarrow> 'b :: comm_monoid_add"
  assumes "p < length xs"
  shows "(\<Sum>i<length xs. g i (xs[p := y] ! i)) + g p (xs ! p) = (\<Sum>i<length xs. g i (xs ! i)) + g p y"
proof -
  have "(\<Sum>i\<in>{..<length xs} - {p}. g i (xs[p := y] ! i)) = (\<Sum>i\<in>{..<length xs} - {p}. g i (xs ! i))"
    by (rule sum.cong) auto
  moreover have "(\<Sum>i<length xs. h i) = h p + (\<Sum>i\<in>{..<length xs} - {p}. h i)" for h :: "nat \<Rightarrow> 'b"
    using assms by (simp add: sum.remove)
  ultimately show ?thesis using assms by (simp add: add.commute add.left_commute)
qed

end
