(* ===== verification/Agent_Core.thy ===== *)
theory Agent_Core
  imports Agent_Message Concurrent_Queue
begin

text \<open>
  The base class of the agents (\<open>include/agamemnon_agents/agents/agent_core.hpp\<close>, \<open>src/agents/agent_core.cpp\<close>):
  three inboxes by priority, back-pressure, the delivery order with its fairness timer, cancellations, and
  sending. A subclass extends the record. Times are nanoseconds of the steady clock.
\<close>

section \<open>State\<close>

definition AGENT_MAX_QUEUE_SIZE :: nat where
  "AGENT_MAX_QUEUE_SIZE = 10000"

text \<open>\<open>static_cast<size_t>(10000 * 0.8)\<close>\<close>

definition low_watermark :: nat where
  "low_watermark = AGENT_MAX_QUEUE_SIZE * 8 div 10"

definition AGENT_LOW_PRIORITY_CHECK_INTERVAL :: int where
  "AGENT_LOW_PRIORITY_CHECK_INTERVAL = 100 * 1000000"

text \<open>\<open>ac_sent\<close> lists the messages handed to the router, \<open>ac_draws\<close> counts the messages created, and
\<open>ac_depth\<close> is the depth last reported to the metrics.\<close>

record agent_core =
  ac_agent_id :: string
  ac_message_bus :: bool
  ac_scheduler :: bool
  ac_high :: "keystone_message list"
  ac_normal :: "keystone_message list"
  ac_low :: "keystone_message list"
  ac_last_check :: int
  ac_interval :: int
  ac_backpressure :: bool
  ac_cancelled :: "string set"
  ac_depth :: "nat option"
  ac_sent :: "keystone_message list"
  ac_draws :: nat

definition new_core :: "string \<Rightarrow> agent_core" where
  "new_core agent_id =
     \<lparr>ac_agent_id = agent_id, ac_message_bus = False, ac_scheduler = False, ac_high = [], ac_normal = [],
      ac_low = [], ac_last_check = 0, ac_interval = AGENT_LOW_PRIORITY_CHECK_INTERVAL,
      ac_backpressure = False, ac_cancelled = {}, ac_depth = None, ac_sent = [], ac_draws = 0\<rparr>"

text \<open>Readings of the outside world at the creation of the \<open>n\<close>-th message.\<close>

record agent_env =
  ae_uuid :: "nat \<Rightarrow> string"
  ae_now :: "nat \<Rightarrow> int"

section \<open>Operations\<close>

definition setMessageBus :: "bool \<Rightarrow> ('a agent_core_scheme, unit) op" where
  "setMessageBus router a =
     (if \<not> router then (Inl (Invalid_Argument (''setMessageBus received nullptr for agent: '' @ ac_agent_id a)), a)
      else (Inr (), a\<lparr>ac_message_bus := True\<rparr>))"

definition sendMessage :: "keystone_message \<Rightarrow> ('a agent_core_scheme, unit) op" where
  "sendMessage msg a =
     (if \<not> ac_message_bus a then (Inl (Runtime_Error (''Message bus not set for agent: '' @ ac_agent_id a)), a)
      else (Inr (), a\<lparr>ac_sent := ac_sent a @ [msg]\<rparr>))"

text \<open>The identifier and time of a new message.\<close>

definition draw :: "'e agent_env_scheme \<Rightarrow> ('a agent_core_scheme, string \<times> int) op" where
  "draw e a = (Inr (ae_uuid e (ac_draws a), ae_now e (ac_draws a)), a\<lparr>ac_draws := Suc (ac_draws a)\<rparr>)"

definition total_depth :: "'a agent_core_scheme \<Rightarrow> nat" where
  "total_depth a = length (ac_high a) + length (ac_normal a) + length (ac_low a)"

definition enqueue :: "keystone_message \<Rightarrow> 'a agent_core_scheme \<Rightarrow> 'a agent_core_scheme" where
  "enqueue msg a =
     (case m_priority msg of
        HIGH \<Rightarrow> a\<lparr>ac_high := ac_high a @ [msg]\<rparr>
      | NORMAL \<Rightarrow> a\<lparr>ac_normal := ac_normal a @ [msg]\<rparr>
      | LOW \<Rightarrow> a\<lparr>ac_low := ac_low a @ [msg]\<rparr>)"

definition receiveMessage :: "keystone_message \<Rightarrow> 'a agent_core_scheme \<Rightarrow> 'a agent_core_scheme" where
  "receiveMessage msg a =
     (if total_depth a \<ge> AGENT_MAX_QUEUE_SIZE then a\<lparr>ac_backpressure := True\<rparr>
      else
        let a1 = (if total_depth a < low_watermark \<and> ac_backpressure a then a\<lparr>ac_backpressure := False\<rparr> else a)
        in enqueue msg a1)"

definition updateQueueDepthMetrics :: "'a agent_core_scheme \<Rightarrow> 'a agent_core_scheme" where
  "updateQueueDepthMetrics a = a\<lparr>ac_depth := Some (total_depth a)\<rparr>"

definition delivered ::
    "int \<Rightarrow> keystone_message \<Rightarrow> 'a agent_core_scheme \<Rightarrow> keystone_message option \<times> 'a agent_core_scheme" where
  "delivered now_ns msg a = (Some msg, updateQueueDepthMetrics (a\<lparr>ac_last_check := now_ns\<rparr>))"

definition getMessage ::
    "(keystone_message list \<Rightarrow> nat) \<Rightarrow> int \<Rightarrow> 'a agent_core_scheme \<Rightarrow> keystone_message option \<times> 'a agent_core_scheme" where
  "getMessage pick now_ns a =
     (case try_dequeue pick (ac_high a) of
        Some (msg, high) \<Rightarrow>
          if ac_last_check a \<noteq> 0 \<and> now_ns - ac_last_check a \<ge> ac_interval a then
            (case try_dequeue pick (ac_normal a) of
               Some (fairness_msg, normal) \<Rightarrow>
                 delivered now_ns fairness_msg (a\<lparr>ac_normal := normal, ac_high := high @ [msg]\<rparr>)
             | None \<Rightarrow>
                 (case try_dequeue pick (ac_low a) of
                    Some (fairness_msg, low) \<Rightarrow>
                      delivered now_ns fairness_msg (a\<lparr>ac_low := low, ac_high := high @ [msg]\<rparr>)
                  | None \<Rightarrow> delivered now_ns msg (a\<lparr>ac_high := high\<rparr>)))
          else delivered now_ns msg (a\<lparr>ac_high := high\<rparr>)
      | None \<Rightarrow>
          (case try_dequeue pick (ac_normal a) of
             Some (msg, normal) \<Rightarrow> delivered now_ns msg (a\<lparr>ac_normal := normal\<rparr>)
           | None \<Rightarrow>
               (case try_dequeue pick (ac_low a) of
                  Some (msg, low) \<Rightarrow> delivered now_ns msg (a\<lparr>ac_low := low\<rparr>)
                | None \<Rightarrow> (None, a))))"

definition setLowPriorityCheckInterval :: "int \<Rightarrow> 'a agent_core_scheme \<Rightarrow> 'a agent_core_scheme" where
  "setLowPriorityCheckInterval ms a = a\<lparr>ac_interval := ms * 1000000\<rparr>"

definition getLowPriorityCheckInterval :: "'a agent_core_scheme \<Rightarrow> int" where
  "getLowPriorityCheckInterval a = ac_interval a div 1000000"

definition requestCancellation :: "string \<Rightarrow> 'a agent_core_scheme \<Rightarrow> 'a agent_core_scheme" where
  "requestCancellation task_id a = a\<lparr>ac_cancelled := insert task_id (ac_cancelled a)\<rparr>"

definition isCancelled :: "string \<Rightarrow> 'a agent_core_scheme \<Rightarrow> bool" where
  "isCancelled task_id a \<longleftrightarrow> task_id \<in> ac_cancelled a"

definition clearCancellation :: "string \<Rightarrow> 'a agent_core_scheme \<Rightarrow> 'a agent_core_scheme" where
  "clearCancellation task_id a = a\<lparr>ac_cancelled := ac_cancelled a - {task_id}\<rparr>"

lemma interval_roundtrip: "getLowPriorityCheckInterval (setLowPriorityCheckInterval ms a) = ms"
  by (simp add: getLowPriorityCheckInterval_def setLowPriorityCheckInterval_def)

lemma cancellation_laws:
  "isCancelled t (requestCancellation t' a) \<longleftrightarrow> t = t' \<or> isCancelled t a"
  "isCancelled t (clearCancellation t' a) \<longleftrightarrow> t \<noteq> t' \<and> isCancelled t a"
  by (auto simp: isCancelled_def requestCancellation_def clearCancellation_def)

section \<open>Conservation and bounds\<close>

definition queued :: "'a agent_core_scheme \<Rightarrow> keystone_message multiset" where
  "queued a = mset (ac_high a) + mset (ac_normal a) + mset (ac_low a)"

text \<open>Every message waits in the queue of its priority.\<close>

definition sorted_in :: "'a agent_core_scheme \<Rightarrow> bool" where
  "sorted_in a \<longleftrightarrow> (\<forall>m \<in> set (ac_high a). m_priority m = HIGH)
     \<and> (\<forall>m \<in> set (ac_normal a). m_priority m = NORMAL) \<and> (\<forall>m \<in> set (ac_low a). m_priority m = LOW)"

lemma total_depth_queued: "total_depth a = size (queued a)"
  by (simp add: total_depth_def queued_def)

lemma queued_receive:
  "queued (receiveMessage msg a) = queued a + (if total_depth a < AGENT_MAX_QUEUE_SIZE then {#msg#} else {#})"
  by (cases "m_priority msg") (simp_all add: receiveMessage_def enqueue_def queued_def Let_def)

lemmas get_defs = getMessage_def delivered_def updateQueueDepthMetrics_def

lemma queued_get:
  "getMessage pick now a = (r, a') \<Longrightarrow>
    queued a = queued a' + (case r of None \<Rightarrow> {#} | Some m \<Rightarrow> {#m#})"
  by (auto simp: get_defs queued_def dest!: try_dequeue_mset split: option.splits if_splits prod.splits)

lemma get_None_iff: "fst (getMessage pick now a) = None \<longleftrightarrow> queued a = {#}"
  by (auto simp: get_defs queued_def split: option.splits prod.splits)

lemma sorted_receive: "sorted_in a \<Longrightarrow> sorted_in (receiveMessage msg a)"
  by (cases "m_priority msg") (auto simp: sorted_in_def receiveMessage_def enqueue_def Let_def)

lemma sorted_get: "sorted_in a \<Longrightarrow> sorted_in (snd (getMessage pick now a))"
  by (auto simp: sorted_in_def get_defs dest!: try_dequeue_set split: option.splits prod.splits)

text \<open>A run of an agent that is fed by others and polls its inbox: what came in, what was taken out, and what
was refused.\<close>

datatype inbox_event = Receive keystone_message | Poll int

fun inbox_run ::
    "(keystone_message list \<Rightarrow> nat) \<Rightarrow> inbox_event list \<Rightarrow> 'a agent_core_scheme
       \<Rightarrow> keystone_message multiset \<times> keystone_message multiset \<times> 'a agent_core_scheme" where
  "inbox_run pick [] a = ({#}, {#}, a)"
| "inbox_run pick (Receive m # es) a =
     (let (taken, refused, a') = inbox_run pick es (receiveMessage m a)
      in (taken, refused + (if total_depth a < AGENT_MAX_QUEUE_SIZE then {#} else {#m#}), a'))"
| "inbox_run pick (Poll now # es) a =
     (let (r, a1) = getMessage pick now a; (taken, refused, a') = inbox_run pick es a1
      in (taken + (case r of None \<Rightarrow> {#} | Some m \<Rightarrow> {#m#}), refused, a'))"

fun offered :: "inbox_event list \<Rightarrow> keystone_message multiset" where
  "offered [] = {#}"
| "offered (Receive m # es) = add_mset m (offered es)"
| "offered (Poll now # es) = offered es"

lemma depth_receive: "total_depth a \<le> AGENT_MAX_QUEUE_SIZE \<Longrightarrow> total_depth (receiveMessage m a) \<le> AGENT_MAX_QUEUE_SIZE"
  by (simp add: total_depth_queued queued_receive)

lemma depth_get: "total_depth a \<le> n \<Longrightarrow> total_depth (snd (getMessage pick now a)) \<le> n"
  using queued_get [of pick now a "fst (getMessage pick now a)" "snd (getMessage pick now a)"]
  by (simp add: total_depth_queued)

lemma inbox_run_conserves:
  "inbox_run pick es a = (taken, refused, a') \<Longrightarrow> queued a + offered es = taken + refused + queued a'"
proof (induction pick es a arbitrary: taken refused a' rule: inbox_run.induct)
  case (2 pick m es a)
  obtain t r b where run: "inbox_run pick es (receiveMessage m a) = (t, r, b)" by (metis prod_cases3)
  have "queued (receiveMessage m a) + offered es = t + r + queued b" by (rule "2.IH" [OF run])
  with run "2.prems" show ?case by (auto simp: queued_receive split: if_splits)
next
  case (3 pick now es a)
  obtain x a1 where get: "getMessage pick now a = (x, a1)" by (metis surj_pair)
  obtain t r b where run: "inbox_run pick es a1 = (t, r, b)" by (metis prod_cases3)
  have "queued a1 + offered es = t + r + queued b" using "3.IH" [OF get [symmetric] refl run] by simp
  with get run "3.prems" queued_get [OF get] show ?case
    by (auto simp: ac_simps split: option.splits)
qed auto

lemma inbox_run_bounded:
  "total_depth a \<le> AGENT_MAX_QUEUE_SIZE \<Longrightarrow> total_depth (snd (snd (inbox_run pick es a))) \<le> AGENT_MAX_QUEUE_SIZE"
proof (induction pick es a rule: inbox_run.induct)
  case (2 pick m es a)
  then have "total_depth (snd (snd (inbox_run pick es (receiveMessage m a)))) \<le> AGENT_MAX_QUEUE_SIZE"
    by (simp add: depth_receive)
  then show ?case by (cases "inbox_run pick es (receiveMessage m a)") simp
next
  case (3 pick now es a)
  have "total_depth (snd (getMessage pick now a)) \<le> AGENT_MAX_QUEUE_SIZE" by (rule depth_get [OF 3(2)])
  then have "total_depth (snd (snd (inbox_run pick es (snd (getMessage pick now a))))) \<le> AGENT_MAX_QUEUE_SIZE"
    by (intro 3(1) [of "getMessage pick now a" "fst (getMessage pick now a)" "snd (getMessage pick now a)"]) simp_all
  then show ?case
    by (cases "getMessage pick now a"; cases "inbox_run pick es (snd (getMessage pick now a))") simp
qed auto

lemma inbox_run_refuses_none:
  "total_depth a + size (offered es) \<le> AGENT_MAX_QUEUE_SIZE \<Longrightarrow> fst (snd (inbox_run pick es a)) = {#}"
proof (induction pick es a rule: inbox_run.induct)
  case (2 pick m es a)
  then have "fst (snd (inbox_run pick es (receiveMessage m a))) = {#}"
    by (simp add: total_depth_queued queued_receive)
  then show ?case using 2(2) by (cases "inbox_run pick es (receiveMessage m a)") simp
next
  case (3 pick now es a)
  have "total_depth (snd (getMessage pick now a)) \<le> total_depth a" by (rule depth_get) simp
  then have "fst (snd (inbox_run pick es (snd (getMessage pick now a)))) = {#}"
    using 3(2) by (intro 3(1) [of "getMessage pick now a" "fst (getMessage pick now a)" "snd (getMessage pick now a)"]) simp_all
  then show ?case
    by (cases "getMessage pick now a"; cases "inbox_run pick es (snd (getMessage pick now a))") simp
qed simp

text \<open>The inbox loses nothing silently and is bounded. In every run of arrivals and polls, in whatever order
the queues hand out their elements, the messages offered are exactly those taken out, those refused and
those still waiting, each as often as it came; never more than 10000 messages wait; and nothing is refused
in a run that offers at most 10000 messages.\<close>

lemma inbox_conserves:
  "case inbox_run pick es (new_core agent_id) of
     (taken, refused, a) \<Rightarrow>
       offered es = taken + refused + queued a \<and> total_depth a \<le> 10000
       \<and> (size (offered es) \<le> 10000 \<longrightarrow> refused = {#})"
proof -
  obtain t r a where run: "inbox_run pick es (new_core agent_id) = (t, r, a)" by (metis prod_cases3)
  have new: "queued (new_core agent_id) = {#}" "total_depth (new_core agent_id) = 0"
    by (simp_all add: new_core_def queued_def total_depth_def)
  show ?thesis
    using inbox_run_conserves [OF run] inbox_run_bounded [of "new_core agent_id" pick es]
      inbox_run_refuses_none [of "new_core agent_id" es pick]
    by (simp add: run new AGENT_MAX_QUEUE_SIZE_def)
qed

lemma inbox_conserves_witness:
  "case inbox_run (\<lambda>_. 0) [Receive (create_command ''u'' 0 ''a'' ''b'' ''c'' None), Poll 5] (new_core ''b'') of
     (taken, refused, a) \<Rightarrow> {#create_command ''u'' 0 ''a'' ''b'' ''c'' None#} = taken + refused + queued a \<and> refused = {#}"
  using inbox_conserves [where pick = "\<lambda>_. 0" and es = "[Receive (create_command ''u'' 0 ''a'' ''b'' ''c'' None), Poll 5]" and agent_id = "''b''"]
  by (auto split: prod.splits if_splits)

section \<open>Fairness\<close>

lemma poll_high:
  assumes "ac_high a \<noteq> []" and "now - ac_last_check a < ac_interval a"
  shows "\<exists>m high. try_dequeue pick (ac_high a) = Some (m, high)
    \<and> getMessage pick now a = delivered now m (a\<lparr>ac_high := high\<rparr>)"
  using assms by (cases "try_dequeue pick (ac_high a)") (auto simp: getMessage_def)

text \<open>After a pause of an interval a waiting message of lower priority is preferred.\<close>

lemma poll_fair:
  assumes "sorted_in a" and "ac_normal a \<noteq> [] \<or> ac_low a \<noteq> []" and "ac_last_check a \<noteq> 0"
    and "ac_interval a \<le> now - ac_last_check a"
  shows "\<exists>m. fst (getMessage pick now a) = Some m \<and> m_priority m \<noteq> HIGH"
  using assms
  by (auto simp: get_defs sorted_in_def dest!: try_dequeue_set split: option.splits prod.splits)

text \<open>Rounds in which one message arrives and one is polled.\<close>

fun rounds ::
    "(keystone_message list \<Rightarrow> nat) \<Rightarrow> (keystone_message \<times> int) list \<Rightarrow> 'a agent_core_scheme \<Rightarrow> 'a agent_core_scheme" where
  "rounds pick [] a = a"
| "rounds pick ((m, now) # rs) a = rounds pick rs (snd (getMessage pick now (receiveMessage m a)))"

lemma round_high:
  assumes "m_priority m = HIGH" and "total_depth a < AGENT_MAX_QUEUE_SIZE" and "now - ac_last_check a < ac_interval a"
    and "a' = snd (getMessage pick now (receiveMessage m a))"
  shows "ac_normal a' = ac_normal a \<and> ac_low a' = ac_low a \<and> ac_last_check a' = now
    \<and> ac_interval a' = ac_interval a \<and> total_depth a' = total_depth a"
proof -
  let ?b = "receiveMessage m a"
  have b: "ac_high ?b = ac_high a @ [m]" "ac_normal ?b = ac_normal a" "ac_low ?b = ac_low a"
      "ac_last_check ?b = ac_last_check a" "ac_interval ?b = ac_interval a"
    using assms(1,2) by (simp_all add: receiveMessage_def enqueue_def Let_def)
  obtain x high where get: "try_dequeue pick (ac_high ?b) = Some (x, high)"
      "getMessage pick now ?b = delivered now x (?b\<lparr>ac_high := high\<rparr>)"
    using poll_high [of ?b now pick] assms(3) b by auto
  have "length (ac_high ?b) = Suc (length high)"
    using try_dequeue_mset [OF get(1)] by (metis size_add_mset size_mset)
  then show ?thesis
    using get b by (simp add: assms(4) delivered_def updateQueueDepthMetrics_def total_depth_def)
qed

text \<open>The fairness timer does not prevent starvation. It is restarted by every delivery, so as long as an
urgent message arrives in every round and the rounds are less than the fairness interval apart, no message
of normal or low priority is ever delivered, for any number of rounds.\<close>

lemma urgent_traffic_starves:
  assumes "list_all (\<lambda>(m, now). m_priority m = HIGH) rs" and "total_depth a < AGENT_MAX_QUEUE_SIZE"
    and "successively (\<lambda>t u. u - t < ac_interval a) (ac_last_check a # map snd rs)"
  shows "ac_normal (rounds pick rs a) = ac_normal a \<and> ac_low (rounds pick rs a) = ac_low a"
  using assms
proof (induction rs arbitrary: a)
  case (Cons r rs)
  obtain m now where r: "r = (m, now)" by (cases r)
  let ?a = "snd (getMessage pick now (receiveMessage m a))"
  have one: "ac_normal ?a = ac_normal a" "ac_low ?a = ac_low a" "ac_last_check ?a = now"
      "ac_interval ?a = ac_interval a" "total_depth ?a = total_depth a"
    using round_high [of m a now ?a pick] Cons.prems r by (simp_all add: successively_Cons)
  have "ac_normal (rounds pick rs ?a) = ac_normal ?a \<and> ac_low (rounds pick rs ?a) = ac_low ?a"
    using Cons.prems r one by (intro Cons.IH) (simp_all add: successively_Cons)
  then show ?case by (simp add: r one)
qed simp

definition urgent :: keystone_message where
  "urgent = createCancellation ''u'' 0 ''a'' ''b'' ''t'' ''s''"

definition patient :: agent_core where
  "patient = (new_core ''b'')\<lparr>ac_low := [(create_command ''v'' 0 ''a'' ''b'' ''c'' None)\<lparr>m_priority := LOW\<rparr>]\<rparr>"

lemma urgent_traffic_starves_witness:
  "ac_low (rounds (\<lambda>_. 0) [(urgent, 99000000), (urgent, 198000000), (urgent, 297000000)] patient) = ac_low patient
    \<and> ac_low patient \<noteq> []"
  using urgent_traffic_starves [of "[(urgent, 99000000), (urgent, 198000000), (urgent, 297000000)]" patient "\<lambda>_. 0"]
  by (simp add: urgent_def createCancellation_def patient_def new_core_def total_depth_def AGENT_MAX_QUEUE_SIZE_def
      AGENT_LOW_PRIORITY_CHECK_INTERVAL_def)

end
