(* ===== verification/Regex.thy ===== *)
theory Regex
  imports Prelude
begin

text \<open>
  The part of \<open>std::regex\<close> (ECMAScript grammar) the agents use: character classes, concatenation, alternatives
  and greedy repetition. \<open>ways r s\<close> lists what is left of \<open>s\<close> after each way to match a prefix with \<open>r\<close>, in
  the order in which a backtracking matcher tries them, so that its head is the match \<open>std::regex_search\<close>
  reports at that position. The patterns of the sources never match the empty string; the iteration over
  matches stops at an empty one.
\<close>

named_theorems regex_simps \<open>languages of patterns\<close>

datatype regex =
    Empty
  | Cls "char \<Rightarrow> bool"
  | Cat regex regex
  | Alt regex regex
  | Star regex

function (sequential) ways :: "regex \<Rightarrow> string \<Rightarrow> string list" where
  "ways Empty s = [s]"
| "ways (Cls p) [] = []"
| "ways (Cls p) (c # s) = (if p c then [s] else [])"
| "ways (Cat a b) s = concat (map (ways b) (ways a s))"
| "ways (Alt a b) s = ways a s @ ways b s"
| "ways (Star r) s =
     concat (map (\<lambda>t. if length t < length s then ways (Star r) t else []) (ways r s)) @ [s]"
  by pat_completeness auto
termination
  by (relation "inv_image (less_than <*lex*> less_than) (\<lambda>(r, s). (size r, length s))") auto

definition plus :: "regex \<Rightarrow> regex" where
  "plus r = Cat r (Star r)"

definition opt :: "regex \<Rightarrow> regex" where
  "opt r = Alt r Empty"

fun lit :: "string \<Rightarrow> regex" where
  "lit [] = Empty"
| "lit (c # s) = Cat (Cls (\<lambda>d. d = c)) (lit s)"

text \<open>\<open>std::regex_match\<close> asks for a match of the whole text.\<close>

definition regex_match :: "regex \<Rightarrow> string \<Rightarrow> bool" where
  "regex_match r s \<longleftrightarrow> [] \<in> set (ways r s)"

text \<open>\<open>std::sregex_iterator\<close>: the matched texts from left to right.\<close>

function regex_matches :: "regex \<Rightarrow> string \<Rightarrow> string list" where
  "regex_matches r s =
     (case ways r s of
        t # _ \<Rightarrow> if length t < length s then take (length s - length t) s # regex_matches r t else []
      | [] \<Rightarrow> (case s of [] \<Rightarrow> [] | c # s' \<Rightarrow> regex_matches r s'))"
  by pat_completeness auto
termination
  by (relation "measure (\<lambda>(r, s). length s)") auto

text \<open>\<open>std::regex_replace\<close> with a replacement text without references.\<close>

function regex_replace :: "regex \<Rightarrow> string \<Rightarrow> string \<Rightarrow> string" where
  "regex_replace r s new =
     (case ways r s of
        t # _ \<Rightarrow> if length t < length s then new @ regex_replace r t new else s
      | [] \<Rightarrow> (case s of [] \<Rightarrow> [] | c # s' \<Rightarrow> c # regex_replace r s' new))"
  by pat_completeness auto
termination
  by (relation "measure (\<lambda>(r, s, new). length s)") auto

declare ways.simps(6) [simp del] regex_matches.simps [simp del] regex_replace.simps [simp del]

text \<open>Word characters and digits of the patterns.\<close>

definition is_upper :: "char \<Rightarrow> bool" where
  "is_upper c \<longleftrightarrow> 65 \<le> ord_of c \<and> ord_of c \<le> 90"

definition is_lower :: "char \<Rightarrow> bool" where
  "is_lower c \<longleftrightarrow> 97 \<le> ord_of c \<and> ord_of c \<le> 122"

definition is_word :: "char \<Rightarrow> bool" where
  "is_word c \<longleftrightarrow> is_upper c \<or> is_lower c \<or> is_digit c \<or> c = CHR ''_''"

section \<open>Languages\<close>

inductive in_lang :: "regex \<Rightarrow> string \<Rightarrow> bool" where
  in_Empty: "in_lang Empty []"
| in_Cls: "p c \<Longrightarrow> in_lang (Cls p) [c]"
| in_Cat: "in_lang a u \<Longrightarrow> in_lang b v \<Longrightarrow> in_lang (Cat a b) (u @ v)"
| in_Alt1: "in_lang a u \<Longrightarrow> in_lang (Alt a b) u"
| in_Alt2: "in_lang b u \<Longrightarrow> in_lang (Alt a b) u"
| in_Star_end: "in_lang (Star r) []"
| in_Star_more: "in_lang r u \<Longrightarrow> in_lang (Star r) v \<Longrightarrow> in_lang (Star r) (u @ v)"

inductive_cases in_lang_StarE: "in_lang (Star r) u"
inductive_simps in_lang_Empty [regex_simps]: "in_lang Empty u"
inductive_simps in_lang_Cls [regex_simps]: "in_lang (Cls p) u"
inductive_simps in_lang_Cat [regex_simps]: "in_lang (Cat a b) u"
inductive_simps in_lang_Alt [regex_simps]: "in_lang (Alt a b) u"

lemma ways_sound: "t \<in> set (ways r s) \<Longrightarrow> \<exists>u. in_lang r u \<and> s = u @ t"
proof (induction r s arbitrary: t rule: ways.induct)
  case (4 a b s)
  then obtain m where m: "m \<in> set (ways a s)" "t \<in> set (ways b m)" by auto
  obtain u where u: "in_lang a u" "s = u @ m" using "4.IH"(1) [OF m(1)] by blast
  obtain v where v: "in_lang b v" "m = v @ t" using "4.IH"(2) [OF m] by blast
  from u v show ?case by (intro exI [of _ "u @ v"]) (simp add: in_Cat)
next
  case (6 r s)
  then consider "t = s" | m where "m \<in> set (ways r s)" "length m < length s" "t \<in> set (ways (Star r) m)"
    by (auto simp: ways.simps(6) [of r s] split: if_splits)
  then show ?case
  proof cases
    case 1
    then show ?thesis using in_Star_end by (intro exI [of _ "[]"]) simp
  next
    case (2 m)
    obtain u where u: "in_lang r u" "s = u @ m" using "6.IH"(1) [OF 2(1)] by blast
    obtain v where v: "in_lang (Star r) v" "m = v @ t" using "6.IH"(2) [OF 2] by blast
    from u v show ?thesis by (intro exI [of _ "u @ v"]) (simp add: in_Star_more)
  qed
next
  case (5 a b s)
  then show ?case by (metis UnE in_Alt1 in_Alt2 set_append ways.simps(5))
qed (auto intro: in_lang.intros split: if_splits)

text \<open>An iteration that matches nothing can be left out.\<close>

lemma Star_nonempty:
  assumes "in_lang (Star r) u" and "u \<noteq> []"
  shows "\<exists>v w. u = v @ w \<and> v \<noteq> [] \<and> in_lang r v \<and> in_lang (Star r) w"
  using assms
proof (induction "Star r" u rule: in_lang.induct)
  case (in_Star_more u v)
  then show ?case by (cases "u = []") auto
qed simp

lemma ways_Star_complete:
  assumes "\<And>u t. in_lang r u \<Longrightarrow> t \<in> set (ways r (u @ t))"
  shows "in_lang (Star r) u \<Longrightarrow> t \<in> set (ways (Star r) (u @ t))"
proof (induction u rule: length_induct)
  case (1 u)
  show ?case
  proof (cases "u = []")
    case False
    then obtain v w where v: "u = v @ w" "v \<noteq> []" "in_lang r v" "in_lang (Star r) w"
      using Star_nonempty 1(2) by blast
    have "w @ t \<in> set (ways r (u @ t))" using assms [OF v(3), of "w @ t"] v(1) by simp
    moreover have "t \<in> set (ways (Star r) (w @ t))" using 1(1) v by simp
    ultimately show ?thesis using v(1,2) by (auto simp: ways.simps(6) [of r "v @ w @ t"])
  qed (subst ways.simps(6), simp)
qed

lemma ways_complete: "in_lang r u \<Longrightarrow> t \<in> set (ways r (u @ t))"
proof (induction r arbitrary: u t)
  case (Star r)
  then show ?case by (blast intro: ways_Star_complete)
next
  case (Cat a b)
  then obtain v w where v: "u = v @ w" "in_lang a v" "in_lang b w" by (auto simp: regex_simps)
  have "w @ t \<in> set (ways a (u @ t))" using Cat.IH(1) [OF v(2), of "w @ t"] v(1) by simp
  moreover have "t \<in> set (ways b (w @ t))" by (rule Cat.IH(2) [OF v(3)])
  ultimately show ?case by auto
qed (auto simp: regex_simps)

lemma ways_iff: "t \<in> set (ways r s) \<longleftrightarrow> (\<exists>u. in_lang r u \<and> s = u @ t)"
  using ways_sound ways_complete by blast

lemma regex_match_iff: "regex_match r s \<longleftrightarrow> in_lang r s"
  by (auto simp: regex_match_def ways_iff)


lemma in_lang_Cat_Cls: "in_lang (Cat (Cls p) b) u \<longleftrightarrow> (\<exists>c v. u = c # v \<and> p c \<and> in_lang b v)"
  by (auto simp: in_lang_Cat in_lang_Cls) (metis append_Cons append_Nil)

lemma in_lang_lit [regex_simps]: "in_lang (lit s) u \<longleftrightarrow> u = s"
  by (induction s arbitrary: u) (auto simp: in_lang_Empty in_lang_Cat_Cls)

lemma in_lang_Star_Cls [regex_simps]: "in_lang (Star (Cls p)) u \<longleftrightarrow> list_all p u"
proof
  show "in_lang (Star (Cls p)) u \<Longrightarrow> list_all p u"
    by (induction "Star (Cls p)" u rule: in_lang.induct) (auto simp: in_lang_Cls)
  show "list_all p u \<Longrightarrow> in_lang (Star (Cls p)) u"
  proof (induction u)
    case (Cons c u)
    then show ?case using in_Star_more [of "Cls p" "[c]" u] by (simp add: in_Cls)
  qed (simp add: in_Star_end)
qed

lemma in_lang_plus_Cls [regex_simps]: "in_lang (plus (Cls p)) u \<longleftrightarrow> u \<noteq> [] \<and> list_all p u"
  by (cases u) (auto simp: plus_def in_lang_Cat_Cls in_lang_Star_Cls)

lemma in_lang_opt [regex_simps]: "in_lang (opt r) u \<longleftrightarrow> u = [] \<or> in_lang r u"
  by (auto simp: opt_def regex_simps)

section \<open>Greedy runs\<close>

lemma ways_Star_Cls: "\<exists>ts. ways (Star (Cls p)) s = dropWhile p s # ts"
proof (induction s)
  case Nil
  show ?case by (subst ways.simps(6)) simp
next
  case (Cons c s)
  then show ?case by (subst ways.simps(6)) auto
qed

lemma ways_plus_Cls:
  "ways (plus (Cls p)) [] = []"
  "\<not> p c \<Longrightarrow> ways (plus (Cls p)) (c # s) = []"
  "p c \<Longrightarrow> \<exists>ts. ways (plus (Cls p)) (c # s) = dropWhile p s # ts"
  using ways_Star_Cls by (auto simp: plus_def)

text \<open>The maximal runs of characters of a class.\<close>

function runs :: "(char \<Rightarrow> bool) \<Rightarrow> string \<Rightarrow> string list" where
  "runs p [] = []"
| "runs p (c # s) = (if p c then (c # takeWhile p s) # runs p (dropWhile p s) else runs p s)"
  by pat_completeness auto
termination
  by (relation "measure (\<lambda>(p, s). length s)") (auto simp: less_Suc_eq_le length_dropWhile_le)

lemma regex_matches_runs: "regex_matches (plus (Cls p)) s = runs p s"
proof (induction p s rule: runs.induct)
  case (1 p)
  show ?case by (simp add: regex_matches.simps ways_plus_Cls(1))
next
  case (2 p c s)
  show ?case
  proof (cases "p c")
    case True
    then obtain ts where ts: "ways (plus (Cls p)) (c # s) = dropWhile p s # ts" using ways_plus_Cls(3) by blast
    have len: "length s = length (takeWhile p s) + length (dropWhile p s)"
      by (metis length_append takeWhile_dropWhile_id)
    have "take (Suc (length s) - length (dropWhile p s)) (c # s) = c # takeWhile p s"
      unfolding len by (simp add: Suc_diff_le) (metis append_eq_conv_conj takeWhile_dropWhile_id)
    then show ?thesis
      using True 2(1) ts by (simp add: regex_matches.simps [of _ "c # s"] less_Suc_eq_le length_dropWhile_le)
  next
    case False
    then show ?thesis using 2(2) by (simp add: regex_matches.simps [of _ "c # s"] ways_plus_Cls(2))
  qed
qed

end
