(* ===== verification/Task_Agent.thy ===== *)
theory Task_Agent
  imports Agent_Core Regex Complex_Main
begin

text \<open>
  The agent that runs commands (\<open>include/agamemnon_agents/agents/task_agent.hpp\<close>, \<open>src/agents/task_agent.cpp\<close>),
  the stand-alone execution strategy (\<open>src/agents/task_execution_strategy.cpp\<close>), the cancellation handler of
  \<open>src/agents/async_agent.cpp\<close> and the error sanitizer (\<open>include/agamemnon_agents/core/error_sanitizer.hpp\<close>).
  The shell started by \<open>popen\<close> is an argument: it yields no pipe, or an output (text without NUL) and an exit
  status. \<open>std::stod\<close> and the iteration order of the set of allowed commands are arguments too.
\<close>

section \<open>Sanitizing error messages\<close>

definition path_regex :: regex where
  "path_regex =
     Cat (lit ''/'') (Cat (plus (Cls (\<lambda>c. \<not> is_space c \<and> c \<noteq> CHR '':''))) (Cat (lit ''.'')
       (Cat (Alt (lit ''cpp'') (Alt (lit ''hpp'') (Alt (lit ''h'') (lit ''cc''))))
         (Cat (opt (lit '':'')) (Star (Cls is_digit))))))"

definition is_hex :: "char \<Rightarrow> bool" where
  "is_hex c \<longleftrightarrow> is_digit c \<or> c \<in> set ''abcdefABCDEF''"

definition addr_regex :: regex where
  "addr_regex = Cat (lit ''0x'') (plus (Cls is_hex))"

definition namespace_regex :: regex where
  "namespace_regex = plus (Cat (plus (Cls is_word)) (lit ''::''))"

definition what_prefix_regex :: regex where
  "what_prefix_regex = Cat (lit ''what():'') (Star (Cls is_space))"

definition home_regex :: regex where
  "home_regex = Cat (lit ''/home/'') (plus (Cls is_word))"

definition root_regex :: regex where
  "root_regex = Cat (lit ''/usr/'') (plus (Cls (\<lambda>c. \<not> is_space c)))"

definition sanitizeErrorMessage :: "string \<Rightarrow> bool \<Rightarrow> string" where
  "sanitizeErrorMessage error_message production_mode =
     (let s1 = regex_replace path_regex error_message ''[internal]'';
          s2 = regex_replace addr_regex s1 ''[address]'';
          s3 = (if production_mode then regex_replace namespace_regex s2 ''[class]'' else s2);
          s4 = regex_replace what_prefix_regex s3 []
      in if production_mode
         then regex_replace root_regex (regex_replace home_regex s4 ''~'') ''[system]''
         else s4)"

definition createSafeErrorResponse :: "string \<Rightarrow> string \<Rightarrow> bool \<Rightarrow> string" where
  "createSafeErrorResponse original_error user_facing_context production_mode =
     (let sanitized = sanitizeErrorMessage original_error production_mode in
      if user_facing_context \<noteq> [] then user_facing_context @ '': '' @ sanitized else sanitized)"

section \<open>Allowed commands\<close>

definition ALLOWED_COMMANDS :: "string list" where
  "ALLOWED_COMMANDS =
     [''echo'', ''cat'', ''ls'', ''pwd'', ''date'', ''whoami'', ''uname'', ''head'', ''tail'', ''wc'',
      ''grep'', ''find'', ''bc'']"

definition arithmetic_char :: "char \<Rightarrow> bool" where
  "arithmetic_char c \<longleftrightarrow> is_digit c \<or> c \<in> set ''-+*/ ()''"

definition arithmetic_pattern :: regex where
  "arithmetic_pattern = Cat (lit ''echo $(('') (Cat (plus (Cls arithmetic_char)) (lit ''))''))"

definition quote_char :: char where
  "quote_char = CHR 0x22"

definition apostrophe :: char where
  "apostrophe = CHR 0x27"

definition echo_char :: "char \<Rightarrow> bool" where
  "echo_char c \<longleftrightarrow> is_lower c \<or> is_upper c \<or> is_digit c \<or> c \<in> set ''- .,!?'' \<or> c = apostrophe \<or> c = quote_char"

definition simple_echo_pattern :: regex where
  "simple_echo_pattern = Cat (lit ''echo '') (plus (Cls echo_char))"

definition sleep_pattern :: regex where
  "sleep_pattern = Cat (lit ''sleep '')
     (Cat (plus (Cls is_digit)) (opt (Cat (lit ''.'') (plus (Cls is_digit)))))"

definition very_dangerous :: string where
  "very_dangerous = '';|&'' @ [CHR 0x60] @ ''$<>!{}[]''"

text \<open>\<open>std::istringstream >> word\<close>\<close>

definition first_word :: "string \<Rightarrow> string" where
  "first_word s = takeWhile (\<lambda>c. \<not> is_space c) (dropWhile is_space s)"

definition safe_args :: "string \<Rightarrow> bool" where
  "safe_args args \<longleftrightarrow> list_all (\<lambda>c. c \<notin> set very_dangerous) args \<and> find_sub ''..'' args = None"

definition whitelisted :: "string \<Rightarrow> bool" where
  "whitelisted command \<longleftrightarrow>
     (let base_command = first_word command in
      base_command \<in> set ALLOWED_COMMANDS \<and> safe_args (drop (length base_command) command))"

text \<open>The \<open>listing\<close> is the set of allowed commands in the order of its iteration.\<close>

definition newline :: char where
  "newline = CHR 0x0A"

definition rejection :: "string list \<Rightarrow> string \<Rightarrow> string" where
  "rejection listing command =
     ''Command does not match any allowed patterns.'' @ [newline] @ ''Allowed patterns:'' @ [newline] @
     ''  1. Arithmetic: echo $((expression))'' @ [newline] @ ''  2. Simple echo: echo <text>'' @ [newline] @
     ''  3. sleep <N> where N <= 10'' @ [newline] @ ''  4. Whitelisted commands: '' @
     concat (map (\<lambda>(i, c). (if i = 0 then [] else '', '') @ c) (zip [0..<length listing] listing)) @
     [newline] @ ''Your command: '' @ command"

definition validateCommand :: "(string \<Rightarrow> real result) \<Rightarrow> string list \<Rightarrow> string \<Rightarrow> unit result" where
  "validateCommand stod listing command =
     (if command = [] then Inl (Runtime_Error ''Command cannot be empty'')
      else if regex_match arithmetic_pattern command then Inr ()
      else if regex_match simple_echo_pattern command then Inr ()
      else if regex_match sleep_pattern command then
        bind_result (stod (drop 6 command)) (\<lambda>duration.
          if duration > 10 then Inl (Runtime_Error ''sleep duration exceeds maximum allowed (10s)'') else Inr ())
      else if whitelisted command then Inr ()
      else Inl (Runtime_Error (rejection listing command)))"

section \<open>Execution\<close>

datatype shell_outcome =
    No_Pipe
  | Ran string int

record task_env = agent_env +
  te_stod :: "string \<Rightarrow> real result"
  te_listing :: "string list"
  te_shell :: "string \<Rightarrow> shell_outcome"

definition escape_quotes :: "string \<Rightarrow> string" where
  "escape_quotes = concat \<circ> map (\<lambda>c. if c = quote_char then [CHR 0x5C, quote_char] else [c])"

definition bash_command :: "string \<Rightarrow> string" where
  "bash_command command = ''/bin/bash -c '' @ [quote_char] @ escape_quotes command @ [quote_char]"

definition strip_trailing_space :: "string \<Rightarrow> string" where
  "strip_trailing_space s = rev (dropWhile is_space (rev s))"

definition exit_error :: "int \<Rightarrow> exn" where
  "exit_error status = Runtime_Error (''Command exited with status '' @ string_of_int status)"

definition executeBash :: "'a task_env_scheme \<Rightarrow> string \<Rightarrow> string result" where
  "executeBash e command =
     bind_result (validateCommand (te_stod e) (te_listing e) command) (\<lambda>_.
     case te_shell e (bash_command command) of
       No_Pipe \<Rightarrow> Inl (Runtime_Error ''popen() failed'')
     | Ran output status \<Rightarrow>
         if status \<noteq> 0 then Inl (exit_error status) else Inr (strip_trailing_space output))"

text \<open>The strategy has its own copy of the check, without the pattern for \<open>sleep\<close>, and runs the command as it is.\<close>

definition isCommandAllowed :: "string \<Rightarrow> bool" where
  "isCommandAllowed command \<longleftrightarrow>
     command \<noteq> [] \<and> (regex_match arithmetic_pattern command \<or> regex_match simple_echo_pattern command
       \<or> whitelisted command)"

definition strategy_rejection :: "string list \<Rightarrow> string \<Rightarrow> string" where
  "strategy_rejection listing cmd =
     ''Command does not match any allowed patterns.'' @ [newline] @ ''Allowed patterns:'' @ [newline] @
     ''  1. Arithmetic: echo $((expression))'' @ [newline] @ ''  2. Simple echo: echo <text>'' @ [newline] @
     ''  3. Whitelisted commands: '' @
     concat (map (\<lambda>(i, c). (if i = 0 then [] else '', '') @ c) (zip [0..<length listing] listing)) @
     [newline] @ ''Your command: '' @ cmd"

definition executeBashCommand :: "'a task_env_scheme \<Rightarrow> string \<Rightarrow> string result" where
  "executeBashCommand e cmd =
     (if \<not> isCommandAllowed cmd then Inl (Runtime_Error (strategy_rejection (te_listing e) cmd))
      else case te_shell e cmd of
        No_Pipe \<Rightarrow> Inl (Runtime_Error ''popen() failed'')
      | Ran output status \<Rightarrow>
          if status \<noteq> 0 then Inl (exit_error status)
          else Inr (if output \<noteq> [] \<and> last output = newline then butlast output else output))"

text \<open>The text of an exception.\<close>

definition what :: "exn \<Rightarrow> string" where
  "what e = (case e of Runtime_Error s \<Rightarrow> s | Invalid_Argument s \<Rightarrow> s | Out_Of_Range \<Rightarrow> ''stod''
     | Type_Error n \<Rightarrow> [] | Parse_Error \<Rightarrow> [])"

definition strategy_process :: "'a task_env_scheme \<Rightarrow> int \<Rightarrow> keystone_message \<Rightarrow> response" where
  "strategy_process e now msg =
     (case executeBashCommand e (m_command msg) of
        Inr res \<Rightarrow> createSuccess now msg ''strategy'' res
      | Inl ex \<Rightarrow> createError now msg ''strategy'' (sanitizeErrorMessage (what ex) False))"

section \<open>The agent\<close>

text \<open>\<open>ta_processed\<close> and \<open>ta_late\<close> are the message identifiers reported to the metrics.\<close>

record task_agent = agent_core +
  ta_command_log :: "(string \<times> string) list"
  ta_failed :: bool
  ta_failure_reason :: string
  ta_processed :: "string list"
  ta_late :: "string list"

definition markAsFailed :: "string \<Rightarrow> task_agent \<Rightarrow> task_agent" where
  "markAsFailed reason a = a\<lparr>ta_failure_reason := reason, ta_failed := True\<rparr>"

definition recover :: "task_agent \<Rightarrow> task_agent" where
  "recover a = a\<lparr>ta_failure_reason := [], ta_failed := False\<rparr>"

text \<open>\<open>AsyncAgent::handleCancellation\<close>\<close>

definition handleCancellation ::
    "int \<Rightarrow> keystone_message \<Rightarrow> 'a agent_core_scheme \<Rightarrow> response \<times> 'a agent_core_scheme" where
  "handleCancellation now msg a =
     (case m_task_id msg of
        None \<Rightarrow> (createError now msg (ac_agent_id a) ''CANCEL_TASK message missing task_id'', a)
      | Some task_id \<Rightarrow>
          (createSuccess now msg (ac_agent_id a) (''Task '' @ task_id @ '' marked for cancellation''),
           requestCancellation task_id a))"

definition send_new ::
    "'e agent_env_scheme \<Rightarrow> (string \<Rightarrow> int \<Rightarrow> string \<Rightarrow> keystone_message) \<Rightarrow> ('a agent_core_scheme, unit) op" where
  "send_new e mk =
     bind_op (gets ac_agent_id) (\<lambda>me.
     bind_op (draw e) (\<lambda>(uuid, now). sendMessage (mk uuid now me)))"

definition sendResponseMessage ::
    "'e agent_env_scheme \<Rightarrow> keystone_message \<Rightarrow> string \<Rightarrow> ('a agent_core_scheme, unit) op" where
  "sendResponseMessage e msg payload =
     send_new e (\<lambda>uuid now me.
       (create_command uuid now me (m_sender_id msg) ''response'' (Some payload))\<lparr>m_msg_id := m_msg_id msg\<rparr>)"

definition run_command :: "'e task_env_scheme \<Rightarrow> int \<Rightarrow> keystone_message \<Rightarrow> (task_agent, response) op" where
  "run_command e now msg =
     bind_op (lift_result (executeBash e (m_command msg))) (\<lambda>res.
     bind_op (modify (\<lambda>a. a\<lparr>ta_command_log := ta_command_log a @ [(m_command msg, res)]\<rparr>)) (\<lambda>_.
     bind_op (gets ac_agent_id) (\<lambda>me.
     bind_op (sendResponseMessage e msg res) (\<lambda>_. ret (createSuccess now msg me res)))))"

definition report_failure :: "'e task_env_scheme \<Rightarrow> int \<Rightarrow> keystone_message \<Rightarrow> exn \<Rightarrow> (task_agent, response) op" where
  "report_failure e now msg ex =
     (let sanitized_error = sanitizeErrorMessage (what ex) False in
      bind_op (gets ac_agent_id) (\<lambda>me.
      bind_op (send_new e (\<lambda>uuid now me.
        (create_command uuid now me (m_sender_id msg) ''response'' (Some (''ERROR: '' @ sanitized_error)))
          \<lparr>m_action_type := TASK_FAILED, m_msg_id := m_msg_id msg\<rparr>)) (\<lambda>_.
        ret (createError now msg me sanitized_error))))"

definition task_processMessage :: "'e task_env_scheme \<Rightarrow> int \<Rightarrow> keystone_message \<Rightarrow> (task_agent, response) op" where
  "task_processMessage e now msg =
     bind_op (modify (\<lambda>a. a\<lparr>ta_processed := ta_processed a @ [m_msg_id msg]\<rparr>)) (\<lambda>_.
     bind_op (gets id) (\<lambda>a.
     if ta_failed a then
       let resp = createError now msg (ac_agent_id a) (''Agent is in failed state: '' @ ta_failure_reason a) in
       bind_op (sendResponseMessage e msg (rp_result resp)) (\<lambda>_. ret resp)
     else if m_action_type msg = CANCEL_TASK then
       let (resp, a') = handleCancellation now msg a in
       bind_op (modify (\<lambda>_. a')) (\<lambda>_.
       bind_op (sendResponseMessage e msg (rp_result resp)) (\<lambda>_. ret resp))
     else
       bind_op (when_op (hasDeadlinePassed now msg) (modify (\<lambda>a. a\<lparr>ta_late := ta_late a @ [m_msg_id msg]\<rparr>))) (\<lambda>_.
       catch_op (run_command e now msg) (report_failure e now msg))))"

section \<open>What the check lets through\<close>

lemma arithmetic_match:
  "regex_match arithmetic_pattern s \<longleftrightarrow>
     (\<exists>x. s = ''echo $(('' @ x @ ''))'' \<and> x \<noteq> [] \<and> list_all arithmetic_char x)"
  by (auto simp: regex_match_iff arithmetic_pattern_def in_lang_Cat in_lang_lit in_lang_plus_Cls simp del: lit.simps)

lemma simple_echo_match:
  "regex_match simple_echo_pattern s \<longleftrightarrow> (\<exists>x. s = ''echo '' @ x \<and> x \<noteq> [] \<and> list_all echo_char x)"
  by (auto simp: regex_match_iff simple_echo_pattern_def in_lang_Cat in_lang_lit in_lang_plus_Cls simp del: lit.simps)

lemma sleep_match:
  assumes "regex_match sleep_pattern s"
  shows "\<exists>x. s = ''sleep '' @ x \<and> list_all (\<lambda>c. is_digit c \<or> c = CHR ''.'') x"
proof -
  obtain d f where s: "s = ''sleep '' @ d @ f" "list_all is_digit d"
      "f = [] \<or> in_lang (Cat (lit ''.'') (plus (Cls is_digit))) f"
    using assms
    by (auto simp: regex_match_iff sleep_pattern_def in_lang_Cat in_lang_lit in_lang_plus_Cls in_lang_opt
        simp del: lit.simps)
  have "list_all (\<lambda>c. is_digit c \<or> c = CHR ''.'') f"
    using s(3) by (auto simp: in_lang_Cat in_lang_lit in_lang_plus_Cls list_all_iff simp del: lit.simps)
  moreover have "list_all (\<lambda>c. is_digit c \<or> c = CHR ''.'') d" using s(2) by (simp add: list_all_iff)
  ultimately show ?thesis using s(1) by (intro exI [of _ "d @ f"]) simp
qed

















text \<open>A line break smuggles a second command past the check. Whatever text follows a line break after an
allowed command is accepted by both copies of the check as long as it has no metacharacter and no double
dot, and the shell is handed the two lines as they are; the second line need not be an allowed command.\<close>

lemma newline_smuggles_command:
  assumes "safe_args t"
  shows "validateCommand stod listing (''ls'' @ [newline] @ t) = Inr () \<and> isCommandAllowed (''ls'' @ [newline] @ t)
    \<and> (te_stod e = stod \<and> te_shell e (bash_command (''ls'' @ [newline] @ t)) = Ran out 0
        \<longrightarrow> executeBash e (''ls'' @ [newline] @ t) = Inr (strip_trailing_space out))"
proof -
  let ?c = "''ls'' @ [newline] @ t"
  have "safe_args (newline # t)"
    using assms by (simp add: safe_args_def newline_def very_dangerous_def starts_with_def)
  moreover have "first_word ?c = ''ls''" by (simp add: first_word_def newline_def is_space_def)
  ultimately have w: "whitelisted ?c" by (simp add: whitelisted_def ALLOWED_COMMANDS_def)
  have "\<not> regex_match arithmetic_pattern ?c" "\<not> regex_match simple_echo_pattern ?c"
      "\<not> regex_match sleep_pattern ?c"
    using arithmetic_match [of ?c] simple_echo_match [of ?c] sleep_match [of ?c] by auto
  with w have ok: "validateCommand s l ?c = Inr ()" for s l by (simp add: validateCommand_def)
  show ?thesis
    using w ok by (auto simp: isCommandAllowed_def executeBash_def)
qed

lemma newline_smuggles_command_witness:
  "isCommandAllowed (''ls'' @ [newline] @ ''rm -rf work'') \<and> first_word ''rm -rf work'' \<notin> set ALLOWED_COMMANDS"
proof -
  have "safe_args ''rm -rf work''" by (simp add: safe_args_def very_dangerous_def starts_with_def)
  then have "isCommandAllowed (''ls'' @ [newline] @ ''rm -rf work'')"
    using newline_smuggles_command [of "''rm -rf work''"] by blast
  then show ?thesis by (simp add: first_word_def is_space_def ALLOWED_COMMANDS_def)
qed


section \<open>Answers\<close>

text \<open>The message an agent sends back, up to its time stamp.\<close>

definition answer :: "string \<Rightarrow> keystone_message \<Rightarrow> action_type \<Rightarrow> string \<Rightarrow> int \<Rightarrow> keystone_message" where
  "answer me msg act payload now =
     (create_command (m_msg_id msg) now me (m_sender_id msg) ''response'' (Some payload))\<lparr>m_action_type := act\<rparr>"

definition sent_answer ::
    "'e agent_env_scheme \<Rightarrow> keystone_message \<Rightarrow> action_type \<Rightarrow> string \<Rightarrow> 'a agent_core_scheme \<Rightarrow> 'a agent_core_scheme" where
  "sent_answer e msg act payload a =
     a\<lparr>ac_draws := Suc (ac_draws a), ac_sent := ac_sent a @ [answer (ac_agent_id a) msg act payload (ae_now e (ac_draws a))]\<rparr>"

lemma sendResponse_run:
  "ac_message_bus a \<Longrightarrow> sendResponseMessage e msg payload a = (Inr (), sent_answer e msg EXECUTE payload a)"
  by (simp add: sendResponseMessage_def send_new_def draw_def sendMessage_def op_simps sent_answer_def answer_def
      create_command_def)

lemma report_failure_run:
  "ac_message_bus a \<Longrightarrow> report_failure e now msg ex a =
    (Inr (createError now msg (ac_agent_id a) (sanitizeErrorMessage (what ex) False)),
     sent_answer e msg TASK_FAILED (''ERROR: '' @ sanitizeErrorMessage (what ex) False) a)"
  by (simp add: report_failure_def send_new_def draw_def sendMessage_def op_simps sent_answer_def answer_def
      create_command_def Let_def)

lemma run_command_run:
  assumes "ac_message_bus a"
  shows "run_command e now msg a = (case executeBash e (m_command msg) of
      Inl ex \<Rightarrow> (Inl ex, a)
    | Inr res \<Rightarrow> (Inr (createSuccess now msg (ac_agent_id a) res),
        sent_answer e msg EXECUTE res (a\<lparr>ta_command_log := ta_command_log a @ [(m_command msg, res)]\<rparr>)))"
  using assms by (cases "executeBash e (m_command msg)") (simp_all add: run_command_def op_simps sendResponse_run)

text \<open>The state in which a message is handled.\<close>

definition noted :: "int \<Rightarrow> keystone_message \<Rightarrow> task_agent \<Rightarrow> task_agent" where
  "noted now msg a =
     (let a1 = a\<lparr>ta_processed := ta_processed a @ [m_msg_id msg]\<rparr> in
      if \<not> ta_failed a \<and> m_action_type msg \<noteq> CANCEL_TASK \<and> hasDeadlinePassed now msg
      then a1\<lparr>ta_late := ta_late a1 @ [m_msg_id msg]\<rparr> else a1)"

lemma task_processMessage_run:
  assumes "ac_message_bus a" and "a1 = noted now msg a"
  shows "task_processMessage e now msg a =
    (if ta_failed a then
       (Inr (createError now msg (ac_agent_id a) (''Agent is in failed state: '' @ ta_failure_reason a)),
        sent_answer e msg EXECUTE (''Agent is in failed state: '' @ ta_failure_reason a) a1)
     else if m_action_type msg = CANCEL_TASK then
       (Inr (fst (handleCancellation now msg a1)),
        sent_answer e msg EXECUTE (rp_result (fst (handleCancellation now msg a1))) (snd (handleCancellation now msg a1)))
     else case executeBash e (m_command msg) of
       Inl ex \<Rightarrow> report_failure e now msg ex a1
     | Inr res \<Rightarrow> run_command e now msg a1)"
proof -
  have bus: "ac_message_bus a1" "ac_message_bus (snd (handleCancellation now msg a1))"
    using assms by (simp_all add: noted_def Let_def handleCancellation_def requestCancellation_def split: option.split)
  show ?thesis
    using bus
    by (cases "executeBash e (m_command msg)")
      (auto simp: task_processMessage_def op_simps sendResponse_run assms(2) noted_def Let_def createError_def
        run_command_run split: prod.split)
qed


lemma sent_answer_fields [simp]:
  "ac_sent (sent_answer e msg act p a) = ac_sent a @ [answer (ac_agent_id a) msg act p (ae_now e (ac_draws a))]"
  "ac_agent_id (sent_answer e msg act p a) = ac_agent_id a"
  "m_receiver_id (answer me msg act p now) = m_sender_id msg"
  "m_sender_id (answer me msg act p now) = me"
  "m_msg_id (answer me msg act p now) = m_msg_id msg"
  "m_command (answer me msg act p now) = ''response''"
  "m_action_type (answer me msg act p now) = act"
  "m_payload (answer me msg act p now) = Some p"
  by (simp_all add: sent_answer_def answer_def create_command_def)

lemma noted_fields [simp]:
  "ac_sent (noted now msg a) = ac_sent a" "ac_agent_id (noted now msg a) = ac_agent_id a"
  "ac_message_bus (noted now msg a) = ac_message_bus a"
  by (simp_all add: noted_def Let_def)

lemma handleCancellation_sent [simp]: "ac_sent (snd (handleCancellation now msg a)) = ac_sent a"
  by (simp add: handleCancellation_def requestCancellation_def split: option.split)

lemma handleCancellation_success:
  "rp_status (fst (handleCancellation now msg a)) = Success \<longleftrightarrow> m_task_id msg \<noteq> None"
  by (simp add: handleCancellation_def createError_def createSuccess_def split: option.split)

text \<open>C15: A task agent answers every message exactly once. Connected to a router it never throws, and sends one
message, to the sender and under the identifier of the request. The answer is marked as a failed task exactly
when the agent is in service, the message is no cancellation and the command was refused or failed; the
answer of an agent that is out of service is an ordinary response.\<close>

theorem task_agent_answers:
  assumes "ac_message_bus a"
  shows "\<exists>resp a' out. task_processMessage e now msg a = (Inr resp, a') \<and> ac_sent a' = ac_sent a @ [out]
    \<and> m_receiver_id out = m_sender_id msg \<and> m_msg_id out = m_msg_id msg \<and> m_command out = ''response''
    \<and> (m_action_type out = TASK_FAILED \<longleftrightarrow>
         \<not> ta_failed a \<and> m_action_type msg \<noteq> CANCEL_TASK \<and> isl (executeBash e (m_command msg)))
    \<and> (rp_status resp = Success \<longrightarrow> m_payload out = Some (rp_result resp))
    \<and> (ta_failed a \<longrightarrow> rp_status resp = Error)"
proof -
  note run = task_processMessage_run [OF assms refl, of e now msg]
  have bus: "ac_message_bus (noted now msg a)" using assms by simp
  consider "ta_failed a" | "\<not> ta_failed a" "m_action_type msg = CANCEL_TASK"
    | ex where "\<not> ta_failed a" "m_action_type msg \<noteq> CANCEL_TASK" "executeBash e (m_command msg) = Inl ex"
    | res where "\<not> ta_failed a" "m_action_type msg \<noteq> CANCEL_TASK" "executeBash e (m_command msg) = Inr res"
    by (metis sum.exhaust)
  then show ?thesis
  proof cases
    case 1
    then show ?thesis by (simp add: run createError_def)
  next
    case 2
    then show ?thesis by (simp add: run)
  next
    case 3
    then show ?thesis by (simp add: run report_failure_run [OF bus] createError_def)
  next
    case 4
    then show ?thesis by (simp add: run run_command_run [OF bus] createSuccess_def)
  qed
qed

definition idle_agent :: task_agent where
  "idle_agent = agent_core.extend ((new_core ''t'')\<lparr>ac_message_bus := True\<rparr>)
     \<lparr>ta_command_log = [], ta_failed = False, ta_failure_reason = [], ta_processed = [], ta_late = []\<rparr>"

theorem task_agent_answers_witness:
  "\<exists>resp a' out. task_processMessage \<lparr>ae_uuid = \<lambda>_. ''u'', ae_now = \<lambda>_. 0, te_stod = \<lambda>_. Inr 0, te_listing = ALLOWED_COMMANDS,
       te_shell = \<lambda>_. No_Pipe\<rparr> 5 (create_command ''q'' 0 ''lead'' ''t'' ''rm'' None) idle_agent = (Inr resp, a')
     \<and> ac_sent a' = ac_sent idle_agent @ [out] \<and> m_receiver_id out = ''lead''"
proof -
  let ?e = "\<lparr>ae_uuid = \<lambda>_. ''u'', ae_now = \<lambda>_. 0, te_stod = \<lambda>_. Inr 0, te_listing = ALLOWED_COMMANDS, te_shell = \<lambda>_. No_Pipe\<rparr>"
  have "ac_message_bus idle_agent" by (simp add: idle_agent_def agent_core.defs)
  from task_agent_answers [OF this, of ?e 5 "create_command ''q'' 0 ''lead'' ''t'' ''rm'' None"]
  show ?thesis by (auto simp: create_command_def)
qed

end
