(* ===== verification/Lead_Agents.thy ===== *)
theory Lead_Agents
  imports Task_Agent
begin

text \<open>
  The coordinating agents: the coordination state (\<open>coordination_state.hpp\<close>), the template method shared by the
  leads (\<open>lead_agent_base.hpp\<close>, \<open>lead_agent_base_impl.hpp\<close>), the component and module leads with their hooks
  (\<open>src/agents/component_lead_agent.cpp\<close>, \<open>src/agents/module_lead_agent.cpp\<close>) and the chief architect
  (\<open>src/agents/chief_architect_agent.cpp\<close>). The virtual functions of a lead are the fields of a record. The
  parts under \<open>ENABLE_GRPC\<close> are in theory Grpc_Agents.
\<close>

section \<open>Coordination state\<close>

record 'st coordination =
  co_state :: 'st
  co_trace :: "string list"
  co_expected :: nat
  co_received :: nat
  co_failed :: nat
  co_results :: "string list"
  co_failures :: "string list"
  co_pending :: "string umap"
  co_goal :: string
  co_requester :: string

definition new_coordination :: "'st \<Rightarrow> 'st coordination" where
  "new_coordination idle =
     \<lparr>co_state = idle, co_trace = [], co_expected = 0, co_received = 0, co_failed = 0, co_results = [],
      co_failures = [], co_pending = [], co_goal = [], co_requester = []\<rparr>"

definition transitionTo :: "'st \<Rightarrow> string \<Rightarrow> 'st coordination \<Rightarrow> 'st coordination" where
  "transitionTo new_state state_name c = c\<lparr>co_state := new_state, co_trace := co_trace c @ [state_name]\<rparr>"

definition initializeCoordination :: "nat \<Rightarrow> 'st coordination \<Rightarrow> 'st coordination" where
  "initializeCoordination expected_count c =
     c\<lparr>co_expected := expected_count, co_received := 0, co_failed := 0, co_results := [], co_failures := [],
       co_pending := []\<rparr>"

definition isComplete :: "'st coordination \<Rightarrow> bool" where
  "isComplete c \<longleftrightarrow> co_received c \<ge> co_expected c"

definition recordResult :: "string \<Rightarrow> 'st coordination \<Rightarrow> bool \<times> 'st coordination" where
  "recordResult res c =
     (let c' = c\<lparr>co_results := co_results c @ [res], co_received := Suc (co_received c)\<rparr>
      in (co_received c' \<ge> co_expected c', c'))"

definition recordFailure :: "string \<Rightarrow> 'st coordination \<Rightarrow> bool \<times> 'st coordination" where
  "recordFailure error_msg c =
     (let c' = c\<lparr>co_failures := co_failures c @ [error_msg], co_failed := Suc (co_failed c),
                 co_received := Suc (co_received c)\<rparr>
      in (co_received c' \<ge> co_expected c', c'))"

definition hasFailures :: "'st coordination \<Rightarrow> bool" where
  "hasFailures c \<longleftrightarrow> co_failed c > 0"

definition trackPendingSubordinate :: "string \<Rightarrow> string \<Rightarrow> 'st coordination \<Rightarrow> 'st coordination" where
  "trackPendingSubordinate msg_id subordinate_id c =
     c\<lparr>co_pending := AList.update msg_id subordinate_id (co_pending c)\<rparr>"

section \<open>The template method\<close>

record 'st lead_agent = agent_core +
  la_coord :: "'st coordination"
  la_available :: "string list"

record 'st lead_class =
  lc_idle :: 'st
  lc_planning :: 'st
  lc_waiting :: 'st
  lc_aggregating :: 'st
  lc_error :: 'st
  lc_name :: "'st \<Rightarrow> string"
  lc_decomposeGoal :: "string \<Rightarrow> string list"
  lc_delegateSubtasks :: "agent_env \<Rightarrow> string list \<Rightarrow> ('st lead_agent, unit) op"
  lc_isSubordinateResult :: "keystone_message \<Rightarrow> bool"
  lc_processSubordinateResult :: "keystone_message \<Rightarrow> 'st lead_agent \<Rightarrow> 'st lead_agent"

definition on_coord :: "('st coordination \<Rightarrow> 'st coordination) \<Rightarrow> 'st lead_agent \<Rightarrow> 'st lead_agent" where
  "on_coord f a = a\<lparr>la_coord := f (la_coord a)\<rparr>"

definition enter :: "'st lead_class \<Rightarrow> 'st \<Rightarrow> 'st lead_agent \<Rightarrow> 'st lead_agent" where
  "enter cls st = on_coord (transitionTo st (lc_name cls st))"

definition new_lead :: "'st lead_class \<Rightarrow> string \<Rightarrow> 'st lead_agent" where
  "new_lead cls agent_id = agent_core.extend (new_core agent_id)
     \<lparr>la_coord = transitionTo (lc_idle cls) ''IDLE'' (new_coordination (lc_idle cls)), la_available = []\<rparr>"

definition processSubordinateFailure ::
    "'st lead_class \<Rightarrow> agent_env \<Rightarrow> keystone_message \<Rightarrow> ('st lead_agent, unit) op" where
  "processSubordinateFailure cls e failure_msg a =
     (let error = (case m_payload failure_msg of Some p \<Rightarrow> p | None \<Rightarrow> ''subordinate task failed'');
          (all_done, c) = recordFailure error (la_coord a); a1 = a\<lparr>la_coord := c\<rparr>
      in if all_done then
           let a2 = enter cls (lc_error cls) a1; parent_id = co_requester c in
           if parent_id \<noteq> [] then
             send_new e (\<lambda>uuid now me. create_action uuid now me parent_id TASK_FAILED (m_session_id failure_msg)
               (Some error) TEXT_PLAIN) a2
           else (Inr (), a2)
         else (Inr (), a1))"

definition lead_cancel :: "agent_env \<Rightarrow> int \<Rightarrow> keystone_message \<Rightarrow> ('a agent_core_scheme, response) op" where
  "lead_cancel e now msg a =
     (let (resp, a1) = handleCancellation now msg a in
      bind_op (sendResponseMessage e msg (rp_result resp)) (\<lambda>_. ret resp) a1)"

definition start_goal :: "'st lead_class \<Rightarrow> keystone_message \<Rightarrow> 'st lead_agent \<Rightarrow> 'st lead_agent" where
  "start_goal cls msg a =
     on_coord (\<lambda>c. c\<lparr>co_goal := m_command msg, co_requester := m_sender_id msg\<rparr>) (enter cls (lc_planning cls) a)"

definition lead_processMessage ::
    "'st lead_class \<Rightarrow> agent_env \<Rightarrow> int \<Rightarrow> keystone_message \<Rightarrow> ('st lead_agent, response) op" where
  "lead_processMessage cls e now msg =
     bind_op (gets ac_agent_id) (\<lambda>me.
     if m_action_type msg = CANCEL_TASK then lead_cancel e now msg
     else if m_action_type msg = TASK_FAILED then
       bind_op (processSubordinateFailure cls e msg) (\<lambda>_.
         ret (createSuccess now msg me ''Subordinate failure recorded''))
     else if lc_isSubordinateResult cls msg then
       bind_op (modify (lc_processSubordinateResult cls msg)) (\<lambda>_.
         ret (createSuccess now msg me ''Subordinate result processed''))
     else
       bind_op (modify (start_goal cls msg)) (\<lambda>_.
       let subtasks = lc_decomposeGoal cls (m_command msg) in
       if subtasks = [] then
         bind_op (modify (enter cls (lc_error cls))) (\<lambda>_.
           ret (createError now msg me ''Failed to decompose goal''))
       else if int (length subtasks) > INT_MAX then
         bind_op (modify (enter cls (lc_error cls))) (\<lambda>_.
           ret (createError now msg me (''Subtask count exceeds maximum: '' @ string_of_nat (length subtasks)
             @ '' > '' @ string_of_int INT_MAX)))
       else
         bind_op (modify (enter cls (lc_waiting cls) \<circ> on_coord (initializeCoordination (length subtasks)))) (\<lambda>_.
         bind_op (lc_delegateSubtasks cls e subtasks) (\<lambda>_.
           ret (createSuccess now msg me
             (''Goal decomposed into '' @ string_of_nat (length subtasks) @ '' subtasks''))))))"

text \<open>Creates a message for a subordinate, tracks it and sends it.\<close>

definition assign :: "agent_env \<Rightarrow> string \<Rightarrow> string \<Rightarrow> ('st lead_agent, unit) op" where
  "assign e subordinate_id subtask =
     bind_op (gets ac_agent_id) (\<lambda>me.
     bind_op (draw e) (\<lambda>(uuid, now).
     bind_op (modify (on_coord (trackPendingSubordinate uuid subordinate_id))) (\<lambda>_.
       sendMessage (create_command uuid now me subordinate_id subtask None))))"

section \<open>Component lead\<close>

datatype component_state = C_IDLE | C_PLANNING | C_WAITING_FOR_MODULES | C_AGGREGATING | C_ERROR

primrec component_stateToString :: "component_state \<Rightarrow> string" where
  "component_stateToString C_IDLE = ''IDLE''"
| "component_stateToString C_PLANNING = ''PLANNING''"
| "component_stateToString C_WAITING_FOR_MODULES = ''WAITING_FOR_MODULES''"
| "component_stateToString C_AGGREGATING = ''AGGREGATING''"
| "component_stateToString C_ERROR = ''ERROR''"

definition component_isSubordinateResult :: "keystone_message \<Rightarrow> bool" where
  "component_isSubordinateResult msg \<longleftrightarrow> m_command msg = ''module_result''"

definition module_regex :: regex where
  "module_regex = Cat (plus (Cls is_word)) (Cat (lit ''('')
     (Cat (plus (Cls (\<lambda>c. is_digit c \<or> c = CHR ''+''))) (lit '')'')))"

text \<open>The groups of a match of \<open>(\w+)\(([0-9+]+)\)\<close>: the text before the parenthesis and the text inside.\<close>

definition component_decomposeGoal :: "string \<Rightarrow> string list" where
  "component_decomposeGoal goal =
     map (\<lambda>m. let module_name = takeWhile (\<lambda>c. c \<noteq> CHR ''('') m;
                  numbers = butlast (tl (dropWhile (\<lambda>c. c \<noteq> CHR ''('') m))
              in ''Calculate '' @ module_name @ '': '' @ numbers)
       (regex_matches module_regex goal)"

fun component_delegate_from :: "agent_env \<Rightarrow> nat \<Rightarrow> string list \<Rightarrow> (component_state lead_agent, unit) op" where
  "component_delegate_from e i [] = ret ()"
| "component_delegate_from e i (subtask # subtasks) =
     bind_op (gets la_available) (\<lambda>available_module_leads.
     if available_module_leads = [] then throw (Runtime_Error ''No ModuleLeadAgents available for delegation'')
     else if i \<ge> length available_module_leads
     then throw (Runtime_Error ''Not enough ModuleLeadAgents for all modules'')
     else
       bind_op (assign e (available_module_leads ! i) subtask) (\<lambda>_.
         component_delegate_from e (Suc i) subtasks))"

definition component_processSubordinateResult ::
    "keystone_message \<Rightarrow> component_state lead_agent \<Rightarrow> component_state lead_agent" where
  "component_processSubordinateResult result_msg a =
     (case m_payload result_msg of
        None \<Rightarrow> a
      | Some p \<Rightarrow>
          let (all_complete, c) = recordResult p (la_coord a) in
          a\<lparr>la_coord := (if all_complete then transitionTo C_AGGREGATING (component_stateToString C_AGGREGATING) c else c)\<rparr>)"

definition component_class :: "component_state lead_class" where
  "component_class =
     \<lparr>lc_idle = C_IDLE, lc_planning = C_PLANNING, lc_waiting = C_WAITING_FOR_MODULES, lc_aggregating = C_AGGREGATING,
      lc_error = C_ERROR, lc_name = component_stateToString, lc_decomposeGoal = component_decomposeGoal,
      lc_delegateSubtasks = (\<lambda>e. component_delegate_from e 0),
      lc_isSubordinateResult = component_isSubordinateResult,
      lc_processSubordinateResult = component_processSubordinateResult\<rparr>"

definition failure_summary :: "string \<Rightarrow> 'st coordination \<Rightarrow> string" where
  "failure_summary what_failed c =
     ''ERROR: '' @ string_of_nat (co_failed c) @ '' subordinate '' @ what_failed @ ''(s) failed'' @
     (case co_failures c of [] \<Rightarrow> [] | f # _ \<Rightarrow> '': '' @ f)"

fun join :: "string \<Rightarrow> string list \<Rightarrow> string" where
  "join sep [] = []"
| "join sep [x] = x"
| "join sep (x # y # ys) = x @ sep @ join sep (y # ys)"

definition synthesizeComponentResult :: "component_state lead_agent \<Rightarrow> string \<times> component_state lead_agent" where
  "synthesizeComponentResult a =
     (let c = la_coord a in
      if co_state c = C_ERROR then (failure_summary ''module'' c, a)
      else if co_state c \<noteq> C_AGGREGATING \<and> co_state c \<noteq> C_WAITING_FOR_MODULES
      then (''ERROR: Cannot synthesize in current state'', a)
      else (''Component result: '' @ join '', '' (co_results c), enter component_class C_IDLE a))"

section \<open>Module lead\<close>

datatype module_state = M_IDLE | M_PLANNING | M_WAITING_FOR_TASKS | M_SYNTHESIZING | M_ERROR

primrec module_stateToString :: "module_state \<Rightarrow> string" where
  "module_stateToString M_IDLE = ''IDLE''"
| "module_stateToString M_PLANNING = ''PLANNING''"
| "module_stateToString M_WAITING_FOR_TASKS = ''WAITING_FOR_TASKS''"
| "module_stateToString M_SYNTHESIZING = ''SYNTHESIZING''"
| "module_stateToString M_ERROR = ''ERROR''"

definition module_isSubordinateResult :: "keystone_message \<Rightarrow> bool" where
  "module_isSubordinateResult msg \<longleftrightarrow> m_command msg = ''response'' \<and> m_action_type msg \<noteq> TASK_FAILED"

definition module_decomposeGoal :: "string \<Rightarrow> string list" where
  "module_decomposeGoal goal = map (\<lambda>number. ''echo '' @ number) (regex_matches (plus (Cls is_digit)) goal)"

fun module_delegate_from :: "agent_env \<Rightarrow> nat \<Rightarrow> string list \<Rightarrow> (module_state lead_agent, unit) op" where
  "module_delegate_from e i [] = ret ()"
| "module_delegate_from e i (subtask # subtasks) =
     bind_op (gets la_available) (\<lambda>available_task_agents.
     if available_task_agents = [] then throw (Runtime_Error ''No TaskAgents available for delegation'')
     else
       bind_op (assign e (available_task_agents ! (i mod length available_task_agents)) subtask) (\<lambda>_.
         module_delegate_from e (Suc i) subtasks))"

definition module_processSubordinateResult ::
    "keystone_message \<Rightarrow> module_state lead_agent \<Rightarrow> module_state lead_agent" where
  "module_processSubordinateResult result_msg a =
     (case m_payload result_msg of
        None \<Rightarrow> a
      | Some p \<Rightarrow>
          let (all_complete, c) = recordResult p (la_coord a) in
          a\<lparr>la_coord :=
            (if all_complete then
               if hasFailures c then transitionTo M_ERROR (module_stateToString M_ERROR) c
               else transitionTo M_SYNTHESIZING (module_stateToString M_SYNTHESIZING) c
             else c)\<rparr>)"

definition module_class :: "module_state lead_class" where
  "module_class =
     \<lparr>lc_idle = M_IDLE, lc_planning = M_PLANNING, lc_waiting = M_WAITING_FOR_TASKS, lc_aggregating = M_SYNTHESIZING,
      lc_error = M_ERROR, lc_name = module_stateToString, lc_decomposeGoal = module_decomposeGoal,
      lc_delegateSubtasks = (\<lambda>e. module_delegate_from e 0),
      lc_isSubordinateResult = module_isSubordinateResult,
      lc_processSubordinateResult = module_processSubordinateResult\<rparr>"

text \<open>The sum is kept in 32 bits; results that are no number are skipped.\<close>

definition add_result :: "string \<Rightarrow> int \<Rightarrow> int" where
  "add_result res acc = (case stoi res of Inr v \<Rightarrow> wrap32 (acc + v) | Inl e \<Rightarrow> acc)"

definition synthesizeResults :: "module_state lead_agent \<Rightarrow> string \<times> module_state lead_agent" where
  "synthesizeResults a =
     (let c = la_coord a in
      if co_state c = M_ERROR then (failure_summary ''task'' c, a)
      else if co_state c \<noteq> M_SYNTHESIZING \<and> co_state c \<noteq> M_WAITING_FOR_TASKS
      then (''ERROR: Cannot synthesize in current state'', a)
      else (''Module result: Sum = '' @ string_of_int (fold add_result (co_results c) 0), enter module_class M_IDLE a))"

section \<open>Chief architect\<close>

definition chief_processMessage :: "agent_env \<Rightarrow> int \<Rightarrow> keystone_message \<Rightarrow> (agent_core, response) op" where
  "chief_processMessage e now msg =
     (if m_action_type msg = CANCEL_TASK then lead_cancel e now msg
      else bind_op (gets ac_agent_id) (\<lambda>me.
        case m_payload msg of
          None \<Rightarrow> ret (createError now msg me ''Missing payload in message'')
        | Some p \<Rightarrow> ret (createSuccess now msg me p)))"

section \<open>Reports of subordinates\<close>

lemma for_op_snoc: "for_op f (xs @ [x]) = bind_op (for_op f xs) (\<lambda>_. f x)"
  by (induction xs) (auto simp: op_simps fun_eq_iff split: prod.split sum.split)

definition is_failure :: "keystone_message \<Rightarrow> bool" where
  "is_failure msg \<longleftrightarrow> m_action_type msg = TASK_FAILED"

definition failure_text :: "keystone_message \<Rightarrow> string" where
  "failure_text msg = (case m_payload msg of Some p \<Rightarrow> p | None \<Rightarrow> ''subordinate task failed'')"

definition failures :: "keystone_message list \<Rightarrow> string list" where
  "failures ms = map failure_text (filter is_failure ms)"

definition successes :: "keystone_message list \<Rightarrow> string list" where
  "successes ms = map (the \<circ> m_payload) (filter (\<lambda>m. \<not> is_failure m) ms)"

definition is_report :: "'st lead_class \<Rightarrow> keystone_message \<Rightarrow> bool" where
  "is_report cls msg \<longleftrightarrow> is_failure msg
     \<or> m_action_type msg \<noteq> CANCEL_TASK \<and> lc_isSubordinateResult cls msg \<and> m_payload msg \<noteq> None"

text \<open>A lead working through its messages, each with the time it is processed at.\<close>

definition lead_works ::
    "'st lead_class \<Rightarrow> agent_env \<Rightarrow> (int \<times> keystone_message) list \<Rightarrow> ('st lead_agent, unit) op" where
  "lead_works cls e = for_op (\<lambda>(now, msg). bind_op (lead_processMessage cls e now msg) (\<lambda>_. ret ()))"

definition waits_for :: "nat \<Rightarrow> 'st lead_agent \<Rightarrow> bool" where
  "waits_for n a \<longleftrightarrow> co_expected (la_coord a) = n \<and> co_received (la_coord a) = 0 \<and> co_failed (la_coord a) = 0
     \<and> co_results (la_coord a) = [] \<and> co_failures (la_coord a) = []"

lemma lists_snoc [simp]:
  "failures (ms @ [m]) = failures ms @ (if is_failure m then [failure_text m] else [])"
  "successes (ms @ [m]) = successes ms @ (if is_failure m then [] else [the (m_payload m)])"
  by (simp_all add: failures_def successes_def)

lemma lists_Nil [simp]: "failures [] = []" "successes [] = []"
  by (simp_all add: failures_def successes_def)

lemma failures_Nil_iff: "failures ms = [] \<longleftrightarrow> (\<forall>m \<in> set ms. \<not> is_failure m)"
  by (simp add: failures_def filter_empty_conv)

text \<open>What the two kinds of leads share: a result is recorded, and the last one settles the goal in a state that
depends on whether a failure was recorded.\<close>

locale reporting_lead =
  fixes cls :: "'st lead_class" and settled :: "bool \<Rightarrow> 'st"
  assumes result_hook: "m_payload msg = Some p \<Longrightarrow> lc_processSubordinateResult cls msg a =
    (let (all_complete, c) = recordResult p (la_coord a) in
     a\<lparr>la_coord := (if all_complete then transitionTo (settled (hasFailures c)) (lc_name cls (settled (hasFailures c))) c
       else c)\<rparr>)"
begin

definition after :: "nat \<Rightarrow> keystone_message list \<Rightarrow> 'st lead_agent \<Rightarrow> 'st lead_agent \<Rightarrow> bool" where
  "after n ms a a' \<longleftrightarrow>
     co_expected (la_coord a') = n \<and> co_received (la_coord a') = length ms
     \<and> co_failed (la_coord a') = length (failures ms) \<and> co_results (la_coord a') = successes ms
     \<and> co_failures (la_coord a') = failures ms \<and> co_requester (la_coord a') = co_requester (la_coord a)
     \<and> ac_message_bus a' \<and> ac_agent_id a' = ac_agent_id a
     \<and> co_state (la_coord a') =
         (if length ms < n then co_state (la_coord a) else if is_failure (last ms) then lc_error cls
          else settled (failures ms \<noteq> []))
     \<and> (\<exists>out. ac_sent a' = ac_sent a @ out
          \<and> map (\<lambda>m. (m_receiver_id m, m_action_type m, m_payload m)) out =
              (if length ms = n \<and> ms \<noteq> [] \<and> is_failure (last ms) \<and> co_requester (la_coord a) \<noteq> []
               then [(co_requester (la_coord a), TASK_FAILED, Some (failure_text (last ms)))] else []))"

lemma process_failure:
  assumes "after n ms a a'" and "length ms < n" and "is_failure m"
  shows "\<exists>r a2. lead_processMessage cls e now m a' = (Inr r, a2) \<and> after n (ms @ [m]) a a2"
  using assms
  by (auto simp: after_def lead_processMessage_def processSubordinateFailure_def is_failure_def recordFailure_def Let_def
      op_simps send_new_def draw_def sendMessage_def enter_def on_coord_def transitionTo_def failure_text_def
      create_action_def)

lemma process_success:
  assumes "after n ms a a'" and "length ms < n" and "is_report cls m" and "\<not> is_failure m"
  shows "\<exists>r a2. lead_processMessage cls e now m a' = (Inr r, a2) \<and> after n (ms @ [m]) a a2"
proof -
  obtain p where p: "m_payload m = Some p" and m: "m_action_type m \<noteq> CANCEL_TASK" "m_action_type m \<noteq> TASK_FAILED"
    "lc_isSubordinateResult cls m" using assms(3,4) by (auto simp: is_report_def is_failure_def)
  show ?thesis using assms(1,2,4) m
    by (auto simp: after_def lead_processMessage_def op_simps result_hook [OF p] recordResult_def Let_def hasFailures_def
        transitionTo_def p)
qed

lemma works_reports:
  assumes "waits_for n a" and "ac_message_bus a" and "list_all (is_report cls \<circ> snd) ms" and "length ms \<le> n" and "0 < n"
  shows "\<exists>a'. lead_works cls e ms a = (Inr (), a') \<and> after n (map snd ms) a a'"
  using assms(3,4)
proof (induction ms rule: rev_induct)
  case Nil
  show ?case using assms by (simp add: lead_works_def op_simps after_def waits_for_def)
next
  case (snoc m ms)
  obtain now msg where m: "m = (now, msg)" by (cases m)
  obtain a1 where run: "lead_works cls e ms a = (Inr (), a1)" and a1: "after n (map snd ms) a a1"
    using snoc by auto
  have "length (map snd ms) < n" and "is_report cls msg" using snoc.prems m by auto
  then obtain r a2 where "lead_processMessage cls e now msg a1 = (Inr r, a2)" "after n (map snd ms @ [msg]) a a2"
    using process_failure [OF a1] process_success [OF a1] by metis
  then show ?case using run by (simp add: lead_works_def for_op_snoc op_simps m)
qed

end

definition module_settled :: "bool \<Rightarrow> module_state" where
  "module_settled failed = (if failed then M_ERROR else M_SYNTHESIZING)"

definition component_settled :: "bool \<Rightarrow> component_state" where
  "component_settled failed = C_AGGREGATING"

interpretation modl: reporting_lead module_class module_settled
  by unfold_locales
    (simp add: module_class_def module_processSubordinateResult_def module_settled_def recordResult_def Let_def)

interpretation comp: reporting_lead component_class component_settled
  by unfold_locales
    (simp add: component_class_def component_processSubordinateResult_def component_settled_def recordResult_def Let_def)

lemma class_states: "lc_error module_class = M_ERROR" "lc_error component_class = C_ERROR"
  by (simp_all add: module_class_def component_class_def)

text \<open>C14: A module lead that waits for as many reports as it handed out subtasks ends in \<open>ERROR\<close> exactly if one of
the reports is a failure and in \<open>SYNTHESIZING\<close> otherwise, with the results kept in the order they came in. It
tells its requester of the failure exactly if the last report is a failure: a failure followed by a success leaves
the lead in \<open>ERROR\<close> without a word to the requester.\<close>

theorem module_outcome:
  assumes "ac_message_bus a" and "waits_for (length ms) a" and "ms \<noteq> []" and "list_all (is_report module_class \<circ> snd) ms"
  shows "\<exists>a' out. lead_works module_class e ms a = (Inr (), a')
    \<and> co_state (la_coord a') = (if list_ex (is_failure \<circ> snd) ms then M_ERROR else M_SYNTHESIZING)
    \<and> co_results (la_coord a') = successes (map snd ms) \<and> co_failures (la_coord a') = failures (map snd ms)
    \<and> ac_sent a' = ac_sent a @ out
    \<and> map (\<lambda>m. (m_receiver_id m, m_action_type m, m_payload m)) out =
        (if is_failure (snd (last ms)) \<and> co_requester (la_coord a) \<noteq> []
         then [(co_requester (la_coord a), TASK_FAILED, Some (failure_text (snd (last ms))))] else [])"
proof -
  obtain a' where run: "lead_works module_class e ms a = (Inr (), a')"
    and a': "modl.after (length ms) (map snd ms) a a'"
    using modl.works_reports [OF assms(2,1,4)] assms(3) by auto
  have last: "last (map snd ms) = snd (last ms)" using assms(3) by (simp add: last_map)
  have "is_failure (snd (last ms)) \<Longrightarrow> list_ex (is_failure \<circ> snd) ms" using assms(3) by (auto simp: list_ex_iff)
  moreover have "failures (map snd ms) = [] \<longleftrightarrow> \<not> list_ex (is_failure \<circ> snd) ms" by (auto simp: failures_Nil_iff list_ex_iff)
  ultimately have state: "co_state (la_coord a') = (if list_ex (is_failure \<circ> snd) ms then M_ERROR else M_SYNTHESIZING)"
    using a' unfolding modl.after_def last by (auto simp: module_settled_def class_states)
  obtain out where "ac_sent a' = ac_sent a @ out" "map (\<lambda>m. (m_receiver_id m, m_action_type m, m_payload m)) out =
      (if is_failure (snd (last ms)) \<and> co_requester (la_coord a) \<noteq> []
       then [(co_requester (la_coord a), TASK_FAILED, Some (failure_text (snd (last ms))))] else [])"
    using a' assms(3) unfolding modl.after_def last by auto
  then show ?thesis using run state a' unfolding modl.after_def by blast
qed

definition sample_lead :: "'st \<Rightarrow> 'st lead_agent" where
  "sample_lead st = agent_core.extend ((new_core ''lead'')\<lparr>ac_message_bus := True\<rparr>)
     \<lparr>la_coord = (new_coordination st)\<lparr>co_expected := 2, co_requester := ''top''\<rparr>, la_available = []\<rparr>"

definition sample_env :: agent_env where
  "sample_env = \<lparr>ae_uuid = \<lambda>_. ''u'', ae_now = \<lambda>_. 0\<rparr>"

definition sample_failure :: keystone_message where
  "sample_failure = create_action ''u'' 0 ''t1'' ''lead'' TASK_FAILED ''s'' (Some ''boom'') TEXT_PLAIN"

definition sample_result :: "string \<Rightarrow> keystone_message" where
  "sample_result command = create_command ''v'' 0 ''t2'' ''lead'' command (Some ''7'')"

lemmas sample_defs = sample_lead_def sample_failure_def sample_result_def agent_core.defs new_core_def new_coordination_def
  create_action_def create_command_def waits_for_def is_report_def is_failure_def

theorem module_outcome_witness:
  "\<exists>a'. lead_works module_class sample_env [(0, sample_failure), (1, sample_result ''response'')] (sample_lead M_WAITING_FOR_TASKS)
       = (Inr (), a') \<and> co_state (la_coord a') = M_ERROR \<and> ac_sent a' = []"
proof -
  have "list_all (is_report module_class \<circ> snd) [(0, sample_failure), (1, sample_result ''response'')]"
    by (simp add: sample_defs module_class_def module_isSubordinateResult_def)
  from module_outcome [OF _ _ _ this, of "sample_lead M_WAITING_FOR_TASKS" sample_env]
  show ?thesis by (auto simp: sample_defs)
qed

text \<open>A component lead ends in \<open>ERROR\<close> exactly if the last of its reports is a failure. Otherwise it aggregates
the results it has, whatever failures came before, and the synthesis does not mention them.\<close>

lemma component_outcome:
  assumes "ac_message_bus a" and "waits_for (length ms) a" and "ms \<noteq> []" and "list_all (is_report component_class \<circ> snd) ms"
  shows "\<exists>a'. lead_works component_class e ms a = (Inr (), a')
    \<and> co_failures (la_coord a') = failures (map snd ms)
    \<and> fst (synthesizeComponentResult a') =
        (if is_failure (snd (last ms))
         then ''ERROR: '' @ string_of_nat (length (failures (map snd ms))) @ '' subordinate module(s) failed: ''
           @ hd (failures (map snd ms))
         else ''Component result: '' @ join '', '' (successes (map snd ms)))
    \<and> co_state (la_coord (snd (synthesizeComponentResult a'))) =
        (if is_failure (snd (last ms)) then C_ERROR else C_IDLE)"
proof -
  obtain a' where run: "lead_works component_class e ms a = (Inr (), a')"
    and a': "comp.after (length ms) (map snd ms) a a'"
    using comp.works_reports [OF assms(2,1,4)] assms(3) by auto
  have last: "last (map snd ms) = snd (last ms)" using assms(3) by (simp add: last_map)
  have "is_failure (snd (last ms)) \<Longrightarrow> failures (map snd ms) \<noteq> []"
    using assms(3) by (auto simp: failures_Nil_iff dest: last_in_set)
  then have "is_failure (snd (last ms)) \<Longrightarrow> \<exists>f fs. failures (map snd ms) = f # fs" by (metis neq_Nil_conv)
  then show ?thesis using run a' unfolding comp.after_def last
    by (auto simp: component_settled_def synthesizeComponentResult_def Let_def failure_summary_def class_states
        enter_def on_coord_def transitionTo_def)
qed

lemma component_outcome_witness:
  "\<exists>a'. lead_works component_class sample_env [(0, sample_failure), (1, sample_result ''module_result'')]
       (sample_lead C_WAITING_FOR_MODULES) = (Inr (), a')
     \<and> co_failures (la_coord a') = [''boom''] \<and> fst (synthesizeComponentResult a') = ''Component result: 7''"
proof -
  have "list_all (is_report component_class \<circ> snd) [(0, sample_failure), (1, sample_result ''module_result'')]"
    by (simp add: sample_defs component_class_def component_isSubordinateResult_def)
  from component_outcome [OF _ _ _ this, of "sample_lead C_WAITING_FOR_MODULES" sample_env]
  show ?thesis by (auto simp: sample_defs failures_def successes_def failure_text_def)
qed

end
