(* ===== verification/Agent_Router.thy ===== *)
theory Agent_Router
  imports Lead_Agents
begin

text \<open>
  The in-process router (\<open>include/agamemnon_agents/core/in_process_router.hpp\<close>) with the agents it connects. Agents
  live in a heap and the router maps identifiers to addresses, so one agent may be registered under two identifiers
  and a null pointer may be registered. An agent without a scheduler keeps its messages in its inbox until it is
  polled; an agent with one submits a work item for each message (\<open>AsyncAgent::receiveMessage\<close>,
  \<open>src/agents/async_agent.cpp\<close>), and \<open>rt_submitted\<close> lists the items not yet run. An agent handles one message
  without interruption: what it sends is routed when the handler returns, which nobody can tell apart, since routing
  only fills inboxes and lists of work items and no handler reads its own inbox.
\<close>

section \<open>Agents of the four kinds\<close>

datatype agent =
  TaskAgent task_agent
| ModuleLead "module_state lead_agent"
| ComponentLead "component_state lead_agent"
| ChiefArchitect agent_core

primrec core_of :: "agent \<Rightarrow> agent_core" where
  "core_of (TaskAgent a) = agent_core.truncate a"
| "core_of (ModuleLead a) = agent_core.truncate a"
| "core_of (ComponentLead a) = agent_core.truncate a"
| "core_of (ChiefArchitect a) = a"

primrec agent_receive :: "keystone_message \<Rightarrow> agent \<Rightarrow> agent" where
  "agent_receive msg (TaskAgent a) = TaskAgent (receiveMessage msg a)"
| "agent_receive msg (ModuleLead a) = ModuleLead (receiveMessage msg a)"
| "agent_receive msg (ComponentLead a) = ComponentLead (receiveMessage msg a)"
| "agent_receive msg (ChiefArchitect a) = ChiefArchitect (receiveMessage msg a)"

primrec agent_setScheduler :: "bool \<Rightarrow> agent \<Rightarrow> agent" where
  "agent_setScheduler sched (TaskAgent a) = TaskAgent (a\<lparr>ac_scheduler := sched\<rparr>)"
| "agent_setScheduler sched (ModuleLead a) = ModuleLead (a\<lparr>ac_scheduler := sched\<rparr>)"
| "agent_setScheduler sched (ComponentLead a) = ComponentLead (a\<lparr>ac_scheduler := sched\<rparr>)"
| "agent_setScheduler sched (ChiefArchitect a) = ChiefArchitect (a\<lparr>ac_scheduler := sched\<rparr>)"

primrec agent_getMessage ::
    "(keystone_message list \<Rightarrow> nat) \<Rightarrow> int \<Rightarrow> agent \<Rightarrow> keystone_message option \<times> agent" where
  "agent_getMessage pick now (TaskAgent a) = map_prod id TaskAgent (getMessage pick now a)"
| "agent_getMessage pick now (ModuleLead a) = map_prod id ModuleLead (getMessage pick now a)"
| "agent_getMessage pick now (ComponentLead a) = map_prod id ComponentLead (getMessage pick now a)"
| "agent_getMessage pick now (ChiefArchitect a) = map_prod id ChiefArchitect (getMessage pick now a)"

primrec agent_process :: "task_env \<Rightarrow> int \<Rightarrow> keystone_message \<Rightarrow> (agent, response) op" where
  "agent_process e now msg (TaskAgent a) = map_prod id TaskAgent (task_processMessage e now msg a)"
| "agent_process e now msg (ModuleLead a) =
     map_prod id ModuleLead (lead_processMessage module_class (agent_env.truncate e) now msg a)"
| "agent_process e now msg (ComponentLead a) =
     map_prod id ComponentLead (lead_processMessage component_class (agent_env.truncate e) now msg a)"
| "agent_process e now msg (ChiefArchitect a) =
     map_prod id ChiefArchitect (chief_processMessage (agent_env.truncate e) now msg a)"

section \<open>The router\<close>

record runtime =
  rt_heap :: "agent option list"
  rt_agents :: "nat option umap"
  rt_scheduler :: bool
  rt_submitted :: "(nat \<times> keystone_message) list"

definition agent_at :: "runtime \<Rightarrow> nat \<Rightarrow> agent option" where
  "agent_at rt p = (if p < length (rt_heap rt) then rt_heap rt ! p else None)"

definition put_agent :: "nat \<Rightarrow> agent \<Rightarrow> runtime \<Rightarrow> runtime" where
  "put_agent p ag rt = rt\<lparr>rt_heap := (rt_heap rt)[p := Some ag]\<rparr>"

definition change_agent :: "(agent \<Rightarrow> agent) \<Rightarrow> nat \<Rightarrow> runtime \<Rightarrow> runtime" where
  "change_agent f p rt = (case agent_at rt p of None \<Rightarrow> rt | Some ag \<Rightarrow> put_agent p (f ag) rt)"

definition hasAgent :: "runtime \<Rightarrow> string \<Rightarrow> bool" where
  "hasAgent rt agent_id \<longleftrightarrow> map_of (rt_agents rt) agent_id \<noteq> None"

definition listAgents :: "runtime \<Rightarrow> string list" where
  "listAgents rt = map fst (rt_agents rt)"

definition registerAgent :: "string \<Rightarrow> nat option \<Rightarrow> (runtime, unit) op" where
  "registerAgent agent_id agent rt =
     (if hasAgent rt agent_id
      then (Inl (Runtime_Error (''InProcessRouter::registerAgent: agent already registered: '' @ agent_id)), rt)
      else
        let rt1 = (case agent of
            Some p \<Rightarrow> if rt_scheduler rt then change_agent (agent_setScheduler True) p rt else rt
          | None \<Rightarrow> rt)
        in (Inr (), rt1\<lparr>rt_agents := AList.update agent_id agent (rt_agents rt1)\<rparr>))"

definition registerAgent_checked :: "nat option \<Rightarrow> (runtime, unit) op" where
  "registerAgent_checked agent rt =
     (case Option.bind agent (\<lambda>p. map_option (Pair p) (agent_at rt p)) of
        None \<Rightarrow> (Inl (Runtime_Error ''InProcessRouter::registerAgent: null agent pointer''), rt)
      | Some (p, ag) \<Rightarrow> registerAgent (ac_agent_id (core_of ag)) (Some p) rt)"

definition unregisterAgent :: "string \<Rightarrow> runtime \<Rightarrow> runtime" where
  "unregisterAgent agent_id rt = rt\<lparr>rt_agents := AList.delete agent_id (rt_agents rt)\<rparr>"

definition setScheduler :: "bool \<Rightarrow> runtime \<Rightarrow> runtime" where
  "setScheduler scheduler rt =
     fold (\<lambda>(agent_id, agent). case agent of
         Some p \<Rightarrow> change_agent (agent_setScheduler scheduler) p
       | None \<Rightarrow> id) (rt_agents rt) (rt\<lparr>rt_scheduler := scheduler\<rparr>)"

text \<open>\<open>AsyncAgent::receiveMessage\<close>\<close>

definition async_receive :: "nat \<Rightarrow> keystone_message \<Rightarrow> runtime \<Rightarrow> runtime" where
  "async_receive p msg rt =
     (case agent_at rt p of
        None \<Rightarrow> rt
      | Some ag \<Rightarrow>
          if \<not> ac_scheduler (core_of ag) then put_agent p (agent_receive msg ag) rt
          else rt\<lparr>rt_submitted := rt_submitted rt @ [(p, msg)]\<rparr>)"

definition routeMessage :: "keystone_message \<Rightarrow> runtime \<Rightarrow> bool \<times> runtime" where
  "routeMessage msg rt =
     (case map_of (rt_agents rt) (m_receiver_id msg) of
        None \<Rightarrow> (False, rt)
      | Some None \<Rightarrow> (False, rt)
      | Some (Some p) \<Rightarrow> (True, async_receive p msg rt))"

definition route_all :: "keystone_message list \<Rightarrow> runtime \<Rightarrow> runtime" where
  "route_all = fold (\<lambda>msg rt. snd (routeMessage msg rt))"

text \<open>The agent at an address handles a message; an exception of the handler is dropped with the coroutine's result.
A work item whose agent is gone does nothing.\<close>

definition sent_since :: "agent \<Rightarrow> agent \<Rightarrow> keystone_message list" where
  "sent_since ag ag' = drop (length (ac_sent (core_of ag))) (ac_sent (core_of ag'))"

definition run_handler :: "task_env \<Rightarrow> int \<Rightarrow> nat \<Rightarrow> keystone_message \<Rightarrow> runtime \<Rightarrow> runtime" where
  "run_handler e now p msg rt =
     (case agent_at rt p of
        None \<Rightarrow> rt
      | Some ag \<Rightarrow>
          let ag' = snd (agent_process e now msg ag) in route_all (sent_since ag ag') (put_agent p ag' rt))"

text \<open>What can happen next: someone polls an agent and has it handle the message it got, or a worker runs one of the
submitted items.\<close>

inductive rt_step :: "task_env \<Rightarrow> runtime \<Rightarrow> runtime \<Rightarrow> bool" for e where
  Poll: "agent_at rt p = Some ag \<Longrightarrow> agent_getMessage pick now ag = (Some msg, ag1)
    \<Longrightarrow> rt_step e rt (run_handler e now' p msg (put_agent p ag1 rt))"
| Work: "i < length (rt_submitted rt) \<Longrightarrow> rt_submitted rt ! i = (p, msg)
    \<Longrightarrow> rt_step e rt (run_handler e now p msg
          (rt\<lparr>rt_submitted := take i (rt_submitted rt) @ drop (Suc i) (rt_submitted rt)\<rparr>))"

text \<open>\<open>ChiefArchitectAgent::sendCommand\<close>: the first half sends the command, the second takes a message from the
chief's own inbox; \<open>others\<close> is what the other threads do in between.\<close>

definition command_out :: "task_env \<Rightarrow> nat \<Rightarrow> string \<Rightarrow> string \<Rightarrow> (runtime, keystone_message) op" where
  "command_out e p command task_agent_id rt =
     (case agent_at rt p of
        Some (ChiefArchitect a) \<Rightarrow>
          let msg = create_command (ae_uuid e (ac_draws a)) (ae_now e (ac_draws a)) (ac_agent_id a) task_agent_id command None;
              (r, a1) = sendMessage msg (a\<lparr>ac_draws := Suc (ac_draws a)\<rparr>);
              rt1 = put_agent p (ChiefArchitect a1) rt
          in (case r of Inl ex \<Rightarrow> (Inl ex, rt1) | Inr _ \<Rightarrow> (Inr msg, snd (routeMessage msg rt1)))
      | _ \<Rightarrow> (Inl (Runtime_Error ''no such agent''), rt))"

definition answer_in ::
    "task_env \<Rightarrow> (keystone_message list \<Rightarrow> nat) \<Rightarrow> int \<Rightarrow> nat \<Rightarrow> keystone_message \<Rightarrow> (runtime, response) op" where
  "answer_in e pick now p msg rt =
     (case agent_at rt p of
        Some (ChiefArchitect a) \<Rightarrow>
          (case getMessage pick now a of
             (Some response_msg, a1) \<Rightarrow>
               let (r, a2) = chief_processMessage (agent_env.truncate e) now response_msg a1 in
               (r, route_all (sent_since (ChiefArchitect a1) (ChiefArchitect a2)) (put_agent p (ChiefArchitect a2) rt))
           | (None, a1) \<Rightarrow>
               (Inr (createError now msg (ac_agent_id a) ''No response received''), put_agent p (ChiefArchitect a1) rt))
      | _ \<Rightarrow> (Inl (Runtime_Error ''no such agent''), rt))"

definition sendCommand ::
    "task_env \<Rightarrow> (keystone_message list \<Rightarrow> nat) \<Rightarrow> int \<Rightarrow> (runtime \<Rightarrow> runtime) \<Rightarrow> nat \<Rightarrow> string \<Rightarrow> string
       \<Rightarrow> (runtime, response) op" where
  "sendCommand e pick now others p command task_agent_id =
     bind_op (command_out e p command task_agent_id) (\<lambda>msg.
     bind_op (modify others) (\<lambda>_. answer_in e pick now p msg))"

section \<open>Registration\<close>

text \<open>The map of registered agents follows the laws of the library's map; the other operations leave it alone.\<close>

lemma agents_unchanged [simp]:
  "rt_agents (put_agent p ag rt) = rt_agents rt" "rt_agents (change_agent f p rt) = rt_agents rt"
  "rt_agents (async_receive p msg rt) = rt_agents rt" "rt_agents (snd (routeMessage msg rt)) = rt_agents rt"
  by (simp_all add: put_agent_def change_agent_def async_receive_def routeMessage_def split: option.split)

lemma agents_route_all [simp]: "rt_agents (route_all msgs rt) = rt_agents rt"
  unfolding route_all_def by (induction msgs arbitrary: rt) simp_all

lemma agents_run_handler [simp]: "rt_agents (run_handler e now p msg rt) = rt_agents rt"
  by (simp add: run_handler_def Let_def split: option.split)

lemma agents_setScheduler [simp]: "rt_agents (setScheduler sched rt) = rt_agents rt"
proof -
  have "rt_agents (fold (\<lambda>(agent_id, agent). case agent of Some p \<Rightarrow> change_agent f p | None \<Rightarrow> id) xs rt0) = rt_agents rt0"
    for f xs and rt0
    by (induction xs arbitrary: rt0) (auto split: option.split)
  from this [of "agent_setScheduler sched" "rt_agents rt" "rt\<lparr>rt_scheduler := sched\<rparr>"]
  show ?thesis by (simp add: setScheduler_def)
qed

lemma hasAgent_register:
  "registerAgent agent_id agent rt = (Inr (), rt') \<Longrightarrow> hasAgent rt' i \<longleftrightarrow> i = agent_id \<or> hasAgent rt i"
  by (auto simp: registerAgent_def hasAgent_def Let_def update_conv' split: if_splits option.splits)

lemma hasAgent_unregister: "hasAgent (unregisterAgent agent_id rt) i \<longleftrightarrow> i \<noteq> agent_id \<and> hasAgent rt i"
  by (simp add: unregisterAgent_def hasAgent_def delete_conv')

lemma listAgents_hasAgent: "i \<in> set (listAgents rt) \<longleftrightarrow> hasAgent rt i"
  by (simp add: listAgents_def hasAgent_def map_of_eq_None_iff)

section \<open>Messages under way\<close>

text \<open>An agent apart from its inbox.\<close>

definition strip_inbox :: "'a agent_core_scheme \<Rightarrow> 'a agent_core_scheme" where
  "strip_inbox a = a\<lparr>ac_high := [], ac_normal := [], ac_low := [], ac_last_check := 0, ac_backpressure := False, ac_depth := None\<rparr>"

primrec outside :: "agent \<Rightarrow> agent" where
  "outside (TaskAgent a) = TaskAgent (strip_inbox a)"
| "outside (ModuleLead a) = ModuleLead (strip_inbox a)"
| "outside (ComponentLead a) = ComponentLead (strip_inbox a)"
| "outside (ChiefArchitect a) = ChiefArchitect (strip_inbox a)"

definition inbox :: "agent option \<Rightarrow> keystone_message multiset" where
  "inbox ag = (case ag of None \<Rightarrow> {#} | Some ag \<Rightarrow> queued (core_of ag))"

definition in_flight :: "runtime \<Rightarrow> (nat \<times> keystone_message) multiset" where
  "in_flight rt = mset (rt_submitted rt) + (\<Sum>p<length (rt_heap rt). image_mset (Pair p) (inbox (rt_heap rt ! p)))"

text \<open>Two states of the runtime with the same agents apart from their inboxes.\<close>

definition calm :: "runtime \<Rightarrow> runtime \<Rightarrow> bool" where
  "calm rt rt' \<longleftrightarrow> rt_agents rt' = rt_agents rt \<and> (\<forall>p. map_option outside (agent_at rt' p) = map_option outside (agent_at rt p))"

lemma calm_refl [simp]: "calm rt rt"
  by (simp add: calm_def)

lemma calm_trans [trans]: "calm rt rt' \<Longrightarrow> calm rt' rt'' \<Longrightarrow> calm rt rt''"
  by (simp add: calm_def)

lemma truncate_queued [simp]:
  "queued (agent_core.truncate a) = queued a" "total_depth (agent_core.truncate a) = total_depth a"
  "ac_scheduler (agent_core.truncate a) = ac_scheduler a" "ac_sent (agent_core.truncate a) = ac_sent a"
  by (simp_all add: queued_def total_depth_def agent_core.defs)

lemma strip_receive [simp]: "strip_inbox (receiveMessage msg a) = strip_inbox a"
  by (cases "m_priority msg") (simp_all add: strip_inbox_def receiveMessage_def enqueue_def Let_def)

lemma strip_get [simp]: "strip_inbox (snd (getMessage pick now a)) = strip_inbox a"
  by (auto simp: strip_inbox_def get_defs split: option.split)

lemma agent_receive_laws:
  "outside (agent_receive msg ag) = outside ag"
  "queued (core_of (agent_receive msg ag)) =
    queued (core_of ag) + (if total_depth (core_of ag) < AGENT_MAX_QUEUE_SIZE then {#msg#} else {#})"
  by (cases ag; simp add: queued_receive)+

lemma agent_get_laws:
  assumes "agent_getMessage pick now ag = (r, ag')"
  shows "outside ag' = outside ag"
    and "queued (core_of ag) = queued (core_of ag') + (case r of None \<Rightarrow> {#} | Some m \<Rightarrow> {#m#})"
proof -
  show "outside ag' = outside ag" using assms by (cases ag) (auto simp: map_prod_def split: prod.splits, (metis strip_get snd_conv)+)
  show "queued (core_of ag) = queued (core_of ag') + (case r of None \<Rightarrow> {#} | Some m \<Rightarrow> {#m#})"
    using assms by (cases ag) (auto simp: map_prod_def dest!: queued_get split: prod.splits)
qed

lemma agent_get_None: "fst (agent_getMessage pick now ag) = None \<longleftrightarrow> queued (core_of ag) = {#}"
  by (cases ag) (simp_all add: map_prod_def split_beta get_None_iff)

lemma at_put: "p < length (rt_heap rt) \<Longrightarrow> agent_at (put_agent p ag rt) q = (if q = p then Some ag else agent_at rt q)"
  by (simp add: agent_at_def put_agent_def)

lemma at_length: "agent_at rt p = Some ag \<Longrightarrow> p < length (rt_heap rt)"
  by (simp add: agent_at_def split: if_splits)

lemma at_submitted [simp]: "agent_at (rt\<lparr>rt_submitted := w\<rparr>) p = agent_at rt p"
  by (simp add: agent_at_def)

lemma submitted_put [simp]: "rt_submitted (put_agent p ag rt) = rt_submitted rt"
  by (simp add: put_agent_def)

lemma in_flight_put:
  assumes "agent_at rt p = Some ag"
  shows "in_flight (put_agent p ag' rt) + image_mset (Pair p) (queued (core_of ag))
    = in_flight rt + image_mset (Pair p) (queued (core_of ag'))"
proof -
  have p: "p < length (rt_heap rt)" and ag: "rt_heap rt ! p = Some ag"
    using assms by (simp_all add: agent_at_def split: if_splits)
  show ?thesis
    using sum_list_update [OF p, of "\<lambda>q a. image_mset (Pair q) (inbox a)" "Some ag'"] ag
    by (simp add: in_flight_def put_agent_def inbox_def)
qed

lemma in_flight_put_same:
  "agent_at rt p = Some ag \<Longrightarrow> queued (core_of ag') = queued (core_of ag) \<Longrightarrow> in_flight (put_agent p ag' rt) = in_flight rt"
  using in_flight_put [of rt p ag ag'] by simp

lemma depth_in_flight:
  assumes "agent_at rt p = Some ag"
  shows "total_depth (core_of ag) \<le> size (in_flight rt)"
proof -
  have p: "p < length (rt_heap rt)" "rt_heap rt ! p = Some ag" using assms by (simp_all add: agent_at_def split: if_splits)
  then have "(\<Sum>q<length (rt_heap rt). image_mset (Pair q) (inbox (rt_heap rt ! q))) =
      image_mset (Pair p) (queued (core_of ag))
      + (\<Sum>q\<in>{..<length (rt_heap rt)} - {p}. image_mset (Pair q) (inbox (rt_heap rt ! q)))"
    by (simp add: sum.remove inbox_def)
  then show ?thesis by (simp add: in_flight_def total_depth_queued)
qed

lemma calm_put: "agent_at rt p = Some ag \<Longrightarrow> outside ag' = outside ag \<Longrightarrow> calm rt (put_agent p ag' rt)"
  by (auto simp: calm_def at_put [OF at_length])

lemma async_receive_laws:
  assumes "agent_at rt p = Some ag"
  shows "calm rt (async_receive p msg rt)"
    and "ac_scheduler (core_of ag) \<or> total_depth (core_of ag) < AGENT_MAX_QUEUE_SIZE
      \<Longrightarrow> in_flight (async_receive p msg rt) = add_mset (p, msg) (in_flight rt)"
proof -
  show "calm rt (async_receive p msg rt)"
    using assms calm_put [OF assms agent_receive_laws(1)] by (auto simp: async_receive_def calm_def)
  show "in_flight (async_receive p msg rt) = add_mset (p, msg) (in_flight rt)"
    if "ac_scheduler (core_of ag) \<or> total_depth (core_of ag) < AGENT_MAX_QUEUE_SIZE"
  proof (cases "ac_scheduler (core_of ag)")
    case True
    then show ?thesis using assms by (simp add: async_receive_def in_flight_def)
  next
    case False
    then show ?thesis using assms that in_flight_put [OF assms, of "agent_receive msg ag"]
      by (simp add: async_receive_def agent_receive_laws)
  qed
qed

text \<open>Taking the next message out of an inbox or off the list of work items.\<close>

lemma step_takes:
  assumes "rt_step e rt rt'"
  obtains p msg now rt1 where "rt' = run_handler e now p msg rt1" and "calm rt rt1"
    and "in_flight rt = add_mset (p, msg) (in_flight rt1)"
  using assms
proof cases
  case (Poll p ag pick now msg ag1 now')
  note laws = agent_get_laws [OF Poll(3)]
  have "in_flight rt = add_mset (p, msg) (in_flight (put_agent p ag1 rt))"
    using in_flight_put [OF Poll(2), of ag1] laws(2) by simp
  then show ?thesis using that [OF Poll(1)] calm_put [OF Poll(2) laws(1)] by blast
next
  case (Work i p msg now)
  let ?w = "rt_submitted rt"
  have "mset ?w = mset (take i ?w @ ?w ! i # drop (Suc i) ?w)" using Work(2) by (metis id_take_nth_drop)
  then have "in_flight rt = add_mset (p, msg) (in_flight (rt\<lparr>rt_submitted := take i ?w @ drop (Suc i) ?w\<rparr>))"
    using Work(3) by (simp add: in_flight_def)
  then show ?thesis using that [OF Work(1)] by (simp add: calm_def)
qed

lemma step_exists:
  assumes "in_flight rt \<noteq> {#}"
  shows "\<exists>rt'. rt_step e rt rt'"
proof (cases "rt_submitted rt")
  case (Cons w ws)
  then show ?thesis using rt_step.Work [of 0 rt "fst w" "snd w"] by auto
next
  case Nil
  have "\<exists>p<length (rt_heap rt). inbox (rt_heap rt ! p) \<noteq> {#}"
    by (rule ccontr) (use assms Nil in \<open>simp add: in_flight_def sum.neutral\<close>)
  then obtain p where "p < length (rt_heap rt)" "inbox (rt_heap rt ! p) \<noteq> {#}" by blast
  then obtain ag where "agent_at rt p = Some ag" "queued (core_of ag) \<noteq> {#}"
    by (cases "rt_heap rt ! p") (auto simp: agent_at_def inbox_def)
  moreover have "\<exists>msg ag1. agent_getMessage (\<lambda>_. 0) 0 ag = (Some msg, ag1)"
    using agent_get_None [of "\<lambda>_. 0" 0 ag] calculation(2) by (cases "agent_getMessage (\<lambda>_. 0) 0 ag") auto
  ultimately show ?thesis using rt_step.Poll by blast
qed

lemma create_command_fields [simp]:
  "m_command (create_command u t s r c d) = c" "m_receiver_id (create_command u t s r c d) = r"
  "m_sender_id (create_command u t s r c d) = s" "m_action_type (create_command u t s r c d) = EXECUTE"
  "m_payload (create_command u t s r c d) = d" "m_msg_id (create_command u t s r c d) = u"
  by (simp_all add: create_command_def)

section \<open>What the router promises\<close>

text \<open>A message to a registered live agent is reported as delivered, and one to an unknown or null agent is
reported as not delivered and changes nothing. A delivered message is added to the messages under way, for that agent
and no other, unless the agent has no scheduler and its inbox is full; then the router still reports success and the
message is gone. Apart from inboxes nothing changes.\<close>

lemma route_delivers:
  assumes "map_of (rt_agents rt) (m_receiver_id msg) = Some (Some p)" and "agent_at rt p = Some ag"
    and "map_of (rt_agents rt) other \<in> {None, Some None}"
  shows "fst (routeMessage msg rt) \<and> calm rt (snd (routeMessage msg rt))
    \<and> in_flight (snd (routeMessage msg rt)) =
        (if ac_scheduler (core_of ag) \<or> total_depth (core_of ag) < AGENT_MAX_QUEUE_SIZE
         then add_mset (p, msg) (in_flight rt) else in_flight rt)
    \<and> routeMessage (msg\<lparr>m_receiver_id := other\<rparr>) rt = (False, rt)"
proof -
  have route: "routeMessage msg rt = (True, async_receive p msg rt)" using assms(1) by (simp add: routeMessage_def)
  have "in_flight (async_receive p msg rt) = in_flight rt"
    if "\<not> ac_scheduler (core_of ag)" "\<not> total_depth (core_of ag) < AGENT_MAX_QUEUE_SIZE"
    using assms(2) that in_flight_put_same [OF assms(2), of "agent_receive msg ag"]
    by (simp add: async_receive_def agent_receive_laws)
  moreover have "routeMessage (msg\<lparr>m_receiver_id := other\<rparr>) rt = (False, rt)"
    using assms(3) by (auto simp: routeMessage_def)
  ultimately show ?thesis using route async_receive_laws [OF assms(2)] by auto
qed

definition sample_runtime :: runtime where
  "sample_runtime = \<lparr>rt_heap = [Some (TaskAgent idle_agent)], rt_agents = [(''t'', Some 0)], rt_scheduler = False,
     rt_submitted = []\<rparr>"

lemma route_delivers_witness:
  "in_flight (snd (routeMessage (create_command ''u'' 0 ''c'' ''t'' ''ls'' None) sample_runtime)) =
     {#(0, create_command ''u'' 0 ''c'' ''t'' ''ls'' None)#}"
proof -
  let ?m = "create_command ''u'' 0 ''c'' ''t'' ''ls'' None"
  have "map_of (rt_agents sample_runtime) (m_receiver_id ?m) = Some (Some 0)"
    "agent_at sample_runtime 0 = Some (TaskAgent idle_agent)" "map_of (rt_agents sample_runtime) ''x'' \<in> {None, Some None}"
    by (simp_all add: sample_runtime_def create_command_def agent_at_def)
  from route_delivers [OF this]
  show ?thesis
    by (simp add: sample_runtime_def in_flight_def inbox_def idle_agent_def agent_core.defs new_core_def queued_def
        total_depth_def AGENT_MAX_QUEUE_SIZE_def)
qed

text \<open>The chief architect's \<open>sendCommand\<close> sends the command and at once looks for the answer. When its inbox is
empty, the command goes to somebody else and no other thread acts in between, it returns the error that there was no
response, with or without a scheduler, although the command is under way.\<close>

lemma sendCommand_too_early:
  assumes "agent_at rt p = Some (ChiefArchitect a)" and "ac_message_bus a" and "queued a = {#}"
    and "map_of (rt_agents rt) target = Some (Some q)" and "q \<noteq> p" and "agent_at rt q = Some ag"
    and "ac_scheduler (core_of ag) \<or> total_depth (core_of ag) < AGENT_MAX_QUEUE_SIZE"
  shows "\<exists>msg resp rt'. sendCommand e pick now id p command target rt = (Inr resp, rt') \<and> rp_status resp = Error
    \<and> rp_result resp = ''No response received'' \<and> m_command msg = command
    \<and> in_flight rt' = add_mset (q, msg) (in_flight rt)"
proof -
  let ?msg = "create_command (ae_uuid e (ac_draws a)) (ae_now e (ac_draws a)) (ac_agent_id a) target command None"
  let ?a1 = "a\<lparr>ac_draws := Suc (ac_draws a), ac_sent := ac_sent a @ [?msg]\<rparr>"
  let ?rt1 = "put_agent p (ChiefArchitect ?a1) rt"
  have p: "p < length (rt_heap rt)" by (rule at_length [OF assms(1)])
  have q: "agent_at ?rt1 q = Some ag" using assms(5,6) by (simp add: at_put [OF p])
  have a1: "queued ?a1 = {#}" using assms(3) by (simp add: queued_def)
  have out: "command_out e p command target rt = (Inr ?msg, async_receive q ?msg ?rt1)"
    using assms(1,2,4) by (simp add: command_out_def sendMessage_def routeMessage_def create_command_def Let_def)
  have flight: "in_flight (async_receive q ?msg ?rt1) = add_mset (q, ?msg) (in_flight rt)"
    using async_receive_laws(2) [OF q assms(7)] in_flight_put_same [OF assms(1), of "ChiefArchitect ?a1"] a1 assms(3) by simp
  have chief: "agent_at (async_receive q ?msg ?rt1) p = Some (ChiefArchitect ?a1)"
    using assms(5) q p by (simp add: async_receive_def at_put [OF at_length [OF q]] at_put)
  obtain a2 where get: "getMessage pick now ?a1 = (None, a2)"
    using get_None_iff [of pick now ?a1] a1 by (cases "getMessage pick now ?a1") auto
  have same: "queued a2 = queued ?a1" using queued_get [OF get] by simp
  have "in_flight (put_agent p (ChiefArchitect a2) (async_receive q ?msg ?rt1)) = add_mset (q, ?msg) (in_flight rt)"
    using in_flight_put_same [OF chief, of "ChiefArchitect a2"] same flight by simp
  then show ?thesis
    by (intro exI [of _ ?msg]) (simp add: sendCommand_def op_simps out answer_in_def chief get createError_def)
qed

definition sample_chief :: agent_core where
  "sample_chief = (new_core ''c'')\<lparr>ac_message_bus := True\<rparr>"

lemma sendCommand_too_early_example:
  "\<exists>resp rt'. sendCommand \<lparr>ae_uuid = \<lambda>_. ''u'', ae_now = \<lambda>_. 0, te_stod = \<lambda>_. Inr 0, te_listing = [], te_shell = \<lambda>_. No_Pipe\<rparr>
       (\<lambda>_. 0) 5 id 1 ''ls'' ''t'' (sample_runtime\<lparr>rt_heap := [Some (TaskAgent idle_agent), Some (ChiefArchitect sample_chief)]\<rparr>)
     = (Inr resp, rt') \<and> rp_result resp = ''No response received''"
proof -
  let ?rt = "sample_runtime\<lparr>rt_heap := [Some (TaskAgent idle_agent), Some (ChiefArchitect sample_chief)]\<rparr>"
  have "agent_at ?rt 1 = Some (ChiefArchitect sample_chief)" "ac_message_bus sample_chief" "queued sample_chief = {#}"
    "map_of (rt_agents ?rt) ''t'' = Some (Some 0)" "(0::nat) \<noteq> 1" "agent_at ?rt 0 = Some (TaskAgent idle_agent)"
    "ac_scheduler (core_of (TaskAgent idle_agent)) \<or> total_depth (core_of (TaskAgent idle_agent)) < AGENT_MAX_QUEUE_SIZE"
    by (simp_all add: sample_runtime_def sample_chief_def agent_at_def queued_def new_core_def idle_agent_def
        agent_core.defs total_depth_def AGENT_MAX_QUEUE_SIZE_def)
  from sendCommand_too_early [OF this] show ?thesis by blast
qed

end
