(* ===== verification/Agent_System.thy ===== *)
theory Agent_System
  imports Agent_Router
begin

text \<open>
  A module lead, its task agents and the router working together: a goal is split into commands, the task agents run
  them, and the lead adds up the answers, in whatever order agents are polled and work items are run. The shell is the
  parameter of the task agents; of it the theorem uses that \<open>echo\<close> prints a number and a line break.
\<close>

section \<open>A task agent and one command\<close>

definition echoes :: "'a task_env_scheme \<Rightarrow> bool" where
  "echoes e \<longleftrightarrow> (\<forall>n. list_all is_digit n \<longrightarrow> te_shell e (bash_command (''echo '' @ n)) = Ran (n @ [newline]) 0)"

definition is_number :: "string \<Rightarrow> bool" where
  "is_number n \<longleftrightarrow> n \<noteq> [] \<and> list_all is_digit n"

lemma digit_not_space: "is_digit c \<Longrightarrow> \<not> is_space c"
  by (auto simp: is_digit_def is_space_def)

lemma strip_number: "is_number n \<Longrightarrow> strip_trailing_space (n @ [newline]) = n"
  using digit_not_space
  by (cases n rule: rev_cases) (auto simp: strip_trailing_space_def is_number_def newline_def is_space_def)

lemma execute_echo:
  assumes "echoes e" and "is_number n"
  shows "executeBash e (''echo '' @ n) = Inr n"
proof -
  have "list_all echo_char n" using assms(2) by (auto simp: is_number_def list_all_iff echo_char_def)
  then have "regex_match simple_echo_pattern (''echo '' @ n)"
    using assms(2) by (auto simp: simple_echo_match is_number_def)
  then have "validateCommand (te_stod e) (te_listing e) (''echo '' @ n) = Inr ()"
    by (simp add: validateCommand_def del: append_Cons)
  then show ?thesis using assms strip_number [OF assms(2)]
    by (simp add: executeBash_def echoes_def is_number_def del: append_Cons)
qed

definition is_task :: "string \<Rightarrow> keystone_message \<Rightarrow> bool" where
  "is_task sender m \<longleftrightarrow> m_action_type m = EXECUTE \<and> m_sender_id m = sender \<and> is_number (drop 5 (m_command m))
     \<and> m_command m = ''echo '' @ drop 5 (m_command m)"

definition is_answer :: "keystone_message \<Rightarrow> bool" where
  "is_answer m \<longleftrightarrow> m_action_type m = EXECUTE \<and> m_command m = ''response'' \<and> m_payload m \<noteq> None"

definition fit :: "task_agent \<Rightarrow> bool" where
  "fit t \<longleftrightarrow> ac_message_bus t \<and> \<not> ta_failed t"

lemma fit_works:
  assumes "echoes e" and "fit t" and "is_task lead m"
  shows "\<exists>t' out. snd (task_processMessage e now m t) = t' \<and> fit t' \<and> queued t' = queued t \<and> ac_sent t' = ac_sent t @ [out]
    \<and> is_answer out \<and> m_receiver_id out = lead \<and> m_payload out = Some (drop 5 (m_command m))"
proof -
  let ?t1 = "noted now m t"
  have t: "ac_message_bus t" "\<not> ta_failed t" using assms(2) by (simp_all add: fit_def)
  have m: "m_action_type m = EXECUTE" "m_sender_id m = lead" using assms(3) by (simp_all add: is_task_def)
  have "executeBash e (m_command m) = Inr (drop 5 (m_command m))"
    using execute_echo [OF assms(1)] assms(3) unfolding is_task_def by metis
  then have run: "snd (task_processMessage e now m t) = sent_answer e m EXECUTE (drop 5 (m_command m))
      (?t1\<lparr>ta_command_log := ta_command_log ?t1 @ [(m_command m, drop 5 (m_command m))]\<rparr>)"
    using task_processMessage_run [OF t(1) refl, of e now m] t m run_command_run [of ?t1 e now m] by simp
  show ?thesis unfolding run using t m
    by (auto simp: fit_def is_answer_def sent_answer_def answer_def noted_def Let_def queued_def)
qed

section \<open>A module lead and one answer\<close>

definition gathers :: "string list \<Rightarrow> module_state lead_agent \<Rightarrow> bool" where
  "gathers numbers a \<longleftrightarrow> ac_message_bus a
     \<and> co_expected (la_coord a) = length numbers \<and> co_received (la_coord a) = length (co_results (la_coord a))
     \<and> co_failed (la_coord a) = 0
     \<and> co_state (la_coord a) =
         (if length numbers \<le> length (co_results (la_coord a)) then M_SYNTHESIZING else M_WAITING_FOR_TASKS)"

lemma lead_gathers:
  assumes "gathers numbers a" and "is_answer m"
  shows "\<exists>a'. snd (lead_processMessage module_class e now m a) = a' \<and> gathers numbers a' \<and> queued a' = queued a
    \<and> ac_sent a' = ac_sent a \<and> ac_agent_id a' = ac_agent_id a \<and> la_available a' = la_available a
    \<and> co_results (la_coord a') = co_results (la_coord a) @ [the (m_payload m)]"
proof -
  obtain p where p: "m_payload m = Some p" using assms(2) by (auto simp: is_answer_def)
  show ?thesis using assms
    by (auto simp: gathers_def is_answer_def lead_processMessage_def op_simps module_class_def module_isSubordinateResult_def
        module_processSubordinateResult_def recordResult_def Let_def p hasFailures_def transitionTo_def queued_def)
qed

section \<open>Splitting the goal\<close>

lemma delegate_run:
  assumes "ac_message_bus a" and "la_available a \<noteq> []"
  shows "\<exists>a' outs. module_delegate_from e i subtasks a = (Inr (), a') \<and> ac_sent a' = ac_sent a @ outs
    \<and> map m_command outs = subtasks \<and> queued a' = queued a \<and> ac_message_bus a' \<and> ac_agent_id a' = ac_agent_id a
    \<and> la_available a' = la_available a \<and> (\<exists>pend. la_coord a' = (la_coord a)\<lparr>co_pending := pend\<rparr>)
    \<and> (\<forall>m \<in> set outs. m_action_type m = EXECUTE \<and> m_sender_id m = ac_agent_id a \<and> m_receiver_id m \<in> set (la_available a))"
  using assms
proof (induction subtasks arbitrary: i a)
  case Nil
  show ?case using Nil by (auto simp: op_simps intro: exI [of _ "co_pending (la_coord a)"])
next
  case (Cons s ss)
  let ?w = "la_available a ! (i mod length (la_available a))"
  let ?m = "create_command (ae_uuid e (ac_draws a)) (ae_now e (ac_draws a)) (ac_agent_id a) ?w s None"
  let ?a1 = "(on_coord (trackPendingSubordinate (ae_uuid e (ac_draws a)) ?w) (a\<lparr>ac_draws := Suc (ac_draws a)\<rparr>))
    \<lparr>ac_sent := ac_sent a @ [?m]\<rparr>"
  have step: "assign e ?w s a = (Inr (), ?a1)"
    using Cons.prems by (simp add: assign_def op_simps draw_def sendMessage_def on_coord_def)
  have a1: "ac_message_bus ?a1" "la_available ?a1 \<noteq> []" "queued ?a1 = queued a" "ac_agent_id ?a1 = ac_agent_id a"
    "la_available ?a1 = la_available a"
    using Cons.prems by (simp_all add: on_coord_def queued_def)
  have pend: "\<exists>pend. la_coord ?a1 = (la_coord a)\<lparr>co_pending := pend\<rparr>"
    by (auto simp: on_coord_def trackPendingSubordinate_def)
  obtain a' outs where a': "module_delegate_from e (Suc i) ss ?a1 = (Inr (), a')" "ac_sent a' = ac_sent ?a1 @ outs"
    "map m_command outs = ss" "queued a' = queued ?a1" "ac_message_bus a'" "ac_agent_id a' = ac_agent_id ?a1"
    "la_available a' = la_available ?a1" "\<exists>pend. la_coord a' = (la_coord ?a1)\<lparr>co_pending := pend\<rparr>"
    "\<forall>m \<in> set outs. m_action_type m = EXECUTE \<and> m_sender_id m = ac_agent_id ?a1 \<and> m_receiver_id m \<in> set (la_available ?a1)"
    using Cons.IH [OF a1(1,2), of "Suc i"] by blast
  have "?w \<in> set (la_available a)" using Cons.prems by simp
  moreover have "module_delegate_from e i (s # ss) a = (Inr (), a')"
    using Cons.prems step a'(1) by (simp add: op_simps)
  moreover have "\<exists>pend. la_coord a' = (la_coord a)\<lparr>co_pending := pend\<rparr>" using a'(8) pend by auto
  ultimately show ?case using a' a1 by (intro exI [of _ a'] exI [of _ "?m # outs"]) auto
qed

lemma runs_number: "n \<in> set (runs is_digit s) \<Longrightarrow> is_number n"
proof (induction is_digit s rule: runs.induct)
  case (2 c s)
  have "list_all is_digit (takeWhile is_digit s)" by (auto simp: list_all_iff dest: set_takeWhileD)
  then show ?case using 2 by (auto simp: is_number_def split: if_splits)
qed simp

definition is_goal :: "keystone_message \<Rightarrow> bool" where
  "is_goal m \<longleftrightarrow> m_action_type m \<noteq> CANCEL_TASK \<and> m_action_type m \<noteq> TASK_FAILED \<and> m_command m \<noteq> ''response''"

lemma lead_splits:
  assumes "ac_message_bus a" and "la_available a \<noteq> []" and "is_goal m" and "numbers = runs is_digit (m_command m)"
    and "numbers \<noteq> []" and "int (length numbers) \<le> INT_MAX"
  shows "\<exists>a' outs. snd (lead_processMessage module_class e now m a) = a' \<and> gathers numbers a' \<and> co_results (la_coord a') = []
    \<and> queued a' = queued a \<and> ac_agent_id a' = ac_agent_id a \<and> ac_sent a' = ac_sent a @ outs
    \<and> map (drop 5 \<circ> m_command) outs = numbers
    \<and> (\<forall>m \<in> set outs. is_task (ac_agent_id a) m \<and> m_receiver_id m \<in> set (la_available a))"
proof -
  let ?tasks = "map (\<lambda>number. ''echo '' @ number) numbers"
  let ?a1 = "(enter module_class M_WAITING_FOR_TASKS \<circ> on_coord (initializeCoordination (length numbers)))
    (start_goal module_class m a)"
  have a1: "ac_message_bus ?a1" "la_available ?a1 \<noteq> []" "queued ?a1 = queued a" "ac_agent_id ?a1 = ac_agent_id a"
    "la_available ?a1 = la_available a" "ac_sent ?a1 = ac_sent a"
    using assms(1,2) by (simp_all add: enter_def on_coord_def start_goal_def queued_def)
  have goal: "module_decomposeGoal (m_command m) = ?tasks" by (simp add: module_decomposeGoal_def regex_matches_runs assms(4))
  obtain a' outs where run: "module_delegate_from e 0 ?tasks ?a1 = (Inr (), a')" and sent: "ac_sent a' = ac_sent ?a1 @ outs"
    and cmds: "map m_command outs = ?tasks" and a': "queued a' = queued ?a1" "ac_message_bus a'" "ac_agent_id a' = ac_agent_id ?a1"
    and coord: "\<exists>pend. la_coord a' = (la_coord ?a1)\<lparr>co_pending := pend\<rparr>"
    and outs: "\<forall>m \<in> set outs. m_action_type m = EXECUTE \<and> m_sender_id m = ac_agent_id ?a1 \<and> m_receiver_id m \<in> set (la_available ?a1)"
    using delegate_run [OF a1(1,2), of e 0 ?tasks] by blast
  have "snd (lead_processMessage module_class e now m a) = a'"
    using assms(3,5,6) run goal
    by (simp add: lead_processMessage_def op_simps module_class_def module_isSubordinateResult_def is_goal_def)
  moreover have "gathers numbers a' \<and> co_results (la_coord a') = []"
    using coord a'(2) assms(5)
    by (auto simp: gathers_def enter_def on_coord_def initializeCoordination_def transitionTo_def)
  moreover have "map (drop 5) (map m_command outs) = numbers" unfolding cmds by (simp add: comp_def)
  moreover have "is_task (ac_agent_id a) out" if "out \<in> set outs" for out
  proof -
    have "m_command out \<in> set ?tasks" using that cmds by (metis imageI list.set_map)
    then obtain n where "n \<in> set numbers" "m_command out = ''echo '' @ n" by auto
    then show ?thesis using outs that a1(4) runs_number [of n "m_command m"] assms(4) by (simp add: is_task_def)
  qed
  ultimately show ?thesis using a' a1 sent outs by (intro exI [of _ a'] exI [of _ outs]) auto
qed

section \<open>The messages under way\<close>

lemma route_all_laws:
  assumes "\<forall>m \<in> set outs. \<exists>p. map_of (rt_agents rt) (m_receiver_id m) = Some (Some p) \<and> agent_at rt p \<noteq> None"
    and "size (in_flight rt) + length outs \<le> AGENT_MAX_QUEUE_SIZE"
  shows "calm rt (route_all outs rt) \<and> in_flight (route_all outs rt) =
    in_flight rt + mset (map (\<lambda>m. (the (the (map_of (rt_agents rt) (m_receiver_id m))), m)) outs)"
  using assms
proof (induction outs arbitrary: rt)
  case Nil
  show ?case by (simp add: route_all_def)
next
  case (Cons m ms)
  obtain p ag where p: "map_of (rt_agents rt) (m_receiver_id m) = Some (Some p)" "agent_at rt p = Some ag"
    using Cons.prems(1) by auto
  let ?rt = "async_receive p m rt"
  have less: "total_depth (core_of ag) < AGENT_MAX_QUEUE_SIZE" using depth_in_flight [OF p(2)] Cons.prems(2) by simp
  note laws = async_receive_laws [OF p(2), where msg = m]
  have more: "in_flight ?rt = add_mset (p, m) (in_flight rt)" using laws(2) less by simp
  have "agent_at ?rt q \<noteq> None" if "agent_at rt q \<noteq> None" for q
    using laws(1) that unfolding calm_def by (metis option.map_disc_iff)
  then have "\<forall>m \<in> set ms. \<exists>p. map_of (rt_agents ?rt) (m_receiver_id m) = Some (Some p) \<and> agent_at ?rt p \<noteq> None"
    using Cons.prems(1) by fastforce
  moreover have "size (in_flight ?rt) + length ms \<le> AGENT_MAX_QUEUE_SIZE" using more Cons.prems(2) by simp
  ultimately have "calm ?rt (route_all ms ?rt) \<and> in_flight (route_all ms ?rt) =
      in_flight ?rt + mset (map (\<lambda>m. (the (the (map_of (rt_agents ?rt) (m_receiver_id m))), m)) ms)"
    by (rule Cons.IH)
  moreover have "route_all (m # ms) rt = route_all ms ?rt" using p(1) by (simp add: route_all_def routeMessage_def)
  ultimately show ?case using laws(1) more p(1) by (auto intro: calm_trans)
qed

lemma calm_task:
  assumes "calm rt rt'" and "agent_at rt p = Some (TaskAgent t)"
  obtains t' where "agent_at rt' p = Some (TaskAgent t')" and "strip_inbox t' = strip_inbox t"
proof -
  have "map_option outside (agent_at rt' p) = Some (TaskAgent (strip_inbox t))"
    using assms by (metis calm_def option.simps(9) outside.simps(1))
  then obtain ag where "agent_at rt' p = Some ag" "outside ag = TaskAgent (strip_inbox t)" by blast
  then show thesis using that by (cases ag) auto
qed

lemma calm_lead:
  assumes "calm rt rt'" and "agent_at rt p = Some (ModuleLead a)"
  obtains a' where "agent_at rt' p = Some (ModuleLead a')" and "strip_inbox a' = strip_inbox a"
proof -
  have "map_option outside (agent_at rt' p) = Some (ModuleLead (strip_inbox a))"
    using assms by (metis calm_def option.simps(9) outside.simps(2))
  then obtain ag where "agent_at rt' p = Some ag" "outside ag = ModuleLead (strip_inbox a)" by blast
  then show thesis using that by (cases ag) auto
qed

lemma strip_fields:
  "strip_inbox a = strip_inbox b \<Longrightarrow> ac_agent_id a = ac_agent_id b"
  "strip_inbox a = strip_inbox b \<Longrightarrow> ac_message_bus a = ac_message_bus b"
  "strip_inbox a = strip_inbox b \<Longrightarrow> agent_core.more a = agent_core.more b"
  unfolding strip_inbox_def
  by (drule arg_cong [where f = ac_agent_id], simp, drule arg_cong [where f = ac_message_bus], simp,
      drule arg_cong [where f = agent_core.more], simp)

lemma strip_fit: "strip_inbox t = strip_inbox t' \<Longrightarrow> fit t \<longleftrightarrow> fit t'"
  by (cases t; cases t') (simp add: strip_inbox_def fit_def)

lemma strip_lead:
  "strip_inbox a = strip_inbox a' \<Longrightarrow> la_coord a = la_coord a'"
  "strip_inbox a = strip_inbox a' \<Longrightarrow> la_available a = la_available a'"
  "strip_inbox a = strip_inbox a' \<Longrightarrow> gathers numbers a \<longleftrightarrow> gathers numbers a'"
  by (cases a; cases a'; simp add: strip_inbox_def gathers_def)+

section \<open>The team at work\<close>

definition role :: "string \<Rightarrow> nat \<Rightarrow> runtime \<Rightarrow> nat \<Rightarrow> keystone_message \<Rightarrow> bool" where
  "role lead pl rt p m \<longleftrightarrow>
     (if p = pl then is_answer m else is_task lead m \<and> (\<exists>t. agent_at rt p = Some (TaskAgent t) \<and> fit t))"

definition number_in :: "nat \<Rightarrow> nat \<times> keystone_message \<Rightarrow> string" where
  "number_in pl = (\<lambda>(p, m). if p = pl then the (m_payload m) else drop 5 (m_command m))"

text \<open>While the team works, every number of the goal is in a command, in an answer or among the results.\<close>

definition working :: "string \<Rightarrow> nat \<Rightarrow> string list \<Rightarrow> runtime \<Rightarrow> bool" where
  "working lead pl numbers rt \<longleftrightarrow> map_of (rt_agents rt) lead = Some (Some pl)
     \<and> (\<forall>(p, m) \<in># in_flight rt. role lead pl rt p m)
     \<and> (\<exists>a. agent_at rt pl = Some (ModuleLead a) \<and> gathers numbers a
          \<and> image_mset (number_in pl) (in_flight rt) + mset (co_results (la_coord a)) = mset numbers)"

definition work_left :: "nat \<Rightarrow> runtime \<Rightarrow> nat" where
  "work_left pl rt = (\<Sum>(p, m)\<in>#in_flight rt. if p = pl then 1 else 2)"

lemma role_calm: "calm rt rt' \<Longrightarrow> role lead pl rt p m \<Longrightarrow> role lead pl rt' p m"
  unfolding role_def by (metis calm_task strip_fit)

lemma role_put:
  assumes "role lead pl rt p m" and "agent_at rt q = Some ag" and "q = pl \<or> (\<exists>t. ag' = TaskAgent t \<and> fit t)"
  shows "role lead pl (put_agent q ag' rt) p m"
  using assms by (auto simp: role_def at_put [OF at_length])

lemma working_size:
  assumes "working lead pl numbers rt"
  shows "size (in_flight rt) \<le> length numbers"
proof -
  obtain xs where "image_mset (number_in pl) (in_flight rt) + mset xs = mset numbers"
    using assms unfolding working_def by blast
  then have "size (image_mset (number_in pl) (in_flight rt) + mset xs) = size (mset numbers)" by simp
  then show ?thesis by simp
qed

lemma lead_takes_answer:
  assumes work: "working lead pl numbers rt" and calm: "calm rt rt1"
    and take: "in_flight rt = add_mset (pl, m) (in_flight rt1)"
  shows "working lead pl numbers (run_handler e now pl m rt1) \<and> work_left pl rt = Suc (work_left pl (run_handler e now pl m rt1))"
proof -
  obtain a where a: "agent_at rt pl = Some (ModuleLead a)" "gathers numbers a"
    "image_mset (number_in pl) (in_flight rt) + mset (co_results (la_coord a)) = mset numbers"
    using work unfolding working_def by blast
  obtain a1 where a1: "agent_at rt1 pl = Some (ModuleLead a1)" and strip: "strip_inbox a1 = strip_inbox a"
    using calm_lead [OF calm a(1)] .
  have m: "is_answer m" using work unfolding working_def take by (auto simp: role_def)
  have g1: "gathers numbers a1" "la_coord a1 = la_coord a" using strip_lead [OF strip] a(2) by simp_all
  obtain a' where a': "snd (lead_processMessage module_class (agent_env.truncate e) now m a1) = a'" "gathers numbers a'"
    "queued a' = queued a1" "ac_sent a' = ac_sent a1"
    "co_results (la_coord a') = co_results (la_coord a) @ [the (m_payload m)]"
    using lead_gathers [OF g1(1) m] g1(2) by metis
  let ?rt = "put_agent pl (ModuleLead a') rt1"
  have handle: "run_handler e now pl m rt1 = ?rt"
    using a1 a'(1,4) by (simp add: run_handler_def sent_since_def map_prod_def split_beta route_all_def Let_def)
  have flight: "in_flight ?rt = in_flight rt1" using in_flight_put_same [OF a1] a'(3) by simp
  have "role lead pl rt1 p q" if "(p, q) \<in># in_flight rt1" for p q
    using work that role_calm [OF calm] unfolding working_def take by fastforce
  then have "\<forall>(p, q) \<in># in_flight ?rt. role lead pl ?rt p q" unfolding flight using role_put [OF _ a1] by blast
  moreover have "map_of (rt_agents ?rt) lead = Some (Some pl)" using work calm by (simp add: working_def calm_def)
  moreover have "agent_at ?rt pl = Some (ModuleLead a')" by (simp add: at_put [OF at_length [OF a1]])
  moreover have "image_mset (number_in pl) (in_flight ?rt) + mset (co_results (la_coord a')) = mset numbers"
    using a(3) unfolding flight a'(5) take by (simp add: number_in_def)
  ultimately have "working lead pl numbers ?rt" using a'(2) unfolding working_def by blast
  then show ?thesis unfolding handle by (simp add: work_left_def flight take)
qed

lemma worker_takes_task:
  assumes work: "working lead pl numbers rt" and calm: "calm rt rt1" and p: "p \<noteq> pl"
    and take: "in_flight rt = add_mset (p, m) (in_flight rt1)" and "echoes e" and small: "length numbers \<le> AGENT_MAX_QUEUE_SIZE"
  shows "working lead pl numbers (run_handler e now p m rt1) \<and> work_left pl rt = Suc (work_left pl (run_handler e now p m rt1))"
proof -
  have "role lead pl rt p m" using work unfolding working_def take by auto
  then have "role lead pl rt1 p m" by (rule role_calm [OF calm])
  then obtain t where m: "is_task lead m" and t: "agent_at rt1 p = Some (TaskAgent t)" "fit t" using p by (auto simp: role_def)
  obtain t' out where t': "snd (task_processMessage e now m t) = t'" "fit t'" "queued t' = queued t" "ac_sent t' = ac_sent t @ [out]"
    and out: "is_answer out" "m_receiver_id out = lead" "m_payload out = Some (drop 5 (m_command m))"
    using fit_works [OF assms(5) t(2) m] by metis
  let ?rt2 = "put_agent p (TaskAgent t') rt1" let ?rt = "async_receive pl out ?rt2"
  obtain a where a: "agent_at rt pl = Some (ModuleLead a)" "gathers numbers a"
    "image_mset (number_in pl) (in_flight rt) + mset (co_results (la_coord a)) = mset numbers"
    using work unfolding working_def by blast
  obtain a1 where a1: "agent_at rt1 pl = Some (ModuleLead a1)" and strip: "strip_inbox a1 = strip_inbox a"
    using calm_lead [OF calm a(1)] .
  have a2: "agent_at ?rt2 pl = Some (ModuleLead a1)" using a1 p by (simp add: at_put [OF at_length [OF t(1)]])
  have reg: "map_of (rt_agents rt1) lead = Some (Some pl)" using work calm by (simp add: working_def calm_def)
  have handle: "run_handler e now p m rt1 = ?rt"
    using t(1) t' out(2) reg
    by (simp add: run_handler_def sent_since_def map_prod_def split_beta route_all_def Let_def routeMessage_def)
  have flight2: "in_flight ?rt2 = in_flight rt1" using in_flight_put_same [OF t(1)] t'(3) by simp
  have "size (in_flight rt1) < AGENT_MAX_QUEUE_SIZE" using working_size [OF work] small take by simp
  then have "total_depth (core_of (ModuleLead a1)) < AGENT_MAX_QUEUE_SIZE" using depth_in_flight [OF a1] by simp
  then have flight: "in_flight ?rt = add_mset (pl, out) (in_flight rt1)" using async_receive_laws(2) [OF a2] flight2 by simp
  note calm2 = async_receive_laws(1) [OF a2, of out]
  obtain a3 where a3: "agent_at ?rt pl = Some (ModuleLead a3)" and strip3: "strip_inbox a3 = strip_inbox a1"
    using calm_lead [OF calm2 a2] .
  have "role lead pl rt1 q x" if "(q, x) \<in># in_flight rt1" for q x
    using work that role_calm [OF calm] unfolding working_def take by fastforce
  then have "role lead pl ?rt q x" if "(q, x) \<in># in_flight rt1" for q x
    using that role_put [OF _ t(1)] role_calm [OF calm2] t'(2) by blast
  then have "\<forall>(q, x) \<in># in_flight ?rt. role lead pl ?rt q x" unfolding flight using out(1) by (auto simp: role_def)
  moreover have "image_mset (number_in pl) (in_flight ?rt) + mset (co_results (la_coord a3)) = mset numbers"
    using a(3) strip_lead(1) [OF strip3] strip_lead(1) [OF strip] p unfolding flight take by (simp add: number_in_def out(3))
  moreover have "gathers numbers a3" using strip_lead(3) [OF strip3] strip_lead(3) [OF strip] a(2) by blast
  ultimately have "working lead pl numbers ?rt" using a3 reg unfolding working_def by auto
  then show ?thesis unfolding handle using p by (simp add: work_left_def flight take)
qed

lemma working_step:
  assumes "working lead pl numbers rt" and "rt_step e rt rt'" and "echoes e" and "length numbers \<le> AGENT_MAX_QUEUE_SIZE"
  shows "working lead pl numbers rt' \<and> work_left pl rt = Suc (work_left pl rt')"
  using assms(2)
proof (rule step_takes)
  fix p m now rt1
  assume step: "rt' = run_handler e now p m rt1" "calm rt rt1" "in_flight rt = add_mset (p, m) (in_flight rt1)"
  show ?thesis
  proof (cases "p = pl")
    case True
    then show ?thesis using lead_takes_answer [OF assms(1) step(2)] step(1,3) by blast
  next
    case False
    then show ?thesis using worker_takes_task [OF assms(1) step(2) False step(3) assms(3,4)] step(1) by blast
  qed
qed

lemma working_steps:
  assumes "working lead pl numbers rt" and "echoes e" and "length numbers \<le> AGENT_MAX_QUEUE_SIZE"
  shows "(rt_step e ^^ k) rt rt' \<Longrightarrow> working lead pl numbers rt' \<and> work_left pl rt = k + work_left pl rt'"
proof (induction k arbitrary: rt')
  case 0
  then show ?case using assms(1) by simp
next
  case (Suc k)
  then obtain rt1 where "(rt_step e ^^ k) rt rt1" "rt_step e rt1 rt'" by auto
  then show ?case using Suc.IH [of rt1] working_step [of lead pl numbers rt1 e rt'] assms(2,3) by auto
qed

text \<open>The sum over the results does not depend on their order.\<close>

definition goal_sum :: "string list \<Rightarrow> nat" where
  "goal_sum numbers = sum_list (map nat_of_digits numbers)"

lemma goal_sum_mset: "mset xs = mset ys \<Longrightarrow> goal_sum xs = goal_sum ys"
  unfolding goal_sum_def by (metis mset_map sum_mset_sum_list)

lemma fold_add_result:
  assumes "list_all is_number xs" and "0 \<le> acc" and "acc + int (goal_sum xs) \<le> INT_MAX"
  shows "fold add_result xs acc = acc + int (goal_sum xs)"
  using assms
proof (induction xs arbitrary: acc)
  case Nil
  then show ?case by (simp add: goal_sum_def)
next
  case (Cons x xs)
  let ?v = "int (nat_of_digits x)"
  have sum: "goal_sum (x # xs) = nat_of_digits x + goal_sum xs" by (simp add: goal_sum_def)
  have "stoi x = Inr ?v" using Cons.prems sum stoi_digits [of x] by (simp add: is_number_def list_all_iff)
  moreover have "wrap32 (acc + ?v) = acc + ?v" using Cons.prems sum by (intro wrap32_id) (auto simp: INT_MIN_def)
  ultimately have "add_result x acc = acc + ?v" by (simp add: add_result_def)
  then show ?case using Cons.IH [of "acc + ?v"] Cons.prems sum by simp
qed

lemma working_done:
  assumes "working lead pl numbers rt" and "in_flight rt = {#}" and "list_all is_number numbers" and "int (goal_sum numbers) \<le> INT_MAX"
  shows "\<exists>a. agent_at rt pl = Some (ModuleLead a) \<and> co_state (la_coord a) = M_SYNTHESIZING
    \<and> fst (synthesizeResults a) = ''Module result: Sum = '' @ string_of_int (int (goal_sum numbers))"
proof -
  obtain a where a: "agent_at rt pl = Some (ModuleLead a)" "gathers numbers a" "mset (co_results (la_coord a)) = mset numbers"
    using assms(1,2) unfolding working_def by auto
  have "list_all is_number (co_results (la_coord a))" using assms(3) mset_eq_setD [OF a(3)] by (simp add: list_all_iff)
  then have "fold add_result (co_results (la_coord a)) 0 = int (goal_sum numbers)"
    using fold_add_result [of "co_results (la_coord a)" 0] goal_sum_mset [OF a(3)] assms(4) by simp
  moreover have "length (co_results (la_coord a)) = length numbers" using a(3) by (metis size_mset)
  ultimately show ?thesis using a(1,2) by (simp add: gathers_def synthesizeResults_def Let_def)
qed

section \<open>From the goal to the sum\<close>

text \<open>A team: the lead is registered under its name and every task agent it may use is registered, live and fit.\<close>

definition worker :: "nat \<Rightarrow> runtime \<Rightarrow> string \<Rightarrow> bool" where
  "worker pl rt w \<longleftrightarrow> (\<exists>p t. p \<noteq> pl \<and> map_of (rt_agents rt) w = Some (Some p) \<and> agent_at rt p = Some (TaskAgent t) \<and> fit t)"

definition team :: "string \<Rightarrow> nat \<Rightarrow> runtime \<Rightarrow> bool" where
  "team lead pl rt \<longleftrightarrow> map_of (rt_agents rt) lead = Some (Some pl)
     \<and> (\<exists>a. agent_at rt pl = Some (ModuleLead a) \<and> ac_agent_id a = lead \<and> ac_message_bus a \<and> la_available a \<noteq> []
          \<and> (\<forall>w \<in> set (la_available a). worker pl rt w))"

lemma worker_calm: "calm rt rt' \<Longrightarrow> worker pl rt w \<Longrightarrow> worker pl rt' w"
  unfolding worker_def by (metis calm_def calm_task strip_fit)

lemma team_calm:
  assumes "calm rt rt'" and "team lead pl rt"
  shows "team lead pl rt'"
proof -
  obtain a where a: "agent_at rt pl = Some (ModuleLead a)" "ac_agent_id a = lead" "ac_message_bus a" "la_available a \<noteq> []"
    "\<forall>w \<in> set (la_available a). worker pl rt w" using assms(2) unfolding team_def by blast
  obtain a' where a': "agent_at rt' pl = Some (ModuleLead a')" and strip: "strip_inbox a' = strip_inbox a"
    using calm_lead [OF assms(1) a(1)] .
  have "map_of (rt_agents rt') lead = Some (Some pl)" using assms by (simp add: calm_def team_def)
  then show ?thesis unfolding team_def
    using a' strip_fields [OF strip] strip_lead(2) [OF strip] a worker_calm [OF assms(1)] by metis
qed

lemma sum_mset_const: "(\<And>x. x \<in># M \<Longrightarrow> f x = (c::nat)) \<Longrightarrow> (\<Sum>x\<in>#M. f x) = c * size M"
  by (induction M) auto

text \<open>The commands of a goal, handed to the router.\<close>

lemma commands_routed:
  assumes reg: "map_of (rt_agents rt) lead = Some (Some pl)" and lead: "agent_at rt pl = Some (ModuleLead a)"
    and a: "gathers numbers a" "co_results (la_coord a) = []" and rest: "in_flight rt = {#}"
    and nums: "map (drop 5 \<circ> m_command) outs = numbers" and small: "length numbers \<le> AGENT_MAX_QUEUE_SIZE"
    and outs: "\<And>m. m \<in> set outs \<Longrightarrow> is_task lead m \<and> worker pl rt (m_receiver_id m)"
  shows "working lead pl numbers (route_all outs rt) \<and> work_left pl (route_all outs rt) = 2 * length numbers"
proof -
  let ?to = "\<lambda>m. the (the (map_of (rt_agents rt) (m_receiver_id m)))" and ?rt = "route_all outs rt"
  have to: "?to x \<noteq> pl \<and> map_of (rt_agents rt) (m_receiver_id x) = Some (Some (?to x))
      \<and> (\<exists>t. agent_at rt (?to x) = Some (TaskAgent t) \<and> fit t)" if "x \<in> set outs" for x
    using outs [OF that] by (auto simp: worker_def)
  have len: "length outs = length numbers" using nums by (metis length_map)
  have "\<forall>m \<in> set outs. \<exists>p. map_of (rt_agents rt) (m_receiver_id m) = Some (Some p) \<and> agent_at rt p \<noteq> None"
    using to by blast
  then have route: "calm rt ?rt" "in_flight ?rt = mset (map (\<lambda>x. (?to x, x)) outs)"
    using route_all_laws [of outs rt] rest small len by simp_all
  obtain a3 where a3: "agent_at ?rt pl = Some (ModuleLead a3)" and strip: "strip_inbox a3 = strip_inbox a"
    using calm_lead [OF route(1) lead] .
  have "role lead pl rt (?to x) x" if "x \<in> set outs" for x using to [OF that] outs [OF that] by (simp add: role_def)
  then have roles: "\<forall>(q, x) \<in># in_flight ?rt. role lead pl ?rt q x"
    unfolding route(2) using role_calm [OF route(1)] by fastforce
  have "number_in pl (?to x, x) = (drop 5 \<circ> m_command) x" if "x \<in> set outs" for x using to [OF that] by (simp add: number_in_def)
  then have "map (number_in pl) (map (\<lambda>x. (?to x, x)) outs) = numbers" unfolding nums [symmetric] by simp
  then have "image_mset (number_in pl) (in_flight ?rt) = mset numbers" unfolding route(2) by (metis mset_map)
  then have "working lead pl numbers ?rt"
    unfolding working_def using reg roles a3 strip_lead [OF strip] a by auto
  moreover have "work_left pl ?rt = 2 * size (in_flight ?rt)"
    unfolding work_left_def by (rule sum_mset_const) (use to in \<open>auto simp: route(2)\<close>)
  ultimately show ?thesis using route(2) len by simp
qed

lemma goal_handled:
  assumes "team lead pl rt" and rest: "in_flight rt = {#}" and "is_goal m" and "numbers = runs is_digit (m_command m)"
    and "numbers \<noteq> []" and small: "length numbers \<le> AGENT_MAX_QUEUE_SIZE"
  shows "working lead pl numbers (run_handler e now pl m rt) \<and> work_left pl (run_handler e now pl m rt) = 2 * length numbers"
proof -
  obtain a where reg: "map_of (rt_agents rt) lead = Some (Some pl)"
    and a: "agent_at rt pl = Some (ModuleLead a)" "ac_agent_id a = lead" "ac_message_bus a" "la_available a \<noteq> []"
    and ws: "\<forall>w \<in> set (la_available a). worker pl rt w"
    using assms(1) unfolding team_def by blast
  have few: "int (length numbers) \<le> INT_MAX" using small by (simp add: AGENT_MAX_QUEUE_SIZE_def INT_MAX_def)
  obtain a' outs where a': "snd (lead_processMessage module_class (agent_env.truncate e) now m a) = a'" "gathers numbers a'"
    "co_results (la_coord a') = []" "queued a' = queued a" "ac_sent a' = ac_sent a @ outs"
    and nums: "map (drop 5 \<circ> m_command) outs = numbers"
    and outs: "\<forall>m \<in> set outs. is_task lead m \<and> m_receiver_id m \<in> set (la_available a)"
    using lead_splits [OF a(3,4) assms(3,4,5) few, of "agent_env.truncate e" now] a(2) by metis
  let ?rt = "put_agent pl (ModuleLead a') rt"
  have handle: "run_handler e now pl m rt = route_all outs ?rt"
    using a(1) a' by (simp add: run_handler_def sent_since_def map_prod_def split_beta Let_def)
  have "in_flight ?rt = {#}" using in_flight_put_same [OF a(1)] a'(4) rest by simp
  moreover have "agent_at ?rt pl = Some (ModuleLead a')" by (simp add: at_put [OF at_length [OF a(1)]])
  moreover have "worker pl rt w \<Longrightarrow> worker pl ?rt w" for w by (auto simp: worker_def at_put [OF at_length [OF a(1)]])
  ultimately show ?thesis
    unfolding handle using reg a'(2,3) nums small outs ws by (intro commands_routed [of _ _ _ a']) auto
qed

lemma goal_started:
  assumes "team lead pl rt" and rest: "in_flight rt = {#}" and "is_goal m" and "m_receiver_id m = lead"
    and "numbers = runs is_digit (m_command m)" and "numbers \<noteq> []" and "length numbers \<le> AGENT_MAX_QUEUE_SIZE"
  shows "in_flight (snd (routeMessage m rt)) = {#(pl, m)#}"
    and "rt_step e (snd (routeMessage m rt)) rt' \<Longrightarrow> working lead pl numbers rt' \<and> work_left pl rt' = 2 * length numbers"
proof -
  obtain a where reg: "map_of (rt_agents rt) lead = Some (Some pl)" and a: "agent_at rt pl = Some (ModuleLead a)"
    using assms(1) unfolding team_def by blast
  let ?rt0 = "async_receive pl m rt"
  have "total_depth (core_of (ModuleLead a)) < AGENT_MAX_QUEUE_SIZE"
    using depth_in_flight [OF a] rest by (simp add: AGENT_MAX_QUEUE_SIZE_def)
  then have rt0: "calm rt ?rt0" "in_flight ?rt0 = {#(pl, m)#}" "snd (routeMessage m rt) = ?rt0"
    using async_receive_laws [OF a, of m] rest reg assms(4) by (simp_all add: routeMessage_def)
  then show "in_flight (snd (routeMessage m rt)) = {#(pl, m)#}" by simp
  assume "rt_step e (snd (routeMessage m rt)) rt'"
  then obtain p msg now rt1 where step: "rt' = run_handler e now p msg rt1" "calm ?rt0 rt1"
    "in_flight ?rt0 = add_mset (p, msg) (in_flight rt1)"
    unfolding rt0(3) by (rule step_takes)
  then have p: "p = pl" "msg = m" "in_flight rt1 = {#}" using rt0(2) by (simp_all add: add_eq_conv_ex)
  have "team lead pl rt1" using team_calm [OF calm_trans [OF rt0(1) step(2)] assms(1)] .
  then show "working lead pl numbers rt' \<and> work_left pl rt' = 2 * length numbers"
    unfolding step(1) p(1,2) by (rule goal_handled) (use p(3) assms in auto)
qed

lemma work_left_zero: "work_left pl rt = 0 \<longleftrightarrow> in_flight rt = {#}"
  by (auto simp: work_left_def split: if_splits prod.splits) (metis multiset_nonemptyE surj_pair)

lemma step_iff: "(\<exists>rt'. rt_step e rt rt') \<longleftrightarrow> in_flight rt \<noteq> {#}"
  using step_exists by (auto elim: step_takes)

text \<open>C5: A goal with numbers, sent to a module lead whose task agents are fit, is worked off in exactly one step for the
goal and two for each number, whatever the order in which agents are polled and work items are run: before that some
step can always be taken, afterwards none. At the end the lead is in \<open>SYNTHESIZING\<close> and its synthesis is the
sum of the numbers. The shell's \<open>echo\<close> prints its argument, the numbers are at most as many as an inbox holds, and
their sum fits into 32 bits.\<close>

theorem goal_reaches_sum:
  assumes "team lead pl rt" and "in_flight rt = {#}" and "is_goal m" and "m_receiver_id m = lead"
    and "numbers = runs is_digit (m_command m)" and "numbers \<noteq> []" and "length numbers \<le> AGENT_MAX_QUEUE_SIZE"
    and "int (goal_sum numbers) \<le> INT_MAX" and "echoes e" and "(rt_step e ^^ k) (snd (routeMessage m rt)) rt'"
  shows "k \<le> 2 * length numbers + 1 \<and> ((\<exists>rt''. rt_step e rt' rt'') \<longleftrightarrow> k < 2 * length numbers + 1)
    \<and> (k = 2 * length numbers + 1 \<longrightarrow> (\<exists>a. agent_at rt' pl = Some (ModuleLead a) \<and> co_state (la_coord a) = M_SYNTHESIZING
          \<and> fst (synthesizeResults a) = ''Module result: Sum = '' @ string_of_int (int (goal_sum numbers))))"
proof (cases k)
  case 0
  then show ?thesis using goal_started(1) [OF assms(1-7)] assms(10) by (simp add: step_iff)
next
  case (Suc j)
  then obtain rt1 where "rt_step e (snd (routeMessage m rt)) rt1" and run: "(rt_step e ^^ j) rt1 rt'"
    using assms(10) by (metis relpowp_Suc_D2)
  then have rt1: "working lead pl numbers rt1" "work_left pl rt1 = 2 * length numbers"
    using goal_started(2) [OF assms(1-7)] by blast+
  then have rt': "working lead pl numbers rt'" "2 * length numbers = j + work_left pl rt'"
    using working_steps [OF rt1(1) assms(9,7) run] by simp_all
  have "(\<exists>rt''. rt_step e rt' rt'') \<longleftrightarrow> work_left pl rt' \<noteq> 0" by (simp add: step_iff work_left_zero)
  moreover have "list_all is_number numbers" using runs_number assms(5) by (auto simp: list_all_iff)
  then have "work_left pl rt' = 0 \<Longrightarrow> \<exists>a. agent_at rt' pl = Some (ModuleLead a) \<and> co_state (la_coord a) = M_SYNTHESIZING
      \<and> fst (synthesizeResults a) = ''Module result: Sum = '' @ string_of_int (int (goal_sum numbers))"
    using working_done [OF rt'(1) _ _ assms(8)] by (simp add: work_left_zero)
  ultimately show ?thesis using Suc rt'(2) by auto
qed

definition sample_team :: runtime where
  "sample_team =
     \<lparr>rt_heap = [Some (ModuleLead (agent_core.extend ((new_core ''m'')\<lparr>ac_message_bus := True, ac_scheduler := True\<rparr>)
          \<lparr>la_coord = new_coordination M_IDLE, la_available = [''t'']\<rparr>)), Some (TaskAgent idle_agent)],
      rt_agents = [(''m'', Some 0), (''t'', Some 1)], rt_scheduler = False, rt_submitted = []\<rparr>"

definition echo_shell :: task_env where
  "echo_shell = \<lparr>ae_uuid = \<lambda>_. ''u'', ae_now = \<lambda>_. 0, te_stod = \<lambda>_. Inr 0, te_listing = ALLOWED_COMMANDS,
     te_shell = \<lambda>cmd. Ran (takeWhile is_digit (drop 19 cmd) @ [newline]) 0\<rparr>"

lemma echo_shell_echoes: "echoes echo_shell"
proof -
  have "escape_quotes n = n" if "list_all is_digit n" for n
    using that by (induction n) (auto simp: escape_quotes_def quote_char_def is_digit_def)
  moreover have "escape_quotes (''echo '' @ n) = ''echo '' @ escape_quotes n" for n
    by (simp add: escape_quotes_def quote_char_def)
  moreover have "takeWhile is_digit (n @ [quote_char]) = n" if "list_all is_digit n" for n
    using that by (induction n) (auto simp: quote_char_def is_digit_def)
  ultimately show ?thesis by (simp add: echoes_def echo_shell_def bash_command_def)
qed

lemma sample_team_ready: "team ''m'' 0 sample_team" "in_flight sample_team = {#}"
  by (simp_all add: team_def worker_def sample_team_def agent_at_def agent_core.defs new_core_def fit_def idle_agent_def
      in_flight_def inbox_def queued_def lessThan_Suc numeral_2_eq_2)

theorem goal_reaches_sum_witness:
  "\<exists>rt' a. (rt_step echo_shell ^^ 5)
       (snd (routeMessage (create_command ''g'' 0 ''top'' ''m'' ''Calculate: 10 + 20'' None) sample_team)) rt'
     \<and> agent_at rt' 0 = Some (ModuleLead a) \<and> fst (synthesizeResults a) = ''Module result: Sum = '' @ string_of_int 30"
proof -
  let ?m = "create_command ''g'' 0 ''top'' ''m'' ''Calculate: 10 + 20'' None" and ?ns = "[''10'', ''20'']"
  let ?rt = "snd (routeMessage ?m sample_team)"
  have "runs is_digit ''Calculate: 10 + 20'' = ?ns" by (simp add: is_digit_def)
  then have ok: "is_goal ?m" "m_receiver_id ?m = ''m''" "?ns = runs is_digit (m_command ?m)" "?ns \<noteq> []"
    "length ?ns \<le> AGENT_MAX_QUEUE_SIZE" and sum: "goal_sum ?ns = 30" "int (goal_sum ?ns) \<le> INT_MAX"
    by (simp_all add: is_goal_def goal_sum_def nat_of_digits_def digit_val_def INT_MAX_def AGENT_MAX_QUEUE_SIZE_def)
  note outcome = goal_reaches_sum [OF sample_team_ready ok sum(2) echo_shell_echoes]
  have "\<exists>rt'. (rt_step echo_shell ^^ k) ?rt rt'" if "k \<le> 5" for k
    using that
  proof (induction k)
    case (Suc k)
    then obtain rt' where rt': "(rt_step echo_shell ^^ k) ?rt rt'" by auto
    then obtain rt'' where "rt_step echo_shell rt' rt''" using outcome [OF rt'] Suc.prems by auto
    then show ?case using rt' by auto
  qed simp
  then obtain rt' where "(rt_step echo_shell ^^ 5) ?rt rt'" by blast
  then show ?thesis using outcome [of 5 rt'] sum(1) by auto
qed

end
