(* ===== verification/Work_Stealing.thy ===== *)
theory Work_Stealing
  imports Concurrent_Queue "HOL-Library.Word"
begin

text \<open>
  The work-stealing scheduler (\<open>src/concurrency/work_stealing_queue.cpp\<close>, \<open>src/concurrency/work_stealing_scheduler.cpp\<close>)
  and the awaitables that pull or steal work (\<open>src/concurrency/pull_or_steal.cpp\<close>). The body of a work item is
  opaque; \<open>spawn\<close> says which functions it submits while it runs, or that it throws. The worker threads are a step
  relation whose steps are the accesses to shared state; the spinning, yielding and sleeping of an idle worker change
  no state and are the subject of theory Steal_Backoff; processor affinity and log output are left out. Of the thread-local log context the correlation
  identifier is kept.
\<close>

section \<open>Work items and queues\<close>

datatype item_type = Function | Coroutine

record 'f work_item =
  wi_type :: item_type
  wi_func :: "'f option"
  wi_handle :: "'f option"
  wi_correlation_id :: string

definition makeFunction :: "'f option \<Rightarrow> 'f work_item" where
  "makeFunction f = \<lparr>wi_type = Function, wi_func = f, wi_handle = None, wi_correlation_id = []\<rparr>"

definition makeCoroutine :: "'f option \<Rightarrow> 'f work_item" where
  "makeCoroutine h = \<lparr>wi_type = Coroutine, wi_func = None, wi_handle = h, wi_correlation_id = []\<rparr>"

definition valid :: "'f work_item \<Rightarrow> bool" where
  "valid item \<longleftrightarrow> wi_type item = Function \<and> wi_func item \<noteq> None \<or> wi_type item = Coroutine \<and> wi_handle item \<noteq> None"

text \<open>What \<open>execute\<close> runs.\<close>

definition body :: "'f work_item \<Rightarrow> 'f option" where
  "body item = (case wi_type item of Function \<Rightarrow> wi_func item | Coroutine \<Rightarrow> wi_handle item)"

definition load :: "'f work_item \<Rightarrow> 'f multiset" where
  "load item = (case body item of None \<Rightarrow> {#} | Some f \<Rightarrow> {#f#})"

definition push_item :: "string \<Rightarrow> 'f work_item \<Rightarrow> 'f work_item list \<Rightarrow> 'f work_item list" where
  "push_item context item queue =
     queue @ [if wi_correlation_id item = [] then item\<lparr>wi_correlation_id := context\<rparr> else item]"

definition pop :: "('f work_item list \<Rightarrow> nat) \<Rightarrow> 'f work_item list \<Rightarrow> ('f work_item \<times> 'f work_item list) option" where
  "pop pick queue = try_dequeue pick queue"

text \<open>Stealing also sets the correlation identifier of the thief's log context.\<close>

definition steal ::
    "('f work_item list \<Rightarrow> nat) \<Rightarrow> string \<Rightarrow> 'f work_item list \<Rightarrow> ('f work_item \<times> 'f work_item list) option \<times> string" where
  "steal pick context queue =
     (case try_dequeue pick queue of
        Some (item, rest) \<Rightarrow>
          (Some (item, rest), if wi_correlation_id item \<noteq> [] then wi_correlation_id item else context)
      | None \<Rightarrow> (None, context))"

lemma valid_body: "valid item \<longleftrightarrow> body item \<noteq> None"
  by (cases "wi_type item") (simp_all add: valid_def body_def)

section \<open>The scheduler\<close>

definition MAX_WORKER_THREADS :: nat where
  "MAX_WORKER_THREADS = 256"

text \<open>Where a worker is: at the head of its loop, looking at the queue that many places after its own, running a
body that has still to submit a list of functions (while draining or not, with the log context to restore), emptying
its own queue, or gone.\<close>

datatype 'f phase = Head | Scan nat | Busy bool string "'f list" | Drain | Exited

record 'f worker =
  wk_phase :: "'f phase"
  wk_context :: string

text \<open>\<open>ss_given\<close> and \<open>ss_ran\<close> record the bodies submitted and run so far; \<open>ss_alive\<close> is false once an exception
has left a worker thread, which ends the process.\<close>

record 'f scheduler =
  ss_queues :: "'f work_item list list"
  ss_next :: "64 word"
  ss_running :: bool
  ss_shutdown :: bool
  ss_workers :: "'f worker list"
  ss_alive :: bool
  ss_given :: "'f multiset"
  ss_ran :: "'f multiset"

abbreviation num_workers :: "'f scheduler \<Rightarrow> nat" where
  "num_workers s \<equiv> length (ss_queues s)"

definition new_scheduler :: "nat \<Rightarrow> 'f scheduler result" where
  "new_scheduler n =
     (if n > MAX_WORKER_THREADS then
        Inl (Invalid_Argument (''Too many worker threads requested: '' @ string_of_nat n @ '' (max: ''
          @ string_of_nat MAX_WORKER_THREADS @ '')''))
      else Inr \<lparr>ss_queues = replicate (if n = 0 then 1 else n) [], ss_next = 0, ss_running = False, ss_shutdown = False,
        ss_workers = [], ss_alive = True, ss_given = {#}, ss_ran = {#}\<rparr>)"

definition start :: "'f scheduler \<Rightarrow> 'f scheduler" where
  "start s =
     (if ss_running s then s
      else s\<lparr>ss_running := True, ss_shutdown := False,
        ss_workers := replicate (num_workers s) \<lparr>wk_phase = Head, wk_context = []\<rparr>\<rparr>)"

definition getNextWorkerIndex :: "'f scheduler \<Rightarrow> nat \<times> 'f scheduler" where
  "getNextWorkerIndex s = (unat (ss_next s) mod num_workers s, s\<lparr>ss_next := ss_next s + 1\<rparr>)"

definition submitTo :: "string \<Rightarrow> nat \<Rightarrow> 'f work_item \<Rightarrow> 'f scheduler \<Rightarrow> 'f scheduler" where
  "submitTo context worker_index item s =
     (if worker_index \<ge> num_workers s then s
      else s\<lparr>ss_queues := (ss_queues s)[worker_index :=
               push_item context (item\<lparr>wi_correlation_id := context\<rparr>) (ss_queues s ! worker_index)],
             ss_given := ss_given s + load item\<rparr>)"

definition submit_work :: "string \<Rightarrow> 'f work_item \<Rightarrow> 'f scheduler \<Rightarrow> 'f scheduler" where
  "submit_work context item s = (let (worker_idx, s1) = getNextWorkerIndex s in submitTo context worker_idx item s1)"

text \<open>\<open>shutdown\<close> first asks the workers to stop and then waits until all have.\<close>

definition request_shutdown :: "'f scheduler \<Rightarrow> 'f scheduler" where
  "request_shutdown s = (if \<not> ss_running s then s else s\<lparr>ss_shutdown := True\<rparr>)"

definition join_workers :: "'f scheduler \<Rightarrow> 'f scheduler option" where
  "join_workers s =
     (if list_all (\<lambda>w. wk_phase w = Exited) (ss_workers s) then Some (s\<lparr>ss_workers := [], ss_running := False\<rparr>) else None)"


text \<open>\<open>tryStealWork\<close> for a victim drawn at random, called from outside the pool with log context \<open>context\<close>; a
finished coroutine is dropped.\<close>

definition tryStealWork ::
    "('f \<Rightarrow> bool) \<Rightarrow> ('f work_item list \<Rightarrow> nat) \<Rightarrow> nat \<Rightarrow> string \<Rightarrow> 'f scheduler \<Rightarrow> 'f option \<times> string \<times> 'f scheduler" where
  "tryStealWork finished pick victim_idx context s =
     (case steal pick context (ss_queues s ! victim_idx) of
        (None, context') \<Rightarrow> (None, context', s)
      | (Some (item, rest), context') \<Rightarrow>
          (let s' = s\<lparr>ss_queues := (ss_queues s)[victim_idx := rest]\<rparr> in
           case wi_type item of
             Function \<Rightarrow> (wi_func item, context', s')
           | Coroutine \<Rightarrow>
               (case wi_handle item of
                  None \<Rightarrow> (None, context', s')
                | Some h \<Rightarrow> if finished h then (None, context', s') else (Some h, context', s'))))"

text \<open>Stealing from the first of several queues that has work; a queue that is not there is passed over.\<close>

fun steal_some ::
    "('f work_item list \<Rightarrow> nat) \<Rightarrow> nat option list \<Rightarrow> string \<Rightarrow> 'f work_item list list
       \<Rightarrow> 'f work_item option \<times> string \<times> 'f work_item list list" where
  "steal_some pick [] context queues = (None, context, queues)"
| "steal_some pick (None # victims) context queues = steal_some pick victims context queues"
| "steal_some pick (Some v # victims) context queues =
     (case steal pick context (queues ! v) of
        (Some (item, rest), context') \<Rightarrow> (Some item, context', queues[v := rest])
      | (None, context') \<Rightarrow> steal_some pick victims context' queues)"

text \<open>One round over the queues, in one go: the own queue first, then the others in turn.\<close>

definition tryStealOnce ::
    "('f work_item list \<Rightarrow> nat) \<Rightarrow> nat \<Rightarrow> string \<Rightarrow> 'f work_item list list
       \<Rightarrow> 'f work_item option \<times> string \<times> 'f work_item list list" where
  "tryStealOnce pick worker_index context queues =
     (case pop pick (queues ! worker_index) of
        Some (item, rest) \<Rightarrow> (Some item, context, queues[worker_index := rest])
      | None \<Rightarrow> steal_some pick (map (\<lambda>i. Some ((worker_index + i) mod length queues)) [1..<length queues]) context queues)"

section \<open>Worker threads\<close>

definition set_worker :: "nat \<Rightarrow> 'f phase \<Rightarrow> string \<Rightarrow> 'f scheduler \<Rightarrow> 'f scheduler" where
  "set_worker i ph context s = s\<lparr>ss_workers := (ss_workers s)[i := \<lparr>wk_phase = ph, wk_context = context\<rparr>]\<rparr>"

definition set_queue :: "nat \<Rightarrow> 'f work_item list \<Rightarrow> 'f scheduler \<Rightarrow> 'f scheduler" where
  "set_queue q items s = s\<lparr>ss_queues := (ss_queues s)[q := items]\<rparr>"

text \<open>The worker has taken an item with its log context being \<open>context\<close>: an invalid one is dropped, a valid one is
run in the context of its submitter.\<close>

definition run_item :: "('f \<Rightarrow> 'f list option) \<Rightarrow> bool \<Rightarrow> nat \<Rightarrow> string \<Rightarrow> 'f work_item \<Rightarrow> 'f scheduler \<Rightarrow> 'f scheduler" where
  "run_item spawn draining i context item s =
     (case body item of
        None \<Rightarrow> set_worker i (if draining then Drain else Head) context s
      | Some f \<Rightarrow>
          (let s1 = s\<lparr>ss_ran := add_mset f (ss_ran s)\<rparr>;
               run_context = (if wi_correlation_id item \<noteq> [] then wi_correlation_id item else context)
           in case spawn f of
                None \<Rightarrow> s1\<lparr>ss_alive := False\<rparr>
              | Some fs \<Rightarrow> set_worker i (Busy draining context fs) run_context s1))"

inductive worker_step :: "('f \<Rightarrow> 'f list option) \<Rightarrow> 'f scheduler \<Rightarrow> 'f scheduler \<Rightarrow> bool" for spawn where
  Loop: "ss_alive s \<Longrightarrow> i < length (ss_workers s) \<Longrightarrow> ss_workers s ! i = \<lparr>wk_phase = Head, wk_context = c\<rparr>
    \<Longrightarrow> worker_step spawn s (set_worker i (if ss_shutdown s then Drain else Scan 0) c s)"
| Found: "ss_alive s \<Longrightarrow> i < length (ss_workers s) \<Longrightarrow> ss_workers s ! i = \<lparr>wk_phase = Scan k, wk_context = c\<rparr>
    \<Longrightarrow> k < num_workers s \<Longrightarrow> q = (i + k) mod num_workers s
    \<Longrightarrow> (if k = 0 then (pop pick (ss_queues s ! q), c) else steal pick c (ss_queues s ! q)) = (Some (item, rest), c')
    \<Longrightarrow> worker_step spawn s (run_item spawn False i c' item (set_queue q rest s))"
| Missed: "ss_alive s \<Longrightarrow> i < length (ss_workers s) \<Longrightarrow> ss_workers s ! i = \<lparr>wk_phase = Scan k, wk_context = c\<rparr>
    \<Longrightarrow> k < num_workers s \<Longrightarrow> ss_queues s ! ((i + k) mod num_workers s) = []
    \<Longrightarrow> worker_step spawn s (set_worker i (if Suc k < num_workers s then Scan (Suc k) else Head) c s)"
| Spawn: "ss_alive s \<Longrightarrow> i < length (ss_workers s) \<Longrightarrow> ss_workers s ! i = \<lparr>wk_phase = Busy d prev (f # fs), wk_context = c\<rparr>
    \<Longrightarrow> worker_step spawn s (set_worker i (Busy d prev fs) c (submit_work c (makeFunction (Some f)) s))"
| Finish: "ss_alive s \<Longrightarrow> i < length (ss_workers s) \<Longrightarrow> ss_workers s ! i = \<lparr>wk_phase = Busy d prev [], wk_context = c\<rparr>
    \<Longrightarrow> worker_step spawn s (set_worker i (if d then Drain else Head) prev s)"
| Drained: "ss_alive s \<Longrightarrow> i < length (ss_workers s) \<Longrightarrow> ss_workers s ! i = \<lparr>wk_phase = Drain, wk_context = c\<rparr>
    \<Longrightarrow> pop pick (ss_queues s ! i) = Some (item, rest)
    \<Longrightarrow> worker_step spawn s (run_item spawn True i c item (set_queue i rest s))"
| Exit: "ss_alive s \<Longrightarrow> i < length (ss_workers s) \<Longrightarrow> ss_workers s ! i = \<lparr>wk_phase = Drain, wk_context = c\<rparr>
    \<Longrightarrow> ss_queues s ! i = [] \<Longrightarrow> worker_step spawn s (set_worker i Exited [] s)"

text \<open>Everything that happens to a scheduler: worker steps and the calls of other threads.\<close>

inductive sched_step :: "('f \<Rightarrow> 'f list option) \<Rightarrow> 'f scheduler \<Rightarrow> 'f scheduler \<Rightarrow> bool" for spawn where
  Worker: "worker_step spawn s s' \<Longrightarrow> sched_step spawn s s'"
| Submit: "sched_step spawn s (submit_work context item s)"
| SubmitTo: "sched_step spawn s (submitTo context worker_index item s)"
| Start: "sched_step spawn s (start s)"
| Shutdown: "sched_step spawn s (request_shutdown s)"
| Join: "join_workers s = Some s' \<Longrightarrow> sched_step spawn s s'"

section \<open>No work is lost or run twice\<close>

definition bodies :: "'f work_item list \<Rightarrow> 'f multiset" where
  "bodies items = (\<Sum>item\<in>#mset items. load item)"

definition queued_work :: "'f scheduler \<Rightarrow> 'f multiset" where
  "queued_work s = (\<Sum>q<num_workers s. bodies (ss_queues s ! q))"

text \<open>The threads are either all there or none; a thread that is looking for work looks at one of the queues; without
a request to stop, none is draining or gone.\<close>

definition stopping :: "'f worker \<Rightarrow> bool" where
  "stopping w \<longleftrightarrow> (case wk_phase w of Head \<Rightarrow> False | Scan k \<Rightarrow> False | Busy d prev fs \<Rightarrow> d | Drain \<Rightarrow> True | Exited \<Rightarrow> True)"

definition sched_ok :: "'f scheduler \<Rightarrow> bool" where
  "sched_ok s \<longleftrightarrow> num_workers s > 0 \<and> length (ss_workers s) = (if ss_running s then num_workers s else 0)
     \<and> (\<forall>w \<in> set (ss_workers s). \<forall>k. wk_phase w = Scan k \<longrightarrow> k < num_workers s)
     \<and> (ss_shutdown s \<or> (\<forall>w \<in> set (ss_workers s). \<not> stopping w))
     \<and> ss_given s = ss_ran s + queued_work s"

lemma load_fields [simp]:
  "load (item\<lparr>wi_correlation_id := c\<rparr>) = load item" "body (item\<lparr>wi_correlation_id := c\<rparr>) = body item"
  by (simp_all add: load_def body_def split: item_type.split)

lemma bodies_push [simp]: "bodies (push_item c item q) = bodies q + load item"
  by (simp add: bodies_def push_item_def)

lemma bodies_take: "try_dequeue pick q = Some (item, rest) \<Longrightarrow> bodies q = load item + bodies rest"
  by (simp add: bodies_def try_dequeue_mset)

lemma steal_Some: "steal pick c q = (Some (item, rest), c') \<longleftrightarrow>
    try_dequeue pick q = Some (item, rest) \<and> c' = (if wi_correlation_id item \<noteq> [] then wi_correlation_id item else c)"
  by (auto simp: steal_def split: option.splits)

lemma queued_update:
  assumes "q < length (ss_queues s)" and "ss_queues s' = (ss_queues s)[q := items]"
  shows "queued_work s' + bodies (ss_queues s ! q) = queued_work s + bodies items"
  using sum_list_update [OF assms(1), of "\<lambda>_. bodies" items] assms(2) by (simp add: queued_work_def)

lemma queued_fields [simp]:
  "queued_work (set_worker i ph c s) = queued_work s" "queued_work (s\<lparr>ss_ran := r\<rparr>) = queued_work s"
  "queued_work (s\<lparr>ss_alive := b\<rparr>) = queued_work s" "queued_work (s\<lparr>ss_shutdown := b\<rparr>) = queued_work s"
  "queued_work (s\<lparr>ss_workers := ws\<rparr>) = queued_work s" "queued_work (s\<lparr>ss_running := b\<rparr>) = queued_work s"
  "queued_work (s\<lparr>ss_next := w\<rparr>) = queued_work s" "queued_work (s\<lparr>ss_given := g\<rparr>) = queued_work s"
  by (simp_all add: queued_work_def set_worker_def)

lemma queued_set_queue:
  assumes "q < num_workers s" and "try_dequeue pick (ss_queues s ! q) = Some (item, rest)"
  shows "queued_work s = load item + queued_work (set_queue q rest s)"
  using queued_update [OF assms(1), of "set_queue q rest s" rest] bodies_take [OF assms(2)] by (simp add: set_queue_def add.commute)

lemma queued_submitTo:
  "queued_work (submitTo c i item s) = queued_work s + (if i < num_workers s then load item else {#})"
  using queued_update [of i s "submitTo c i item s" "push_item c (item\<lparr>wi_correlation_id := c\<rparr>) (ss_queues s ! i)"]
  by (simp add: submitTo_def)

lemma submitTo_fields [simp]:
  "num_workers (submitTo c i item s) = num_workers s" "ss_workers (submitTo c i item s) = ss_workers s"
  "ss_running (submitTo c i item s) = ss_running s" "ss_shutdown (submitTo c i item s) = ss_shutdown s"
  "ss_alive (submitTo c i item s) = ss_alive s" "ss_ran (submitTo c i item s) = ss_ran s"
  by (simp_all add: submitTo_def)

lemma given_submitTo: "ss_given (submitTo c i item s) = ss_given s + (if i < num_workers s then load item else {#})"
  by (simp add: submitTo_def)

lemma ok_submitTo: "sched_ok s \<Longrightarrow> sched_ok (submitTo c i item s)"
  by (simp add: sched_ok_def queued_submitTo given_submitTo)

lemma ok_submit: "sched_ok s \<Longrightarrow> sched_ok (submit_work c item s)"
  unfolding submit_work_def getNextWorkerIndex_def Let_def split_beta
  by (rule ok_submitTo) (simp add: sched_ok_def)

lemma ok_set_worker:
  assumes "sched_ok s" and "ss_shutdown s \<or> \<not> stopping \<lparr>wk_phase = ph, wk_context = c\<rparr>"
    and "\<forall>k. ph = Scan k \<longrightarrow> k < num_workers s"
  shows "sched_ok (set_worker i ph c s)"
  using assms set_update_subset_insert [of "ss_workers s" i "\<lparr>wk_phase = ph, wk_context = c\<rparr>"]
  by (auto simp: sched_ok_def set_worker_def queued_work_def)

lemma ok_run_item:
  assumes "sched_ok s" and "q < num_workers s" and "try_dequeue pick (ss_queues s ! q) = Some (item, rest)"
    and "ss_shutdown s \<or> \<not> d"
  shows "sched_ok (run_item spawn d i c item (set_queue q rest s))"
proof -
  note queued = queued_set_queue [OF assms(2,3)]
  let ?s1 = "set_queue q rest s"
  have fields: "ss_workers ?s1 = ss_workers s" "num_workers ?s1 = num_workers s" "ss_shutdown ?s1 = ss_shutdown s"
    "ss_running ?s1 = ss_running s" "ss_given ?s1 = ss_given s" "ss_ran ?s1 = ss_ran s"
    by (simp_all add: set_queue_def)
  show ?thesis
  proof (cases "body item")
    case None
    have "sched_ok ?s1" using assms(1) queued fields None by (simp add: sched_ok_def load_def)
    then show ?thesis using assms(4) fields None by (auto simp: run_item_def stopping_def intro!: ok_set_worker)
  next
    case (Some f)
    let ?s2 = "?s1\<lparr>ss_ran := add_mset f (ss_ran ?s1)\<rparr>"
    have s2: "sched_ok ?s2" using assms(1) queued fields Some by (simp add: sched_ok_def load_def)
    show ?thesis
    proof (cases "spawn f")
      case None
      have "sched_ok (?s2\<lparr>ss_alive := False\<rparr>)" using s2 by (simp add: sched_ok_def)
      then show ?thesis using Some None by (simp add: run_item_def Let_def)
    next
      case (Some fs)
      have "sched_ok (set_worker i (Busy d c fs) c' ?s2)" for c'
        by (rule ok_set_worker [OF s2]) (use assms(4) fields(3) in \<open>simp_all add: stopping_def\<close>)
      then show ?thesis using Some \<open>body item = Some f\<close> by (simp add: run_item_def Let_def)
    qed
  qed
qed

lemma worker_in: "i < length (ss_workers s) \<Longrightarrow> ss_workers s ! i = w \<Longrightarrow> w \<in> set (ss_workers s)"
  by (auto simp: in_set_conv_nth)

lemma ok_worker_step:
  assumes "worker_step spawn s s'" and ok: "sched_ok s"
  shows "sched_ok s'"
  using assms(1)
proof cases
  case (Loop i c)
  have "0 < num_workers s" using ok by (simp add: sched_ok_def)
  then show ?thesis unfolding Loop(1) by (intro ok_set_worker [OF ok]) (auto simp: stopping_def)
next
  case (Found i k c q pick item rest c')
  have "q < num_workers s" using Found(6) ok by (simp add: sched_ok_def)
  moreover have "try_dequeue pick (ss_queues s ! q) = Some (item, rest)"
    using Found(7) by (auto simp: pop_def steal_Some split: if_splits)
  ultimately show ?thesis unfolding Found(1) by (intro ok_run_item [OF ok]) auto
next
  case (Missed i k c)
  then show ?thesis unfolding Missed(1) by (intro ok_set_worker [OF ok]) (auto simp: stopping_def)
next
  case (Spawn i d prev f fs c)
  have "ss_shutdown s \<or> \<not> d" using ok worker_in [OF Spawn(3,4)] by (auto simp: sched_ok_def stopping_def)
  then show ?thesis unfolding Spawn(1)
    by (intro ok_set_worker ok_submit [OF ok]) (simp_all add: stopping_def submit_work_def getNextWorkerIndex_def Let_def)
next
  case (Finish i d prev c)
  have "ss_shutdown s \<or> \<not> d" using ok worker_in [OF Finish(3,4)] by (auto simp: sched_ok_def stopping_def)
  then show ?thesis unfolding Finish(1) using ok by (intro ok_set_worker) (auto simp: stopping_def)
next
  case (Drained i c pick item rest)
  have "ss_shutdown s" using ok worker_in [OF Drained(3,4)] by (auto simp: sched_ok_def stopping_def)
  moreover have "i < num_workers s" using ok Drained(3) by (auto simp: sched_ok_def split: if_splits)
  ultimately show ?thesis unfolding Drained(1) using Drained(5) by (intro ok_run_item [OF ok]) (auto simp: pop_def)
next
  case (Exit i c)
  have "ss_shutdown s" using ok worker_in [OF Exit(3,4)] by (auto simp: sched_ok_def stopping_def)
  then show ?thesis unfolding Exit(1) using ok by (intro ok_set_worker) auto
qed

lemma ok_start: "sched_ok s \<Longrightarrow> sched_ok (start s)" "sched_ok s \<Longrightarrow> sched_ok (request_shutdown s)"
  by (auto simp: start_def request_shutdown_def sched_ok_def stopping_def)

lemma ok_sched_step:
  assumes "sched_step spawn s s'" and ok: "sched_ok s"
  shows "sched_ok s'"
  using assms(1)
proof cases
  case Worker
  then show ?thesis using ok_worker_step ok by blast
next
  case Join
  then show ?thesis using ok by (auto simp: join_workers_def sched_ok_def split: if_splits)
qed (use ok in \<open>auto simp: ok_submit ok_submitTo ok_start\<close>)

lemma ok_new: "new_scheduler n = Inr s \<Longrightarrow> sched_ok s"
  by (auto simp: new_scheduler_def sched_ok_def queued_work_def bodies_def split: if_splits)

lemma ok_reachable: "(sched_step spawn)\<^sup>*\<^sup>* s s' \<Longrightarrow> sched_ok s \<Longrightarrow> sched_ok s'"
  by (induction rule: rtranclp_induct) (auto intro: ok_sched_step)

text \<open>C12: Whatever the threads do, each function or coroutine submitted to the scheduler has been run exactly once or
is waiting in exactly one queue, and the scheduler has its full set of threads or none.\<close>

theorem work_conserved:
  assumes "new_scheduler n = Inr s0" and "(sched_step spawn)\<^sup>*\<^sup>* s0 s"
  shows "ss_given s = ss_ran s + queued_work s
    \<and> length (ss_workers s) = (if ss_running s then num_workers s else 0)"
  using ok_reachable [OF assms(2) ok_new [OF assms(1)]] by (simp add: sched_ok_def)

definition sample_scheduler :: "nat scheduler" where
  "sample_scheduler = \<lparr>ss_queues = [[], []], ss_next = 0, ss_running = False, ss_shutdown = False, ss_workers = [],
     ss_alive = True, ss_given = {#}, ss_ran = {#}\<rparr>"

lemma sample_scheduler_new: "new_scheduler 2 = Inr sample_scheduler"
  by (simp add: new_scheduler_def sample_scheduler_def MAX_WORKER_THREADS_def numeral_2_eq_2)

theorem work_conserved_witness:
  "ss_given (submit_work [] (makeFunction (Some 7)) (start sample_scheduler)) =
     {#} + queued_work (submit_work [] (makeFunction (Some 7)) (start sample_scheduler))"
proof -
  have "(sched_step (\<lambda>_. Some []))\<^sup>*\<^sup>* sample_scheduler (submit_work [] (makeFunction (Some 7)) (start sample_scheduler))"
    by (meson sched_step.Start sched_step.Submit converse_rtranclp_into_rtranclp r_into_rtranclp)
  from work_conserved [OF sample_scheduler_new this] show ?thesis
    by (simp add: submit_work_def getNextWorkerIndex_def submitTo_def start_def sample_scheduler_def)
qed

section \<open>Shutting down\<close>






lemma set_worker_fields [simp]:
  "ss_queues (set_worker i ph c s) = ss_queues s" "ss_running (set_worker i ph c s) = ss_running s"
  "ss_shutdown (set_worker i ph c s) = ss_shutdown s" "ss_alive (set_worker i ph c s) = ss_alive s"
  "ss_given (set_worker i ph c s) = ss_given s" "ss_ran (set_worker i ph c s) = ss_ran s"
  "ss_workers (set_worker i ph c s) = (ss_workers s)[i := \<lparr>wk_phase = ph, wk_context = c\<rparr>]"
  by (simp_all add: set_worker_def)

lemma set_queue_fields [simp]:
  "ss_queues (set_queue q items s) = (ss_queues s)[q := items]" "ss_running (set_queue q items s) = ss_running s"
  "ss_shutdown (set_queue q items s) = ss_shutdown s" "ss_alive (set_queue q items s) = ss_alive s"
  "ss_given (set_queue q items s) = ss_given s" "ss_ran (set_queue q items s) = ss_ran s"
  "ss_workers (set_queue q items s) = ss_workers s"
  by (simp_all add: set_queue_def)












lemma stopping_phases [simp]:
  "stopping \<lparr>wk_phase = Drain, wk_context = c\<rparr>" "stopping \<lparr>wk_phase = Exited, wk_context = c\<rparr>"
  "stopping \<lparr>wk_phase = Busy d prev fs, wk_context = c\<rparr> \<longleftrightarrow> d" "\<not> stopping \<lparr>wk_phase = Head, wk_context = c\<rparr>"
  "\<not> stopping \<lparr>wk_phase = Scan k, wk_context = c\<rparr>"
  by (simp_all add: stopping_def)

lemma stranded_step:
  assumes "worker_step spawn s s'" and j: "j < length (ss_workers s)" "wk_phase (ss_workers s ! j) = Exited"
    and stop: "\<forall>w \<in> set (ss_workers s). stopping w"
  shows "j < length (ss_workers s') \<and> wk_phase (ss_workers s' ! j) = Exited \<and> (\<forall>w \<in> set (ss_workers s'). stopping w)
    \<and> mset (ss_queues s ! j) \<subseteq># mset (ss_queues s' ! j)"
proof -
  have update: "\<forall>w \<in> set ((ss_workers s)[i := w']). stopping w" if "stopping w'" for i w'
    using stop that set_update_subset_insert by fastforce
  show ?thesis using assms(1)
  proof cases
    case (Loop i c)
    then show ?thesis using stop worker_in [OF Loop(3,4)] by (auto simp: stopping_def)
  next
    case (Found i k c q pick item rest c')
    then show ?thesis using stop worker_in [OF Found(3,4)] by (auto simp: stopping_def)
  next
    case (Missed i k c)
    then show ?thesis using stop worker_in [OF Missed(3,4)] by (auto simp: stopping_def)
  next
    case (Spawn i d prev f fs c)
    have "stopping \<lparr>wk_phase = Busy d prev fs, wk_context = c\<rparr>" using stop worker_in [OF Spawn(3,4)] by auto
    then have "\<forall>w \<in> set ((ss_workers s)[i := \<lparr>wk_phase = Busy d prev fs, wk_context = c\<rparr>]). stopping w" by (rule update)
    moreover have "i \<noteq> j" using j Spawn(4) by auto
    ultimately show ?thesis unfolding Spawn(1) using j
      by (cases "unat (ss_next s) mod num_workers s = j")
        (simp_all add: submit_work_def getNextWorkerIndex_def submitTo_def Let_def push_item_def)
  next
    case (Finish i d prev c)
    have "d" using stop worker_in [OF Finish(3,4)] by (auto simp: stopping_def)
    moreover have "i \<noteq> j" using j Finish(4) by auto
    ultimately show ?thesis unfolding Finish(1) using j update [of "\<lparr>wk_phase = Drain, wk_context = prev\<rparr>" i] by simp
  next
    case (Drained i c pick item rest)
    have "i \<noteq> j" using j Drained(4) by auto
    then show ?thesis unfolding Drained(1) using j stop update [of "\<lparr>wk_phase = Drain, wk_context = c\<rparr>" i]
        update [of "\<lparr>wk_phase = Busy True c fs, wk_context = c'\<rparr>" i for fs c']
      by (simp add: run_item_def Let_def split: option.split)
  next
    case (Exit i c)
    have "i \<noteq> j" using j Exit(4) by auto
    then show ?thesis unfolding Exit(1) using j update [of "\<lparr>wk_phase = Exited, wk_context = []\<rparr>" i] by simp
  qed
qed

text \<open>When all workers are emptying their own queues or gone, the queue of a worker that is gone is never served
again: whatever is put there stays there and is not run, even after all threads have exited. So work that a draining
worker submits can be lost although \<open>shutdown\<close> completes.\<close>

lemma late_work_stranded:
  assumes "j < length (ss_workers s)" and "wk_phase (ss_workers s ! j) = Exited"
    and "\<forall>w \<in> set (ss_workers s). stopping w" and "(worker_step spawn)\<^sup>*\<^sup>* s s'"
  shows "mset (ss_queues s ! j) \<subseteq># mset (ss_queues s' ! j) \<and> wk_phase (ss_workers s' ! j) = Exited"
proof -
  have "j < length (ss_workers s') \<and> wk_phase (ss_workers s' ! j) = Exited \<and> (\<forall>w \<in> set (ss_workers s'). stopping w)
      \<and> mset (ss_queues s ! j) \<subseteq># mset (ss_queues s' ! j)"
    using assms(4)
  proof (induction rule: rtranclp_induct)
    case base
    then show ?case using assms(1-3) by simp
  next
    case (step s1 s2)
    then show ?case using stranded_step [OF step(2), of j] subset_mset.order_trans by blast
  qed
  then show ?thesis by blast
qed

text \<open>Two workers, and a piece of work that submits another one while it runs.\<close>

definition chain :: "nat \<Rightarrow> nat list option" where
  "chain f = Some (if f = 7 then [8] else [])"

definition stopped_state ::
    "nat phase \<Rightarrow> nat phase \<Rightarrow> nat list \<Rightarrow> nat list \<Rightarrow> 64 word \<Rightarrow> nat multiset \<Rightarrow> nat multiset \<Rightarrow> nat scheduler" where
  "stopped_state p0 p1 q0 q1 nxt given finished =
     \<lparr>ss_queues = [map (makeFunction \<circ> Some) q0, map (makeFunction \<circ> Some) q1], ss_next = nxt, ss_running = True,
      ss_shutdown = True, ss_workers = [\<lparr>wk_phase = p0, wk_context = []\<rparr>, \<lparr>wk_phase = p1, wk_context = []\<rparr>],
      ss_alive = True, ss_given = given, ss_ran = finished\<rparr>"

lemmas chain_defs = chain_def stopped_state_def set_worker_def set_queue_def run_item_def makeFunction_def body_def load_def
  submit_work_def submitTo_def getNextWorkerIndex_def push_item_def pop_def try_dequeue_def Let_def

lemma chain_run:
  "(worker_step chain)\<^sup>*\<^sup>* (stopped_state Head Head [7] [] 1 {#7#} {#}) (stopped_state (Busy True [] []) Exited [] [8] 2 {#8, 7#} {#7#})"
proof -
  let ?s = "stopped_state"
  have "worker_step chain (?s Head Head [7] [] 1 {#7#} {#}) (?s Head Drain [7] [] 1 {#7#} {#})"
    using worker_step.Loop [of "?s Head Head [7] [] 1 {#7#} {#}" 1 "[]" chain] by (simp add: chain_defs)
  moreover have "worker_step chain (?s Head Drain [7] [] 1 {#7#} {#}) (?s Head Exited [7] [] 1 {#7#} {#})"
    using worker_step.Exit [of "?s Head Drain [7] [] 1 {#7#} {#}" 1 "[]" chain] by (simp add: chain_defs)
  moreover have "worker_step chain (?s Head Exited [7] [] 1 {#7#} {#}) (?s Drain Exited [7] [] 1 {#7#} {#})"
    using worker_step.Loop [of "?s Head Exited [7] [] 1 {#7#} {#}" 0 "[]" chain] by (simp add: chain_defs)
  moreover have "worker_step chain (?s Drain Exited [7] [] 1 {#7#} {#}) (?s (Busy True [] [8]) Exited [] [] 1 {#7#} {#7#})"
    using worker_step.Drained [of "?s Drain Exited [7] [] 1 {#7#} {#}" 0 "[]" "\<lambda>_. 0" "makeFunction (Some 7)" "[]" chain]
    by (simp add: chain_defs)
  moreover have "worker_step chain (?s (Busy True [] [8]) Exited [] [] 1 {#7#} {#7#}) (?s (Busy True [] []) Exited [] [8] 2 {#8, 7#} {#7#})"
    using worker_step.Spawn [of "?s (Busy True [] [8]) Exited [] [] 1 {#7#} {#7#}" 0 True "[]" 8 "[]" "[]" chain]
    by (simp add: chain_defs)
  ultimately show ?thesis by (meson converse_rtranclp_into_rtranclp r_into_rtranclp)
qed

lemma chain_start:
  "(sched_step chain)\<^sup>*\<^sup>* sample_scheduler (stopped_state Head Head [7] [] 1 {#7#} {#})"
proof -
  have "request_shutdown (submit_work [] (makeFunction (Some 7)) (start sample_scheduler)) = stopped_state Head Head [7] [] 1 {#7#} {#}"
    by (simp add: chain_defs request_shutdown_def start_def sample_scheduler_def numeral_2_eq_2)
  then show ?thesis
    by (metis sched_step.Start sched_step.Submit sched_step.Shutdown converse_rtranclp_into_rtranclp rtranclp.rtrancl_refl)
qed

lemma late_work_stranded_witness:
  "\<exists>s. (sched_step chain)\<^sup>*\<^sup>* sample_scheduler s
     \<and> (\<forall>s'. (worker_step chain)\<^sup>*\<^sup>* s s' \<longrightarrow> makeFunction (Some 8) \<in># mset (ss_queues s' ! 1))"
proof -
  let ?s = "stopped_state (Busy True [] []) Exited [] [8] 2 {#8, 7#} {#7#}"
  have "(sched_step chain)\<^sup>*\<^sup>* (stopped_state Head Head [7] [] 1 {#7#} {#}) ?s"
    using mono_rtranclp [of "worker_step chain" "sched_step chain"] chain_run sched_step.Worker by blast
  then have "(sched_step chain)\<^sup>*\<^sup>* sample_scheduler ?s" using chain_start by (rule rtranclp_trans [rotated])
  moreover have "makeFunction (Some 8) \<in># mset (ss_queues s' ! 1)" if "(worker_step chain)\<^sup>*\<^sup>* ?s s'" for s'
    using late_work_stranded [of 1 ?s, OF _ _ _ that]
    by (auto simp: stopped_state_def stopping_def dest: mset_subset_eqD)
  ultimately show ?thesis by blast
qed

section \<open>Fair submission\<close>

lemma submit_queues:
  assumes "0 < num_workers s" and "q = unat (ss_next s) mod num_workers s"
  shows "ss_next (submit_work c item s) = ss_next s + 1"
    and "map length (ss_queues (submit_work c item s)) = (map length (ss_queues s))[q := Suc (length (ss_queues s ! q))]"
proof -
  have "\<not> num_workers s \<le> unat (ss_next s) mod num_workers s" using assms(1) by (simp add: not_le)
  then show "ss_next (submit_work c item s) = ss_next s + 1"
    and "map length (ss_queues (submit_work c item s)) = (map length (ss_queues s))[q := Suc (length (ss_queues s ! q))]"
    using assms(2) by (simp_all add: submit_work_def getNextWorkerIndex_def submitTo_def Let_def push_item_def map_update)
qed

text \<open>The length of queue \<open>q\<close> after \<open>m\<close> submissions to \<open>n\<close> queues.\<close>

definition share :: "nat \<Rightarrow> nat \<Rightarrow> nat \<Rightarrow> nat" where
  "share m n q = m div n + (if q < m mod n then 1 else 0)"

lemma share_Suc: "q < n \<Longrightarrow> share (Suc m) n q = (if q = m mod n then Suc (share m n q) else share m n q)"
  by (auto simp: share_def mod_Suc div_Suc)

text \<open>Work submitted without a target is dealt out in turn: when no worker takes any of it, the queues of a fresh
scheduler differ in length by at most one, the earlier ones being the longer ones.\<close>

lemma submissions_balanced:
  assumes "new_scheduler n = Inr s0" and "length items < 2 ^ 64"
  shows "map length (ss_queues (fold (\<lambda>(c, item). submit_work c item) items s0)) =
    map (share (length items) (max 1 n)) [0..<max 1 n]"
proof -
  define m where "m = max 1 n"
  let ?after = "\<lambda>xs. fold (\<lambda>(c, item). submit_work c item) xs s0"
  have "map length (ss_queues (?after items)) = map (share (length items) m) [0..<m]
      \<and> ss_next (?after items) = of_nat (length items)"
    using assms(2)
  proof (induction items rule: rev_induct)
    case Nil
    then show ?case using assms(1)
      by (auto simp: new_scheduler_def share_def map_replicate_const m_def max_def split: if_splits)
  next
    case (snoc x xs)
    let ?s = "?after xs" and ?q = "length xs mod m"
    obtain c item where x: "x = (c, item)" by (cases x)
    have IH: "map length (ss_queues ?s) = map (share (length xs) m) [0..<m]" "ss_next ?s = of_nat (length xs)"
      using snoc by simp_all
    have num: "num_workers ?s = m" using arg_cong [OF IH(1), of length] by simp
    then have pos: "0 < num_workers ?s" "0 < m" by (simp_all add: m_def)
    have "unat (ss_next ?s) = length xs" using IH(2) snoc.prems by (simp add: unat_of_nat)
    then have q: "?q = unat (ss_next ?s) mod num_workers ?s" using num by simp
    have len: "length (ss_queues ?s ! ?q) = share (length xs) m ?q"
      using arg_cong [OF IH(1), of "\<lambda>ls. ls ! ?q"] num pos by simp
    have "map (share (Suc (length xs)) m) [0..<m] = (map (share (length xs) m) [0..<m])[?q := Suc (share (length xs) m ?q)]"
      by (rule nth_equalityI) (auto simp: share_Suc nth_list_update)
    then show ?case using submit_queues [OF pos(1) q, of c item] IH len x by (simp add: add.commute)
  qed
  then show ?thesis unfolding m_def by blast
qed

lemma submissions_balanced_example:
  "map length (ss_queues (fold (\<lambda>(c, item). submit_work c item)
     [([], makeFunction (Some 7)), ([], makeFunction (Some 8)), ([], makeFunction None)] sample_scheduler)) = [2, 1]"
proof -
  have "share (Suc (Suc (Suc 0))) (Suc (Suc 0)) 0 = 2" "share (Suc (Suc (Suc 0))) (Suc (Suc 0)) (Suc 0) = 1" by code_simp+
  then show ?thesis
    using submissions_balanced [OF sample_scheduler_new,
        of "[([], makeFunction (Some 7)), ([], makeFunction (Some 8)), ([], makeFunction None)]"]
    by simp
qed

section \<open>The log context of a thief\<close>

text \<open>A worker that runs an item of its own queue has its previous log context back afterwards. A worker that runs a
stolen item keeps the item's correlation identifier: stealing has set it before the worker saved the context to restore.\<close>

lemma stolen_context_stays:
  assumes "ss_alive s" and "i < length (ss_workers s)" and "ss_workers s ! i = \<lparr>wk_phase = Scan k, wk_context = c\<rparr>"
    and "k < num_workers s" and "try_dequeue pick (ss_queues s ! ((i + k) mod num_workers s)) = Some (item, rest)"
    and "body item = Some f" and "spawn f = Some []" and "wi_correlation_id item \<noteq> []"
  shows "\<exists>s1 s2. worker_step spawn s s1 \<and> wk_context (ss_workers s1 ! i) = wi_correlation_id item
    \<and> worker_step spawn s1 s2
    \<and> ss_workers s2 ! i = \<lparr>wk_phase = Head, wk_context = if k = 0 then c else wi_correlation_id item\<rparr>"
proof -
  let ?q = "(i + k) mod num_workers s" and ?id = "wi_correlation_id item"
  let ?c = "if k = 0 then c else ?id"
  let ?s1 = "run_item spawn False i ?c item (set_queue ?q rest s)"
  have found: "(if k = 0 then (pop pick (ss_queues s ! ?q), c) else steal pick c (ss_queues s ! ?q)) = (Some (item, rest), ?c)"
    using assms(5,8) by (auto simp: pop_def steal_def)
  have step1: "worker_step spawn s ?s1" by (rule worker_step.Found [OF assms(1-4) refl found])
  have w1: "ss_workers ?s1 ! i = \<lparr>wk_phase = Busy False ?c [], wk_context = ?id\<rparr>" "ss_alive ?s1" "i < length (ss_workers ?s1)"
    using assms(1,2,6-8) by (simp_all add: run_item_def Let_def)
  have "worker_step spawn ?s1 (set_worker i Head ?c ?s1)" using worker_step.Finish [OF w1(2,3,1), of spawn] by simp
  moreover have "ss_workers (set_worker i Head ?c ?s1) ! i = \<lparr>wk_phase = Head, wk_context = ?c\<rparr>" using w1(3) by simp
  ultimately show ?thesis using step1 w1(1) by (metis worker.select_convs(2))
qed

lemma stolen_context_stays_example:
  "\<exists>s1 s2. worker_step chain \<lparr>ss_queues = [[(makeFunction (Some 9))\<lparr>wi_correlation_id := ''job''\<rparr>], []], ss_next = 1,
       ss_running = True, ss_shutdown = False,
       ss_workers = [\<lparr>wk_phase = Head, wk_context = []\<rparr>, \<lparr>wk_phase = Scan 1, wk_context = []\<rparr>],
       ss_alive = True, ss_given = {#9#}, ss_ran = {#}\<rparr> s1
     \<and> worker_step chain s1 s2 \<and> ss_workers s2 ! 1 = \<lparr>wk_phase = Head, wk_context = ''job''\<rparr>"
proof -
  let ?item = "(makeFunction (Some 9))\<lparr>wi_correlation_id := ''job''\<rparr> :: nat work_item"
  let ?s = "\<lparr>ss_queues = [[?item], []], ss_next = 1, ss_running = True, ss_shutdown = False,
    ss_workers = [\<lparr>wk_phase = Head, wk_context = []\<rparr>, \<lparr>wk_phase = Scan 1, wk_context = []\<rparr>],
    ss_alive = True, ss_given = {#9#}, ss_ran = {#}\<rparr>"
  show ?thesis
    using stolen_context_stays [of ?s 1 1 "[]" "\<lambda>_. 0" ?item "[]" 9 chain]
    by (simp add: try_dequeue_def makeFunction_def body_def chain_def) blast
qed

section \<open>Pull or steal\<close>

text \<open>The awaitables hold a reference to their own queue and pointers to all queues; queues are named by their index
and a null pointer is \<open>None\<close>. Both classes have the same \<open>trySteal\<close>.\<close>

definition trySteal ::
    "('f work_item list \<Rightarrow> nat) \<Rightarrow> nat option list \<Rightarrow> nat \<Rightarrow> string \<Rightarrow> 'f work_item list list
       \<Rightarrow> 'f work_item option \<times> string \<times> 'f work_item list list" where
  "trySteal pick all_queues worker_index =
     steal_some pick (map (\<lambda>i. all_queues ! ((worker_index + i) mod length all_queues)) [1..<length all_queues])"

text \<open>\<open>await_ready\<close>, which \<open>await_suspend\<close> repeats after its pause.\<close>

definition await_ready ::
    "('f work_item list \<Rightarrow> nat) \<Rightarrow> nat \<Rightarrow> nat option list \<Rightarrow> nat \<Rightarrow> string \<Rightarrow> 'f work_item list list
       \<Rightarrow> 'f work_item option \<times> string \<times> 'f work_item list list" where
  "await_ready pick own all_queues worker_index context queues =
     (case pop pick (queues ! own) of
        Some (item, rest) \<Rightarrow> (Some item, context, queues[own := rest])
      | None \<Rightarrow> trySteal pick all_queues worker_index context queues)"

definition await_resume :: "bool \<Rightarrow> 'f work_item option \<Rightarrow> 'f work_item option" where
  "await_resume shutdown result = (if shutdown then None else result)"

text \<open>A whole \<open>co_await\<close>: \<open>late\<close> tells that the time limit had passed when the coroutine was suspended, and \<open>others\<close> is
what the other threads do to the queues during the pause.\<close>

definition pull_or_steal ::
    "('f work_item list \<Rightarrow> nat) \<Rightarrow> bool \<Rightarrow> bool \<Rightarrow> ('f work_item list list \<Rightarrow> 'f work_item list list) \<Rightarrow> nat \<Rightarrow> nat option list
       \<Rightarrow> nat \<Rightarrow> string \<Rightarrow> 'f work_item list list \<Rightarrow> 'f work_item option \<times> string \<times> 'f work_item list list" where
  "pull_or_steal pick shutdown late others own all_queues worker_index context queues =
     (let (result, context1, queues1) = await_ready pick own all_queues worker_index context queues in
      if result \<noteq> None then (await_resume shutdown result, context1, queues1)
      else if late then (None, context1, queues1)
      else
        let (result, context2, queues2) = await_ready pick own all_queues worker_index context1 (others queues1)
        in (await_resume shutdown result, context2, queues2))"

definition all_items :: "'f work_item list list \<Rightarrow> 'f work_item multiset" where
  "all_items queues = (\<Sum>q<length queues. mset (queues ! q))"

lemma all_items_take:
  assumes "q < length queues" and "try_dequeue pick (queues ! q) = Some (item, rest)"
  shows "all_items queues = add_mset item (all_items (queues[q := rest]))"
  using sum_list_update [OF assms(1), of "\<lambda>_. mset" rest] try_dequeue_mset [OF assms(2)] by (simp add: all_items_def)

lemma steal_some_takes:
  assumes "\<forall>v. Some v \<in> set victims \<longrightarrow> v < length queues" and "steal_some pick victims c queues = (r, c', queues')"
  shows "all_items queues = mset_set (set_option r) + all_items queues' \<and> length queues' = length queues
    \<and> (r = None \<longrightarrow> queues' = queues \<and> (\<forall>v. Some v \<in> set victims \<longrightarrow> queues ! v = []))"
  using assms
proof (induction pick victims c queues arbitrary: r c' queues' rule: steal_some.induct)
  case (3 pick v victims c queues)
  show ?case
  proof (cases "try_dequeue pick (queues ! v)")
    case None
    then have "steal pick c (queues ! v) = (None, c)" by (simp add: steal_def)
    then show ?thesis using 3 None by fastforce
  next
    case (Some taken)
    obtain item rest where t: "taken = (item, rest)" by (cases taken)
    then have "r = Some item" "queues' = queues[v := rest]" using 3(3) Some by (auto simp: steal_def)
    then show ?thesis using all_items_take [of v queues pick item rest] 3(2) Some t by simp
  qed
qed auto

lemma await_ready_takes:
  assumes "own < length queues" and "\<forall>v. Some v \<in> set all_queues \<longrightarrow> v < length queues"
    and "await_ready pick own all_queues w c queues = (r, c', queues')"
  shows "all_items queues = mset_set (set_option r) + all_items queues' \<and> length queues' = length queues"
proof (cases "pop pick (queues ! own)")
  case None
  let ?victims = "map (\<lambda>i. all_queues ! ((w + i) mod length all_queues)) [1..<length all_queues]"
  have "Some v \<in> set ?victims \<longrightarrow> Some v \<in> set all_queues" for v
    by (auto simp: image_iff) (metis Suc_le_lessD length_greater_0_conv list.size(3) mod_less_divisor not_less_zero nth_mem)
  then have "\<forall>v. Some v \<in> set ?victims \<longrightarrow> v < length queues" using assms(2) by blast
  moreover have "steal_some pick ?victims c queues = (r, c', queues')" using assms(3) None by (simp add: await_ready_def trySteal_def)
  ultimately show ?thesis using steal_some_takes by blast
next
  case (Some taken)
  then show ?thesis using assms(1,3) all_items_take [of own queues pick] by (cases taken) (auto simp: await_ready_def pop_def)
qed

text \<open>A round of a worker over all queues finds work exactly if there is some.\<close>

lemma round_reaches: "q < n \<Longrightarrow> w < n \<Longrightarrow> q \<noteq> w \<Longrightarrow> \<exists>i \<in> {1..<n}. (w + i) mod n = (q::nat)"
proof (cases "q < w")
  case True
  then show "q < n \<Longrightarrow> w < n \<Longrightarrow> ?thesis" by (intro bexI [of _ "q + n - w"]) auto
next
  case False
  then show "q < n \<Longrightarrow> q \<noteq> w \<Longrightarrow> ?thesis" by (intro bexI [of _ "q - w"]) auto
qed

lemma tryStealOnce_finds:
  assumes "worker_index < length queues"
  shows "fst (tryStealOnce pick worker_index c queues) = None \<longleftrightarrow> (\<forall>q < length queues. queues ! q = [])"
proof (cases "pop pick (queues ! worker_index)")
  case None
  let ?victims = "map (\<lambda>i. Some ((worker_index + i) mod length queues)) [1..<length queues]"
  obtain r c' queues' where run: "steal_some pick ?victims c queues = (r, c', queues')" by (metis prod_cases3)
  have "\<forall>v. Some v \<in> set ?victims \<longrightarrow> v < length queues" using assms by (auto simp: image_iff intro!: mod_less_divisor)
  from steal_some_takes [OF this run]
  have "r = None \<Longrightarrow> queues ! q = []" if "q < length queues" "q \<noteq> worker_index" for q
    using round_reaches [OF that(1) assms that(2)] by (auto simp: image_iff)
  moreover have "all_items queues = mset_set (set_option r) + all_items queues'"
    using steal_some_takes [OF \<open>\<forall>v. Some v \<in> set ?victims \<longrightarrow> v < length queues\<close> run] by blast
  moreover have "all_items queues = {#}" if "\<forall>q < length queues. queues ! q = []" using that by (simp add: all_items_def)
  ultimately have "r = None \<longleftrightarrow> (\<forall>q < length queues. queues ! q = [])" using None by (cases r) (auto simp: pop_def)
  moreover have "fst (tryStealOnce pick worker_index c queues) = r" using None run by (simp add: tryStealOnce_def)
  ultimately show ?thesis by simp
next
  case (Some taken)
  then show ?thesis using assms by (cases taken) (auto simp: tryStealOnce_def pop_def)
qed

text \<open>Work that is there is taken off its queue and handed out exactly once, unless the scheduler is shutting down:
then the awaitable still takes an item off a queue and hands out nothing, so the item is lost.\<close>

lemma pull_loses_on_shutdown:
  assumes "own < length queues" and "\<forall>v. Some v \<in> set all_queues \<longrightarrow> v < length queues"
    and "await_ready pick own all_queues w c queues = (Some item, c', queues')"
  shows "pull_or_steal pick False late others own all_queues w c queues = (Some item, c', queues')
    \<and> pull_or_steal pick True late others own all_queues w c queues = (None, c', queues')
    \<and> all_items queues = add_mset item (all_items queues')"
  using await_ready_takes [OF assms] assms(3) by (simp add: pull_or_steal_def await_resume_def)

lemma pull_loses_on_shutdown_witness:
  "pull_or_steal (\<lambda>_. 0) True False id 0 [Some 0, None, Some 1] 0 [] [[], [makeFunction (Some (7::nat))]] = (None, [], [[], []])"
  using pull_loses_on_shutdown [of 0 "[[], [makeFunction (Some (7::nat))]]" "[Some 0, None, Some 1]" "\<lambda>_. 0" 0 "[]" "makeFunction (Some 7)" "[]" "[[], []]" False id]
  by (auto simp: await_ready_def pop_def trySteal_def try_dequeue_def steal_def makeFunction_def upt_rec less_Suc_eq)

end
