(* ===== verification/Agent_Metrics.thy ===== *)
theory Agent_Metrics
  imports Agent_Message Complex_Main "HOL-Library.Multiset" "HOL-Library.Word"
begin

text \<open>
  The metrics of the agent runtime (\<open>include/agamemnon_agents/core/metrics.hpp\<close>, \<open>src/core/metrics.cpp\<close>) and the
  failure injector (\<open>include/agamemnon_agents/core/failure_injector.hpp\<close>, \<open>src/core/failure_injector.cpp\<close>). The
  counters keep their 64 bits; averages and rates are real numbers, printed by an argument. Readings of the steady
  clock are nanoseconds. Alerts about queue depths go to the log only and are left out.
\<close>

section \<open>Metrics\<close>

definition METRICS_MAX_TIMESTAMP_ENTRIES :: nat where
  "METRICS_MAX_TIMESTAMP_ENTRIES = 10000"

definition METRICS_TIMESTAMP_EXPIRY :: int where
  "METRICS_TIMESTAMP_EXPIRY = 60 * 1000000000"

record agent_metrics =
  am_messages_sent :: "64 word"
  am_messages_processed :: "64 word"
  am_high :: "64 word"
  am_normal :: "64 word"
  am_low :: "64 word"
  am_timestamps :: "int umap"
  am_total_latency_us :: "64 word"
  am_latency_samples :: "64 word"
  am_queue_depths :: "nat umap"
  am_max_queue_depth :: nat
  am_busy_states :: "(int \<times> bool) list"
  am_busy_samples :: "64 word"
  am_worker_samples :: "64 word"
  am_deadline_misses :: "64 word"
  am_deadline_miss_ms :: "64 word"
  am_in_flight :: int
  am_start_time :: int

definition new_agent_metrics :: "int \<Rightarrow> agent_metrics" where
  "new_agent_metrics now =
     \<lparr>am_messages_sent = 0, am_messages_processed = 0, am_high = 0, am_normal = 0, am_low = 0, am_timestamps = [],
      am_total_latency_us = 0, am_latency_samples = 0, am_queue_depths = [], am_max_queue_depth = 0,
      am_busy_states = [], am_busy_samples = 0, am_worker_samples = 0, am_deadline_misses = 0,
      am_deadline_miss_ms = 0, am_in_flight = 0, am_start_time = now\<rparr>"

definition cleanupOldTimestamps :: "int \<Rightarrow> int umap \<Rightarrow> int umap" where
  "cleanupOldTimestamps now ts = filter (\<lambda>(msg_id, send_time). \<not> now - send_time > METRICS_TIMESTAMP_EXPIRY) ts"

text \<open>Entries are removed in the order of their times; entries of the same time may come in any order.\<close>

definition remove_oldest :: "nat \<Rightarrow> int umap \<Rightarrow> int umap" where
  "remove_oldest n ts = fold AList.delete (map fst (take n (sort_key snd ts))) ts"

definition bound_timestamps :: "int \<Rightarrow> int umap \<Rightarrow> int umap" where
  "bound_timestamps now ts =
     (if length ts > METRICS_MAX_TIMESTAMP_ENTRIES then
        let ts1 = cleanupOldTimestamps now ts in
        if length ts1 > METRICS_MAX_TIMESTAMP_ENTRIES
        then remove_oldest (length ts1 - METRICS_MAX_TIMESTAMP_ENTRIES) ts1
        else ts1
      else ts)"

primrec count_priority :: "priority \<Rightarrow> agent_metrics \<Rightarrow> agent_metrics" where
  "count_priority HIGH m = m\<lparr>am_high := am_high m + 1\<rparr>"
| "count_priority NORMAL m = m\<lparr>am_normal := am_normal m + 1\<rparr>"
| "count_priority LOW m = m\<lparr>am_low := am_low m + 1\<rparr>"

definition recordMessageSent :: "int \<Rightarrow> int \<Rightarrow> string \<Rightarrow> priority \<Rightarrow> agent_metrics \<Rightarrow> agent_metrics" where
  "recordMessageSent now later msg_id prio m =
     (let m1 = count_priority prio (m\<lparr>am_messages_sent := am_messages_sent m + 1\<rparr>)
      in m1\<lparr>am_timestamps := bound_timestamps later (AList.update msg_id now (am_timestamps m1))\<rparr>)"

definition recordMessageProcessed :: "int \<Rightarrow> string \<Rightarrow> agent_metrics \<Rightarrow> agent_metrics" where
  "recordMessageProcessed now msg_id m =
     (let m1 = m\<lparr>am_messages_processed := am_messages_processed m + 1\<rparr> in
      case map_of (am_timestamps m1) msg_id of
        None \<Rightarrow> m1
      | Some send_time \<Rightarrow>
          m1\<lparr>am_total_latency_us := am_total_latency_us m1 + of_int ((now - send_time) div 1000),
             am_latency_samples := am_latency_samples m1 + 1,
             am_timestamps := AList.delete msg_id (am_timestamps m1)\<rparr>)"

definition recordQueueDepth :: "string \<Rightarrow> nat \<Rightarrow> agent_metrics \<Rightarrow> agent_metrics" where
  "recordQueueDepth agent_id depth m =
     m\<lparr>am_queue_depths := AList.update agent_id depth (am_queue_depths m),
       am_max_queue_depth := (if depth > am_max_queue_depth m then depth else am_max_queue_depth m)\<rparr>"

definition recordWorkerActivity :: "int \<Rightarrow> bool \<Rightarrow> agent_metrics \<Rightarrow> agent_metrics" where
  "recordWorkerActivity worker_id is_busy m =
     m\<lparr>am_busy_states := AList.update worker_id is_busy (am_busy_states m),
       am_worker_samples := am_worker_samples m + 1,
       am_busy_samples := (if is_busy then am_busy_samples m + 1 else am_busy_samples m)\<rparr>"

definition recordDeadlineMiss :: "int \<Rightarrow> agent_metrics \<Rightarrow> agent_metrics" where
  "recordDeadlineMiss late_by_ms m =
     m\<lparr>am_deadline_misses := am_deadline_misses m + 1,
       am_deadline_miss_ms := am_deadline_miss_ms m + of_int late_by_ms\<rparr>"

definition setInFlightCount :: "int \<Rightarrow> agent_metrics \<Rightarrow> agent_metrics" where
  "setInFlightCount n m = m\<lparr>am_in_flight := n\<rparr>"

definition getMessagesPerSecond :: "int \<Rightarrow> agent_metrics \<Rightarrow> real" where
  "getMessagesPerSecond now m =
     (let elapsed_s = real_of_int (now - am_start_time m) / 1000000000 in
      if elapsed_s < 1 / 1000 then 0 else real (unat (am_messages_processed m)) / elapsed_s)"

definition getAverageLatencyUs :: "agent_metrics \<Rightarrow> real option" where
  "getAverageLatencyUs m =
     (if am_latency_samples m = 0 then None
      else Some (real (unat (am_total_latency_us m)) / real (unat (am_latency_samples m))))"

definition getWorkerUtilization :: "agent_metrics \<Rightarrow> real" where
  "getWorkerUtilization m =
     (if am_worker_samples m = 0 then 0
      else real (unat (am_busy_samples m)) / real (unat (am_worker_samples m)) * 100)"

definition getAverageDeadlineMissMs :: "agent_metrics \<Rightarrow> real option" where
  "getAverageDeadlineMissMs m =
     (if am_deadline_misses m = 0 then None
      else Some (real_of_int (sint (am_deadline_miss_ms m)) / real (unat (am_deadline_misses m))))"

definition metrics_reset :: "int \<Rightarrow> agent_metrics \<Rightarrow> agent_metrics" where
  "metrics_reset now m =
     m\<lparr>am_messages_sent := 0, am_messages_processed := 0, am_high := 0, am_normal := 0, am_low := 0,
       am_total_latency_us := 0, am_latency_samples := 0, am_max_queue_depth := 0, am_busy_samples := 0,
       am_worker_samples := 0, am_deadline_misses := 0, am_deadline_miss_ms := 0, am_in_flight := 0,
       am_timestamps := [], am_queue_depths := [], am_busy_states := [], am_start_time := now\<rparr>"

section \<open>The report\<close>

text \<open>Numbers are printed with two decimals by \<open>fmt\<close>; the Greek letter of the unit is written in UTF-8.\<close>

definition nl :: string where
  "nl = [CHR 0x0A]"

definition unit_us :: string where
  "unit_us = '' '' @ [CHR 0xCE, CHR 0xBC] @ ''s''"

definition priority_line :: "(real \<Rightarrow> string) \<Rightarrow> string \<Rightarrow> 64 word \<Rightarrow> 64 word \<Rightarrow> string" where
  "priority_line fmt name number total_priority =
     name @ string_of_nat (unat number) @
     (if total_priority > 0 then '' ('' @ fmt (100 * real (unat number) / real (unat total_priority)) @ ''%)'' else []) @ nl"

definition average_line :: "(real \<Rightarrow> string) \<Rightarrow> string \<Rightarrow> string \<Rightarrow> real option \<Rightarrow> string" where
  "average_line fmt name unit_name v = name @ (case v of Some x \<Rightarrow> fmt x @ unit_name | None \<Rightarrow> ''No data'') @ nl"

definition generateReport :: "(real \<Rightarrow> string) \<Rightarrow> int \<Rightarrow> agent_metrics \<Rightarrow> string" where
  "generateReport fmt now m =
     (let total_priority = am_high m + am_normal m + am_low m in
      nl @ ''=== HMAS Performance Metrics ==='' @ nl @ nl @
      ''Throughput:'' @ nl @
      ''  Messages Sent:      '' @ string_of_nat (unat (am_messages_sent m)) @ nl @
      ''  Messages Processed: '' @ string_of_nat (unat (am_messages_processed m)) @ nl @
      ''  Messages/Second:    '' @ fmt (getMessagesPerSecond now m) @ nl @ nl @
      ''Latency:'' @ nl @
      average_line fmt ''  Average Latency:    '' unit_us (getAverageLatencyUs m) @ nl @
      ''Priority Distribution:'' @ nl @
      priority_line fmt ''  HIGH:    '' (am_high m) total_priority @
      priority_line fmt ''  NORMAL:  '' (am_normal m) total_priority @
      priority_line fmt ''  LOW:     '' (am_low m) total_priority @ nl @
      ''Queue Management:'' @ nl @
      ''  Max Queue Depth:    '' @ string_of_nat (am_max_queue_depth m) @ nl @ nl @
      ''Worker Utilization:'' @ nl @
      ''  Utilization:        '' @ fmt (getWorkerUtilization m) @ ''%'' @ nl @ nl @
      ''Deadline Tracking:'' @ nl @
      ''  Deadline Misses:    '' @ string_of_nat (unat (am_deadline_misses m)) @ nl @
      average_line fmt ''  Avg Late By:        '' '' ms'' (getAverageDeadlineMissMs m) @
      nl @ ''================================'' @ nl)"

section \<open>Failure injector\<close>

record failure_injector =
  fi_crashed :: "string set"
  fi_timeouts :: "int umap"
  fi_rate :: real
  fi_total :: "32 word"

definition new_injector :: failure_injector where
  "new_injector = \<lparr>fi_crashed = {}, fi_timeouts = [], fi_rate = 0, fi_total = 0\<rparr>"

definition injectAgentCrash :: "string \<Rightarrow> failure_injector \<Rightarrow> failure_injector" where
  "injectAgentCrash agent_id f = f\<lparr>fi_crashed := insert agent_id (fi_crashed f), fi_total := fi_total f + 1\<rparr>"

definition isAgentCrashed :: "string \<Rightarrow> failure_injector \<Rightarrow> bool" where
  "isAgentCrashed agent_id f \<longleftrightarrow> agent_id \<in> fi_crashed f"

definition recoverAgent :: "string \<Rightarrow> failure_injector \<Rightarrow> failure_injector" where
  "recoverAgent agent_id f = f\<lparr>fi_crashed := fi_crashed f - {agent_id}\<rparr>"

definition injectAgentTimeout :: "string \<Rightarrow> int \<Rightarrow> failure_injector \<Rightarrow> failure_injector" where
  "injectAgentTimeout agent_id delay f =
     f\<lparr>fi_timeouts := AList.update agent_id delay (fi_timeouts f), fi_total := fi_total f + 1\<rparr>"

definition getAgentTimeout :: "string \<Rightarrow> failure_injector \<Rightarrow> int" where
  "getAgentTimeout agent_id f = (case map_of (fi_timeouts f) agent_id of Some delay \<Rightarrow> delay | None \<Rightarrow> 0)"

definition clearAgentTimeout :: "string \<Rightarrow> failure_injector \<Rightarrow> failure_injector" where
  "clearAgentTimeout agent_id f = f\<lparr>fi_timeouts := AList.delete agent_id (fi_timeouts f)\<rparr>"

definition setFailureRate :: "real \<Rightarrow> failure_injector \<Rightarrow> failure_injector" where
  "setFailureRate rate f = f\<lparr>fi_rate := (if rate < 0 then 0 else if 1 < rate then 1 else rate)\<rparr>"

text \<open>\<open>random_value\<close> is drawn uniformly from the numbers from 0 up to and not including 1.\<close>

definition shouldFail :: "real \<Rightarrow> failure_injector \<Rightarrow> bool" where
  "shouldFail random_value f \<longleftrightarrow> random_value < fi_rate f"

definition shouldAgentFail :: "real \<Rightarrow> string \<Rightarrow> failure_injector \<Rightarrow> bool" where
  "shouldAgentFail random_value agent_id f \<longleftrightarrow> isAgentCrashed agent_id f \<or> shouldFail random_value f"

definition injector_reset :: "failure_injector \<Rightarrow> failure_injector" where
  "injector_reset f = f\<lparr>fi_crashed := {}, fi_timeouts := [], fi_total := 0\<rparr>"

section \<open>Bounded memory\<close>

lemma fold_delete: "fold AList.delete ks ts = filter (\<lambda>(k, v). k \<notin> set ks) ts"
proof (induction ks arbitrary: ts)
  case (Cons k ks)
  then show ?case by (simp add: AList.delete_eq split_beta) (metis (mono_tags, lifting) filter_cong)
qed simp

lemma remove_oldest_mset:
  assumes "distinct (map fst ts)"
  shows "mset (remove_oldest n ts) = mset (drop n (sort_key snd ts))"
proof -
  let ?s = "sort_key snd ts"
  have "mset (map fst ?s) = mset (map fst ts)" by simp
  then have "distinct (map fst ?s)" using assms mset_eq_imp_distinct_iff by blast
  then have split: "distinct (map fst (take n ?s) @ map fst (drop n ?s))" by (metis append_take_drop_id map_append)
  have "filter (\<lambda>(k, v). k \<notin> set (map fst (take n ?s))) (take n ?s) = []" by (force simp: filter_empty_conv)
  moreover have "filter (\<lambda>(k, v). k \<notin> set (map fst (take n ?s))) (drop n ?s) = drop n ?s"
    using split by (intro filter_True) force
  ultimately have "filter (\<lambda>(k, v). k \<notin> set (map fst (take n ?s))) (take n ?s @ drop n ?s) = drop n ?s"
    unfolding filter_append by simp
  then have "filter (\<lambda>(k, v). k \<notin> set (map fst (take n ?s))) ?s = drop n ?s" by simp
  then show ?thesis unfolding remove_oldest_def fold_delete by (metis mset_filter mset_sort)
qed

lemma remove_oldest_order:
  assumes "distinct (map fst ts)" and "e \<in> set ts" and "e \<notin> set (remove_oldest n ts)" and "e' \<in> set (remove_oldest n ts)"
  shows "snd e \<le> snd e'"
proof -
  let ?s = "sort_key snd ts"
  have kept: "set (remove_oldest n ts) = set (drop n ?s)" using mset_eq_setD [OF remove_oldest_mset [OF assms(1)]] .
  have "e \<in> set ?s" using assms(2) by simp
  then have "e \<in> set (take n ?s)" using assms(3) kept by (metis Un_iff append_take_drop_id set_append)
  moreover have "sorted (map snd (take n ?s) @ map snd (drop n ?s))"
    by (metis append_take_drop_id map_append sorted_sort_key)
  ultimately show ?thesis using assms(4) kept by (auto simp: sorted_append)
qed

lemma distinct_filter_keys: "distinct (map fst ts) \<Longrightarrow> distinct (map fst (filter P ts))"
  by (induction ts) auto

lemma bound_timestamps_laws:
  assumes "distinct (map fst ts)"
  shows "length (bound_timestamps now ts) \<le> METRICS_MAX_TIMESTAMP_ENTRIES" "distinct (map fst (bound_timestamps now ts))"
    "e \<in> set ts \<Longrightarrow> e \<notin> set (bound_timestamps now ts) \<Longrightarrow> e' \<in> set (bound_timestamps now ts)
      \<Longrightarrow> snd e \<le> snd e' \<or> now - snd e > METRICS_TIMESTAMP_EXPIRY"
proof -
  let ?c = "cleanupOldTimestamps now ts"
  have c: "distinct (map fst ?c)" unfolding cleanupOldTimestamps_def by (rule distinct_filter_keys [OF assms])
  have "length (remove_oldest n ?c) = length ?c - n" for n
    using arg_cong [OF remove_oldest_mset [OF c], of size] by simp
  then show "length (bound_timestamps now ts) \<le> METRICS_MAX_TIMESTAMP_ENTRIES"
    by (auto simp: bound_timestamps_def Let_def)
  show "distinct (map fst (bound_timestamps now ts))"
    using assms c distinct_filter_keys [OF c] by (auto simp: bound_timestamps_def Let_def remove_oldest_def fold_delete)
  show "snd e \<le> snd e' \<or> now - snd e > METRICS_TIMESTAMP_EXPIRY"
    if "e \<in> set ts" "e \<notin> set (bound_timestamps now ts)" "e' \<in> set (bound_timestamps now ts)"
  proof (cases "e \<in> set ?c")
    case True
    then show ?thesis using that remove_oldest_order [OF c True] by (auto simp: bound_timestamps_def Let_def split: if_splits)
  next
    case False
    then show ?thesis using that(1) by (auto simp: cleanupOldTimestamps_def)
  qed
qed

datatype metrics_event =
    Sent int int string priority
  | Processed int string
  | Depth string nat
  | Activity int bool
  | Missed_Deadline int
  | In_Flight int
  | Reset int

primrec metrics_apply :: "metrics_event \<Rightarrow> agent_metrics \<Rightarrow> agent_metrics" where
  "metrics_apply (Sent now later i p) = recordMessageSent now later i p"
| "metrics_apply (Processed now i) = recordMessageProcessed now i"
| "metrics_apply (Depth a d) = recordQueueDepth a d"
| "metrics_apply (Activity w b) = recordWorkerActivity w b"
| "metrics_apply (Missed_Deadline ms) = recordDeadlineMiss ms"
| "metrics_apply (In_Flight n) = setInFlightCount n"
| "metrics_apply (Reset now) = metrics_reset now"

definition metrics_ok :: "agent_metrics \<Rightarrow> bool" where
  "metrics_ok m \<longleftrightarrow> am_messages_sent m = am_high m + am_normal m + am_low m
     \<and> length (am_timestamps m) \<le> METRICS_MAX_TIMESTAMP_ENTRIES \<and> distinct (map fst (am_timestamps m))
     \<and> (\<forall>(a, d) \<in> set (am_queue_depths m). d \<le> am_max_queue_depth m)"

lemma ok_sent: "metrics_ok m \<Longrightarrow> metrics_ok (recordMessageSent now later i p m)"
  using bound_timestamps_laws(1,2) [of "AList.update i now (am_timestamps m)" later]
  by (cases p) (auto simp: metrics_ok_def recordMessageSent_def Let_def distinct_update)

lemma ok_processed: "metrics_ok m \<Longrightarrow> metrics_ok (recordMessageProcessed now i m)"
  using length_delete_le [of i "am_timestamps m"] distinct_delete [of "am_timestamps m" i]
  by (auto simp: metrics_ok_def recordMessageProcessed_def Let_def split: option.split)

lemma update_subset: "set (AList.update a d ds) \<subseteq> insert (a, d) (set ds)"
  by (induction ds) auto

lemma ok_depth: "metrics_ok m \<Longrightarrow> metrics_ok (recordQueueDepth a d m)"
  using update_subset [of a d "am_queue_depths m"] by (fastforce simp: metrics_ok_def recordQueueDepth_def)

text \<open>Whatever is recorded, the messages sent are exactly those counted under the three priorities, the memory for
send times holds at most 10000 messages, each once, and no queue is deeper than the recorded maximum.\<close>

lemma metrics_bounded:
  assumes "m = fold metrics_apply evs (new_agent_metrics now)"
  shows "am_messages_sent m = am_high m + am_normal m + am_low m
    \<and> length (am_timestamps m) \<le> METRICS_MAX_TIMESTAMP_ENTRIES \<and> distinct (map fst (am_timestamps m))
    \<and> (\<forall>(a, d) \<in> set (am_queue_depths m). d \<le> am_max_queue_depth m)"
proof -
  have "metrics_ok (metrics_apply ev m)" if "metrics_ok m" for ev m
    using that
    by (cases ev) (simp_all add: ok_sent ok_processed ok_depth, auto simp: metrics_ok_def recordWorkerActivity_def
        recordDeadlineMiss_def setInFlightCount_def metrics_reset_def)
  then have "metrics_ok m \<Longrightarrow> metrics_ok (fold metrics_apply evs m)" for m by (induction evs arbitrary: m) auto
  moreover have "metrics_ok (new_agent_metrics now)" by (simp add: metrics_ok_def new_agent_metrics_def)
  ultimately have "metrics_ok m" unfolding assms by blast
  then show ?thesis by (simp add: metrics_ok_def)
qed

lemma metrics_bounded_example:
  "length (am_timestamps (metrics_apply (Sent 5 6 ''a'' HIGH) (new_agent_metrics 0))) \<le> METRICS_MAX_TIMESTAMP_ENTRIES"
  using metrics_bounded [OF refl, of "[Sent 5 6 ''a'' HIGH]" 0] by simp

section \<open>Injected failures\<close>

lemma rate_bounds:
  "0 \<le> fi_rate (setFailureRate r f)" "fi_rate (setFailureRate r f) \<le> 1"
  "r \<le> 0 \<Longrightarrow> 0 \<le> x \<Longrightarrow> \<not> shouldFail x (setFailureRate r f)" "1 \<le> r \<Longrightarrow> x < 1 \<Longrightarrow> shouldFail x (setFailureRate r f)"
  by (auto simp: setFailureRate_def shouldFail_def)

lemma crash_laws:
  "isAgentCrashed a (injectAgentCrash b f) \<longleftrightarrow> a = b \<or> isAgentCrashed a f"
  "isAgentCrashed a (recoverAgent b f) \<longleftrightarrow> a \<noteq> b \<and> isAgentCrashed a f"
  "\<not> isAgentCrashed a (injector_reset f)" "isAgentCrashed a f \<Longrightarrow> shouldAgentFail x a f"
  by (auto simp: isAgentCrashed_def injectAgentCrash_def recoverAgent_def injector_reset_def shouldAgentFail_def)

lemma timeout_laws:
  "getAgentTimeout a (injectAgentTimeout b d f) = (if a = b then d else getAgentTimeout a f)"
  "getAgentTimeout a (clearAgentTimeout b f) = (if a = b then 0 else getAgentTimeout a f)"
  "getAgentTimeout a (injector_reset f) = 0"
  by (auto simp: getAgentTimeout_def injectAgentTimeout_def clearAgentTimeout_def injector_reset_def update_conv' delete_conv')

text \<open>A reset forgets crashes, delays and the count of failures but keeps the rate of random failures.\<close>

lemma reset_keeps_rate: "shouldFail x (injector_reset f) \<longleftrightarrow> shouldFail x f"
  by (simp add: shouldFail_def injector_reset_def)

end
