(* ===== verification/Dag_Walker.thy ===== *)
theory Dag_Walker
  imports Prelude
begin

text \<open>
  The task graph walker of the orchestration daemon (\<open>agamemnon/src/agamemnon/orchestration/dag_walker.py\<close>, data of
  \<open>models.py\<close>): ready tasks and available agents, the search for a cycle, and the assignment of tasks. Dictionaries
  keyed by task identifiers are functions; where two tasks share an identifier the later one counts, as in the
  comprehension that builds the dictionary. The order in which the search starts from the elements of a set is the
  argument \<open>order\<close>. A loop of the source that may run for ever is a partial function into options.
\<close>

section \<open>Tasks and agents\<close>

record walker_task =
  w_id :: string
  w_title :: string
  w_status :: string
  w_dependencies :: "string list"
  w_assigned_agent_id :: "string option"

record walker_agent =
  wa_id :: string
  wa_name :: string
  wa_host :: string
  wa_status :: string
  wa_session_status :: string
  wa_task_description :: string
  wa_program :: string
  wa_current_task_id :: "string option"

definition TERMINAL_STATUSES :: "string set" where
  "TERMINAL_STATUSES = {''completed'', ''failed'', ''error'', ''cancelled''}"

definition is_available :: "walker_agent \<Rightarrow> bool" where
  "is_available a \<longleftrightarrow> wa_status a = ''active'' \<and> wa_session_status a = ''online'' \<and> wa_current_task_id a = None"

definition get_available_agents :: "walker_agent list \<Rightarrow> walker_agent list" where
  "get_available_agents agents = filter is_available agents"

definition completed_ids :: "walker_task list \<Rightarrow> string set" where
  "completed_ids tasks = w_id ` set (filter (\<lambda>t. w_status t \<in> TERMINAL_STATUSES) tasks)"

definition is_ready :: "walker_task list \<Rightarrow> walker_task \<Rightarrow> bool" where
  "is_ready tasks t \<longleftrightarrow> w_status t = ''pending'' \<and> w_assigned_agent_id t = None
     \<and> list_all (\<lambda>dep. dep \<in> completed_ids tasks) (w_dependencies t)"

definition get_ready_tasks :: "walker_task list \<Rightarrow> walker_task list" where
  "get_ready_tasks tasks = filter (is_ready tasks) tasks"

section \<open>The search for a cycle\<close>

datatype walker_error =
    Unknown_Dependency string string
  | Cycle_Detected "string list"
  | Client_Error string

text \<open>The first dependency that is no task, with the task that names it.\<close>

definition unknown_dependency :: "walker_task list \<Rightarrow> (string \<times> string) option" where
  "unknown_dependency tasks =
     List.find (\<lambda>(dep, _). dep \<notin> w_id ` set tasks)
       (concat (map (\<lambda>t. map (\<lambda>dep. (dep, w_id t)) (w_dependencies t)) tasks))"

definition adjacency :: "walker_task list \<Rightarrow> string \<Rightarrow> string list" where
  "adjacency tasks n = (case map_of (rev (map (\<lambda>t. (w_id t, w_dependencies t)) tasks)) n of None \<Rightarrow> [] | Some deps \<Rightarrow> deps)"

datatype color = White | Gray | Black

text \<open>Following the parents up to the target, and the cycle read off from it.\<close>

partial_function (option) climb ::
    "(string \<Rightarrow> string option) \<Rightarrow> string \<Rightarrow> string option \<Rightarrow> string list \<Rightarrow> string list option" where
  "climb parent target cur cycle =
     (case cur of
        None \<Rightarrow> Some cycle
      | Some c \<Rightarrow> if c = target then Some cycle else climb parent target (parent c) (cycle @ [c]))"

declare climb.simps [code]

definition cycle_from :: "(string \<Rightarrow> string option) \<Rightarrow> string \<Rightarrow> string option \<Rightarrow> string list option" where
  "cycle_from parent target cur = map_option (\<lambda>cycle. rev (cycle @ [target])) (climb parent target cur [target])"

fun push_neighbors ::
    "(string \<Rightarrow> color) \<Rightarrow> string \<Rightarrow> string list \<Rightarrow> (string \<Rightarrow> string option) \<Rightarrow> (string \<times> bool) list
       \<Rightarrow> (string \<Rightarrow> string option) \<times> string + (string \<Rightarrow> string option) \<times> (string \<times> bool) list" where
  "push_neighbors color node [] parent stack = Inr (parent, stack)"
| "push_neighbors color node (nb # nbs) parent stack =
     (if color nb = Gray then Inl (parent, nb)
      else if color nb = White then push_neighbors color node nbs (parent(nb := Some node)) ((nb, False) # stack)
      else push_neighbors color node nbs parent stack)"

text \<open>One round of the loop: the cycle found, or the colours, the parents and the stack it goes on with.\<close>

definition dfs_step ::
    "(string \<Rightarrow> string list) \<Rightarrow> (string \<Rightarrow> color) \<Rightarrow> (string \<Rightarrow> string option) \<Rightarrow> string \<Rightarrow> bool \<Rightarrow> (string \<times> bool) list
       \<Rightarrow> string list option + (string \<Rightarrow> color) \<times> (string \<Rightarrow> string option) \<times> (string \<times> bool) list" where
  "dfs_step adj color parent node processed rest =
     (if processed then Inr (color(node := Black), parent, rest)
      else if color node = Gray then Inl (cycle_from parent node (parent node))
      else if color node = Black then Inr (color, parent, rest)
      else case push_neighbors (color(node := Gray)) node (adj node) parent ((node, True) # rest) of
          Inl (parent1, nb) \<Rightarrow> Inl (cycle_from parent1 nb (Some node))
        | Inr (parent1, stack1) \<Rightarrow> Inr (color(node := Gray), parent1, stack1))"

partial_function (option) dfs_loop ::
    "(string \<Rightarrow> string list) \<Rightarrow> (string \<times> bool) list \<Rightarrow> (string \<Rightarrow> color) \<Rightarrow> (string \<Rightarrow> string option)
       \<Rightarrow> (string list + (string \<Rightarrow> color) \<times> (string \<Rightarrow> string option)) option" where
  "dfs_loop adj stack color parent =
     (case stack of
        [] \<Rightarrow> Some (Inr (color, parent))
      | entry # rest \<Rightarrow>
          (case dfs_step adj color parent (fst entry) (snd entry) rest of
             Inl cycle \<Rightarrow> map_option Inl cycle
           | Inr (color1, parent1, stack1) \<Rightarrow> dfs_loop adj stack1 color1 parent1))"

declare dfs_loop.simps [code]

fun search_from ::
    "(string \<Rightarrow> string list) \<Rightarrow> string list \<Rightarrow> (string \<Rightarrow> color) \<Rightarrow> (string \<Rightarrow> string option) \<Rightarrow> string list option" where
  "search_from adj [] color parent = Some []"
| "search_from adj (start # starts) color parent =
     (if color start \<noteq> White then search_from adj starts color parent
      else case dfs_loop adj [(start, False)] color parent of
        None \<Rightarrow> None
      | Some (Inl cycle) \<Rightarrow> Some cycle
      | Some (Inr (color1, parent1)) \<Rightarrow> search_from adj starts color1 parent1)"

definition find_cycle_path :: "string list \<Rightarrow> walker_task list \<Rightarrow> walker_error + string list option" where
  "find_cycle_path order tasks =
     (case unknown_dependency tasks of
        Some (dep_id, i) \<Rightarrow> Inl (Unknown_Dependency dep_id i)
      | None \<Rightarrow> Inr (search_from (adjacency tasks) order (\<lambda>_. White) (\<lambda>_. None)))"

definition validate_no_cycles :: "string list \<Rightarrow> walker_task list \<Rightarrow> walker_error + bool option" where
  "validate_no_cycles order tasks =
     (case find_cycle_path order tasks of
        Inl e \<Rightarrow> Inl e
      | Inr p \<Rightarrow> Inr (map_option (\<lambda>path. length path = 0) p))"

section \<open>Handing out tasks\<close>

text \<open>The client is outside the package: \<open>cl_get_agents\<close> is what its optional coroutine \<open>get_agents\<close> gives (\<open>None\<close>: no
such attribute; an error; the fresh list, if it is one), and \<open>cl_assign_task\<close> the error a call of \<open>assign_task\<close> raises,
which may depend on the calls made before. Tasks and agents are mutated in place, so the assignments are pairs of
positions in the two lists. A call runs to its end before the next one starts.\<close>

record walker_client =
  cl_get_agents :: "(string + walker_agent list option) option"
  cl_assign_task :: "(string \<times> string) list \<Rightarrow> string \<Rightarrow> string \<Rightarrow> string option"

record walker =
  dw_tasks :: "walker_task list"
  dw_agents :: "walker_agent list"
  dw_client :: "walker_client option"
  dw_calls :: "(string \<times> string) list"

definition positions :: "('a \<Rightarrow> bool) \<Rightarrow> 'a list \<Rightarrow> nat list" where
  "positions P xs = filter (\<lambda>i. P (xs ! i)) [0..<length xs]"

definition refresh_agents :: "walker \<Rightarrow> walker" where
  "refresh_agents w =
     (case dw_client w of
        None \<Rightarrow> w
      | Some cl \<Rightarrow>
          (case cl_get_agents cl of
             Some (Inr (Some fresh_agents)) \<Rightarrow> w\<lparr>dw_agents := fresh_agents\<rparr>
           | _ \<Rightarrow> w))"

definition mark_assigned :: "nat \<Rightarrow> nat \<Rightarrow> walker \<Rightarrow> walker" where
  "mark_assigned i j w =
     w\<lparr>dw_agents := (dw_agents w)[j := (dw_agents w ! j)\<lparr>wa_current_task_id := Some (w_id (dw_tasks w ! i))\<rparr>],
       dw_tasks := (dw_tasks w)[i := (dw_tasks w ! i)\<lparr>w_assigned_agent_id := Some (wa_id (dw_agents w ! j))\<rparr>]\<rparr>"

definition call_assign :: "nat \<Rightarrow> nat \<Rightarrow> walker \<Rightarrow> walker \<times> string option" where
  "call_assign i j w =
     (case dw_client w of
        None \<Rightarrow> (w, None)
      | Some cl \<Rightarrow>
          (let t = w_id (dw_tasks w ! i); a = wa_id (dw_agents w ! j)
           in (w\<lparr>dw_calls := dw_calls w @ [(t, a)]\<rparr>, cl_assign_task cl (dw_calls w) t a)))"

fun assign_loop :: "nat list \<Rightarrow> nat list \<Rightarrow> (nat \<times> nat) list \<Rightarrow> walker \<Rightarrow> walker \<times> (walker_error + (nat \<times> nat) list)" where
  "assign_loop (i # ready) (j # available) assignments w =
     (case call_assign i j (mark_assigned i j w) of
        (w1, Some e) \<Rightarrow> (w1, Inl (Client_Error e))
      | (w1, None) \<Rightarrow> assign_loop ready available (assignments @ [(i, j)]) w1)"
| "assign_loop _ _ assignments w = (w, Inr assignments)"

definition ready_positions :: "walker \<Rightarrow> nat list" where
  "ready_positions w = positions (is_ready (dw_tasks w)) (dw_tasks w)"

definition available_positions :: "walker \<Rightarrow> nat list" where
  "available_positions w = positions is_available (dw_agents w)"

text \<open>The whole call; \<open>None\<close> if the search does not return.\<close>

definition advance_dag :: "string list \<Rightarrow> walker \<Rightarrow> (walker \<times> (walker_error + (nat \<times> nat) list)) option" where
  "advance_dag order w =
     (case find_cycle_path order (dw_tasks w) of
        Inl e \<Rightarrow> Some (w, Inl e)
      | Inr None \<Rightarrow> None
      | Inr (Some cycle_path) \<Rightarrow>
          (if cycle_path \<noteq> [] then Some (w, Inl (Cycle_Detected cycle_path))
           else
             (let w1 = refresh_agents w
              in Some (assign_loop (ready_positions w1) (available_positions w1) [] w1))))"

text \<open>The background scan: for every wait, whether the stop event came first and the order of the search that follows.\<close>

fun background_scan_loop :: "(bool \<times> string list) list \<Rightarrow> walker \<Rightarrow> walker option" where
  "background_scan_loop [] w = Some w"
| "background_scan_loop ((stopped, order) # waits) w =
     (if stopped then Some w
      else case advance_dag order w of
        None \<Rightarrow> None
      | Some (w1, _) \<Rightarrow> background_scan_loop waits w1)"

section \<open>Correctness of the search\<close>

definition edges :: "(string \<Rightarrow> string list) \<Rightarrow> (string \<times> string) set" where
  "edges adj = {(a, b). b \<in> set (adj a)}"

fun walks :: "(string \<Rightarrow> string list) \<Rightarrow> string list \<Rightarrow> bool" where
  "walks adj (a # b # c) \<longleftrightarrow> b \<in> set (adj a) \<and> walks adj (b # c)"
| "walks adj c \<longleftrightarrow> True"

definition is_cycle :: "(string \<Rightarrow> string list) \<Rightarrow> string list \<Rightarrow> bool" where
  "is_cycle adj c \<longleftrightarrow> length c \<ge> 2 \<and> hd c = last c \<and> walks adj c"

text \<open>The finished nodes in the order they were finished, the last first: all successors of a node were finished
before it.\<close>

fun finished :: "(string \<Rightarrow> string list) \<Rightarrow> string list \<Rightarrow> bool" where
  "finished adj [] \<longleftrightarrow> True"
| "finished adj (n # ns) \<longleftrightarrow> finished adj ns \<and> n \<notin> set ns \<and> set (adj n) \<subseteq> set ns"

lemma finished_closed: "finished adj ns \<Longrightarrow> n \<in> set ns \<Longrightarrow> set (adj n) \<subseteq> set ns"
  by (induction ns) auto

lemma finished_trancl: "(a, b) \<in> (edges adj)\<^sup>+ \<Longrightarrow> finished adj ns \<Longrightarrow> a \<in> set ns \<Longrightarrow> b \<in> set ns"
  by (induction rule: trancl_induct) (auto simp: edges_def dest: finished_closed)

lemma finished_acyclic:
  assumes "finished adj ns" and "n \<in> set ns"
  shows "(n, n) \<notin> (edges adj)\<^sup>+"
  using assms
proof (induction ns)
  case (Cons m ns)
  show ?case
  proof (cases "n \<in> set ns")
    case True
    then show ?thesis using Cons by simp
  next
    case False
    then have n: "n = m" using Cons.prems by simp
    show ?thesis
    proof
      assume "(n, n) \<in> (edges adj)\<^sup>+"
      then obtain b where b: "b \<in> set (adj m)" and rest: "b = n \<or> (b, n) \<in> (edges adj)\<^sup>+"
        unfolding n by (auto simp: edges_def elim: converse_tranclE)
      have "b \<in> set ns" using b Cons.prems by auto
      then have "n \<in> set ns" using rest finished_trancl Cons.prems by auto
      then show False using False by simp
    qed
  qed
qed simp

lemma walks_trancl: "walks adj c \<Longrightarrow> length c \<ge> 2 \<Longrightarrow> (hd c, last c) \<in> (edges adj)\<^sup>+"
proof (induction adj c rule: walks.induct)
  case (1 adj a b c)
  show ?case
  proof (cases c)
    case Nil
    then show ?thesis using 1 by (auto simp: edges_def)
  next
    case (Cons d e)
    then have "(b, last (b # c)) \<in> (edges adj)\<^sup>+" using 1 by simp
    moreover have "(a, b) \<in> edges adj" using 1 by (simp add: edges_def)
    ultimately show ?thesis using Cons by (simp add: trancl_into_trancl2)
  qed
qed auto

text \<open>The invariant of the loop. The processed entries of the stack are the path of gray nodes, each the parent of the
one above it. What has to hold of an entry depends on the entries above it, the second argument of \<open>entries_ok\<close>: an
unprocessed entry of a gray node has the node's processed entry above it; the topmost unprocessed entry of a white node
was pushed by the path's next node; a successor of a node on the path is finished or has an entry above.\<close>

definition path_of :: "(string \<times> bool) list \<Rightarrow> string list" where
  "path_of stack = map fst (filter snd stack)"

lemma path_of_simps [simp]:
  "path_of [] = []"
  "path_of ((n, True) # s) = n # path_of s"
  "path_of ((n, False) # s) = path_of s"
  by (simp_all add: path_of_def)

lemma path_of_iff: "n \<in> set (path_of s) \<longleftrightarrow> (n, True) \<in> set s"
  by (force simp: path_of_def)

fun linked :: "(string \<Rightarrow> string list) \<Rightarrow> (string \<Rightarrow> string option) \<Rightarrow> string list \<Rightarrow> bool" where
  "linked adj parent (p # q # ps) \<longleftrightarrow> parent p = Some q \<and> p \<in> set (adj q) \<and> linked adj parent (q # ps)"
| "linked adj parent ps \<longleftrightarrow> True"

fun entries_ok ::
    "(string \<Rightarrow> string list) \<Rightarrow> (string \<Rightarrow> color) \<Rightarrow> (string \<Rightarrow> string option) \<Rightarrow> (string \<times> bool) set \<Rightarrow> (string \<times> bool) list \<Rightarrow> bool"
where
  "entries_ok adj color parent upper [] \<longleftrightarrow> True"
| "entries_ok adj color parent upper ((n, b) # s) \<longleftrightarrow>
     (if b then color n = Gray \<and> (\<forall>m \<in> set (adj n). color m = Black \<or> (m, False) \<in> upper \<or> (m, True) \<in> upper)
      else (color n = Gray \<longrightarrow> (n, True) \<in> upper)
        \<and> (color n = White \<and> (n, False) \<notin> upper \<and> path_of s \<noteq> [] \<longrightarrow>
             parent n = Some (hd (path_of s)) \<and> n \<in> set (adj (hd (path_of s)))))
     \<and> entries_ok adj color parent (insert (n, b) upper) s"

definition search_ok ::
    "string set \<Rightarrow> (string \<Rightarrow> string list) \<Rightarrow> (string \<Rightarrow> color) \<Rightarrow> (string \<Rightarrow> string option) \<Rightarrow> (string \<times> bool) list \<Rightarrow> bool" where
  "search_ok nodes adj color parent stack \<longleftrightarrow>
     fst ` set stack \<subseteq> nodes
     \<and> {n. color n \<noteq> White} \<subseteq> nodes
     \<and> (\<exists>ns. finished adj ns \<and> set ns = {n. color n = Black})
     \<and> set (path_of stack) = {n. color n = Gray}
     \<and> distinct (path_of stack)
     \<and> linked adj parent (path_of stack)
     \<and> entries_ok adj color parent {} stack"

text \<open>The invariant of the entries under a change of colours, parents and entries above.\<close>

definition carries ::
    "(string \<Rightarrow> color) \<Rightarrow> (string \<Rightarrow> string option) \<Rightarrow> (string \<times> bool) set
       \<Rightarrow> (string \<Rightarrow> color) \<Rightarrow> (string \<Rightarrow> string option) \<Rightarrow> (string \<times> bool) set \<Rightarrow> bool" where
  "carries c p upper c' p' upper' \<longleftrightarrow>
     (\<forall>m. (c' m = Gray \<longrightarrow> (m, True) \<in> upper' \<or> c m = Gray)
        \<and> (c' m = White \<longrightarrow> c m = White \<and> ((m, False) \<in> upper \<longrightarrow> (m, False) \<in> upper')
             \<and> ((m, False) \<notin> upper' \<longrightarrow> p' m = p m))
        \<and> (c m = Black \<longrightarrow> c' m = Black)
        \<and> ((m, False) \<in> upper \<longrightarrow> (m, False) \<in> upper' \<or> (m, True) \<in> upper' \<or> c' m = Black)
        \<and> ((m, True) \<in> upper \<longrightarrow> (m, True) \<in> upper' \<or> c' m = Black))"

lemma carries_insert: "carries c p upper c' p' upper' \<Longrightarrow> carries c p (insert e upper) c' p' (insert e upper')"
  unfolding carries_def by (metis insert_iff)

lemma entries_ok_carries:
  assumes "entries_ok adj c p upper s" and "carries c p upper c' p' upper'" and "\<forall>n. (n, True) \<in> set s \<longrightarrow> c' n = Gray"
  shows "entries_ok adj c' p' upper' s"
  using assms
proof (induction s arbitrary: upper upper')
  case (Cons e s)
  obtain n b where e: "e = (n, b)" by force
  have rest: "entries_ok adj c' p' (insert (n, b) upper') s"
    using Cons.IH [of "insert (n, b) upper" "insert (n, b) upper'"] Cons.prems carries_insert e by auto
  have "carries c p upper c' p' upper'" by (fact Cons.prems(2))
  note old = this [unfolded carries_def, rule_format]
  show ?case
  proof (cases b)
    case True
    then show ?thesis using Cons.prems(1,3) rest old e by auto
  next
    case False
    have gray: "c' n = Gray \<longrightarrow> (n, True) \<in> upper'"
      using old [of n] Cons.prems(1) e False by auto
    have white: "c' n = White \<and> (n, False) \<notin> upper' \<and> path_of s \<noteq> [] \<longrightarrow>
        p' n = Some (hd (path_of s)) \<and> n \<in> set (adj (hd (path_of s)))"
      using old [of n] Cons.prems(1) e False by auto
    show ?thesis using gray white rest False e by simp
  qed
qed simp

text \<open>What one visit pushes.\<close>

lemma push_neighbors_pushed:
  assumes "push_neighbors color node nbs parent stack = Inr (parent', stack')"
  shows "\<exists>ws. stack' = map (\<lambda>w. (w, False)) ws @ stack \<and> set ws = {m \<in> set nbs. color m = White}
    \<and> parent' = (\<lambda>m. if m \<in> set ws then Some node else parent m) \<and> (\<forall>m \<in> set nbs. color m \<noteq> Gray)"
  using assms
proof (induction color node nbs parent stack rule: push_neighbors.induct)
  case (2 color node nb nbs parent stack)
  show ?case
  proof (cases "color nb")
    case White
    then have not_gray: "color nb \<noteq> Gray" by simp
    have eq: "push_neighbors color node nbs (parent(nb := Some node)) ((nb, False) # stack) = Inr (parent', stack')"
      using 2(3) White by simp
    obtain ws where ws: "stack' = map (\<lambda>w. (w, False)) ws @ (nb, False) # stack"
        "set ws = {m \<in> set nbs. color m = White}"
        "parent' = (\<lambda>m. if m \<in> set ws then Some node else (parent(nb := Some node)) m)"
        "\<forall>m \<in> set nbs. color m \<noteq> Gray"
      using 2(1) [OF not_gray White eq] by blast
    show ?thesis by (rule exI [of _ "ws @ [nb]"]) (use ws White in \<open>auto simp: fun_eq_iff\<close>)
  qed (use 2 in auto)
qed auto

lemma push_neighbors_found:
  assumes "push_neighbors color node nbs parent stack = Inl (parent', nb)"
  shows "nb \<in> set nbs \<and> color nb = Gray \<and> (\<forall>m. color m \<noteq> White \<longrightarrow> parent' m = parent m)"
  using assms by (induction color node nbs parent stack rule: push_neighbors.induct) (auto split: if_splits)


text \<open>Climbing along the path ends, and what it gives is a cycle.\<close>

lemma climb_path:
  "linked adj parent path \<Longrightarrow> target \<in> set path \<Longrightarrow>
   \<exists>q r. path = q @ target # r \<and> climb parent target (Some (hd path)) acc = Some (acc @ q)"
proof (induction path arbitrary: acc)
  case (Cons m path)
  show ?case
  proof (cases "m = target")
    case True
    then show ?thesis by (intro exI [of _ "[]"] exI [of _ path]) (simp add: climb.simps)
  next
    case False
    then have t: "target \<in> set path" using Cons.prems by simp
    then obtain k ks where path: "path = k # ks" by (cases path) auto
    then have l: "linked adj parent path" and par: "parent m = Some (hd path)" using Cons.prems by auto
    obtain q r where "path = q @ target # r" "climb parent target (Some (hd path)) (acc @ [m]) = Some ((acc @ [m]) @ q)"
      using Cons.IH [OF l t] by blast
    moreover have "climb parent target (Some m) acc = climb parent target (parent m) (acc @ [m])"
      using False by (subst climb.simps) simp
    ultimately show ?thesis using par by (intro exI [of _ "m # q"] exI [of _ r]) simp
  qed
qed simp

lemma walks_append: "walks adj (xs @ [a]) \<Longrightarrow> b \<in> set (adj a) \<Longrightarrow> walks adj (xs @ [a, b])"
  by (induction adj xs rule: walks.induct) auto

lemma linked_walks: "linked adj parent path \<Longrightarrow> walks adj (rev path)"
proof (induction adj parent path rule: linked.induct)
  case (1 adj parent p q ps)
  then have "walks adj (rev ps @ [q])" and "p \<in> set (adj q)" by simp_all
  then show ?case using walks_append by simp
qed simp_all

lemma linked_prefix: "linked adj parent (q @ r) \<Longrightarrow> linked adj parent q"
proof (induction q)
  case (Cons a q)
  then show ?case by (cases q; cases r) auto
qed simp

lemma cycle_from_path:
  assumes "linked adj parent (node # path)" and "nb \<in> set (node # path)" and "nb \<in> set (adj node)"
  shows "\<exists>cycle. cycle_from parent nb (Some node) = Some cycle \<and> is_cycle adj cycle"
proof -
  obtain q r where qr: "node # path = q @ nb # r" and cl: "climb parent nb (Some node) [nb] = Some ([nb] @ q)"
    using climb_path [OF assms(1,2), of "[nb]"] by auto
  have "linked adj parent (q @ [nb])"
    using assms(1) linked_prefix [of adj parent "q @ [nb]" r] qr by simp
  then have up: "walks adj (nb # rev q)" using linked_walks by force
  have "walks adj ((nb # rev q) @ [nb])"
  proof (cases q)
    case Nil
    then show ?thesis using qr assms(3) by simp
  next
    case (Cons a q')
    then have "nb # rev q = (nb # rev q') @ [node]" using qr by simp
    then show ?thesis using walks_append [of adj "nb # rev q'" node nb] up assms(3) by simp
  qed
  then show ?thesis using cl by (simp add: cycle_from_def is_cycle_def)
qed

lemma linked_cong: "(\<forall>n \<in> set path. p n = p' n) \<Longrightarrow> linked adj p path \<Longrightarrow> linked adj p' path"
  by (induction adj p path rule: linked.induct) auto

text \<open>Finishing the top of the path.\<close>

lemma step_finish:
  assumes ok: "search_ok nodes adj c p ((n, True) # rest)"
  shows "search_ok nodes adj (c(n := Black)) p rest"
proof -
  obtain ns where ns: "finished adj ns" "set ns = {n. c n = Black}" using ok by (auto simp: search_ok_def)
  have gray: "c n = Gray" and succ: "\<forall>m \<in> set (adj n). c m = Black" and rest: "entries_ok adj c p {(n, True)} rest"
    using ok by (auto simp: search_ok_def)
  have "finished adj (n # ns) \<and> set (n # ns) = {m. (c(n := Black)) m = Black}"
    using ns gray succ by auto
  then have fin: "\<exists>ns. finished adj ns \<and> set ns = {m. (c(n := Black)) m = Black}" by blast
  have path: "distinct (n # path_of rest)" "set (n # path_of rest) = {m. c m = Gray}" "linked adj p (n # path_of rest)"
    using ok by (auto simp: search_ok_def)
  have "entries_ok adj (c(n := Black)) p {} rest"
  proof (rule entries_ok_carries [OF rest])
    show "carries c p {(n, True)} (c(n := Black)) p {}" using gray by (simp add: carries_def)
    show "\<forall>m. (m, True) \<in> set rest \<longrightarrow> (c(n := Black)) m = Gray"
      using path(1,2) path_of_iff [of _ rest] by auto
  qed
  moreover have "linked adj p (path_of rest)" using path(3) by (cases "path_of rest") auto
  ultimately show ?thesis using ok fin path gray by (auto simp: search_ok_def)
qed

text \<open>Dropping an entry of a finished node.\<close>

lemma step_drop:
  assumes ok: "search_ok nodes adj c p ((n, False) # rest)" and b: "c n = Black"
  shows "search_ok nodes adj c p rest"
proof -
  have "entries_ok adj c p {(n, False)} rest" using ok by (simp add: search_ok_def)
  then have "entries_ok adj c p {} rest"
  proof (rule entries_ok_carries)
    show "carries c p {(n, False)} c p {}" using b by (auto simp: carries_def)
    show "\<forall>m. (m, True) \<in> set rest \<longrightarrow> c m = Gray" using ok path_of_iff [of _ rest] by (auto simp: search_ok_def)
  qed
  then show ?thesis using ok by (simp add: search_ok_def)
qed


text \<open>Visiting a white node.\<close>

lemma path_of_pushed: "path_of (map (\<lambda>w. (w, False)) ws @ s) = path_of s"
  by (induction ws) simp_all

lemma entries_ok_pushed:
  assumes "\<forall>w \<in> set ws. c w = White \<and> p w = Some n \<and> w \<in> set (adj n)"
    and "entries_ok adj c p (upper \<union> (\<lambda>w. (w, False)) ` set ws) ((n, True) # rest)"
  shows "entries_ok adj c p upper (map (\<lambda>w. (w, False)) ws @ (n, True) # rest)"
  using assms
proof (induction ws arbitrary: upper)
  case (Cons w ws)
  have "entries_ok adj c p (insert (w, False) upper) (map (\<lambda>w. (w, False)) ws @ (n, True) # rest)"
    by (rule Cons.IH) (use Cons.prems in auto)
  then show ?case using Cons.prems(1) by (simp add: path_of_pushed)
qed simp

lemma step_visit:
  assumes ok: "search_ok nodes adj c p ((n, False) # rest)" and w: "c n = White" and closed: "\<forall>n \<in> nodes. set (adj n) \<subseteq> nodes"
    and push: "push_neighbors (c(n := Gray)) n (adj n) p ((n, True) # rest) = Inr (p', stack')"
  shows "search_ok nodes adj (c(n := Gray)) p' stack'"
proof -
  let ?c = "c(n := Gray)"
  obtain ws where stack': "stack' = map (\<lambda>w. (w, False)) ws @ (n, True) # rest"
      and ws: "set ws = {m \<in> set (adj n). ?c m = White}"
      and p': "p' = (\<lambda>m. if m \<in> set ws then Some n else p m)" and no_gray: "\<forall>m \<in> set (adj n). ?c m \<noteq> Gray"
    using push_neighbors_pushed [OF push] by blast
  have top: "entries_ok adj c p {(n, False)} rest"
      "path_of rest \<noteq> [] \<longrightarrow> p n = Some (hd (path_of rest)) \<and> n \<in> set (adj (hd (path_of rest)))"
    using ok w by (auto simp: search_ok_def)
  have path: "distinct (path_of rest)" "set (path_of rest) = {m. c m = Gray}" "linked adj p (path_of rest)"
    using ok by (auto simp: search_ok_def)
  have n: "n \<notin> set ws" "n \<notin> set (path_of rest)" using ws path(2) w by auto
  have "linked adj p (n # path_of rest)" using path(3) top(2) by (cases "path_of rest") auto
  moreover have same: "\<forall>m \<in> set (n # path_of rest). p m = p' m" using ws path(2) n p' by auto
  ultimately have "linked adj p' (n # path_of rest)" using linked_cong by blast
  moreover have "entries_ok adj ?c p' {} stack'"
    unfolding stack'
  proof (rule entries_ok_pushed)
    show "\<forall>w \<in> set ws. ?c w = White \<and> p' w = Some n \<and> w \<in> set (adj n)" using ws p' by auto
    let ?upper = "insert (n, True) ((\<lambda>w. (w, False)) ` set ws)"
    have "entries_ok adj ?c p' ?upper rest"
    proof (rule entries_ok_carries [OF top(1)])
      show "carries c p {(n, False)} ?c p' ?upper" using w p' by (auto simp: carries_def image_iff)
      show "\<forall>m. (m, True) \<in> set rest \<longrightarrow> ?c m = Gray" using path(2) path_of_iff [of _ rest] by auto
    qed
    moreover have "\<forall>m \<in> set (adj n). ?c m = Black \<or> m \<in> set ws" using ws no_gray color.exhaust by blast
    ultimately show "entries_ok adj ?c p' ({} \<union> (\<lambda>w. (w, False)) ` set ws) ((n, True) # rest)" by auto
  qed
  moreover have "{m. ?c m = Black} = {m. c m = Black}" using w by auto
  moreover have "set ws \<subseteq> nodes" and "n \<in> nodes" using ok closed ws by (auto simp: search_ok_def)
  ultimately show ?thesis using ok path n w stack' by (auto simp: search_ok_def path_of_pushed)
qed


text \<open>One round: it finds a cycle, or it keeps the invariant and makes progress. The entry of a gray node is never on
top, so the first of the two reports of a cycle in the source is never reached.\<close>

definition white_count :: "string set \<Rightarrow> (string \<Rightarrow> color) \<Rightarrow> nat" where
  "white_count nodes c = card {n \<in> nodes. c n = White}"

lemma step_correct:
  assumes ok: "search_ok nodes adj c p ((n, b) # rest)" and closed: "\<forall>n \<in> nodes. set (adj n) \<subseteq> nodes" and fin: "finite nodes"
  shows "(\<exists>cycle. dfs_step adj c p n b rest = Inl (Some cycle) \<and> is_cycle adj cycle)
    \<or> (\<exists>c' p' stack'. dfs_step adj c p n b rest = Inr (c', p', stack') \<and> search_ok nodes adj c' p' stack'
        \<and> (white_count nodes c' < white_count nodes c \<or> white_count nodes c' = white_count nodes c \<and> length stack' = length rest)
        \<and> c' n \<noteq> White \<and> (\<forall>m. c m \<noteq> White \<longrightarrow> c' m \<noteq> White) \<and> set rest \<subseteq> set stack')"
proof (cases b)
  case True
  then have gray: "c n = Gray" using ok by (simp add: search_ok_def)
  then have "white_count nodes (c(n := Black)) = white_count nodes c"
    unfolding white_count_def by (intro arg_cong [of _ _ card]) auto
  then show ?thesis using step_finish ok True by (auto simp: dfs_step_def)
next
  case False
  show ?thesis
  proof (cases "c n")
    case White
    have n: "n \<in> nodes" using ok by (auto simp: search_ok_def)
    then have less: "white_count nodes (c(n := Gray)) < white_count nodes c"
      unfolding white_count_def by (intro psubset_card_mono) (use fin White in auto)
    show ?thesis
    proof (cases "push_neighbors (c(n := Gray)) n (adj n) p ((n, True) # rest)")
      case (Inl r)
      obtain p' nb where r: "r = (p', nb)" by force
      have found: "nb \<in> set (adj n)" "(c(n := Gray)) nb = Gray" "\<forall>m. (c(n := Gray)) m \<noteq> White \<longrightarrow> p' m = p m"
        using push_neighbors_found Inl r by blast+
      have path: "linked adj p (path_of rest)" "set (path_of rest) = {m. c m = Gray}"
          "path_of rest \<noteq> [] \<longrightarrow> p n = Some (hd (path_of rest)) \<and> n \<in> set (adj (hd (path_of rest)))"
        using ok White False by (auto simp: search_ok_def)
      have "linked adj p (n # path_of rest)" using path(1,3) by (cases "path_of rest") auto
      then have "linked adj p' (n # path_of rest)" by (rule linked_cong [rotated]) (use found(3) path(2) in auto)
      moreover have "nb \<in> set (n # path_of rest)" using found(2) path(2) by (auto split: if_splits)
      ultimately obtain cycle where "cycle_from p' nb (Some n) = Some cycle" "is_cycle adj cycle"
        using cycle_from_path found(1) by blast
      then show ?thesis using Inl r White False by (simp add: dfs_step_def)
    next
      case (Inr r)
      obtain p' stack' where r: "r = (p', stack')" by force
      have "search_ok nodes adj (c(n := Gray)) p' stack'" using step_visit [of nodes adj c p n rest] ok White False closed Inr r by simp
      moreover have "set rest \<subseteq> set stack'" using push_neighbors_pushed [of "c(n := Gray)" n] Inr r by force
      ultimately show ?thesis using less Inr r White False by (simp add: dfs_step_def)
    qed
  next
    case Gray
    then show ?thesis using ok False by (simp add: search_ok_def)
  next
    case Black
    then show ?thesis using step_drop ok False by (auto simp: dfs_step_def)
  qed
qed

lemma dfs_loop_correct:
  assumes closed: "\<forall>n \<in> nodes. set (adj n) \<subseteq> nodes" and fin: "finite nodes" and "search_ok nodes adj c p stack"
  shows "(\<exists>cycle. dfs_loop adj stack c p = Some (Inl cycle) \<and> is_cycle adj cycle)
    \<or> (\<exists>c' p'. dfs_loop adj stack c p = Some (Inr (c', p')) \<and> search_ok nodes adj c' p' []
        \<and> (\<forall>m. c m \<noteq> White \<or> m \<in> fst ` set stack \<longrightarrow> c' m \<noteq> White))"
  using assms(3)
proof (induction "(white_count nodes c, length stack)" arbitrary: c p stack rule: wf_induct_rule [OF wf_lex_prod [OF wf_less_than wf_less_than]])
  case 1
  show ?case
  proof (cases stack)
    case Nil
    then show ?thesis using 1(2) by (subst (1 2) dfs_loop.simps) simp
  next
    case (Cons e rest)
    obtain n b where e: "e = (n, b)" by force
    have unfold: "dfs_loop adj stack c p = (case dfs_step adj c p n b rest of
        Inl cycle \<Rightarrow> map_option Inl cycle | Inr (c', p', stack') \<Rightarrow> dfs_loop adj stack' c' p')"
      using Cons e by (subst dfs_loop.simps) simp
    consider (found) cycle where "dfs_step adj c p n b rest = Inl (Some cycle)" "is_cycle adj cycle"
      | (on) c' p' stack' where "dfs_step adj c p n b rest = Inr (c', p', stack')" "search_ok nodes adj c' p' stack'"
          "white_count nodes c' < white_count nodes c \<or> white_count nodes c' = white_count nodes c \<and> length stack' = length rest"
          "c' n \<noteq> White" "\<forall>m. c m \<noteq> White \<longrightarrow> c' m \<noteq> White" "set rest \<subseteq> set stack'"
      using step_correct [OF 1(2) [unfolded Cons e] closed fin] by blast
    then show ?thesis
    proof cases
      case found
      then show ?thesis using unfold by simp
    next
      case on
      have grow: "c' m \<noteq> White \<or> m \<in> fst ` set stack'" if "c m \<noteq> White \<or> m \<in> fst ` set stack" for m
        using that on(4-6) Cons e by auto
      have "((white_count nodes c', length stack'), white_count nodes c, length stack) \<in> less_than <*lex*> less_than"
        using on(3) Cons by auto
      from 1(1) [OF this on(2)] have "(\<exists>cycle. dfs_loop adj stack' c' p' = Some (Inl cycle) \<and> is_cycle adj cycle)
        \<or> (\<exists>c'' p''. dfs_loop adj stack' c' p' = Some (Inr (c'', p'')) \<and> search_ok nodes adj c'' p'' []
            \<and> (\<forall>m. c' m \<noteq> White \<or> m \<in> fst ` set stack' \<longrightarrow> c'' m \<noteq> White))" .
      moreover have "dfs_loop adj stack c p = dfs_loop adj stack' c' p'" using unfold on(1) by simp
      ultimately show ?thesis using grow by metis
    qed
  qed
qed

lemma search_from_correct:
  assumes closed: "\<forall>n \<in> nodes. set (adj n) \<subseteq> nodes" and fin: "finite nodes"
    and "search_ok nodes adj c p []" and "set order \<subseteq> nodes"
  shows "\<exists>path. search_from adj order c p = Some path
    \<and> (if path = [] then \<exists>ns. finished adj ns \<and> set order \<subseteq> set ns \<and> (\<forall>m. c m \<noteq> White \<longrightarrow> m \<in> set ns) else is_cycle adj path)"
  using assms(3,4)
proof (induction order arbitrary: c p)
  case Nil
  then obtain ns where "finished adj ns" "set ns = {n. c n = Black}" "{n. c n = Gray} = {}"
    by (auto simp: search_ok_def)
  then have "\<forall>m. c m \<noteq> White \<longrightarrow> m \<in> set ns" using color.exhaust by blast
  then show ?case using \<open>finished adj ns\<close> by auto
next
  case (Cons start order)
  show ?case
  proof (cases "c start = White")
    case False
    obtain path where "search_from adj order c p = Some path"
        "if path = [] then \<exists>ns. finished adj ns \<and> set order \<subseteq> set ns \<and> (\<forall>m. c m \<noteq> White \<longrightarrow> m \<in> set ns) else is_cycle adj path"
      using Cons.IH [OF Cons.prems(1)] Cons.prems(2) by auto
    then show ?thesis using False by (intro exI [of _ path]) (auto split: if_splits)
  next
    case True
    then have "search_ok nodes adj c p [(start, False)]" using Cons.prems by (simp add: search_ok_def)
    then consider (found) cycle where "dfs_loop adj [(start, False)] c p = Some (Inl cycle)" "is_cycle adj cycle"
      | (on) c' p' where "dfs_loop adj [(start, False)] c p = Some (Inr (c', p'))" "search_ok nodes adj c' p' []"
          "\<forall>m. c m \<noteq> White \<or> m \<in> fst ` set [(start, False)] \<longrightarrow> c' m \<noteq> White"
      using dfs_loop_correct [OF closed fin] by blast
    then show ?thesis
    proof cases
      case found
      then show ?thesis using True by (auto simp: is_cycle_def)
    next
      case on
      obtain path where "search_from adj order c' p' = Some path"
          "if path = [] then \<exists>ns. finished adj ns \<and> set order \<subseteq> set ns \<and> (\<forall>m. c' m \<noteq> White \<longrightarrow> m \<in> set ns) else is_cycle adj path"
        using Cons.IH [OF on(2)] Cons.prems(2) by auto
      then show ?thesis using True on(1,3) by (intro exI [of _ path]) (auto split: if_splits)
    qed
  qed
qed


section \<open>What validation finds\<close>

lemma unknown_dependency_None:
  "unknown_dependency tasks = None \<longleftrightarrow> (\<forall>t \<in> set tasks. set (w_dependencies t) \<subseteq> w_id ` set tasks)"
  by (fastforce simp: unknown_dependency_def find_None_iff)

lemma unknown_dependency_Some:
  assumes "unknown_dependency tasks = Some (dep, i)"
  shows "dep \<notin> w_id ` set tasks \<and> (\<exists>t \<in> set tasks. w_id t = i \<and> dep \<in> set (w_dependencies t))"
  using assms by (auto simp: unknown_dependency_def find_Some_iff dest!: nth_mem)

lemma adjacency_deps: "adjacency tasks n \<noteq> [] \<Longrightarrow> \<exists>t \<in> set tasks. w_id t = n \<and> adjacency tasks n = w_dependencies t"
  by (auto simp: adjacency_def split: option.splits dest!: map_of_SomeD)

lemma adjacency_closed:
  assumes "unknown_dependency tasks = None"
  shows "set (adjacency tasks n) \<subseteq> w_id ` set tasks"
proof (cases "adjacency tasks n = []")
  case False
  then show ?thesis using adjacency_deps [OF False] assms unknown_dependency_None by metis
qed simp

lemma adjacency_task:
  assumes "distinct (map w_id tasks)" and "t \<in> set tasks"
  shows "adjacency tasks (w_id t) = w_dependencies t"
proof -
  have "map_of (rev (map (\<lambda>t. (w_id t, w_dependencies t)) tasks)) (w_id t) = Some (w_dependencies t)"
    by (rule map_of_is_SomeI) (use assms in \<open>auto simp: rev_map [symmetric] comp_def\<close>)
  then show ?thesis by (simp add: adjacency_def)
qed

lemma edges_adjacency:
  "distinct (map w_id tasks) \<Longrightarrow> edges (adjacency tasks) = {(w_id t, d) | t d. t \<in> set tasks \<and> d \<in> set (w_dependencies t)}"
  by (auto simp: edges_def adjacency_task) (metis adjacency_deps empty_iff list.set(1))

lemma search_correct:
  assumes order: "set order = w_id ` set tasks" and known: "unknown_dependency tasks = None"
  shows "\<exists>path. search_from (adjacency tasks) order (\<lambda>_. White) (\<lambda>_. None) = Some path
    \<and> (path = [] \<longleftrightarrow> acyclic (edges (adjacency tasks))) \<and> (path \<noteq> [] \<longrightarrow> is_cycle (adjacency tasks) path)"
proof -
  let ?adj = "adjacency tasks" and ?nodes = "w_id ` set tasks"
  have "search_ok ?nodes ?adj (\<lambda>_. White) (\<lambda>_. None) []"
    by (auto simp: search_ok_def intro: exI [of _ "[]"])
  then obtain path where path: "search_from ?adj order (\<lambda>_. White) (\<lambda>_. None) = Some path"
      and res: "if path = [] then \<exists>ns. finished ?adj ns \<and> set order \<subseteq> set ns \<and> (\<forall>m. (\<lambda>_. White) m \<noteq> White \<longrightarrow> m \<in> set ns)
        else is_cycle ?adj path"
    using search_from_correct [of ?nodes ?adj "\<lambda>_. White" "\<lambda>_. None" order] adjacency_closed [OF known] order by auto
  have "acyclic (edges ?adj)" if "path = []"
  proof (rule acyclicI, intro allI notI)
    fix x
    assume loop: "(x, x) \<in> (edges ?adj)\<^sup>+"
    then obtain y where "(x, y) \<in> edges ?adj" by (meson tranclD)
    then have "x \<in> ?nodes" using adjacency_deps [of tasks x] by (force simp: edges_def)
    then show False using res that finished_acyclic loop order by auto
  qed
  moreover have "\<not> acyclic (edges ?adj)" if "path \<noteq> []"
    using res that walks_trancl [of ?adj path] by (auto simp: is_cycle_def acyclic_def)
  ultimately show ?thesis using path res by (auto split: if_splits)
qed


section \<open>What a call hands out\<close>

text \<open>The effect of handing out the pairs of positions \<open>ps\<close>.\<close>

definition hands_out :: "(nat \<times> nat) list \<Rightarrow> walker \<Rightarrow> walker \<Rightarrow> bool" where
  "hands_out ps w w' \<longleftrightarrow>
     length (dw_tasks w') = length (dw_tasks w) \<and> length (dw_agents w') = length (dw_agents w)
     \<and> (\<forall>i < length (dw_tasks w). dw_tasks w' ! i =
          (case map_of ps i of
             None \<Rightarrow> dw_tasks w ! i
           | Some j \<Rightarrow> (dw_tasks w ! i)\<lparr>w_assigned_agent_id := Some (wa_id (dw_agents w ! j))\<rparr>))
     \<and> (\<forall>j < length (dw_agents w). dw_agents w' ! j =
          (case map_of (map prod.swap ps) j of
             None \<Rightarrow> dw_agents w ! j
           | Some i \<Rightarrow> (dw_agents w ! j)\<lparr>wa_current_task_id := Some (w_id (dw_tasks w ! i))\<rparr>))
     \<and> dw_client w' = dw_client w
     \<and> dw_calls w' = dw_calls w
          @ (if dw_client w = None then [] else map (\<lambda>(i, j). (w_id (dw_tasks w ! i), wa_id (dw_agents w ! j))) ps)"

lemma call_assign_shape:
  "call_assign i j w = (w1, r) \<Longrightarrow>
     w1 = w\<lparr>dw_calls := dw_calls w @ (if dw_client w = None then [] else [(w_id (dw_tasks w ! i), wa_id (dw_agents w ! j))])\<rparr>"
  by (auto simp: call_assign_def Let_def split: option.splits)

lemma mark_keeps_agent_ids: "wa_id (dw_agents (mark_assigned i j w) ! k) = wa_id (dw_agents w ! k)"
  by (cases "j < length (dw_agents w)"; cases "k = j") (simp_all add: mark_assigned_def list_update_beyond)

lemma mark_keeps_task_ids: "w_id (dw_tasks (mark_assigned i j w) ! k) = w_id (dw_tasks w ! k)"
  by (cases "i < length (dw_tasks w)"; cases "k = i") (simp_all add: mark_assigned_def list_update_beyond)

lemma call_keeps_ids:
  "call_assign i j (mark_assigned i j w) = (w1, r) \<Longrightarrow> wa_id (dw_agents w1 ! k) = wa_id (dw_agents w ! k)"
  "call_assign i j (mark_assigned i j w) = (w1, r) \<Longrightarrow> w_id (dw_tasks w1 ! k) = w_id (dw_tasks w ! k)"
  using call_assign_shape [of i j "mark_assigned i j w" w1 r] by (simp_all add: mark_keeps_agent_ids mark_keeps_task_ids)

lemma hands_out_Nil: "hands_out [] w w"
  by (simp add: hands_out_def)

lemma hands_out_Cons:
  assumes "hands_out ps w1 w'" and call: "call_assign i j (mark_assigned i j w) = (w1, r)"
    and i: "i < length (dw_tasks w)" "i \<notin> fst ` set ps" and j: "j < length (dw_agents w)" "j \<notin> snd ` set ps"
  shows "hands_out ((i, j) # ps) w w'"
proof -
  have w1: "dw_tasks w1 = (dw_tasks w)[i := (dw_tasks w ! i)\<lparr>w_assigned_agent_id := Some (wa_id (dw_agents w ! j))\<rparr>]"
      "dw_agents w1 = (dw_agents w)[j := (dw_agents w ! j)\<lparr>wa_current_task_id := Some (w_id (dw_tasks w ! i))\<rparr>]"
      "dw_client w1 = dw_client w"
      "dw_calls w1 = dw_calls w @ (if dw_client w = None then [] else [(w_id (dw_tasks w ! i), wa_id (dw_agents w ! j))])"
    using call_assign_shape [OF call] i(1) j(1) by (simp_all add: mark_assigned_def)
  have none: "map_of ps i = None" "map_of (map prod.swap ps) j = None"
    using i(2) j(2) by (force simp: map_of_eq_None_iff)+
  have ids: "wa_id (dw_agents w1 ! k) = wa_id (dw_agents w ! k)" "w_id (dw_tasks w1 ! k) = w_id (dw_tasks w ! k)" for k
    using call_keeps_ids [OF call] by simp_all
  have old: "dw_tasks w1 ! k = dw_tasks w ! k" if "k \<noteq> i" for k using that w1(1) by simp
  have old': "dw_agents w1 ! k = dw_agents w ! k" if "k \<noteq> j" for k using that w1(2) by simp
  note ps = assms(1) [unfolded hands_out_def]
  have tasks: "dw_tasks w' ! k = (case map_of ((i, j) # ps) k of None \<Rightarrow> dw_tasks w ! k
      | Some j \<Rightarrow> (dw_tasks w ! k)\<lparr>w_assigned_agent_id := Some (wa_id (dw_agents w ! j))\<rparr>)" if "k < length (dw_tasks w)" for k
    using ps that none(1) old [of k] w1(1) i(1) by (cases "k = i") (simp_all add: ids split: option.split)
  have agents: "dw_agents w' ! k = (case map_of (map prod.swap ((i, j) # ps)) k of None \<Rightarrow> dw_agents w ! k
      | Some i \<Rightarrow> (dw_agents w ! k)\<lparr>wa_current_task_id := Some (w_id (dw_tasks w ! i))\<rparr>)" if "k < length (dw_agents w)" for k
    using ps that none(2) old' [of k] w1(2) j(1) by (cases "k = j") (simp_all add: ids split: option.split)
  have calls: "dw_calls w' = dw_calls w @ (if dw_client w = None then []
      else map (\<lambda>(i, j). (w_id (dw_tasks w ! i), wa_id (dw_agents w ! j))) ((i, j) # ps))"
    using ps w1(3,4) by (simp add: ids)
  show ?thesis
    unfolding hands_out_def using tasks agents calls ps w1 by simp
qed

text \<open>The client refuses the last of the pairs handed out.\<close>

definition refused :: "(nat \<times> nat) list \<Rightarrow> walker \<Rightarrow> walker \<Rightarrow> string \<Rightarrow> bool" where
  "refused ps w w' e \<longleftrightarrow> ps \<noteq> [] \<and>
     (\<exists>cl. dw_client w = Some cl \<and>
        cl_assign_task cl (butlast (dw_calls w')) (w_id (dw_tasks w ! fst (last ps))) (wa_id (dw_agents w ! snd (last ps))) = Some e)"

lemma assign_loop_outcome:
  assumes "distinct ready" and "distinct available"
    and "\<forall>i \<in> set ready. i < length (dw_tasks w)" and "\<forall>j \<in> set available. j < length (dw_agents w)"
  shows "\<exists>n w' r. assign_loop ready available acc w = (w', r) \<and> hands_out (take n (zip ready available)) w w'
    \<and> (r = Inr (acc @ zip ready available) \<and> take n (zip ready available) = zip ready available
       \<or> (\<exists>e. r = Inl (Client_Error e) \<and> refused (take n (zip ready available)) w w' e))"
  using assms
proof (induction ready available acc w rule: assign_loop.induct)
  case (1 i ready j available acc w)
  obtain w1 r1 where call: "call_assign i j (mark_assigned i j w) = (w1, r1)" by force
  have i: "i < length (dw_tasks w)" "i \<notin> set ready" and j: "j < length (dw_agents w)" "j \<notin> set available"
    using 1(2-5) by auto
  note out = hands_out_Cons [OF _ call i(1) _ j(1)]
  have sub: "i \<notin> fst ` set (take m (zip ready available))" "j \<notin> snd ` set (take m (zip ready available))" for m
    using i(2) j(2) by (auto dest!: in_set_takeD dest: set_zip_leftD set_zip_rightD)
  have len: "length (dw_tasks w1) = length (dw_tasks w)" "length (dw_agents w1) = length (dw_agents w)"
      "dw_client w1 = dw_client w"
    using call_assign_shape [OF call] by (simp_all add: mark_assigned_def)
  have ids: "wa_id (dw_agents w1 ! k) = wa_id (dw_agents w ! k)" "w_id (dw_tasks w1 ! k) = w_id (dw_tasks w ! k)" for k
    using call_keeps_ids [OF call] by simp_all
  show ?case
  proof (cases r1)
    case None
    then obtain n w' r where IH: "assign_loop ready available (acc @ [(i, j)]) w1 = (w', r)"
        "hands_out (take n (zip ready available)) w1 w'"
        "r = Inr ((acc @ [(i, j)]) @ zip ready available) \<and> take n (zip ready available) = zip ready available
         \<or> (\<exists>e. r = Inl (Client_Error e) \<and> refused (take n (zip ready available)) w1 w' e)"
      using 1(1) [OF call [symmetric] None] 1(2-5) len by (simp del: zip_Cons_Cons) blast
    have "hands_out (take (Suc n) (zip (i # ready) (j # available))) w w'" using out [OF IH(2) sub] by simp
    moreover have "refused (take n (zip ready available)) w1 w' e \<Longrightarrow> refused ((i, j) # take n (zip ready available)) w w' e" for e
      by (auto simp: refused_def len ids)
    moreover have "assign_loop (i # ready) (j # available) acc w = (w', r)" using IH(1) call None by simp
    ultimately show ?thesis using IH(3)
      by (intro exI [of _ "Suc n"] exI [of _ w'] exI [of _ r]) (simp, blast)
  next
    case (Some e)
    have "hands_out [(i, j)] w w1" using out [OF hands_out_Nil] by simp
    moreover have "refused [(i, j)] w w1 e"
      using call Some i(1) j(1)
      by (auto simp: refused_def call_assign_def mark_assigned_def Let_def split: option.splits)
    ultimately show ?thesis using call Some
      by (intro exI [of _ "Suc 0"] exI [of _ w1] exI [of _ "Inl (Client_Error e)"]) auto
  qed
qed (auto intro: hands_out_Nil)


lemma set_positions: "set (positions P xs) = {i. i < length xs \<and> P (xs ! i)}"
  by (auto simp: positions_def)

lemma distinct_positions: "distinct (positions P xs)"
  by (simp add: positions_def)


lemma handed_out_task:
  "hands_out ps w w' \<Longrightarrow> i < length (dw_tasks w) \<Longrightarrow>
     w_id (dw_tasks w' ! i) = w_id (dw_tasks w ! i) \<and> w_status (dw_tasks w' ! i) = w_status (dw_tasks w ! i)
     \<and> w_dependencies (dw_tasks w' ! i) = w_dependencies (dw_tasks w ! i)
     \<and> (i \<notin> fst ` set ps \<longrightarrow> dw_tasks w' ! i = dw_tasks w ! i)
     \<and> (i \<in> fst ` set ps \<longrightarrow> w_assigned_agent_id (dw_tasks w' ! i) \<noteq> None)"
  using map_of_eq_None_iff [of ps i] by (cases "map_of ps i") (simp_all add: hands_out_def)





lemma assign_positions:
  "\<exists>n w' r. assign_loop (ready_positions w) (available_positions w) [] w = (w', r)
    \<and> hands_out (take n (zip (ready_positions w) (available_positions w))) w w'
    \<and> (r = Inr (zip (ready_positions w) (available_positions w))
         \<and> take n (zip (ready_positions w) (available_positions w)) = zip (ready_positions w) (available_positions w)
       \<or> (\<exists>e. r = Inl (Client_Error e) \<and> refused (take n (zip (ready_positions w) (available_positions w))) w w' e))"
  using assign_loop_outcome [of "ready_positions w" "available_positions w" w "[]"]
  by (simp add: ready_positions_def available_positions_def distinct_positions set_positions)


text \<open>An assignment made stays: no later scan touches a task that has an agent.\<close>

lemma refresh_keeps_tasks [simp]: "dw_tasks (refresh_agents w) = dw_tasks w"
  by (auto simp: refresh_agents_def split: option.splits sum.splits)

lemma advance_dag_tasks:
  assumes "advance_dag order w = Some (w', r)" and "w_assigned_agent_id (dw_tasks w ! i) \<noteq> None" and "i < length (dw_tasks w)"
  shows "dw_tasks w' ! i = dw_tasks w ! i \<and> length (dw_tasks w') = length (dw_tasks w)"
proof -
  let ?w = "refresh_agents w"
  let ?ps = "zip (ready_positions ?w) (available_positions ?w)"
  consider "w' = w" | "assign_loop (ready_positions ?w) (available_positions ?w) [] ?w = (w', r)"
    using assms(1) by (auto simp: advance_dag_def Let_def split: sum.splits option.splits if_splits)
  then show ?thesis
  proof cases
    case 2
    then obtain n where h: "hands_out (take n ?ps) ?w w'" using assign_positions [of ?w] by auto
    have "i \<notin> set (ready_positions ?w)" using assms(2) by (simp add: ready_positions_def set_positions is_ready_def)
    then have "i \<notin> fst ` set (take n ?ps)" by (auto dest!: in_set_takeD dest: set_zip_leftD)
    then show ?thesis using handed_out_task [OF h, of i] assms(3) h by (simp add: hands_out_def)
  qed simp
qed

lemma background_scan_tasks:
  "background_scan_loop waits w = Some w' \<Longrightarrow> w_assigned_agent_id (dw_tasks w ! i) \<noteq> None \<Longrightarrow> i < length (dw_tasks w) \<Longrightarrow>
   dw_tasks w' ! i = dw_tasks w ! i \<and> i \<notin> set (ready_positions w')"
proof (induction waits w rule: background_scan_loop.induct)
  case (2 stopped order waits w)
  show ?case
  proof (cases stopped)
    case False
    then obtain w1 r where adv: "advance_dag order w = Some (w1, r)" and rest: "background_scan_loop waits w1 = Some w'"
      using 2(2) by (auto split: option.splits)
    have "dw_tasks w1 ! i = dw_tasks w ! i" "length (dw_tasks w1) = length (dw_tasks w)"
      using advance_dag_tasks [OF adv] 2(3,4) by auto
    then show ?thesis using 2(1) [OF False adv refl rest] 2(3,4) by simp
  qed (use 2 in \<open>simp add: ready_positions_def set_positions is_ready_def\<close>)
qed (simp add: ready_positions_def set_positions is_ready_def)

section \<open>Properties\<close>

text \<open>
  C18. The search for a cycle is correct whatever the order in which it starts from the tasks: it raises exactly when a
  task names a dependency that is no task, naming both; otherwise it returns, its result is empty exactly when the
  dependencies have no cycle, and a result that is not empty is a closed walk along the dependencies.
\<close>

theorem cycle_search_correct:
  assumes "set order = w_id ` set tasks"
  shows "case find_cycle_path order tasks of
      Inl e \<Rightarrow> \<exists>t dep. e = Unknown_Dependency dep (w_id t) \<and> t \<in> set tasks \<and> dep \<in> set (w_dependencies t) \<and> dep \<notin> w_id ` set tasks
    | Inr r \<Rightarrow> (\<forall>t \<in> set tasks. set (w_dependencies t) \<subseteq> w_id ` set tasks)
        \<and> (\<exists>path. r = Some path \<and> (path = [] \<longleftrightarrow> acyclic (edges (adjacency tasks)))
             \<and> (path \<noteq> [] \<longrightarrow> is_cycle (adjacency tasks) path))"
proof (cases "unknown_dependency tasks")
  case None
  then show ?thesis using search_correct [OF assms None] unknown_dependency_None [of tasks] by (simp add: find_cycle_path_def)
next
  case (Some p)
  obtain dep i where p: "p = (dep, i)" by force
  then show ?thesis using unknown_dependency_Some [of tasks dep i] Some by (auto simp: find_cycle_path_def)
qed

definition sample_walker_task :: "string \<Rightarrow> string list \<Rightarrow> walker_task" where
  "sample_walker_task i deps =
     \<lparr>w_id = i, w_title = ''t'', w_status = ''pending'', w_dependencies = deps, w_assigned_agent_id = None\<rparr>"

definition sample_loop :: "walker_task list" where
  "sample_loop = [sample_walker_task ''a'' [''b''], sample_walker_task ''b'' [''c''], sample_walker_task ''c'' [''a'']]"

theorem cycle_search_correct_witness:
  "set [''a'', ''b'', ''c''] = w_id ` set sample_loop
   \<and> find_cycle_path [''a'', ''b'', ''c''] sample_loop = Inr (Some [''a'', ''b'', ''c'', ''a''])
   \<and> \<not> acyclic (edges (adjacency sample_loop))"
proof -
  have order: "set [''a'', ''b'', ''c''] = w_id ` set sample_loop" by (simp add: sample_loop_def sample_walker_task_def)
  moreover have run: "find_cycle_path [''a'', ''b'', ''c''] sample_loop = Inr (Some [''a'', ''b'', ''c'', ''a''])"
    by code_simp
  ultimately show ?thesis using cycle_search_correct [OF order] by simp
qed



definition sample_walker_agent :: "string \<Rightarrow> walker_agent" where
  "sample_walker_agent i =
     \<lparr>wa_id = i, wa_name = i, wa_host = [], wa_status = ''active'', wa_session_status = ''online'', wa_task_description = [],
      wa_program = [], wa_current_task_id = None\<rparr>"

definition sample_client :: "string option \<Rightarrow> walker_client" where
  "sample_client e = \<lparr>cl_get_agents = None, cl_assign_task = (\<lambda>_ _ _. e)\<rparr>"

definition sample_walker :: "walker_client option \<Rightarrow> walker" where
  "sample_walker cl =
     \<lparr>dw_tasks = [sample_walker_task ''a'' [''b''], sample_walker_task ''b'' []],
      dw_agents = [sample_walker_agent ''x'', sample_walker_agent ''y''], dw_client = cl, dw_calls = []\<rparr>"


text \<open>
  A task whose assignment the client refused is lost to the walker: it stays marked with the agent it never
  reached and pending, and no later scan, however many there are, hands it out again.
\<close>

lemma refused_task_is_stuck:
  assumes "set order = w_id ` set (dw_tasks w)" and "advance_dag order w = Some (w', Inl (Client_Error e))"
  shows "\<exists>i < length (dw_tasks w). i \<in> set (ready_positions w) \<and> w_assigned_agent_id (dw_tasks w' ! i) \<noteq> None
    \<and> (\<forall>waits w''. background_scan_loop waits w' = Some w'' \<longrightarrow>
         dw_tasks w'' ! i = dw_tasks w' ! i \<and> w_status (dw_tasks w'' ! i) = ''pending'' \<and> i \<notin> set (ready_positions w''))"
proof -
  let ?w = "refresh_agents w"
  let ?ps = "zip (ready_positions ?w) (available_positions ?w)"
  have "assign_loop (ready_positions ?w) (available_positions ?w) [] ?w = (w', Inl (Client_Error e))"
    using assms(2) by (auto simp: advance_dag_def find_cycle_path_def Let_def split: sum.splits option.splits if_splits)
  then obtain n where out: "hands_out (take n ?ps) ?w w'" and ref: "refused (take n ?ps) ?w w' e"
    using assign_positions [of ?w] by auto
  obtain i j where ij: "(i, j) \<in> set (take n ?ps)" using ref by (metis last_in_set refused_def surj_pair)
  then have "i \<in> set (ready_positions ?w)" by (auto dest!: in_set_takeD dest: set_zip_leftD)
  then have ready: "i \<in> set (ready_positions w)" by (simp add: ready_positions_def)
  then have i: "i < length (dw_tasks w)" "w_status (dw_tasks w ! i) = ''pending''"
    by (simp_all add: ready_positions_def set_positions is_ready_def)
  have "i \<in> fst ` set (take n ?ps)" using ij by force
  then have mark: "w_assigned_agent_id (dw_tasks w' ! i) \<noteq> None" "w_status (dw_tasks w' ! i) = ''pending''"
    using handed_out_task [OF out, of i] i by auto
  have "i < length (dw_tasks w')" using out i(1) by (simp add: hands_out_def)
  then show ?thesis using background_scan_tasks [of _ w' _ i] ready i(1) mark by auto
qed

lemma refused_task_is_stuck_witness:
  "set [''b'', ''a''] = w_id ` set (dw_tasks (sample_walker (Some (sample_client (Some ''timeout'')))))
   \<and> (\<exists>w'. advance_dag [''b'', ''a''] (sample_walker (Some (sample_client (Some ''timeout'')))) = Some (w', Inl (Client_Error ''timeout''))
        \<and> (\<exists>i. w_assigned_agent_id (dw_tasks w' ! i) \<noteq> None))"
proof -
  let ?w = "sample_walker (Some (sample_client (Some ''timeout'')))"
  have order: "set [''b'', ''a''] = w_id ` set (dw_tasks ?w)" by (auto simp: sample_walker_def sample_walker_task_def)
  have "map_option snd (advance_dag [''b'', ''a''] ?w) = Some (Inl (Client_Error ''timeout''))"
    by code_simp
  then obtain w' where w': "advance_dag [''b'', ''a''] ?w = Some (w', Inl (Client_Error ''timeout''))" by auto
  then show ?thesis using refused_task_is_stuck [OF order w'] order by blast
qed

end
