(* ===== verification/Task_Claimer.thy ===== *)
theory Task_Claimer
  imports Json "HOL-Library.AList"
begin

text \<open>
  The per-team guard of the orchestration daemon (\<open>agamemnon/src/agamemnon/orchestration/task_claimer.py\<close>). An
  asynchronous call is a run: its team and the point where it is suspended. The event loop resumes one run at a time, and
  a run keeps the loop until its next suspension, so a resumption is one step; \<open>resume\<close> is that step, with what the
  awaited call answered as its argument. Between two resumptions any other run, clean-up or new call may come. The
  callables \<open>get_tasks\<close> and \<open>claim_task\<close> are the caller's: their answers are the arguments of the steps.
\<close>

section \<open>Runs\<close>

datatype run_phase =
    Scheduled
  | Waiting
  | Fetching
  | Claiming "json list" json "json list"
  | Skipped
  | Finished "json list"
  | Failed
  | Cancelled

record claimer =
  tc_locks :: "string list"
  tc_held :: "string set"
  tc_advancing :: "string set"
  tc_in_flight :: "nat set"
  tc_coalesced :: "(string \<times> nat) list"
  tc_runs :: "(string \<times> run_phase) list"

definition new_claimer :: claimer where
  "new_claimer =
     \<lparr>tc_locks = [], tc_held = {}, tc_advancing = {}, tc_in_flight = {}, tc_coalesced = [], tc_runs = []\<rparr>"

fun has_ended :: "run_phase \<Rightarrow> bool" where
  "has_ended Skipped = True"
| "has_ended (Finished claimed) = True"
| "has_ended Failed = True"
| "has_ended Cancelled = True"
| "has_ended _ = False"

text \<open>A run in the protected block.\<close>

fun is_inside :: "run_phase \<Rightarrow> bool" where
  "is_inside Fetching = True"
| "is_inside (Claiming claimed i tasks) = True"
| "is_inside _ = False"

definition in_flight_count :: "claimer \<Rightarrow> nat" where
  "in_flight_count s = card (tc_in_flight s)"

definition get_coalesced_count :: "string \<Rightarrow> claimer \<Rightarrow> nat" where
  "get_coalesced_count team_id s = (case map_of (tc_coalesced s) team_id of None \<Rightarrow> 0 | Some n \<Rightarrow> n)"

section \<open>Operations\<close>

definition get_team_lock :: "string \<Rightarrow> claimer \<Rightarrow> claimer" where
  "get_team_lock team_id s = (if team_id \<in> set (tc_locks s) then s else s\<lparr>tc_locks := tc_locks s @ [team_id]\<rparr>)"

definition cleanup_idle_teams :: "claimer \<Rightarrow> string list \<times> claimer" where
  "cleanup_idle_teams s =
     (let idle_teams = filter (\<lambda>t. t \<notin> tc_advancing s) (tc_locks s)
      in (idle_teams, s\<lparr>tc_locks := filter (\<lambda>t. t \<notin> set idle_teams) (tc_locks s)\<rparr>))"

definition set_phase :: "nat \<Rightarrow> run_phase \<Rightarrow> claimer \<Rightarrow> claimer" where
  "set_phase k ph s = s\<lparr>tc_runs := (tc_runs s)[k := (fst (tc_runs s ! k), ph)]\<rparr>"

text \<open>Leaving the protected block: the lock is released, then the team leaves the set.\<close>

definition leave :: "nat \<Rightarrow> run_phase \<Rightarrow> claimer \<Rightarrow> claimer" where
  "leave k ph s =
     (let team_id = fst (tc_runs s ! k)
      in set_phase k ph (s\<lparr>tc_held := tc_held s - {team_id}, tc_advancing := tc_advancing s - {team_id}\<rparr>))"

text \<open>The start of a call, up to the first suspension.\<close>

definition begin_advance :: "nat \<Rightarrow> claimer \<Rightarrow> claimer" where
  "begin_advance k s =
     (let team_id = fst (tc_runs s ! k) in
      if team_id \<in> tc_advancing s then
        set_phase k Skipped (s\<lparr>tc_coalesced := AList.update team_id (get_coalesced_count team_id s + 1) (tc_coalesced s)\<rparr>)
      else
        (let s1 = get_team_lock team_id (s\<lparr>tc_advancing := insert team_id (tc_advancing s)\<rparr>)
         in if team_id \<in> tc_held s1 then set_phase k Waiting s1
            else set_phase k Fetching (s1\<lparr>tc_held := insert team_id (tc_held s1)\<rparr>)))"

text \<open>The loop over the fetched tasks, up to the next call of \<open>claim_task\<close>.\<close>

definition claim_next :: "nat \<Rightarrow> json list \<Rightarrow> json list \<Rightarrow> claimer \<Rightarrow> claimer" where
  "claim_next k claimed tasks s =
     (case tasks of
        [] \<Rightarrow> leave k (Finished claimed) s
      | task # rest \<Rightarrow>
          (case jlookup task ''id'' of
             None \<Rightarrow> leave k Failed s
           | Some task_id \<Rightarrow> set_phase k (Claiming claimed task_id rest) s))"

datatype wake =
    Started
  | Acquired
  | Tasks "json list"
  | Claim bool
  | Raised

fun resume :: "nat \<Rightarrow> wake \<Rightarrow> claimer \<Rightarrow> claimer option" where
  "resume k wk s =
     (if \<not> k < length (tc_runs s) then None
      else case (snd (tc_runs s ! k), wk) of
        (Scheduled, Started) \<Rightarrow> Some (begin_advance k s)
      | (Waiting, Acquired) \<Rightarrow>
          (let team_id = fst (tc_runs s ! k)
           in if team_id \<in> tc_held s then None
              else Some (set_phase k Fetching (s\<lparr>tc_held := insert team_id (tc_held s)\<rparr>)))
      | (Fetching, Tasks tasks) \<Rightarrow> Some (claim_next k [] tasks s)
      | (Fetching, Raised) \<Rightarrow> Some (leave k Failed s)
      | (Claiming claimed task_id rest, Claim granted) \<Rightarrow>
          Some (claim_next k (if granted then claimed @ [task_id] else claimed) rest s)
      | (Claiming claimed task_id rest, Raised) \<Rightarrow> Some (leave k Failed s)
      | _ \<Rightarrow> None)"

definition advance_dag_tracked :: "string \<Rightarrow> claimer \<Rightarrow> claimer" where
  "advance_dag_tracked team_id s =
     s\<lparr>tc_runs := tc_runs s @ [(team_id, Scheduled)], tc_in_flight := insert (length (tc_runs s)) (tc_in_flight s)\<rparr>"

definition done_callback :: "nat \<Rightarrow> claimer \<Rightarrow> claimer option" where
  "done_callback k s =
     (if k < length (tc_runs s) \<and> has_ended (snd (tc_runs s ! k)) then Some (s\<lparr>tc_in_flight := tc_in_flight s - {k}\<rparr>)
      else None)"

definition startup_scan :: "string list \<Rightarrow> claimer \<Rightarrow> claimer" where
  "startup_scan team_ids s = fold advance_dag_tracked team_ids s"

text \<open>Cancellation raises at the suspension; a run that has not started never does.\<close>

definition cancel_run :: "nat \<Rightarrow> claimer \<Rightarrow> claimer" where
  "cancel_run k s =
     (case snd (tc_runs s ! k) of
        Scheduled \<Rightarrow> set_phase k Cancelled s
      | Waiting \<Rightarrow> set_phase k Cancelled (s\<lparr>tc_advancing := tc_advancing s - {fst (tc_runs s ! k)}\<rparr>)
      | Fetching \<Rightarrow> leave k Cancelled s
      | Claiming claimed task_id rest \<Rightarrow> leave k Cancelled s
      | _ \<Rightarrow> s)"

text \<open>\<open>drain\<close>: \<open>during\<close> is what the event loop does to the claimer until all tracked runs are done or the time is over; on
a timeout \<open>wait_for\<close> cancels the runs it gathered.\<close>

definition settled :: "nat set \<Rightarrow> claimer \<Rightarrow> bool" where
  "settled ks s \<longleftrightarrow> (\<forall>k \<in> ks. has_ended (snd (tc_runs s ! k)))"

definition claimer_drain :: "(claimer \<Rightarrow> claimer) \<Rightarrow> claimer \<Rightarrow> bool \<times> claimer" where
  "claimer_drain during s =
     (if tc_in_flight s = {} then (True, s)
      else
        (let gathered = tc_in_flight s; s1 = during s in
         if settled gathered s1 then (True, s1)
         else (False, fold cancel_run (sorted_list_of_set gathered) s1)))"

section \<open>The steps of the event loop\<close>

inductive claimer_step :: "claimer \<Rightarrow> claimer \<Rightarrow> bool" where
  track: "claimer_step s (advance_dag_tracked team_id s)"
| resumed: "resume k wk s = Some s' \<Longrightarrow> claimer_step s s'"
| callback: "done_callback k s = Some s' \<Longrightarrow> claimer_step s s'"
| cleanup: "claimer_step s (snd (cleanup_idle_teams s))"
| cancel: "k < length (tc_runs s) \<Longrightarrow> claimer_step s (cancel_run k s)"

inductive_cases claimer_stepE: "claimer_step s s'"

abbreviation claimer_reach :: "claimer \<Rightarrow> claimer \<Rightarrow> bool" where
  "claimer_reach \<equiv> claimer_step\<^sup>*\<^sup>*"

section \<open>The guard\<close>

text \<open>The teams that are advancing are those of the runs inside, each of one run only; the locks held are theirs, so no
run ever waits for a lock; every lock held is known; the runs in flight include all that have not ended.\<close>

definition inside_teams :: "claimer \<Rightarrow> string list" where
  "inside_teams s = map fst (filter (\<lambda>r. is_inside (snd r)) (tc_runs s))"

definition guarded :: "claimer \<Rightarrow> bool" where
  "guarded s \<longleftrightarrow>
     distinct (inside_teams s) \<and> tc_advancing s = set (inside_teams s) \<and> tc_held s = set (inside_teams s)
     \<and> set (inside_teams s) \<subseteq> set (tc_locks s)
     \<and> Waiting \<notin> snd ` set (tc_runs s)
     \<and> tc_in_flight s \<subseteq> {..<length (tc_runs s)}
     \<and> (\<forall>k < length (tc_runs s). has_ended (snd (tc_runs s ! k)) \<or> k \<in> tc_in_flight s)"


lemma set_phase_simps [simp]:
  "tc_locks (set_phase k ph s) = tc_locks s" "tc_held (set_phase k ph s) = tc_held s"
  "tc_advancing (set_phase k ph s) = tc_advancing s" "tc_in_flight (set_phase k ph s) = tc_in_flight s"
  "tc_coalesced (set_phase k ph s) = tc_coalesced s" "length (tc_runs (set_phase k ph s)) = length (tc_runs s)"
  by (simp_all add: set_phase_def)

lemma set_phase_teams [simp]: "map fst (tc_runs (set_phase k ph s)) = map fst (tc_runs s)"
  by (cases "k < length (tc_runs s)") (simp_all add: set_phase_def map_update list_update_same_conv list_update_beyond)

lemma inside_teams_cong: "tc_runs s = tc_runs s' \<Longrightarrow> inside_teams s = inside_teams s'"
  by (simp add: inside_teams_def)

lemma inside_split:
  assumes "k < length (tc_runs s)"
  obtains xs ys where "inside_teams s = xs @ (if is_inside (snd (tc_runs s ! k)) then [fst (tc_runs s ! k)] else []) @ ys"
    and "\<And>ph s'. tc_runs s' = tc_runs (set_phase k ph s) \<Longrightarrow>
      inside_teams s' = xs @ (if is_inside ph then [fst (tc_runs s ! k)] else []) @ ys"
proof -
  let ?in = "\<lambda>rs. map fst (filter (\<lambda>r. is_inside (snd r)) rs)"
  let ?xs = "?in (take k (tc_runs s))" and ?ys = "?in (drop (Suc k) (tc_runs s))"
  have old: "tc_runs s = take k (tc_runs s) @ tc_runs s ! k # drop (Suc k) (tc_runs s)"
    using assms by (rule id_take_nth_drop)
  have upd: "tc_runs (set_phase k ph s) = take k (tc_runs s) @ (fst (tc_runs s ! k), ph) # drop (Suc k) (tc_runs s)" for ph
    using assms by (simp add: set_phase_def upd_conv_take_nth_drop)
  show thesis
  proof (rule that [of ?xs ?ys])
    show "inside_teams s = ?xs @ (if is_inside (snd (tc_runs s ! k)) then [fst (tc_runs s ! k)] else []) @ ?ys"
      unfolding inside_teams_def by (subst (1) old) simp
    show "inside_teams s' = ?xs @ (if is_inside ph then [fst (tc_runs s ! k)] else []) @ ?ys"
      if "tc_runs s' = tc_runs (set_phase k ph s)" for ph s'
      unfolding inside_teams_def that upd by simp
  qed
qed

text \<open>A change of one run, by whether it is inside before and after.\<close>

lemma phase_runs:
  assumes "guarded s" and "k < length (tc_runs s)" and "tc_runs s' = tc_runs (set_phase k ph s)" and "ph \<noteq> Waiting"
    and "tc_in_flight s' = tc_in_flight s" and "\<not> has_ended (snd (tc_runs s ! k))"
  shows "Waiting \<notin> snd ` set (tc_runs s') \<and> tc_in_flight s' \<subseteq> {..<length (tc_runs s')}
    \<and> (\<forall>j < length (tc_runs s'). has_ended (snd (tc_runs s' ! j)) \<or> j \<in> tc_in_flight s')"
proof -
  have runs: "tc_runs s' = (tc_runs s)[k := (fst (tc_runs s ! k), ph)]" using assms(3) by (simp add: set_phase_def)
  have "snd ` set (tc_runs s') \<subseteq> insert ph (snd ` set (tc_runs s))"
    unfolding runs using set_update_subset_insert by fastforce
  moreover have "has_ended (snd (tc_runs s' ! j)) \<or> j \<in> tc_in_flight s'" if "j < length (tc_runs s')" for j
    using that assms(1,2,4-6) unfolding runs by (cases "j = k") (auto simp: guarded_def)
  ultimately show ?thesis using assms(1,2,4-6) by (auto simp: guarded_def runs)
qed

lemma guarded_move:
  assumes g: "guarded s" and k: "k < length (tc_runs s)" and runs: "tc_runs s' = tc_runs (set_phase k ph s)"
    and old: "\<not> has_ended (snd (tc_runs s ! k))" and ph: "ph \<noteq> Waiting"
    and same: "tc_in_flight s' = tc_in_flight s" "set (tc_locks s) \<subseteq> set (tc_locks s')"
    and change: "is_inside (snd (tc_runs s ! k)) = is_inside ph \<and> tc_advancing s' = tc_advancing s \<and> tc_held s' = tc_held s
      \<or> is_inside ph \<and> \<not> is_inside (snd (tc_runs s ! k)) \<and> fst (tc_runs s ! k) \<notin> tc_advancing s
          \<and> fst (tc_runs s ! k) \<in> set (tc_locks s')
          \<and> tc_advancing s' = insert (fst (tc_runs s ! k)) (tc_advancing s) \<and> tc_held s' = insert (fst (tc_runs s ! k)) (tc_held s)
      \<or> \<not> is_inside ph \<and> is_inside (snd (tc_runs s ! k))
          \<and> tc_advancing s' = tc_advancing s - {fst (tc_runs s ! k)} \<and> tc_held s' = tc_held s - {fst (tc_runs s ! k)}"
  shows "guarded s'"
proof -
  obtain xs ys where before: "inside_teams s = xs @ (if is_inside (snd (tc_runs s ! k)) then [fst (tc_runs s ! k)] else []) @ ys"
      and after: "inside_teams s' = xs @ (if is_inside ph then [fst (tc_runs s ! k)] else []) @ ys"
    using inside_split [OF k] runs by metis
  have gs: "distinct (inside_teams s)" "tc_advancing s = set (inside_teams s)" "tc_held s = set (inside_teams s)"
      "set (inside_teams s) \<subseteq> set (tc_locks s)" using g by (simp_all add: guarded_def)
  have "distinct (inside_teams s') \<and> tc_advancing s' = set (inside_teams s') \<and> tc_held s' = set (inside_teams s')
      \<and> set (inside_teams s') \<subseteq> set (tc_locks s')"
    using change
  proof (elim disjE conjE)
    assume "is_inside (snd (tc_runs s ! k)) = is_inside ph" "tc_advancing s' = tc_advancing s" "tc_held s' = tc_held s"
    moreover from this(1) have "inside_teams s' = inside_teams s" using before after by simp
    ultimately show ?thesis using gs same(2) by auto
  next
    assume "is_inside ph" "\<not> is_inside (snd (tc_runs s ! k))" "fst (tc_runs s ! k) \<notin> tc_advancing s"
      "fst (tc_runs s ! k) \<in> set (tc_locks s')" "tc_advancing s' = insert (fst (tc_runs s ! k)) (tc_advancing s)"
      "tc_held s' = insert (fst (tc_runs s ! k)) (tc_held s)"
    then show ?thesis using gs same(2) before after by auto
  next
    assume "\<not> is_inside ph" "is_inside (snd (tc_runs s ! k))" "tc_advancing s' = tc_advancing s - {fst (tc_runs s ! k)}"
      "tc_held s' = tc_held s - {fst (tc_runs s ! k)}"
    then show ?thesis using gs same(2) before after by auto
  qed
  then show ?thesis using phase_runs [OF g k runs ph same(1) old] by (simp add: guarded_def)
qed

lemma guarded_leave:
  assumes "guarded s" and "k < length (tc_runs s)" and "is_inside (snd (tc_runs s ! k))" and "has_ended ph"
  shows "guarded (leave k ph s)"
proof (rule guarded_move [OF assms(1,2), of _ ph])
  show "\<not> has_ended (snd (tc_runs s ! k))" using assms(3) by (cases "snd (tc_runs s ! k)") auto
  show "ph \<noteq> Waiting" using assms(4) by auto
qed (use assms(3,4) in \<open>cases ph; auto simp: leave_def Let_def set_phase_def\<close>)+


lemma guarded_begin:
  assumes g: "guarded s" and k: "k < length (tc_runs s)" and ph: "snd (tc_runs s ! k) = Scheduled"
  shows "guarded (begin_advance k s)"
proof (cases "fst (tc_runs s ! k) \<in> tc_advancing s")
  case True
  show ?thesis
    by (rule guarded_move [OF g k, of _ Skipped]) (use ph True in \<open>simp_all add: begin_advance_def Let_def set_phase_def\<close>)
next
  case False
  then have free: "fst (tc_runs s ! k) \<notin> tc_held s" using g by (simp add: guarded_def)
  show ?thesis
    by (rule guarded_move [OF g k, of _ Fetching])
      (use ph False free in \<open>auto simp: begin_advance_def get_team_lock_def Let_def set_phase_def\<close>)
qed

lemma guarded_claim_next:
  assumes g: "guarded s" and k: "k < length (tc_runs s)" and ph: "is_inside (snd (tc_runs s ! k))"
  shows "guarded (claim_next k claimed tasks s)"
proof -
  have live: "\<not> has_ended (snd (tc_runs s ! k))" using ph by (cases "snd (tc_runs s ! k)") auto
  have "guarded (set_phase k (Claiming claimed i rest) s)" for i rest
    by (rule guarded_move [OF g k refl live]) (use ph in simp_all)
  then show ?thesis
    using guarded_leave [OF g k ph] by (simp add: claim_next_def split: list.split option.split)
qed

lemma never_waits: "guarded s \<Longrightarrow> k < length (tc_runs s) \<Longrightarrow> snd (tc_runs s ! k) \<noteq> Waiting"
  unfolding guarded_def by (metis image_eqI nth_mem)

lemma guarded_resume:
  assumes g: "guarded s" and r: "resume k wk s = Some s'"
  shows "guarded s'"
proof -
  have k: "k < length (tc_runs s)" using r by (auto split: if_splits)
  show ?thesis
    using r k never_waits [OF g k] guarded_begin [OF g k] guarded_claim_next [OF g k] guarded_leave [OF g k, of Failed]
    by (cases "snd (tc_runs s ! k)"; cases wk) (simp_all, blast+)
qed

lemma guarded_cancel:
  assumes g: "guarded s" and k: "k < length (tc_runs s)"
  shows "guarded (cancel_run k s)"
proof (cases "snd (tc_runs s ! k)")
  case Scheduled
  then have "guarded (set_phase k Cancelled s)" by (intro guarded_move [OF g k refl]) simp_all
  then show ?thesis using Scheduled by (simp add: cancel_run_def)
next
  case Waiting
  then show ?thesis using never_waits [OF g k] by simp
qed (use guarded_leave [OF g k] g in \<open>simp_all add: cancel_run_def\<close>)

lemma guarded_track: "guarded s \<Longrightarrow> guarded (advance_dag_tracked team_id s)"
proof -
  let ?s = "advance_dag_tracked team_id s"
  assume g: "guarded s"
  have "inside_teams ?s = inside_teams s" by (simp add: inside_teams_def advance_dag_tracked_def)
  moreover have "has_ended (snd (tc_runs ?s ! k)) \<or> k \<in> tc_in_flight ?s" if "k < length (tc_runs ?s)" for k
    using that g by (cases "k = length (tc_runs s)") (auto simp: guarded_def advance_dag_tracked_def nth_append)
  ultimately show "guarded ?s" using g unfolding guarded_def by (auto simp: advance_dag_tracked_def)
qed

lemma guarded_new: "guarded new_claimer"
  by (simp add: guarded_def new_claimer_def inside_teams_def)

lemma guarded_step: "claimer_step s s' \<Longrightarrow> guarded s \<Longrightarrow> guarded s'"
proof (induction rule: claimer_step.induct)
  case (callback k s s')
  then have s': "s' = s\<lparr>tc_in_flight := tc_in_flight s - {k}\<rparr>" and k: "has_ended (snd (tc_runs s ! k))"
    by (auto simp: done_callback_def split: if_splits)
  have "inside_teams s' = inside_teams s" by (rule inside_teams_cong) (simp add: s')
  then show ?case using callback.prems k unfolding s' guarded_def by auto
next
  case (cleanup s)
  let ?s = "snd (cleanup_idle_teams s)"
  have "inside_teams ?s = inside_teams s" by (rule inside_teams_cong) (simp add: cleanup_idle_teams_def Let_def)
  moreover have "set (tc_locks ?s) = set (tc_locks s) \<inter> tc_advancing s" by (auto simp: cleanup_idle_teams_def Let_def)
  ultimately show ?case using cleanup unfolding guarded_def by (simp add: cleanup_idle_teams_def Let_def)
qed (simp_all add: guarded_track guarded_resume guarded_cancel del: resume.simps)

lemma guarded_reach: "claimer_reach s s' \<Longrightarrow> guarded s \<Longrightarrow> guarded s'"
  by (induction rule: rtranclp_induct) (auto intro: guarded_step)


section \<open>Counting the skipped calls\<close>

definition skipped :: "string \<Rightarrow> claimer \<Rightarrow> nat" where
  "skipped team_id s = length (filter (\<lambda>r. r = (team_id, Skipped)) (tc_runs s))"

definition counted :: "claimer \<Rightarrow> bool" where
  "counted s \<longleftrightarrow> (\<forall>team_id. get_coalesced_count team_id s = skipped team_id s)"

lemma filter_update_length:
  assumes "k < length xs" and "\<not> P (xs ! k)"
  shows "length (filter P (xs[k := y])) = length (filter P xs) + (if P y then 1 else 0)"
proof -
  have "xs = take k xs @ xs ! k # drop (Suc k) xs" using assms(1) by (rule id_take_nth_drop)
  then have "length (filter P xs) = length (filter P (take k xs)) + length (filter P (drop (Suc k) xs))"
    using assms(2) by (metis (no_types, lifting) filter.simps(2) filter_append length_append)
  then show ?thesis using assms(1) by (simp add: upd_conv_take_nth_drop)
qed

lemma skipped_phase:
  assumes "k < length (tc_runs s)" and "\<not> has_ended (snd (tc_runs s ! k))" and "tc_runs s' = tc_runs (set_phase k ph s)"
  shows "skipped team_id s' = skipped team_id s + (if ph = Skipped \<and> fst (tc_runs s ! k) = team_id then 1 else 0)"
proof -
  have "tc_runs s ! k \<noteq> (team_id, Skipped)" using assms(2) by auto
  then show ?thesis
    unfolding skipped_def assms(3) set_phase_def using assms(1)
    by (simp add: filter_update_length)
qed

lemma counted_phase:
  assumes "counted s" and "k < length (tc_runs s)" and "\<not> has_ended (snd (tc_runs s ! k))"
    and "tc_runs s' = tc_runs (set_phase k ph s)" and "tc_coalesced s' = tc_coalesced s" and "ph \<noteq> Skipped"
  shows "counted s'"
  using assms skipped_phase [OF assms(2-4)] by (simp add: counted_def get_coalesced_count_def)

lemma inside_live: "is_inside ph \<Longrightarrow> \<not> has_ended ph"
  by (cases ph) auto

lemma counted_leave:
  assumes "counted s" and "k < length (tc_runs s)" and "is_inside (snd (tc_runs s ! k))" and "ph \<noteq> Skipped"
  shows "counted (leave k ph s)"
  by (rule counted_phase [OF assms(1,2) inside_live [OF assms(3)], of _ ph])
    (use assms(4) in \<open>simp_all add: leave_def Let_def set_phase_def\<close>)

lemma counted_claim_next:
  assumes "counted s" and "k < length (tc_runs s)" and "is_inside (snd (tc_runs s ! k))"
  shows "counted (claim_next k claimed tasks s)"
proof -
  have "counted (set_phase k (Claiming claimed i rest) s)" for i rest
    by (rule counted_phase [OF assms(1,2) inside_live [OF assms(3)] refl]) simp_all
  then show ?thesis
    using counted_leave [OF assms] by (simp add: claim_next_def split: list.split option.split)
qed

lemma counted_begin:
  assumes c: "counted s" and k: "k < length (tc_runs s)" and ph: "snd (tc_runs s ! k) = Scheduled"
  shows "counted (begin_advance k s)"
proof (cases "fst (tc_runs s ! k) \<in> tc_advancing s")
  case True
  have "skipped team_id (begin_advance k s) = skipped team_id s + (if fst (tc_runs s ! k) = team_id then 1 else 0)" for team_id
    using skipped_phase [OF k, of "begin_advance k s" Skipped] ph True by (simp add: begin_advance_def Let_def set_phase_def)
  then show ?thesis
    using c True by (simp add: counted_def begin_advance_def get_coalesced_count_def Let_def update_conv')
next
  case False
  have ok: "counted s'" if "tc_runs s' = tc_runs (set_phase k ph' s)" "tc_coalesced s' = tc_coalesced s" "ph' \<noteq> Skipped" for s' ph'
    by (rule counted_phase [OF c k _ that]) (simp add: ph)
  let ?ph = "if fst (tc_runs s ! k) \<in> tc_held s then Waiting else Fetching"
  show ?thesis
    by (rule ok [of _ ?ph]) (use False in \<open>simp_all add: begin_advance_def Let_def get_team_lock_def set_phase_def\<close>)
qed

lemma counted_step: "claimer_step s s' \<Longrightarrow> guarded s \<Longrightarrow> counted s \<Longrightarrow> counted s'"
proof (induction rule: claimer_step.induct)
  case (track s team_id)
  then show ?case by (simp add: counted_def skipped_def get_coalesced_count_def advance_dag_tracked_def)
next
  case (resumed k wk s s')
  have k: "k < length (tc_runs s)" using resumed(1) by (auto split: if_splits)
  show ?case
    using resumed(1) k never_waits [OF resumed(2) k] counted_begin [OF resumed(3) k] counted_claim_next [OF resumed(3) k]
      counted_leave [OF resumed(3) k, of Failed]
    by (cases "snd (tc_runs s ! k)"; cases wk) (simp_all, blast+)
next
  case (callback k s s')
  then have "s' = s\<lparr>tc_in_flight := tc_in_flight s - {k}\<rparr>" by (simp add: done_callback_def split: if_splits)
  then show ?case using callback(3) by (simp add: counted_def skipped_def get_coalesced_count_def)
next
  case (cleanup s)
  then show ?case by (simp add: counted_def skipped_def get_coalesced_count_def cleanup_idle_teams_def Let_def)
next
  case (cancel k s)
  have sch: "counted (set_phase k Cancelled s)" if "snd (tc_runs s ! k) = Scheduled"
    by (rule counted_phase [OF cancel(3,1) _ refl]) (simp_all add: that)
  show ?case
    using sch cancel(3) never_waits [OF cancel(2,1)] counted_leave [OF cancel(3,1), of Cancelled]
    by (cases "snd (tc_runs s ! k)") (simp_all add: cancel_run_def)
qed

lemma counted_reach: "claimer_reach s s' \<Longrightarrow> guarded s \<Longrightarrow> counted s \<Longrightarrow> counted s'"
  by (induction rule: rtranclp_induct) (auto intro: counted_step guarded_reach)


lemma distinct_map_filter_nth:
  "distinct (map f (filter P xs)) \<Longrightarrow> i < length xs \<Longrightarrow> j < length xs \<Longrightarrow> i \<noteq> j \<Longrightarrow> P (xs ! i) \<Longrightarrow> P (xs ! j) \<Longrightarrow>
   f (xs ! i) \<noteq> f (xs ! j)"
proof (induction xs arbitrary: i j)
  case (Cons x xs)
  have new: "f x \<noteq> f (xs ! m)" if "P x" "m < length xs" "P (xs ! m)" for m
    using Cons.prems(1) that nth_mem [of m xs] by force
  show ?case
    using Cons new by (cases i; cases j) (auto split: if_splits dest!: sym [of "f (xs ! _)" "f x"])
qed simp

section \<open>Draining\<close>

lemma cancel_run_shape:
  "\<exists>ph. tc_runs (cancel_run k s) = (tc_runs s)[k := (fst (tc_runs s ! k), ph)] \<and> has_ended ph"
proof (cases "has_ended (snd (tc_runs s ! k))")
  case True
  then have "cancel_run k s = s" by (cases "snd (tc_runs s ! k)") (simp_all add: cancel_run_def)
  then show ?thesis using True by (intro exI [of _ "snd (tc_runs s ! k)"]) simp
next
  case False
  then have "tc_runs (cancel_run k s) = (tc_runs s)[k := (fst (tc_runs s ! k), Cancelled)]"
    by (cases "snd (tc_runs s ! k)") (simp_all add: cancel_run_def leave_def set_phase_def Let_def)
  then show ?thesis by (intro exI [of _ Cancelled]) simp
qed

lemma cancel_run_keeps:
  "length (tc_runs (cancel_run k s)) = length (tc_runs s) \<and>
   (has_ended (snd (tc_runs s ! j)) \<longrightarrow> has_ended (snd (tc_runs (cancel_run k s) ! j)))"
  using cancel_run_shape [of k s] by (cases "k = j"; cases "k < length (tc_runs s)") (auto simp: list_update_beyond)

lemma cancel_run_ends: "k < length (tc_runs s) \<Longrightarrow> has_ended (snd (tc_runs (cancel_run k s) ! k))"
  using cancel_run_shape [of k s] by auto

lemma cancel_all:
  "\<forall>k \<in> set ks. k < length (tc_runs s) \<Longrightarrow>
   claimer_reach s (fold cancel_run ks s)
   \<and> (\<forall>j. j \<in> set ks \<or> has_ended (snd (tc_runs s ! j)) \<longrightarrow> has_ended (snd (tc_runs (fold cancel_run ks s) ! j)))"
proof (induction ks arbitrary: s)
  case (Cons k ks)
  let ?s = "cancel_run k s"
  have "\<forall>k \<in> set ks. k < length (tc_runs ?s)" using Cons.prems cancel_run_keeps by simp
  note IH = Cons.IH [OF this]
  have "claimer_step s ?s" using Cons.prems by (simp add: claimer_step.cancel)
  then have "claimer_reach s (fold cancel_run (k # ks) s)" using IH by (simp add: converse_rtranclp_into_rtranclp)
  moreover have "has_ended (snd (tc_runs (fold cancel_run (k # ks) s) ! j))"
    if "j \<in> set (k # ks) \<or> has_ended (snd (tc_runs s ! j))" for j
    using that IH cancel_run_ends [of k s] cancel_run_keeps [of k s j] Cons.prems by auto
  ultimately show ?case by blast
qed simp

lemma reach_grows: "claimer_reach s s' \<Longrightarrow> length (tc_runs s) \<le> length (tc_runs s')"
proof (induction rule: rtranclp_induct)
  case (step s1 s2)
  from step(2) have "length (tc_runs s1) \<le> length (tc_runs s2)"
  proof (cases rule: claimer_step.cases)
    case (resumed k wk)
    then show ?thesis
      by (cases "snd (tc_runs s1 ! k)"; cases wk)
        (auto simp: begin_advance_def claim_next_def leave_def get_team_lock_def Let_def split: if_splits list.splits option.splits)
  qed (auto simp: advance_dag_tracked_def done_callback_def cleanup_idle_teams_def Let_def cancel_run_keeps split: if_splits)
  then show ?case using step(3) by simp
qed simp

lemma ended_step:
  assumes "claimer_step s s'" and "k < length (tc_runs s)" and t: "has_ended (snd (tc_runs s ! k))"
  shows "tc_runs s' ! k = tc_runs s ! k"
  using assms(1)
proof (cases rule: claimer_step.cases)
  case (resumed j wk)
  have j: "j \<noteq> k"
  proof
    assume "j = k"
    then show False using resumed t by (cases "snd (tc_runs s ! k)"; cases wk) (auto split: if_splits)
  qed
  show ?thesis
    using resumed j by (cases "snd (tc_runs s ! j)"; cases wk)
      (auto simp: begin_advance_def claim_next_def leave_def get_team_lock_def set_phase_def Let_def
        split: if_splits list.splits option.splits)
next
  case (cancel j)
  show ?thesis
  proof (cases "j = k")
    case True
    then show ?thesis using cancel t by (cases "snd (tc_runs s ! k)") (simp_all add: cancel_run_def)
  next
    case False
    then show ?thesis using cancel cancel_run_shape [of j s] by auto
  qed
qed (use assms(2) in \<open>auto simp: advance_dag_tracked_def done_callback_def cleanup_idle_teams_def Let_def nth_append split: if_splits\<close>)

lemma ended_reach:
  "claimer_reach s s' \<Longrightarrow> k < length (tc_runs s) \<Longrightarrow> has_ended (snd (tc_runs s ! k)) \<Longrightarrow> tc_runs s' ! k = tc_runs s ! k"
proof (induction rule: rtranclp_induct)
  case (step s1 s2)
  then show ?case using ended_step [OF step(2), of k] reach_grows [OF step(1)] by simp
qed simp

lemma cancel_run_teams: "map fst (tc_runs (cancel_run k s)) = map fst (tc_runs s)"
  by (simp add: cancel_run_def leave_def Let_def split: run_phase.split)

lemma resume_teams: "resume k wk s = Some s' \<Longrightarrow> map fst (tc_runs s') = map fst (tc_runs s)"
  by (cases "snd (tc_runs s ! k)"; cases wk)
    (auto simp: begin_advance_def claim_next_def leave_def get_team_lock_def Let_def split: if_splits list.splits option.splits)

lemma cancel_all_teams: "map fst (tc_runs (fold cancel_run ks s)) = map fst (tc_runs s)"
  by (induction ks arbitrary: s) (simp_all add: cancel_run_teams)

lemma drained:
  assumes g: "guarded s" and d: "claimer_reach s (during s)"
  shows "settled (tc_in_flight s) (snd (claimer_drain during s)) \<and> claimer_reach s (snd (claimer_drain during s))
    \<and> map fst (tc_runs (snd (claimer_drain during s))) \<in> {map fst (tc_runs s), map fst (tc_runs (during s))}"
proof -
  have range: "tc_in_flight s \<subseteq> {..<length (tc_runs s)}" using g by (simp add: guarded_def)
  then have fin: "finite (tc_in_flight s)" using finite_subset by blast
  have ks: "\<forall>k \<in> set (sorted_list_of_set (tc_in_flight s)). k < length (tc_runs (during s))"
    using range reach_grows [OF d] fin by fastforce
  have "settled (tc_in_flight s) (fold cancel_run (sorted_list_of_set (tc_in_flight s)) (during s))"
    using cancel_all [OF ks] fin by (simp add: settled_def)
  moreover have "claimer_reach s (fold cancel_run (sorted_list_of_set (tc_in_flight s)) (during s))"
    using cancel_all [OF ks] d by auto
  ultimately show ?thesis using d by (simp add: claimer_drain_def Let_def cancel_all_teams) (simp add: settled_def)
qed

section \<open>The calls seen with the tasks they fetch\<close>





section \<open>Properties\<close>

text \<open>
  C20. Whatever the interleaving of calls, resumptions, failures, cancellations and clean-ups, two runs of one team are
  never in the protected block at once, no run ever waits for a team's lock (the check of the set makes the lock
  redundant), the teams marked as advancing are exactly those with a run inside, so no failure leaves a team blocked, and the
  coalesced count of a team is the number of its calls that were skipped.
\<close>

theorem advances_exclusive:
  assumes "claimer_reach new_claimer s"
  shows "(\<forall>i < length (tc_runs s). \<forall>j < length (tc_runs s). i \<noteq> j \<and> is_inside (snd (tc_runs s ! i)) \<and> is_inside (snd (tc_runs s ! j))
      \<longrightarrow> fst (tc_runs s ! i) \<noteq> fst (tc_runs s ! j))
    \<and> (\<forall>k < length (tc_runs s). snd (tc_runs s ! k) \<noteq> Waiting)
    \<and> (\<forall>team_id. team_id \<in> tc_advancing s \<longleftrightarrow> (\<exists>k < length (tc_runs s). fst (tc_runs s ! k) = team_id \<and> is_inside (snd (tc_runs s ! k))))
    \<and> (\<forall>team_id. get_coalesced_count team_id s = skipped team_id s)"
proof -
  have g: "guarded s" using guarded_reach [OF assms guarded_new] .
  have "counted new_claimer" by (simp add: counted_def skipped_def get_coalesced_count_def new_claimer_def)
  then have c: "counted s" using counted_reach [OF assms guarded_new] by simp
  have "tc_advancing s = {fst r | r. r \<in> set (tc_runs s) \<and> is_inside (snd r)}"
    using g by (auto simp: guarded_def inside_teams_def image_iff)
  then have "team_id \<in> tc_advancing s \<longleftrightarrow> (\<exists>k < length (tc_runs s). fst (tc_runs s ! k) = team_id \<and> is_inside (snd (tc_runs s ! k)))" for team_id
    by (simp only: mem_Collect_eq in_set_conv_nth) blast
  then show ?thesis
    using distinct_map_filter_nth [of fst "\<lambda>r. is_inside (snd r)" "tc_runs s"] g c never_waits [OF g] by (simp add: guarded_def inside_teams_def counted_def)
qed

theorem advances_exclusive_witness:
  "claimer_reach new_claimer (advance_dag_tracked ''t'' new_claimer)
   \<and> get_coalesced_count ''t'' (advance_dag_tracked ''t'' new_claimer) = 0"
proof -
  have r: "claimer_reach new_claimer (advance_dag_tracked ''t'' new_claimer)" by (simp add: claimer_step.track r_into_rtranclp)
  moreover have "skipped ''t'' (advance_dag_tracked ''t'' new_claimer) = 0" by code_simp
  ultimately show ?thesis using advances_exclusive [OF r] by simp
qed


text \<open>
  After \<open>drain\<close> every call that was in flight has ended, and the guard is intact: no team is left marked as
  advancing by a call that was drained. It answers true exactly when they all ended by themselves in time; otherwise
  they are cancelled.
\<close>

lemma drain_settles:
  assumes "claimer_reach new_claimer s" and "claimer_reach s (during s)"
  shows "settled (tc_in_flight s) (snd (claimer_drain during s)) \<and> claimer_reach new_claimer (snd (claimer_drain during s))
    \<and> (fst (claimer_drain during s) \<longleftrightarrow> tc_in_flight s = {} \<or> settled (tc_in_flight s) (during s))"
proof -
  have "settled (tc_in_flight s) (snd (claimer_drain during s))" "claimer_reach s (snd (claimer_drain during s))"
    using drained [of s during] guarded_reach [OF assms(1) guarded_new] assms(2) by auto
  moreover have "fst (claimer_drain during s) \<longleftrightarrow> tc_in_flight s = {} \<or> settled (tc_in_flight s) (during s)"
    by (simp add: claimer_drain_def Let_def)
  ultimately show ?thesis using assms(1) by (simp add: rtranclp_trans)
qed

definition sample_busy :: claimer where
  "sample_busy = begin_advance 0 (advance_dag_tracked ''t'' new_claimer)"

lemma drain_settles_witness:
  "claimer_reach new_claimer sample_busy \<and> tc_in_flight sample_busy = {0}
   \<and> \<not> fst (claimer_drain id sample_busy) \<and> settled {0} (snd (claimer_drain id sample_busy))"
proof -
  have res: "resume 0 Started (advance_dag_tracked ''t'' new_claimer) = Some sample_busy"
    by (simp add: sample_busy_def advance_dag_tracked_def new_claimer_def)
  have r: "claimer_reach new_claimer sample_busy"
    using claimer_step.track claimer_step.resumed [OF res] by (meson rtranclp.simps)
  have fl: "tc_in_flight sample_busy = {0}" "\<not> settled {0} sample_busy" by code_simp+
  show ?thesis using drain_settles [OF r, of id] r fl by simp
qed


end
