(* ===== verification/Event_Listener.thy ===== *)
theory Event_Listener
  imports Task_Claimer Routes
begin

text \<open>
  The event side of the orchestration daemon (\<open>agamemnon/src/agamemnon/orchestration/\<close>): the identifier check of
  \<open>validation.py\<close>, the event schema of \<open>models.py\<close>, the listener of \<open>nats_listener.py\<close>, the settings of \<open>config.py\<close> and the
  shutdown sequence of \<open>daemon.py\<close>. Text is a list of code points below 256. What pydantic makes of a payload, the JSON
  decoder and the float reader are fields of a \<open>listener_env\<close>; the claimer behind the listener is the argument \<open>track\<close>, as
  the protocol class of the source has it.
\<close>

section \<open>Identifiers\<close>

definition py_isspace :: "char \<Rightarrow> bool" where
  "py_isspace c \<longleftrightarrow> 9 \<le> ord_of c \<and> ord_of c \<le> 13 \<or> 28 \<le> ord_of c \<and> ord_of c \<le> 32 \<or> ord_of c = 133 \<or> ord_of c = 160"

definition py_strip :: "string \<Rightarrow> string" where
  "py_strip s = rev (dropWhile py_isspace (rev (dropWhile py_isspace s)))"

datatype id_error =
    Id_Empty string
  | Id_Too_Long string
  | Id_Bad_Char string char
  | Id_Separator string
  | Id_Traversal string

definition MAX_ID_LENGTH :: nat where
  "MAX_ID_LENGTH = 256"

definition validate_id :: "string \<Rightarrow> string \<Rightarrow> id_error + string" where
  "validate_id v field_name =
     (if v = [] \<or> py_strip v = [] then Inl (Id_Empty field_name)
      else if length v > MAX_ID_LENGTH then Inl (Id_Too_Long field_name)
      else case List.find (\<lambda>ch. py_isspace ch \<or> ord_of ch < 32) v of
          Some ch \<Rightarrow> Inl (Id_Bad_Char field_name ch)
        | None \<Rightarrow>
            (if CHR ''/'' \<in> set v \<or> CHR 0x5C \<in> set v then Inl (Id_Separator field_name)
             else if find_sub ''..'' v \<noteq> None then Inl (Id_Traversal field_name)
             else Inr v))"

section \<open>Events\<close>

definition is_set :: "string option \<Rightarrow> bool" where
  "is_set s \<longleftrightarrow> s \<noteq> None \<and> s \<noteq> Some []"

definition resolve_event_status :: "string option \<Rightarrow> (string \<times> json) list option \<Rightarrow> string option \<Rightarrow> string option" where
  "resolve_event_status status data new_status =
     (let r1 = (if \<not> is_set status then
                  (case data of
                     Some (kv # kvs) \<Rightarrow> (case map_of (kv # kvs) ''status'' of Some (JStr s) \<Rightarrow> Some s | _ \<Rightarrow> None)
                   | _ \<Rightarrow> status)
                else status)
      in if \<not> is_set r1 then new_status else r1)"

record nats_event =
  te_status :: "string option"
  te_newStatus :: "string option"
  te_data :: "(string \<times> json) list option"
  te_taskId :: "string option"
  te_teamId :: "string option"
  te_effective_status :: "string option"

definition event_fields :: "string set" where
  "event_fields = {''status'', ''newStatus'', ''data'', ''taskId'', ''teamId'', ''effective_status''}"

definition resolve_effective_status :: "nats_event \<Rightarrow> nats_event" where
  "resolve_effective_status ev =
     ev\<lparr>te_effective_status := resolve_event_status (te_status ev) (te_data ev) (te_newStatus ev)\<rparr>"

text \<open>\<open>le_fields\<close> is the validation of the declared fields, \<open>le_loads\<close> the decoding of a payload, \<open>le_float\<close> the reader of
floats and \<open>le_getenv\<close> the environment.\<close>

record listener_env =
  le_fields :: "json \<Rightarrow> nats_event option"
  le_loads :: "string \<Rightarrow> json option"
  le_float :: "string \<Rightarrow> real option"
  le_getenv :: "string \<Rightarrow> string option"

definition model_validate :: "listener_env \<Rightarrow> json \<Rightarrow> nats_event option" where
  "model_validate env payload = map_option resolve_effective_status (le_fields env payload)"

section \<open>The listener\<close>

datatype event_outcome =
    Dropped_Shutdown
  | Dropped_Invalid_Id id_error
  | Dropped_Invalid_Json
  | Dropped_Invalid_Payload
  | Dispatched "string option"

record listener =
  li_shutting_down :: bool

definition new_listener :: listener where
  "new_listener = \<lparr>li_shutting_down = False\<rparr>"

definition begin_shutdown :: "listener \<Rightarrow> listener" where
  "begin_shutdown l = l\<lparr>li_shutting_down := True\<rparr>"

definition check_ids :: "string \<Rightarrow> string \<Rightarrow> id_error option" where
  "check_ids team_id task_id =
     (case validate_id team_id ''team_id'' of
        Inl e \<Rightarrow> Some e
      | Inr _ \<Rightarrow> (case validate_id task_id ''task_id'' of Inl e \<Rightarrow> Some e | Inr _ \<Rightarrow> None))"

definition on_task_event ::
    "listener_env \<Rightarrow> (string \<Rightarrow> 's \<Rightarrow> 's) \<Rightarrow> listener \<Rightarrow> string \<Rightarrow> string \<Rightarrow> string option \<Rightarrow> 's \<Rightarrow> event_outcome \<times> 's" where
  "on_task_event env track l team_id task_id raw_payload s =
     (if li_shutting_down l then (Dropped_Shutdown, s)
      else case check_ids team_id task_id of
        Some e \<Rightarrow> (Dropped_Invalid_Id e, s)
      | None \<Rightarrow>
          (case raw_payload of
             None \<Rightarrow> (Dispatched None, track team_id s)
           | Some raw \<Rightarrow>
               (case le_loads env raw of
                  None \<Rightarrow> (Dropped_Invalid_Json, s)
                | Some payload \<Rightarrow>
                    (case model_validate env payload of
                       None \<Rightarrow> (Dropped_Invalid_Payload, s)
                     | Some event \<Rightarrow> (Dispatched (te_effective_status event), track team_id s)))))"

fun split_on :: "char \<Rightarrow> string \<Rightarrow> string list" where
  "split_on c [] = [[]]"
| "split_on c (x # xs) =
     (if x = c then [] # split_on c xs
      else case split_on c xs of [] \<Rightarrow> [[x]] | y # ys \<Rightarrow> (x # y) # ys)"

definition SUBJECT_PART_COUNT :: nat where
  "SUBJECT_PART_COUNT = 5"

definition parse_subject :: "string \<Rightarrow> nat + string \<times> string" where
  "parse_subject subject =
     (let parts = split_on (CHR ''.'') subject in
      if length parts \<noteq> SUBJECT_PART_COUNT then Inl (length parts)
      else Inr (parts ! 2, parts ! 3))"

section \<open>Subscribing\<close>

datatype subscribe_answer =
    Subscribe_OK
  | Not_Found
  | No_Servers
  | Auth_Failed
  | Unavailable
  | Other_Error

datatype start_result =
    Subscribed
  | Connection_Error
  | Runtime_Error
  | Other_Raised

text \<open>The loop over the attempts: the answers of the server, the delay before the next attempt, and the delays slept.\<close>

fun start_loop :: "(nat \<Rightarrow> subscribe_answer) \<Rightarrow> nat \<Rightarrow> nat \<Rightarrow> real \<Rightarrow> real list \<Rightarrow> start_result \<times> real list" where
  "start_loop js 0 attempt delay slept = (Runtime_Error, slept)"
| "start_loop js (Suc left) attempt delay slept =
     (case js attempt of
        Subscribe_OK \<Rightarrow> (Subscribed, slept)
      | Not_Found \<Rightarrow>
          (if left > 0 then start_loop js left (attempt + 1) (delay * 2) (slept @ [delay])
           else start_loop js left (attempt + 1) delay slept)
      | No_Servers \<Rightarrow> (Connection_Error, slept)
      | Auth_Failed \<Rightarrow> (Connection_Error, slept)
      | Unavailable \<Rightarrow> (Runtime_Error, slept)
      | Other_Error \<Rightarrow> (Other_Raised, slept))"

definition start_listener :: "(nat \<Rightarrow> subscribe_answer) \<Rightarrow> nat \<Rightarrow> real \<Rightarrow> start_result \<times> real list" where
  "start_listener js max_retries retry_base_delay = start_loop js max_retries 1 retry_base_delay []"

section \<open>Settings\<close>

definition py_upper :: "char \<Rightarrow> char" where
  "py_upper c = (if 97 \<le> ord_of c \<and> ord_of c \<le> 122 then char_of (ord_of c - 32) else c)"

definition VALID_LOG_LEVELS :: "string list" where
  "VALID_LOG_LEVELS = [''DEBUG'', ''INFO'', ''WARNING'', ''ERROR'', ''CRITICAL'']"

text \<open>Upper case of the letters of ASCII is enough: no other code point becomes part of a level's name.\<close>

definition validate_log_level :: "string \<Rightarrow> string option" where
  "validate_log_level v =
     (let normalized = map py_upper (py_strip v)
      in if normalized \<notin> set VALID_LOG_LEVELS then None else Some normalized)"

record settings =
  se_log_level :: string
  se_poll_interval :: real
  se_shutdown_timeout :: real

definition getenv_or :: "listener_env \<Rightarrow> string \<Rightarrow> string \<Rightarrow> string" where
  "getenv_or env name d = (case le_getenv env name of None \<Rightarrow> d | Some v \<Rightarrow> v)"

text \<open>\<open>None\<close> is a \<open>ValueError\<close>. Assigning the level in the generated initialiser already validates it.\<close>

definition load_settings :: "listener_env \<Rightarrow> settings option" where
  "load_settings env =
     (case validate_log_level (getenv_or env ''AGAMEMNON_LOG_LEVEL'' ''INFO'') of
        None \<Rightarrow> None
      | Some level \<Rightarrow>
          (case (le_float env (getenv_or env ''AGAMEMNON_POLL_INTERVAL'' ''1.0''),
                 le_float env (getenv_or env ''AGAMEMNON_SHUTDOWN_TIMEOUT'' ''30.0'')) of
             (Some poll, Some timeout) \<Rightarrow> Some \<lparr>se_log_level = level, se_poll_interval = poll, se_shutdown_timeout = timeout\<rparr>
           | _ \<Rightarrow> None))"

definition set_log_level :: "string \<Rightarrow> settings \<Rightarrow> settings option" where
  "set_log_level v se = map_option (\<lambda>level. se\<lparr>se_log_level := level\<rparr>) (validate_log_level v)"

text \<open>The settings \<open>main\<close> starts the daemon with: the command line overrides what was loaded.\<close>

definition main_settings :: "listener_env \<Rightarrow> string option \<Rightarrow> real option \<Rightarrow> settings option" where
  "main_settings env log_level shutdown_timeout =
     Option.bind (load_settings env) (\<lambda>se.
     Option.bind (case log_level of None \<Rightarrow> Some se | Some l \<Rightarrow> set_log_level l se) (\<lambda>se1.
       Some (case shutdown_timeout of None \<Rightarrow> se1 | Some t \<Rightarrow> se1\<lparr>se_shutdown_timeout := t\<rparr>)))"

text \<open>The level the daemon logs at is always one of the known ones.\<close>

lemma main_settings_level:
  assumes "main_settings env log_level shutdown_timeout = Some se"
  shows "se_log_level se \<in> set VALID_LOG_LEVELS"
proof -
  have level: "l \<in> set VALID_LOG_LEVELS" if "validate_log_level v = Some l" for v l
    using that by (auto simp: validate_log_level_def Let_def split: if_splits)
  obtain se0 where "load_settings env = Some se0" "se_log_level se0 \<in> set VALID_LOG_LEVELS"
    using assms level by (auto simp: main_settings_def load_settings_def split: option.splits)
  then show ?thesis using assms level
    by (auto simp: main_settings_def set_log_level_def Option.bind_eq_Some_conv split: option.splits)
qed

section \<open>The daemon\<close>

record daemon =
  da_listener :: listener
  da_claimer :: claimer
  da_shutdown :: bool

datatype daemon_event =
    Incoming string string "string option"
  | Resumed nat wake
  | Callback nat
  | Cleanup

definition new_daemon :: daemon where
  "new_daemon = \<lparr>da_listener = new_listener, da_claimer = new_claimer, da_shutdown = False\<rparr>"

fun daemon_handle :: "listener_env \<Rightarrow> daemon_event \<Rightarrow> daemon \<Rightarrow> daemon" where
  "daemon_handle env (Incoming team_id task_id raw) d =
     d\<lparr>da_claimer := snd (on_task_event env advance_dag_tracked (da_listener d) team_id task_id raw (da_claimer d))\<rparr>"
| "daemon_handle env (Resumed k wk) d =
     (case resume k wk (da_claimer d) of None \<Rightarrow> d | Some c \<Rightarrow> d\<lparr>da_claimer := c\<rparr>)"
| "daemon_handle env (Callback k) d =
     (case done_callback k (da_claimer d) of None \<Rightarrow> d | Some c \<Rightarrow> d\<lparr>da_claimer := c\<rparr>)"
| "daemon_handle env Cleanup d = d\<lparr>da_claimer := snd (cleanup_idle_teams (da_claimer d))\<rparr>"

definition handle_signal :: "daemon \<Rightarrow> daemon" where
  "handle_signal d = d\<lparr>da_listener := begin_shutdown (da_listener d), da_shutdown := True\<rparr>"

text \<open>The daemon's life: the events until the signal, the signal, and what happens while it drains.\<close>

definition run_daemon :: "listener_env \<Rightarrow> daemon_event list \<Rightarrow> daemon_event list \<Rightarrow> daemon \<Rightarrow> bool \<times> daemon" where
  "run_daemon env before during d =
     (let d1 = handle_signal (fold (daemon_handle env) before d);
          (drained, c) = claimer_drain (\<lambda>c. da_claimer (fold (daemon_handle env) during (d1\<lparr>da_claimer := c\<rparr>))) (da_claimer d1)
      in (drained, d1\<lparr>da_claimer := c\<rparr>))"


section \<open>Safe identifiers\<close>

definition safe_id :: "string \<Rightarrow> bool" where
  "safe_id v \<longleftrightarrow> v \<noteq> [] \<and> length v \<le> 256
     \<and> (\<forall>c \<in> set v. \<not> py_isspace c \<and> 32 \<le> ord_of c \<and> c \<noteq> CHR ''/'' \<and> c \<noteq> CHR 0x5C)
     \<and> (\<forall>a b. v \<noteq> a @ ''..'' @ b)"

lemma py_strip_Nil: "py_strip v = [] \<longleftrightarrow> (\<forall>c \<in> set v. py_isspace c)"
proof -
  have "py_strip v = [] \<longleftrightarrow> (\<forall>c \<in> set (dropWhile py_isspace v). py_isspace c)"
    by (simp add: py_strip_def dropWhile_eq_Nil_conv)
  also have "\<dots> \<longleftrightarrow> dropWhile py_isspace v = []"
    using hd_dropWhile [of py_isspace v] by (metis dropWhile_eq_Nil_conv empty_iff hd_in_set list.set(1))
  finally show ?thesis by (simp add: dropWhile_eq_Nil_conv)
qed

lemma find_sub_absent: "find_sub pat v = None \<longleftrightarrow> (\<forall>a b. v \<noteq> a @ pat @ b)"
proof
  assume none: "find_sub pat v = None"
  show "\<forall>a b. v \<noteq> a @ pat @ b"
  proof (intro allI notI)
    fix a b
    assume v: "v = a @ pat @ b"
    then have "starts_with pat (drop (length a) v)" by simp
    moreover have "length a \<le> length v" using v by simp
    ultimately show False using none by (simp add: find_sub_None)
  qed
next
  assume absent: "\<forall>a b. v \<noteq> a @ pat @ b"
  show "find_sub pat v = None"
  proof (rule ccontr)
    assume "find_sub pat v \<noteq> None"
    then obtain i where "starts_with pat (drop i v)" using find_sub_Some by (metis not_None_eq)
    then obtain r where "drop i v = pat @ r" by (auto simp: starts_with_iff)
    then have "v = take i v @ pat @ r" by (metis append_take_drop_id)
    then show False using absent by blast
  qed
qed

lemma validate_id_iff: "validate_id v f = Inr r \<longleftrightarrow> r = v \<and> safe_id v"
proof -
  have strip: "py_strip v = [] \<Longrightarrow> v \<noteq> [] \<Longrightarrow> \<not> safe_id v"
    by (auto simp: py_strip_Nil safe_id_def)
  have none: "List.find (\<lambda>ch. py_isspace ch \<or> ord_of ch < 32) v = None \<longleftrightarrow> (\<forall>c \<in> set v. \<not> py_isspace c \<and> 32 \<le> ord_of c)"
    by (auto simp: find_None_iff not_less)
  have some: "List.find (\<lambda>ch. py_isspace ch \<or> ord_of ch < 32) v = Some ch \<Longrightarrow> \<not> safe_id v" for ch
    using none by (auto simp: safe_id_def)
  show ?thesis
  proof (cases "List.find (\<lambda>ch. py_isspace ch \<or> ord_of ch < 32) v")
    case None
    then have ok: "\<forall>c \<in> set v. \<not> py_isspace c \<and> 32 \<le> ord_of c" using none by blast
    have "v \<noteq> [] \<Longrightarrow> py_strip v \<noteq> []" using ok by (auto simp: py_strip_Nil)
    moreover have "safe_id v \<longleftrightarrow> v \<noteq> [] \<and> length v \<le> 256 \<and> CHR ''/'' \<notin> set v \<and> CHR 0x5C \<notin> set v \<and> find_sub ''..'' v = None"
      unfolding safe_id_def find_sub_absent [symmetric] using ok by blast
    ultimately show ?thesis
      unfolding validate_id_def MAX_ID_LENGTH_def using None
      by (cases "v = []"; cases "find_sub ''..'' v"; cases "CHR ''/'' \<in> set v \<or> CHR 0x5C \<in> set v") auto
  next
    case (Some ch)
    then show ?thesis using some strip by (simp add: validate_id_def)
  qed
qed

lemma check_ids_None: "check_ids team_id task_id = None \<longleftrightarrow> safe_id team_id \<and> safe_id task_id"
  using validate_id_iff [of team_id "''team_id''"] validate_id_iff [of task_id "''task_id''"]
  by (auto simp: check_ids_def split: sum.splits) (metis sum.exhaust)+

section \<open>What the listener passes on\<close>

text \<open>The claimer as the listener sees it: a call is recorded with its team.\<close>

locale tracking =
  fixes track :: "string \<Rightarrow> 's \<Rightarrow> 's"
    and teams :: "'s \<Rightarrow> string list"
  assumes teams_track: "teams (track t s) = teams s @ [t]"
begin

lemma event_teams:
  "teams (snd (on_task_event env track l team_id task_id raw s)) = teams s
   \<or> \<not> li_shutting_down l \<and> safe_id team_id \<and> teams (snd (on_task_event env track l team_id task_id raw s)) = teams s @ [team_id]"
  by (auto simp: on_task_event_def teams_track check_ids_None split: option.split)

lemma events_safe:
  "list_all safe_id (teams s) \<Longrightarrow> list_all safe_id (teams (snd (on_task_event env track l team_id task_id raw s)))"
  using event_teams [of env l team_id task_id raw s] by auto

end

interpretation cl: tracking advance_dag_tracked "\<lambda>s. map fst (tc_runs s)"
  by unfold_locales (simp add: advance_dag_tracked_def)


section \<open>Subscribing and settings\<close>

text \<open>The first answer that is not "stream not found" decides, after delays that double; without one within the allowed
attempts the result is an error, and there is no delay after the last attempt.\<close>

lemma start_loop_first:
  assumes "\<forall>i < k. js (attempt + i) = Not_Found" and "k < left" and "js (attempt + k) \<noteq> Not_Found"
  shows "start_loop js left attempt delay slept =
    ((case js (attempt + k) of Subscribe_OK \<Rightarrow> Subscribed | No_Servers \<Rightarrow> Connection_Error | Auth_Failed \<Rightarrow> Connection_Error
        | Other_Error \<Rightarrow> Other_Raised | _ \<Rightarrow> Runtime_Error), slept @ map (\<lambda>i. delay * 2 ^ i) [0..<k])"
  using assms
proof (induction k arbitrary: left attempt delay slept)
  case 0
  then show ?case by (cases left) (auto split: subscribe_answer.split)
next
  case (Suc k)
  obtain l where left: "left = Suc l" "l > 0" using Suc.prems(2) by (cases left) auto
  have nf: "\<forall>i < k. js (attempt + 1 + i) = Not_Found"
  proof (intro allI impI)
    fix i
    assume "i < k"
    then have "js (attempt + Suc i) = Not_Found" using Suc.prems(1) by blast
    then show "js (attempt + 1 + i) = Not_Found" by simp
  qed
  have "start_loop js left attempt delay slept = start_loop js l (attempt + 1) (delay * 2) (slept @ [delay])"
    using Suc.prems(1) left by (auto dest: spec [of _ 0])
  also have "\<dots> = ((case js (attempt + 1 + k) of Subscribe_OK \<Rightarrow> Subscribed | No_Servers \<Rightarrow> Connection_Error | Auth_Failed \<Rightarrow> Connection_Error
        | Other_Error \<Rightarrow> Other_Raised | _ \<Rightarrow> Runtime_Error), (slept @ [delay]) @ map (\<lambda>i. delay * 2 * 2 ^ i) [0..<k])"
    using nf Suc.prems left by (intro Suc.IH) simp_all
  finally show ?case by (simp add: upt_conv_Cons map_Suc_upt [symmetric] mult.assoc comp_def del: upt_Suc)
qed

lemma start_loop_exhausted:
  "\<forall>i < left. js (attempt + i) = Not_Found \<Longrightarrow>
   start_loop js left attempt delay slept = (Runtime_Error, slept @ map (\<lambda>i. delay * 2 ^ i) [0..<left - 1])"
proof (induction left arbitrary: attempt delay slept)
  case (Suc l)
  have nf: "js attempt = Not_Found" "\<forall>i < l. js (attempt + 1 + i) = Not_Found" using Suc.prems by (auto dest: spec [of _ 0] spec [of _ "Suc _"])
  show ?case
  proof (cases l)
    case 0
    then show ?thesis using nf by simp
  next
    case (Suc m)
    have "start_loop js (Suc l) attempt delay slept = start_loop js l (attempt + 1) (delay * 2) (slept @ [delay])"
      using nf(1) Suc by simp
    then show ?thesis using Suc.IH [OF nf(2)] Suc
      by (simp add: upt_conv_Cons map_Suc_upt [symmetric] mult.assoc comp_def del: upt_Suc start_loop.simps)
  qed
qed simp

lemma load_settings_level: "load_settings env = Some se \<Longrightarrow> se_log_level se \<in> set VALID_LOG_LEVELS"
  by (auto simp: load_settings_def validate_log_level_def Let_def split: option.splits if_splits prod.splits)

lemma set_log_level_valid: "set_log_level v se = Some se' \<Longrightarrow> se_log_level se' \<in> set VALID_LOG_LEVELS"
  by (auto simp: set_log_level_def validate_log_level_def Let_def split: if_splits)

lemma resolve_status_priority:
  "resolve_event_status (Some (c # cs)) data new_status = Some (c # cs)"
  "\<not> is_set status \<Longrightarrow> map_of kvs ''status'' = Some (JStr (c # cs)) \<Longrightarrow>
     resolve_event_status status (Some kvs) new_status = Some (c # cs)"
  "\<not> is_set status \<Longrightarrow> resolve_event_status status None new_status = new_status"
  by (cases kvs; auto simp: resolve_event_status_def is_set_def Let_def)+

section \<open>The daemon at work\<close>

lemma daemon_handle_reach: "claimer_reach (da_claimer d) (da_claimer (daemon_handle env ev d))"
proof (cases ev)
  case (Incoming team_id task_id raw)
  then show ?thesis
    using claimer_step.track [of "da_claimer d" team_id] by (auto simp: on_task_event_def split: option.split)
next
  case (Resumed k wk)
  then show ?thesis
    using claimer_step.resumed [of k wk "da_claimer d"] by (auto simp del: resume.simps split: option.split)
next
  case (Callback k)
  then show ?thesis using claimer_step.callback [of k "da_claimer d"] by (auto split: option.split)
next
  case Cleanup
  then show ?thesis using claimer_step.cleanup [of "da_claimer d"] by auto
qed

lemma daemon_handle_listener [simp]:
  "da_listener (daemon_handle env ev d) = da_listener d" "da_shutdown (daemon_handle env ev d) = da_shutdown d"
  by (cases ev; simp del: resume.simps split: option.split)+

lemma daemon_events_reach: "claimer_reach (da_claimer d) (da_claimer (fold (daemon_handle env) evs d))"
proof (induction evs arbitrary: d)
  case (Cons ev evs)
  show ?case using daemon_handle_reach [of d env ev] Cons [of "daemon_handle env ev d"] by simp
qed simp

lemma daemon_events_listener [simp]: "da_listener (fold (daemon_handle env) evs d) = da_listener d"
  by (induction evs arbitrary: d) simp_all

lemma daemon_handle_safe:
  "list_all safe_id (map fst (tc_runs (da_claimer d))) \<Longrightarrow> list_all safe_id (map fst (tc_runs (da_claimer (daemon_handle env ev d))))"
proof (cases ev)
  case (Incoming team_id task_id raw)
  assume "list_all safe_id (map fst (tc_runs (da_claimer d)))"
  then show ?thesis using cl.events_safe [of "da_claimer d" env "da_listener d" team_id task_id raw] Incoming by simp
qed (auto simp: done_callback_def cleanup_idle_teams_def Let_def resume_teams simp del: resume.simps split: option.split if_splits)

lemma daemon_events_safe:
  "list_all safe_id (map fst (tc_runs (da_claimer d))) \<Longrightarrow>
   list_all safe_id (map fst (tc_runs (da_claimer (fold (daemon_handle env) evs d))))"
proof (induction evs arbitrary: d)
  case (Cons ev evs)
  then show ?case using daemon_handle_safe [of d env ev] by simp
qed simp

lemma shut_down_adds_none:
  "li_shutting_down (da_listener d) \<Longrightarrow> length (tc_runs (da_claimer (fold (daemon_handle env) evs d))) = length (tc_runs (da_claimer d))"
proof (induction evs arbitrary: d)
  case (Cons ev evs)
  have "length (tc_runs (da_claimer (daemon_handle env ev d))) = length (tc_runs (da_claimer d))"
  proof (cases ev)
    case (Resumed k wk)
    then show ?thesis using resume_teams [of k wk "da_claimer d"]
      by (auto simp del: resume.simps split: option.split dest: map_eq_imp_length_eq)
  qed (use Cons.prems in \<open>auto simp: on_task_event_def done_callback_def cleanup_idle_teams_def Let_def split: option.split\<close>)
  then show ?case using Cons by simp
qed simp

section \<open>Properties\<close>

text \<open>
  A task event is handled without raising. It is passed on exactly when the listener is not shutting down, both
  identifiers are safe (non-empty, at most 256 characters, no white space, control character, slash, backslash or double
  dot), and its payload, if it has one, is JSON that fits the event schema; then one call for its team is added to the claimer, and
  otherwise the claimer is left as it was.
\<close>

lemma event_dispatch_exact:
  "let r = on_task_event env advance_dag_tracked l team_id task_id raw s;
       wanted = (\<not> li_shutting_down l \<and> safe_id team_id \<and> safe_id task_id
         \<and> (raw = None \<or> (\<exists>text payload ev. raw = Some text \<and> le_loads env text = Some payload \<and> le_fields env payload = Some ev)))
   in ((\<exists>status. fst r = Dispatched status) \<longleftrightarrow> wanted)
      \<and> snd r = (if wanted then advance_dag_tracked team_id s else s)"
  using check_ids_None [of team_id task_id]
  unfolding Let_def on_task_event_def model_validate_def
  by (cases "check_ids team_id task_id") (auto split: option.split)

text \<open>
  C23. Whatever messages arrive and however the runs are resumed, every team the daemon ever works for has a safe
  identifier. When a signal comes, the daemon stops taking events, and once the claimer is drained every call ever
  started has ended and no team is marked as advancing, whatever happened in the meantime.
\<close>

theorem shutdown_leaves_nothing:
  "let d = snd (run_daemon env before during new_daemon)
   in list_all safe_id (map fst (tc_runs (da_claimer d))) \<and> li_shutting_down (da_listener d)
      \<and> list_all (\<lambda>r. has_ended (snd r)) (tc_runs (da_claimer d)) \<and> tc_advancing (da_claimer d) = {}"
proof -
  let ?d1 = "handle_signal (fold (daemon_handle env) before new_daemon)"
  let ?c = "da_claimer ?d1"
  let ?during = "\<lambda>c. da_claimer (fold (daemon_handle env) during (?d1\<lparr>da_claimer := c\<rparr>))"
  let ?c2 = "snd (claimer_drain ?during ?c)"
  have shut: "li_shutting_down (da_listener ?d1)" by (simp add: handle_signal_def begin_shutdown_def)
  have c: "claimer_reach new_claimer ?c"
    using daemon_events_reach [of new_daemon env before] by (simp add: handle_signal_def new_daemon_def)
  then have g: "guarded ?c" using guarded_reach guarded_new by blast
  have d: "claimer_reach ?c (?during ?c)" using daemon_events_reach [of ?d1 env during] by simp
  note dr = drained [of ?c ?during, OF g d]
  have safe1: "list_all safe_id (map fst (tc_runs ?c))"
    using daemon_events_safe [of new_daemon env before] by (simp add: handle_signal_def new_daemon_def new_claimer_def)
  then have "list_all safe_id (map fst (tc_runs (?during ?c)))" using daemon_events_safe [of ?d1 env during] by simp
  then have safe: "list_all safe_id (map fst (tc_runs ?c2))" using dr safe1 by auto
  have "length (tc_runs (?during ?c)) = length (tc_runs ?c)" using shut_down_adds_none [OF shut, of env during] by simp
  then have len: "length (tc_runs ?c2) = length (tc_runs ?c)" using dr by (metis insertE length_map singletonD)
  have ended: "has_ended (snd (tc_runs ?c2 ! k))" if k: "k < length (tc_runs ?c)" for k
  proof (cases "k \<in> tc_in_flight ?c")
    case True
    then show ?thesis using dr by (simp add: settled_def)
  next
    case False
    then have "has_ended (snd (tc_runs ?c ! k))" using g k by (auto simp: guarded_def)
    then show ?thesis using ended_reach [of ?c ?c2 k] dr k by simp
  qed
  then have all: "\<forall>r \<in> set (tc_runs ?c2). has_ended (snd r)" using len by (auto simp: all_set_conv_all_nth)
  have "guarded ?c2" using dr g guarded_reach by blast
  moreover have "inside_teams ?c2 = []" unfolding inside_teams_def using all inside_live by (auto simp: filter_empty_conv)
  ultimately have "tc_advancing ?c2 = {}" by (simp add: guarded_def)
  then show ?thesis using safe all shut by (simp add: run_daemon_def Let_def split_def list_all_iff)
qed

end
