(* ===== verification/Server_Events.thy ===== *)
theory Server_Events
  imports Event_Listener
begin

text \<open>
  The running server of \<open>src/server_main.cpp\<close> as a consumer of inputs (requests, the four NATS subscriptions, rounds of the
  reconciliation thread), and what its messages mean to the listener of the orchestration daemon: the composition of the
  two programs over the subjects \<open>hi.tasks.>\<close>.
\<close>

section \<open>Inputs of the server\<close>

datatype worker_message =
    Completed_Message "json option"
  | Started_Message "json option"
  | Failed_Message "json option"
  | Epic_Message "json option"

fun on_message :: "store_env \<Rightarrow> worker_message \<Rightarrow> (orch, unit) op" where
  "on_message x (Completed_Message parsed) = on_myrmidon_completion x parsed"
| "on_message x (Started_Message parsed) = on_myrmidon_started x parsed"
| "on_message x (Failed_Message parsed) = on_myrmidon_failed x parsed"
| "on_message x (Epic_Message parsed) = bind_op (on_epic_registered x parsed) (\<lambda>_. ret ())"

text \<open>One round of the reconciliation thread; an exception is logged.\<close>

definition reconcile_round :: "store_env \<Rightarrow> (store, unit) op" where
  "reconcile_round x = catch_op (bind_op (reconcile_from_github x) (\<lambda>_. ret ())) (\<lambda>_. ret ())"

datatype server_input =
    Request int int http_request
  | Message worker_message
  | Reconcile

fun server_step :: "route_env \<Rightarrow> server_input \<Rightarrow> app \<Rightarrow> app" where
  "server_step env (Request now now' req) a = snd (serve_request env now now' req a)"
| "server_step env (Message m) a = snd (on_orch (on_message (r_store env) m) a)"
| "server_step env Reconcile a = snd (on_db (reconcile_round (r_store env)) a)"

section \<open>Messages the listener ignores\<close>

definition harmless :: "out_msg \<Rightarrow> bool" where
  "harmless msg =
     (case msg of
        Publish subj payload \<Rightarrow>
          starts_with ''hi.tasks.'' subj \<longrightarrow>
            (\<exists>n. parse_subject subj = Inl n) \<or> (\<exists>kvs. payload = JObj kvs \<and> \<not> fst ` set kvs \<subseteq> event_fields)
      | Publish_Log _ _ _ _ \<Rightarrow> True)"

definition orch_harmless :: "orch \<Rightarrow> bool" where
  "orch_harmless s \<longleftrightarrow> list_all harmless (o_out s)"

lemma orch_on_store [wf_intros]: "preserves orch_harmless (on_store m)"
  by (simp add: preserves_def orch_harmless_def on_store_def Let_def split_def)

lemma orch_emit: "harmless msg \<Longrightarrow> preserves orch_harmless (emit msg)"
  by (simp add: preserves_def orch_harmless_def emit_def modify_def)

lemma orch_emit_log [wf_intros]: "preserves orch_harmless (emit (Publish_Log s l m d))"
  by (rule orch_emit) (simp add: harmless_def)

lemma preserves_prod [wf_intros]: "(\<And>a b. preserves P (f a b)) \<Longrightarrow> preserves P (case p of (a, b) \<Rightarrow> f a b)"
  by (cases p) simp

lemma preserves_sum [wf_intros]:
  "(\<And>a. preserves P (f a)) \<Longrightarrow> (\<And>b. preserves P (g b)) \<Longrightarrow> preserves P (case v of Inl a \<Rightarrow> f a | Inr b \<Rightarrow> g b)"
  by (cases v) simp_all

lemma preserves_list [wf_intros]:
  "preserves P m \<Longrightarrow> (\<And>y ys. preserves P (f y ys)) \<Longrightarrow> preserves P (case xs of [] \<Rightarrow> m | y # ys \<Rightarrow> f y ys)"
  by (cases xs) simp_all

lemma harmless_elsewhere: "\<not> starts_with ''hi.tasks.'' subj \<Longrightarrow> harmless (Publish subj payload)"
  by (simp add: harmless_def)

lemma orch_elsewhere [wf_intros]:
  "preserves orch_harmless (emit (Publish (''hi.myrmidon.'' @ r) p))"
  "preserves orch_harmless (emit (Publish (''hi.agents.'' @ r) p))"
  "preserves orch_harmless (emit (Publish (myrmidon_subject l i) p))"
  "preserves orch_harmless (emit (Publish (mesh_dispatch_subject d r i) p))"
  by (rule orch_emit, rule harmless_elsewhere, simp add: starts_with_def myrmidon_subject_def mesh_dispatch_subject_def)+

lemma harmless_state: "harmless (Publish (''hi.tasks.'' @ map to_lower (task_state_to_string st)) p)"
proof -
  have "parse_subject (''hi.tasks.'' @ map to_lower (task_state_to_string st)) = Inl 3"
    by (cases st; hypsubst; code_simp)
  then show ?thesis by (simp add: harmless_def)
qed


lemma harmless_created: "harmless (Publish ''hi.tasks.created'' p)"
proof -
  have "parse_subject ''hi.tasks.created'' = Inl 3" by code_simp
  then show ?thesis by (simp add: harmless_def)
qed

lemma harmless_updated: "harmless (Publish subj (jobj [(''task'', t)]))"
  by (simp add: harmless_def jobj_def obj_of_def event_fields_def)

lemma orch_publish_state [wf_intros]: "preserves orch_harmless (publish_task_state t)"
  unfolding publish_task_state_def Let_def by (rule orch_emit, rule harmless_state)

lemma orch_steps [wf_intros]:
  "preserves orch_harmless (fire x ev t)"
  "preserves orch_harmless (dispatch_task t payload)"
  unfolding fire_def dispatch_task_def Let_def by (intro wf_intros)+

lemma orch_walks [wf_intros]:
  "preserves orch_harmless (step_if x st ev t)"
  "preserves orch_harmless (leave_pending x t)"
  "preserves orch_harmless (reach_delegated x t)"
  "preserves orch_harmless (delegate_transitions x t)"
  unfolding step_if_def leave_pending_def reach_delegated_def delegate_transitions_def by (intro wf_intros)+

lemma orch_submit [wf_intros]: "preserves orch_harmless (submit x brief)"
  unfolding submit_def enqueue_root_def by (intro wf_intros)

lemma orch_delegate [wf_intros]: "preserves orch_harmless (delegate x i)"
  unfolding delegate_def by (intro wf_intros)

lemma orch_escalate [wf_intros]: "preserves orch_harmless (escalate x i r)"
  unfolding escalate_def Let_def by (intro wf_intros)

lemma orch_all_clear [wf_intros]: "preserves orch_harmless (all_clear x bs)"
  by (induction bs) (auto intro!: wf_intros)

lemma orch_children [wf_intros]: "preserves orch_harmless (delegate_unblocked_children x i)"
  unfolding delegate_unblocked_children_def try_child_def by (intro wf_intros)

lemma orch_handlers [wf_intros]:
  "preserves orch_harmless (on_myrmidon_completion x parsed)"
  "preserves orch_harmless (on_myrmidon_started x parsed)"
  "preserves orch_harmless (on_myrmidon_failed x parsed)"
  "preserves orch_harmless (on_epic_registered x parsed)"
  unfolding on_myrmidon_completion_def complete_task_def completion_walk_def on_myrmidon_started_def start_task_def start_walk_def
    on_myrmidon_failed_def fail_task_def fail_walk_def on_epic_registered_def register_epic_def Let_def
  by (intro wf_intros)+

lemma orch_split_loop [wf_intros]: "preserves orch_harmless (split_loop x original ts subs prev_id created)"
  by (induction x original ts subs prev_id created rule: split_loop.induct) (auto intro!: wf_intros)

lemma orch_rest [wf_intros]:
  "preserves orch_harmless (split_task x i subs)"
  "preserves orch_harmless (get_plan x i)"
  unfolding split_task_def get_plan_def Let_def by (intro wf_intros)+


section \<open>Every route\<close>

definition app_harmless :: "app \<Rightarrow> bool" where
  "app_harmless a \<longleftrightarrow> orch_harmless (a_orch a)"

lemma app_on_orch [wf_intros]: "preserves orch_harmless m \<Longrightarrow> preserves app_harmless (on_orch m)"
  by (auto simp: preserves_def app_harmless_def on_orch_def Let_def split_def)

lemma app_with_body [wf_intros]: "(\<And>b. preserves P (m b)) \<Longrightarrow> preserves P (with_body env req m)"
  unfolding with_body_def by (intro wf_intros)

lemma app_checked [wf_intros]: "preserves P m \<Longrightarrow> preserves P (checked vs m)"
  unfolding checked_def by (intro wf_intros)

lemma app_paged [wf_intros]: "(\<And>l o'. preserves P (m l o')) \<Longrightarrow> preserves P (paged req m)"
  unfolding paged_def by (intro wf_intros)

lemma orch_literals [wf_intros]:
  "preserves orch_harmless (emit (Publish ''hi.tasks.created'' p))"
  "preserves orch_harmless (emit (Publish subj (jobj [(''task'', t)])))"
  "preserves orch_harmless (emit (Publish ''hi.agents.team.created'' p))"
  "preserves orch_harmless (emit (Publish ''hi.agents.team.updated'' p))"
  "preserves orch_harmless (emit (Publish ''hi.agents.team.deleted'' p))"
  "preserves orch_harmless (emit (Publish ''hi.agents.chaos.injected'' p))"
  "preserves orch_harmless (emit (Publish ''hi.agents.chaos.removed'' p))"
  by (rule orch_emit, (rule harmless_created harmless_updated | rule harmless_elsewhere, simp add: starts_with_def))+

lemma app_reads [wf_intros]:
  "preserves app_harmless (get_metrics env)" "preserves app_harmless get_health" "preserves app_harmless get_v1_health"
  "preserves app_harmless get_version" "preserves app_harmless delete_dead_letter" "preserves app_harmless no_route"
  "preserves app_harmless get_dead_letter"
  by (auto simp: get_metrics_def get_health_def get_v1_health_def get_version_def delete_dead_letter_def no_route_def
      get_dead_letter_def preserves_def app_harmless_def ret_def gets_def bind_op_def modify_def Let_def split_def
      split: option.split)

lemma app_agents [wf_intros]:
  "preserves app_harmless (get_agents env req)" "preserves app_harmless (post_agents env req)"
  "preserves app_harmless (post_agent_start env i)" "preserves app_harmless (post_agent_stop env i)"
  "preserves app_harmless (get_agent_named env i)" "preserves app_harmless (get_agent_route env i)"
  "preserves app_harmless (patch_agent env req i)" "preserves app_harmless (delete_agent_route env i)"
  unfolding get_agents_def post_agents_def post_agent_start_def post_agent_stop_def get_agent_named_def get_agent_route_def
    patch_agent_def delete_agent_route_def publish_agent_updated_def Let_def
  by (intro wf_intros)+

lemma app_teams [wf_intros]:
  "preserves app_harmless (get_teams env req)" "preserves app_harmless (post_teams env req)"
  "preserves app_harmless (get_team_route env i)" "preserves app_harmless (put_team env req i)"
  "preserves app_harmless (delete_team_route env i)"
  unfolding get_teams_def post_teams_def get_team_route_def put_team_def delete_team_route_def Let_def
  by (intro wf_intros)+

lemma app_tasks [wf_intros]:
  "preserves app_harmless (get_tasks env req)" "preserves app_harmless (get_team_tasks env req i)"
  "preserves app_harmless (post_team_tasks env req i)" "preserves app_harmless (get_task_route env i j)"
  "preserves app_harmless (update_task_handler env req i j)"
  unfolding get_tasks_def get_team_tasks_def post_team_tasks_def dispatch_flat_task_def get_task_route_def update_task_handler_def Let_def
  by (intro wf_intros)+

lemma app_others [wf_intros]:
  "preserves app_harmless (get_chaos env req)" "preserves app_harmless (post_chaos env i)"
  "preserves app_harmless (delete_chaos env i)" "preserves app_harmless (post_briefs env req)"
  "preserves app_harmless (get_brief_plan env i)" "preserves app_harmless (post_task_escalate env req i)"
  "preserves app_harmless (post_task_split env req i)" "preserves app_harmless (post_task_complete env req i)"
  "preserves app_harmless (get_task_state env i)" "preserves app_harmless (post_webhook env req)"
  unfolding get_chaos_def post_chaos_def delete_chaos_def post_briefs_def get_brief_plan_def post_task_escalate_def
    post_task_split_def post_task_complete_def get_task_state_def post_webhook_def Let_def
  by (intro wf_intros)+


lemma app_pre_routing [wf_intros]: "preserves app_harmless (pre_routing env now now' req)"
  by (simp add: preserves_def app_harmless_def pre_routing_def Let_def split_def)

lemma app_dispatch [wf_intros]:
  "preserves app_harmless (dispatch2 env req m a)"
  "preserves app_harmless (dispatch3 env req m a i)"
  "preserves app_harmless (dispatch4 env req m a i b)"
  unfolding dispatch2_def dispatch3_def dispatch4_def by (intro wf_intros)+

lemma app_handle [wf_intros]: "preserves app_harmless (handle env req)"
  unfolding handle_def Let_def by (intro wf_intros)

lemma app_serve_request: "preserves app_harmless (serve_request env now now' req)"
  unfolding serve_request_def by (intro wf_intros)

lemma app_on_message: "preserves orch_harmless (on_message x m)"
  by (cases m) (auto intro!: wf_intros)

interpretation srv: stepping "server_step env" "\<lambda>_. True" app_harmless for env
proof unfold_locales
  fix a and e :: server_input
  assume "app_harmless a"
  then show "app_harmless (server_step env e a)"
    using preservesD [OF app_serve_request] preservesD [OF app_on_orch [OF app_on_message]]
      preservesD [OF app_on_orch [OF orch_on_store]]
    by (cases e) simp_all
qed

section \<open>Properties\<close>

text \<open>The documented meaning of \<open>extra="forbid"\<close>: a payload with a member that is not a declared field is rejected.\<close>

definition forbids_extra :: "listener_env \<Rightarrow> bool" where
  "forbids_extra env \<longleftrightarrow> (\<forall>kvs. \<not> fst ` set kvs \<subseteq> event_fields \<longrightarrow> le_fields env (JObj kvs) = None)"

text \<open>
  C25. Nothing the server publishes on \<open>hi.tasks.>\<close> ever makes the orchestration daemon advance a team: for every
  sequence of requests, worker messages and reconciliation rounds, a message published there either has a subject that the
  listener cannot take apart, or a payload its event schema rejects, so handling it leaves the claimer as it was. The
  listener reacts to the workers' own messages only.
\<close>

theorem server_events_ignored:
  assumes "forbids_extra lenv" and "o_out (a_orch a) = []"
    and "Publish subj payload \<in> set (o_out (a_orch (fold (server_step env) inputs a)))"
    and "starts_with ''hi.tasks.'' subj" and "le_loads lenv raw = Some payload"
  shows "(\<exists>n. parse_subject subj = Inl n)
    \<or> (\<forall>l team_id task_id s. snd (on_task_event lenv advance_dag_tracked l team_id task_id (Some raw) s) = s)"
proof -
  have "app_harmless a" using assms(2) by (simp add: app_harmless_def orch_harmless_def)
  then have "app_harmless (fold (server_step env) inputs a)" by (rule srv.run_inv) (simp add: list_all_iff)
  then have "harmless (Publish subj payload)"
    using assms(3) by (auto simp: app_harmless_def orch_harmless_def list_all_iff)
  then consider "\<exists>n. parse_subject subj = Inl n" | kvs where "payload = JObj kvs" "\<not> fst ` set kvs \<subseteq> event_fields"
    using assms(4) by (auto simp: harmless_def)
  then show ?thesis
  proof cases
    case 2
    then have "model_validate lenv payload = None" using assms(1) by (simp add: model_validate_def forbids_extra_def)
    then show ?thesis using assms(5) by (simp add: on_task_event_def split: option.split)
  qed blast
qed


definition sample_routes :: route_env where
  "sample_routes = \<lparr>r_store = example_env, r_api_key = ''key'', r_secret = None, r_hmac = (\<lambda>_ _. None),
     r_serialize = (\<lambda>_. []), r_parse_message = (\<lambda>_. []), r_what = (\<lambda>_. [])\<rparr>"

definition sample_app :: app where
  "sample_app = \<lparr>a_orch = \<lparr>o_store = new_store False None, o_out = []\<rparr>, a_limiter = new_limiter 60 120,
     a_breaker = None, a_dlq = None\<rparr>"

definition sample_epic :: server_input where
  "sample_epic = Message (Epic_Message (Some (jobj [(''epic'',
     jobj [(''repo'', JStr ''r''), (''key'', JStr ''k''), (''issue'', JInt 5)])])))"

definition sample_listener_env :: "json \<Rightarrow> listener_env" where
  "sample_listener_env payload = \<lparr>le_fields =
     (\<lambda>j. case j of
        JObj kvs \<Rightarrow>
          (if fst ` set kvs \<subseteq> event_fields
           then Some \<lparr>te_status = None, te_newStatus = None, te_data = None, te_taskId = None, te_teamId = None,
             te_effective_status = None\<rparr> else None)
      | _ \<Rightarrow> None),
     le_loads = (\<lambda>_. Some payload), le_float = (\<lambda>_. None), le_getenv = (\<lambda>_. None)\<rparr>"

theorem server_events_ignored_witness:
  "\<exists>payload. Publish ''hi.tasks.decomposing'' payload \<in> set (o_out (a_orch (fold (server_step sample_routes) [sample_epic] sample_app)))
     \<and> ((\<exists>n. parse_subject ''hi.tasks.decomposing'' = Inl n)
        \<or> (\<forall>l team_id task_id s. snd (on_task_event (sample_listener_env payload) advance_dag_tracked l team_id task_id (Some []) s) = s))"
proof -
  let ?out = "o_out (a_orch (fold (server_step sample_routes) [sample_epic] sample_app))"
  have "map (\<lambda>m. case m of Publish s p \<Rightarrow> s | Publish_Log s _ _ _ \<Rightarrow> s) (take 1 ?out) = [''hi.tasks.decomposing'']
      \<and> list_all (\<lambda>m. case m of Publish _ _ \<Rightarrow> True | _ \<Rightarrow> False) (take 1 ?out)"
    by code_simp
  then obtain payload where p: "Publish ''hi.tasks.decomposing'' payload \<in> set ?out"
    by (cases ?out) (auto split: out_msg.splits)
  have "forbids_extra (sample_listener_env payload)" by (simp add: forbids_extra_def sample_listener_env_def)
  moreover have "le_loads (sample_listener_env payload) [] = Some payload" by (simp add: sample_listener_env_def)
  moreover have "starts_with ''hi.tasks.'' ''hi.tasks.decomposing''" by code_simp
  moreover have "o_out (a_orch sample_app) = []" by (simp add: sample_app_def)
  ultimately show ?thesis using server_events_ignored [of "sample_listener_env payload" sample_app _ _ sample_routes "[sample_epic]"] p by blast
qed

end
