(* ===== verification/Coroutine_Task.thy ===== *)
theory Coroutine_Task
  imports Prelude
begin

text \<open>
  The coroutine type of \<open>include/agamemnon_agents/concurrency/task.hpp\<close> over the protocol of C++20 coroutines. The body of a
  coroutine is the tree of what it does until it awaits, returns or throws; a frame is a body with its promise and its
  state; a machine is the heap of frames with the coroutine a thread is running, the calls of \<open>get\<close> nested on its stack,
  and the handles submitted to the scheduler. Resuming a coroutine that is running or finished is undefined: the machine
  records it in a flag. \<open>Task<void>\<close> is the instance at the unit type.
\<close>

section \<open>Coroutines\<close>

text \<open>An awaited coroutine is created where it is awaited; the rest of the body depends on its result, an exception
included.\<close>

datatype ('e, 'v) co =
    CoReturn 'v
  | CoThrow exn
  | CoEmit 'e "('e, 'v) co"
  | CoAwait "('e, 'v) co" "exn + 'v \<Rightarrow> ('e, 'v) co"

datatype ('e, 'v) frame_state =
    Fresh "('e, 'v) co"
  | Running "('e, 'v) co"
  | Awaiting nat "exn + 'v \<Rightarrow> ('e, 'v) co"
  | Getting nat "exn + 'v \<Rightarrow> ('e, 'v) co"
  | Done

record ('e, 'v) frame =
  fr_state :: "('e, 'v) frame_state"
  fr_result :: "'v option"
  fr_exception :: "exn option"
  fr_continuation :: "nat option"

record ('e, 'v) machine =
  co_frames :: "('e, 'v) frame list"
  co_current :: "nat option"
  co_nest :: "nat list"
  co_scheduler :: bool
  co_queue :: "nat list"
  co_log :: "'e list"
  co_undefined :: bool

section \<open>The promise\<close>

definition new_frame :: "('e, 'v) co \<Rightarrow> ('e, 'v) frame" where
  "new_frame b = \<lparr>fr_state = Fresh b, fr_result = None, fr_exception = None, fr_continuation = None\<rparr>"

definition return_value :: "'v \<Rightarrow> ('e, 'v) frame \<Rightarrow> ('e, 'v) frame" where
  "return_value v f = f\<lparr>fr_result := Some v\<rparr>"

definition unhandled_exception :: "exn \<Rightarrow> ('e, 'v) frame \<Rightarrow> ('e, 'v) frame" where
  "unhandled_exception e f = f\<lparr>fr_exception := Some e\<rparr>"

definition frame_done :: "('e, 'v) frame \<Rightarrow> bool" where
  "frame_done f \<longleftrightarrow> (case fr_state f of Done \<Rightarrow> True | _ \<Rightarrow> False)"

text \<open>The end of \<open>get\<close>, on a handle that is done.\<close>

definition get_result :: "('e, 'v) frame \<Rightarrow> exn + 'v" where
  "get_result f =
     (case fr_exception f of
        Some e \<Rightarrow> Inl e
      | None \<Rightarrow> (case fr_result f of None \<Rightarrow> Inl (Runtime_Error ''Task: No result available'') | Some v \<Rightarrow> Inr v))"

section \<open>Resuming\<close>

definition set_frame :: "nat \<Rightarrow> ('e, 'v) frame \<Rightarrow> ('e, 'v) machine \<Rightarrow> ('e, 'v) machine" where
  "set_frame h f m = m\<lparr>co_frames := (co_frames m)[h := f]\<rparr>"

definition enter :: "nat \<Rightarrow> ('e, 'v) co \<Rightarrow> ('e, 'v) machine \<Rightarrow> ('e, 'v) machine" where
  "enter h b m = (set_frame h ((co_frames m ! h)\<lparr>fr_state := Running b\<rparr>) m)\<lparr>co_current := Some h\<rparr>"

text \<open>\<open>handle.resume()\<close>. A coroutine that awaits continues with \<open>await_resume\<close>, a call of \<open>get\<close> on what it awaits: when that is
not done, \<open>get\<close> goes on resuming it, on the stack of the coroutine that called it.\<close>

definition resume_handle :: "nat \<Rightarrow> ('e, 'v) machine \<Rightarrow> ('e, 'v) machine" where
  "resume_handle h m =
     (case fr_state (co_frames m ! h) of
        Fresh b \<Rightarrow> enter h b m
      | Awaiting c k \<Rightarrow>
          (if frame_done (co_frames m ! c) then enter h (k (get_result (co_frames m ! c))) m
           else (set_frame h ((co_frames m ! h)\<lparr>fr_state := Getting c k\<rparr>) m)\<lparr>co_nest := h # co_nest m, co_current := None\<rparr>)
      | _ \<Rightarrow> m\<lparr>co_undefined := True\<rparr>)"

text \<open>\<open>final_suspend\<close>: the continuation is resumed by symmetric transfer, or control goes back to the resumer.\<close>

definition final_suspend :: "nat \<Rightarrow> ('e, 'v) frame \<Rightarrow> ('e, 'v) machine \<Rightarrow> ('e, 'v) machine" where
  "final_suspend h f m =
     (let m1 = set_frame h (f\<lparr>fr_state := Done\<rparr>) m in
      case fr_continuation f of
        Some c \<Rightarrow> resume_handle c m1
      | None \<Rightarrow> m1\<lparr>co_current := None\<rparr>)"

text \<open>\<open>await_suspend\<close> of a new task \<open>c\<close> awaited by \<open>h\<close>.\<close>

definition await_suspend :: "nat \<Rightarrow> nat \<Rightarrow> ('e, 'v) machine \<Rightarrow> ('e, 'v) machine" where
  "await_suspend h c m =
     (let m1 = set_frame c ((co_frames m ! c)\<lparr>fr_continuation := Some h\<rparr>) m in
      if co_scheduler m then m1\<lparr>co_queue := co_queue m @ [c], co_current := None\<rparr>
      else resume_handle c m1)"

definition await_task :: "nat \<Rightarrow> ('e, 'v) co \<Rightarrow> (exn + 'v \<Rightarrow> ('e, 'v) co) \<Rightarrow> ('e, 'v) machine \<Rightarrow> ('e, 'v) machine" where
  "await_task h child k m =
     (let c = length (co_frames m);
          m1 = (set_frame h ((co_frames m ! h)\<lparr>fr_state := Awaiting c k\<rparr>) m) in
      await_suspend h c (m1\<lparr>co_frames := co_frames m1 @ [new_frame child]\<rparr>))"

text \<open>One step of the thread that called \<open>get\<close> on the handle \<open>root\<close>: of the running coroutine, else of the innermost nested
\<open>get\<close>, else of the loop of the outer one.\<close>

definition co_step :: "nat \<Rightarrow> ('e, 'v) machine \<Rightarrow> ('e, 'v) machine" where
  "co_step root m =
     (if co_undefined m then m
      else case co_current m of
        Some h \<Rightarrow>
          (case fr_state (co_frames m ! h) of
             Running (CoReturn v) \<Rightarrow> final_suspend h (return_value v (co_frames m ! h)) m
           | Running (CoThrow e) \<Rightarrow> final_suspend h (unhandled_exception e (co_frames m ! h)) m
           | Running (CoEmit e b) \<Rightarrow> (enter h b m)\<lparr>co_log := co_log m @ [e]\<rparr>
           | Running (CoAwait child k) \<Rightarrow> await_task h child k m
           | _ \<Rightarrow> m\<lparr>co_undefined := True\<rparr>)
      | None \<Rightarrow>
          (case co_nest m of
             h # hs \<Rightarrow>
               (case fr_state (co_frames m ! h) of
                  Getting c k \<Rightarrow>
                    (if frame_done (co_frames m ! c)
                     then enter h (k (get_result (co_frames m ! c))) (m\<lparr>co_nest := hs\<rparr>)
                     else resume_handle c m)
                | _ \<Rightarrow> m\<lparr>co_undefined := True\<rparr>)
           | [] \<Rightarrow> if frame_done (co_frames m ! root) then m else resume_handle root m))"

definition new_machine :: "bool \<Rightarrow> ('e, 'v) co \<Rightarrow> ('e, 'v) machine" where
  "new_machine scheduler b =
     \<lparr>co_frames = [new_frame b], co_current = None, co_nest = [], co_scheduler = scheduler, co_queue = [], co_log = [],
      co_undefined = False\<rparr>"

text \<open>The task object owns a handle or, moved from, none.\<close>

type_synonym task_handle = "nat option"

definition move_task :: "task_handle \<Rightarrow> task_handle \<times> task_handle" where
  "move_task other = (other, None)"

definition task_done :: "task_handle \<Rightarrow> ('e, 'v) machine \<Rightarrow> bool" where
  "task_done t m = (case t of None \<Rightarrow> False | Some h \<Rightarrow> frame_done (co_frames m ! h))"

definition task_resume :: "task_handle \<Rightarrow> ('e, 'v) machine \<Rightarrow> ('e, 'v) machine" where
  "task_resume t m = (case t of None \<Rightarrow> m | Some h \<Rightarrow> if frame_done (co_frames m ! h) then m else resume_handle h m)"

text \<open>\<open>get\<close>: the loop of resumptions, here within a number of steps, then the result.\<close>

definition task_get :: "nat \<Rightarrow> task_handle \<Rightarrow> ('e, 'v) machine \<Rightarrow> ((exn + 'v) \<times> ('e, 'v) machine) option" where
  "task_get fuel t m =
     (case t of
        None \<Rightarrow> Some (Inl (Runtime_Error ''Task: Invalid coroutine handle''), m)
      | Some h \<Rightarrow>
          (let m1 = (co_step h ^^ fuel) m
           in if co_undefined m1 \<or> co_current m1 \<noteq> None \<or> co_nest m1 \<noteq> [] \<or> \<not> frame_done (co_frames m1 ! h) then None
              else Some (get_result (co_frames m1 ! h), m1)))"


section \<open>Running without a scheduler\<close>

text \<open>The reference: a coroutine evaluated as an ordinary function call.\<close>

primrec co_eval :: "('e, 'v) co \<Rightarrow> 'e list \<times> (exn + 'v)" where
  "co_eval (CoReturn v) = ([], Inr v)"
| "co_eval (CoThrow e) = ([], Inl e)"
| "co_eval (CoEmit e b) = (case co_eval b of (l, r) \<Rightarrow> (e # l, r))"
| "co_eval (CoAwait child k) =
     (case co_eval child of (l, r) \<Rightarrow> (case co_eval (k r) of (l', r') \<Rightarrow> (l @ l', r')))"

definition settle :: "exn + 'v \<Rightarrow> ('e, 'v) frame \<Rightarrow> ('e, 'v) frame" where
  "settle r f = (case r of Inl e \<Rightarrow> unhandled_exception e f | Inr v \<Rightarrow> return_value v f)"

lemma get_result_settle:
  "fr_result f = None \<Longrightarrow> fr_exception f = None \<Longrightarrow> get_result (settle r f) = r"
  by (simp add: settle_def get_result_def unhandled_exception_def return_value_def split: sum.split)

lemma settle_fields [simp]:
  "fr_continuation (settle r f) = fr_continuation f" "fr_state (settle r f) = fr_state f"
  "settle r (f\<lparr>fr_state := st\<rparr>) = (settle r f)\<lparr>fr_state := st\<rparr>"
  "get_result (f\<lparr>fr_state := st\<rparr>) = get_result f"
  by (simp_all add: settle_def get_result_def unhandled_exception_def return_value_def split: sum.split option.split)

lemma final_suspend_state: "final_suspend h (f\<lparr>fr_state := st\<rparr>) m = final_suspend h f m"
  by (simp add: final_suspend_def)

text \<open>What finishing does depends on the other frames only.\<close>

lemma final_suspend_cong:
  assumes "co_frames m1 = fs[h := g] @ fs'" and "co_frames m2 = fs @ fs'" and "h < length fs"
    and "m1\<lparr>co_frames := []\<rparr> = m2\<lparr>co_frames := []\<rparr>"
  shows "final_suspend h (f\<lparr>fr_state := st\<rparr>) m1 = final_suspend h f m2"
proof -
  have "set_frame h f' m1 = set_frame h f' m2" for f'
    using assms by (cases m1; cases m2) (simp add: set_frame_def list_update_append)
  then show ?thesis by (simp add: final_suspend_def)
qed

primrec plain :: "('e, 'v) co \<Rightarrow> bool" where
  "plain (CoReturn v) = True"
| "plain (CoThrow e) = True"
| "plain (CoEmit e b) = plain b"
| "plain (CoAwait child k) = False"

text \<open>A machine whose running coroutine \<open>h\<close> has the body \<open>b\<close> left, and which has no scheduler unless \<open>b\<close> awaits nothing.\<close>

definition runs :: "nat \<Rightarrow> ('e, 'v) co \<Rightarrow> ('e, 'v) machine \<Rightarrow> bool" where
  "runs h b m \<longleftrightarrow> \<not> co_undefined m \<and> (co_scheduler m \<longrightarrow> plain b) \<and> co_current m = Some h \<and> h < length (co_frames m)
     \<and> fr_state (co_frames m ! h) = Running b \<and> fr_result (co_frames m ! h) = None \<and> fr_exception (co_frames m ! h) = None"

lemma await_enters:
  assumes "runs h (CoAwait child k) m"
  shows "co_step root m =
    m\<lparr>co_frames := (co_frames m)[h := (co_frames m ! h)\<lparr>fr_state := Awaiting (length (co_frames m)) k\<rparr>]
        @ [(new_frame child)\<lparr>fr_continuation := Some h, fr_state := Running child\<rparr>],
      co_current := Some (length (co_frames m))\<rparr>"
  using assms
  by (simp add: runs_def co_step_def await_task_def await_suspend_def resume_handle_def enter_def set_frame_def new_frame_def
      Let_def list_update_append nth_append)

lemma child_returns:
  assumes "h < length fs" and "fr_state (fs ! h) = Awaiting c k" and "c = length fs" and "fr_continuation f = Some h"
    and "fr_result f = None" and "fr_exception f = None" and "co_frames m = fs @ f' # extra"
  shows "final_suspend c (settle r f) m =
    m\<lparr>co_frames := fs[h := (fs ! h)\<lparr>fr_state := Running (k r)\<rparr>] @ (settle r f)\<lparr>fr_state := Done\<rparr> # extra, co_current := Some h\<rparr>"
  using assms get_result_settle [of f r]
  by (simp add: final_suspend_def resume_handle_def enter_def set_frame_def frame_done_def Let_def list_update_append nth_append)


lemma run_body:
  "runs h b m \<Longrightarrow> \<exists>n extra. (co_step root ^^ n) m =
     final_suspend h (settle (snd (co_eval b)) (co_frames m ! h))
       (m\<lparr>co_frames := co_frames m @ extra, co_log := co_log m @ fst (co_eval b)\<rparr>)"
proof (induction b arbitrary: h m)
  case (CoReturn v)
  then have "co_step root m = final_suspend h (return_value v (co_frames m ! h)) m" by (simp add: co_step_def runs_def)
  then show ?case by (intro exI [of _ 1] exI [of _ "[]"]) (simp add: settle_def)
next
  case (CoThrow e)
  then have "co_step root m = final_suspend h (unhandled_exception e (co_frames m ! h)) m" by (simp add: co_step_def runs_def)
  then show ?case by (intro exI [of _ 1] exI [of _ "[]"]) (simp add: settle_def)
next
  case (CoEmit e b)
  let ?m = "(enter h b m)\<lparr>co_log := co_log m @ [e]\<rparr>"
  have step: "co_step root m = ?m" using CoEmit.prems by (simp add: co_step_def runs_def)
  have "runs h b ?m" using CoEmit.prems by (simp add: runs_def enter_def set_frame_def)
  then obtain n extra where n: "(co_step root ^^ n) ?m = final_suspend h (settle (snd (co_eval b)) (co_frames ?m ! h))
      (?m\<lparr>co_frames := co_frames ?m @ extra, co_log := co_log ?m @ fst (co_eval b)\<rparr>)"
    using CoEmit.IH by blast
  have h: "h < length (co_frames m)" "co_current m = Some h" using CoEmit.prems by (auto simp: runs_def)
  have "(co_step root ^^ Suc n) m = (co_step root ^^ n) ?m" using step by (simp add: funpow_Suc_right del: funpow.simps)
  moreover have "(co_step root ^^ n) ?m = final_suspend h (settle (snd (co_eval b)) (co_frames m ! h))
      (m\<lparr>co_frames := co_frames m @ extra, co_log := co_log m @ e # fst (co_eval b)\<rparr>)"
    unfolding n using h
    by (simp add: enter_def set_frame_def)
      (rule final_suspend_cong [where fs = "co_frames m" and fs' = extra and g = "(co_frames m ! h)\<lparr>fr_state := Running b\<rparr>"],
        simp, simp, assumption, simp)
  ultimately show ?case by (intro exI [of _ "Suc n"] exI [of _ extra]) (simp add: split_def)
next
  case (CoAwait child k)
  let ?fs = "co_frames m" and ?c = "length (co_frames m)" and ?r = "snd (co_eval child)"
  let ?fc = "(new_frame child)\<lparr>fr_continuation := Some h, fr_state := Running child\<rparr>"
  let ?fs1 = "?fs[h := (?fs ! h)\<lparr>fr_state := Awaiting ?c k\<rparr>]"
  let ?m1 = "m\<lparr>co_frames := ?fs1 @ [?fc], co_current := Some ?c\<rparr>"
  have h: "h < length ?fs" "co_current m = Some h" using CoAwait.prems by (auto simp: runs_def)
  have step: "co_step root m = ?m1" using await_enters [OF CoAwait.prems] .
  have "runs ?c child ?m1" using CoAwait.prems by (simp add: runs_def nth_append new_frame_def)
  then obtain n1 ex1 where n1: "(co_step root ^^ n1) ?m1 = final_suspend ?c (settle ?r ?fc)
      (?m1\<lparr>co_frames := (?fs1 @ [?fc]) @ ex1, co_log := co_log m @ fst (co_eval child)\<rparr>)"
    using CoAwait.IH(1) [of ?c ?m1] by (auto simp: nth_append)
  let ?l = "fst (co_eval child)"
  let ?m2 = "m\<lparr>co_frames := ?fs[h := (?fs ! h)\<lparr>fr_state := Running (k ?r)\<rparr>] @ (settle ?r ?fc)\<lparr>fr_state := Done\<rparr> # ex1,
      co_current := Some h, co_log := co_log m @ ?l\<rparr>"
  have m2: "(co_step root ^^ n1) ?m1 = ?m2"
    unfolding n1 using h
    by (subst child_returns [where h = h and fs = ?fs1 and k = k and f' = ?fc and extra = ex1])
      (simp_all add: new_frame_def)
  have "runs h (k ?r) ?m2" using CoAwait.prems h by (simp add: runs_def nth_append)
  from CoAwait.IH(2) [OF rangeI this] obtain n2 ex2 where n2: "(co_step root ^^ n2) ?m2 =
      final_suspend h (settle (snd (co_eval (k ?r))) (co_frames ?m2 ! h))
        (?m2\<lparr>co_frames := co_frames ?m2 @ ex2, co_log := co_log ?m2 @ fst (co_eval (k ?r))\<rparr>)"
    by blast
  have "(co_step root ^^ (n2 + n1 + 1)) m = (co_step root ^^ n2) ((co_step root ^^ n1) (co_step root m))"
    by (simp only: funpow_add o_apply One_nat_def funpow.simps id_apply)
  then have run: "(co_step root ^^ (n2 + n1 + 1)) m = (co_step root ^^ n2) ?m2" using step m2 by simp
  let ?ex = "(settle ?r ?fc)\<lparr>fr_state := Done\<rparr> # ex1 @ ex2"
  have "(co_step root ^^ n2) ?m2 = final_suspend h (settle (snd (co_eval (k ?r))) (?fs ! h))
      (m\<lparr>co_frames := ?fs @ ?ex, co_log := co_log m @ ?l @ fst (co_eval (k ?r))\<rparr>)"
    unfolding n2 using h
    by (simp add: nth_append) (rule final_suspend_cong [where fs = ?fs and fs' = ?ex and g = "(?fs ! h)\<lparr>fr_state := Running (k ?r)\<rparr>"],
        simp, simp, assumption, simp)
  then show ?case using run by (intro exI [of _ "n2 + n1 + 1"] exI [of _ ?ex]) (simp add: split_def)
qed


section \<open>Properties\<close>

lemma start_root: "co_step 0 (new_machine sch b) = enter 0 b (new_machine sch b)"
  by (simp add: co_step_def new_machine_def new_frame_def frame_done_def resume_handle_def)


text \<open>
  C22. Without a scheduler, \<open>get\<close> on a task returns, and the chain of suspended and resumed coroutines behind it is
  the same as nested function calls: the result or exception is that of the evaluation, what the bodies do happens
  in the same order, each exactly once, and no coroutine is resumed while it runs or after its end.
\<close>

theorem task_get_is_call:
  "\<exists>fuel m. task_get fuel (Some 0) (new_machine False b) = Some (snd (co_eval b), m) \<and> co_log m = fst (co_eval b)"
proof -
  let ?m = "enter 0 b (new_machine False b)"
  have "runs 0 b ?m" by (simp add: runs_def enter_def set_frame_def new_machine_def new_frame_def)
  then obtain n extra where n: "(co_step 0 ^^ n) ?m = final_suspend 0 (settle (snd (co_eval b)) (co_frames ?m ! 0))
      (?m\<lparr>co_frames := co_frames ?m @ extra, co_log := co_log ?m @ fst (co_eval b)\<rparr>)"
    using run_body [of 0 b ?m 0] by blast
  let ?last = "(co_step 0 ^^ n) ?m"
  have "co_frames ?last ! 0 = (settle (snd (co_eval b)) (co_frames ?m ! 0))\<lparr>fr_state := Done\<rparr>"
      "co_current ?last = None" "co_nest ?last = []" "\<not> co_undefined ?last" "co_log ?last = fst (co_eval b)"
    unfolding n by (simp_all add: final_suspend_def enter_def set_frame_def new_machine_def new_frame_def)
  moreover have "get_result (settle (snd (co_eval b)) (co_frames ?m ! 0)) = snd (co_eval b)"
    by (rule get_result_settle) (simp_all add: enter_def set_frame_def new_machine_def new_frame_def)
  ultimately show ?thesis
    by (intro exI [of _ "Suc n"] exI [of _ ?last])
      (simp add: task_get_def start_root frame_done_def funpow_Suc_right del: funpow.simps)
qed



end
