(* ===== verification/Api_Client.thy ===== *)
theory Api_Client
  imports Routes
begin

text \<open>
  The Python client of the REST interface (\<open>clients/python/src/agamemnon_client/\<close>) and its composition with the server's
  routes. The HTTP library is the argument \<open>tr\<close>, a transport that takes a request and the state of the world behind it; the
  validation of an answer against a response class (pydantic) and \<open>str\<close> on values that are no strings are fields of a
  \<open>schema\<close>. Request classes are records whose dump is the JSON object pydantic makes of them.
\<close>

section \<open>Configuration and transport\<close>

record api_config =
  ac_host :: string
  ac_port :: int
  ac_timeout :: real
  ac_api_key :: "string option"

definition default_api_key :: "(string \<Rightarrow> string option) \<Rightarrow> string option" where
  "default_api_key getenv =
     (case getenv ''AGAMEMNON_API_KEY'' of None \<Rightarrow> None | Some v \<Rightarrow> if v = [] then None else Some v)"

definition default_config :: "(string \<Rightarrow> string option) \<Rightarrow> api_config" where
  "default_config getenv =
     \<lparr>ac_host = ''localhost'', ac_port = 8080, ac_timeout = 30, ac_api_key = default_api_key getenv\<rparr>"

text \<open>The settings of the orchestration layer. \<open>py_float\<close> is Python's conversion of a string to a float, \<open>None\<close> where it
raises; a deprecated name that is used is reported in a warning.\<close>

record client_settings =
  cs_log_level :: string
  cs_poll_interval :: real
  cs_shutdown_timeout :: real

definition get_with_fallback :: "(string \<Rightarrow> string option) \<Rightarrow> string \<Rightarrow> string \<Rightarrow> string \<Rightarrow> string \<times> string list" where
  "get_with_fallback getenv new_name old_name dflt =
     (case getenv new_name of
        Some v \<Rightarrow> (v, [])
      | None \<Rightarrow>
          (case getenv old_name of
             Some v \<Rightarrow> (v, [old_name @ '' is deprecated; use '' @ new_name @ '' instead.''])
           | None \<Rightarrow> (dflt, [])))"

definition load_client_settings :: "(string \<Rightarrow> string option) \<Rightarrow> (string \<Rightarrow> real option) \<Rightarrow> client_settings option \<times> string list" where
  "load_client_settings getenv py_float =
     (let (level, w1) = get_with_fallback getenv ''AGAMEMNON_LOG_LEVEL'' ''KEYSTONE_LOG_LEVEL'' ''INFO'';
          (poll, w2) = get_with_fallback getenv ''AGAMEMNON_POLL_INTERVAL'' ''KEYSTONE_POLL_INTERVAL'' ''1.0'' in
      case py_float poll of
        None \<Rightarrow> (None, w1 @ w2)
      | Some p \<Rightarrow>
          (let (shutdown, w3) = get_with_fallback getenv ''AGAMEMNON_SHUTDOWN_TIMEOUT'' ''KEYSTONE_SHUTDOWN_TIMEOUT'' ''30.0''
           in (map_option (\<lambda>t. \<lparr>cs_log_level = level, cs_poll_interval = p, cs_shutdown_timeout = t\<rparr>) (py_float shutdown),
               w1 @ w2 @ w3)))"

text \<open>A new name decides whatever the old one says, and the deprecated names warn only where they are used.\<close>

lemma new_names_decide:
  assumes "getenv ''AGAMEMNON_LOG_LEVEL'' = Some l" "getenv ''AGAMEMNON_POLL_INTERVAL'' = Some p" "py_float p = Some x"
    and "getenv ''AGAMEMNON_SHUTDOWN_TIMEOUT'' = Some t" "py_float t = Some y"
  shows "load_client_settings getenv py_float = (Some \<lparr>cs_log_level = l, cs_poll_interval = x, cs_shutdown_timeout = y\<rparr>, [])"
  using assms by (simp add: load_client_settings_def get_with_fallback_def)

record http_answer =
  an_status :: nat
  an_json :: "json option"
  an_text :: string
  an_empty :: bool

datatype transport_result =
    Connect_Failed
  | Timed_Out
  | Broken
  | Answer http_answer

type_synonym 'w transport = "string \<Rightarrow> string \<Rightarrow> (string \<times> string) list \<Rightarrow> json option \<Rightarrow> 'w \<Rightarrow> transport_result \<times> 'w"

datatype client_error =
    Unreachable
  | Api_Error nat json
  | Raised_Other

type_synonym ('w, 'a) call = "'w \<Rightarrow> (client_error + 'a) \<times> 'w"

record schema =
  sc_health :: "json \<Rightarrow> json option"
  sc_version :: "json \<Rightarrow> json option"
  sc_agent :: "json \<Rightarrow> json option"
  sc_team :: "json \<Rightarrow> json option"
  sc_task :: "json \<Rightarrow> json option"
  sc_fault :: "json \<Rightarrow> json option"
  sc_str :: "json \<Rightarrow> string"

section \<open>Requests\<close>

definition auth_headers :: "api_config \<Rightarrow> (string \<times> string) list \<Rightarrow> (string \<times> string) list" where
  "auth_headers cfg headers =
     (case ac_api_key cfg of
        None \<Rightarrow> headers
      | Some key \<Rightarrow>
          (if key = [] then headers
           else if map_of headers ''Authorization'' = None then headers @ [(''Authorization'', ''Bearer '' @ key)]
           else headers))"

definition error_detail :: "http_answer \<Rightarrow> json" where
  "error_detail an =
     (case an_json an of
        Some (JObj kvs) \<Rightarrow> (case map_of kvs ''error'' of None \<Rightarrow> JStr (an_text an) | Some v \<Rightarrow> v)
      | _ \<Rightarrow> JStr (an_text an))"

text \<open>The answer of a request; \<open>None\<close> for an empty one.\<close>

definition read_answer :: "http_answer \<Rightarrow> client_error + json option" where
  "read_answer an =
     (if 400 \<le> an_status an \<and> an_status an \<le> 599 then Inl (Api_Error (an_status an) (error_detail an))
      else if an_status an = 204 \<or> an_empty an then Inr None
      else case an_json an of None \<Rightarrow> Inl Raised_Other | Some j \<Rightarrow> Inr (Some j))"

definition api_request ::
    "api_config \<Rightarrow> 'w transport \<Rightarrow> string \<Rightarrow> string \<Rightarrow> json option \<Rightarrow> ('w, json option) call" where
  "api_request cfg tr meth path body w =
     (case tr meth path (auth_headers cfg []) body w of
        (Connect_Failed, w1) \<Rightarrow> (Inl Unreachable, w1)
      | (Timed_Out, w1) \<Rightarrow> (Inl Unreachable, w1)
      | (Broken, w1) \<Rightarrow> (Inl Raised_Other, w1)
      | (Answer an, w1) \<Rightarrow> (read_answer an, w1))"

text \<open>\<open>data.get(key, data)\<close>, \<open>data if isinstance(data, list) else data.get(key, [])\<close> and \<open>data.get("deleted", default)\<close>.\<close>

definition get_entity_member :: "string \<Rightarrow> json option \<Rightarrow> json option" where
  "get_entity_member key data =
     (case data of
        Some (JObj kvs) \<Rightarrow> Some (case map_of kvs key of None \<Rightarrow> JObj kvs | Some v \<Rightarrow> v)
      | _ \<Rightarrow> None)"

definition iterate_json :: "json \<Rightarrow> json list option" where
  "iterate_json j =
     (case j of
        JArr xs \<Rightarrow> Some xs
      | JStr s \<Rightarrow> Some (map (\<lambda>c. JStr [c]) s)
      | JObj kvs \<Rightarrow> Some (map (\<lambda>kv. JStr (fst kv)) kvs)
      | _ \<Rightarrow> None)"

definition get_list_member :: "string \<Rightarrow> json option \<Rightarrow> json list option" where
  "get_list_member key data =
     (case data of
        Some (JArr xs) \<Rightarrow> Some xs
      | Some (JObj kvs) \<Rightarrow> (case map_of kvs key of None \<Rightarrow> Some [] | Some v \<Rightarrow> iterate_json v)
      | _ \<Rightarrow> None)"

definition get_deleted :: "schema \<Rightarrow> string \<Rightarrow> json option \<Rightarrow> string option" where
  "get_deleted sc ident data =
     (case data of
        Some (JObj kvs) \<Rightarrow>
          (case map_of kvs ''deleted'' of
             None \<Rightarrow> Some ident
           | Some (JStr s) \<Rightarrow> Some s
           | Some v \<Rightarrow> Some (sc_str sc v))
      | _ \<Rightarrow> None)"

text \<open>A request and what is made of its answer; \<open>None\<close> there is an exception of Python's or pydantic's.\<close>

definition and_then :: "('w, json option) call \<Rightarrow> (json option \<Rightarrow> 'a option) \<Rightarrow> ('w, 'a) call" where
  "and_then m f w =
     (case m w of
        (Inl e, w1) \<Rightarrow> (Inl e, w1)
      | (Inr data, w1) \<Rightarrow> (case f data of None \<Rightarrow> (Inl Raised_Other, w1) | Some r \<Rightarrow> (Inr r, w1)))"

definition entity_call :: "(json \<Rightarrow> json option) \<Rightarrow> string \<Rightarrow> ('w, json option) call \<Rightarrow> ('w, json) call" where
  "entity_call check key m = and_then m (\<lambda>data. Option.bind (get_entity_member key data) check)"

fun validate_all :: "(json \<Rightarrow> json option) \<Rightarrow> json list \<Rightarrow> json list option" where
  "validate_all check [] = Some []"
| "validate_all check (x # xs) =
     Option.bind (check x) (\<lambda>y. Option.bind (validate_all check xs) (\<lambda>ys. Some (y # ys)))"

definition list_call :: "(json \<Rightarrow> json option) \<Rightarrow> string \<Rightarrow> ('w, json option) call \<Rightarrow> ('w, json list) call" where
  "list_call check key m = and_then m (\<lambda>data. Option.bind (get_list_member key data) (validate_all check))"

section \<open>Request bodies\<close>

text \<open>\<open>model_dump\<close> gives every field, unset ones as null; \<open>exclude_none\<close> leaves those out.\<close>

definition dump_all :: "(string \<times> json) list \<Rightarrow> json" where
  "dump_all kvs = jobj kvs"

definition dump_set :: "(string \<times> json) list \<Rightarrow> json" where
  "dump_set kvs = jobj (filter (\<lambda>kv. \<not> is_null (snd kv)) kvs)"

definition or_null :: "('a \<Rightarrow> json) \<Rightarrow> 'a option \<Rightarrow> json" where
  "or_null f v = (case v of None \<Rightarrow> JNull | Some x \<Rightarrow> f x)"

record agent_create =
  cr_name :: string
  cr_label :: string
  cr_program :: string
  cr_workingDirectory :: string
  cr_programArgs :: "string list"
  cr_taskDescription :: string
  cr_tags :: "string list"
  cr_owner :: string
  cr_role :: string
  cr_host :: string

definition agent_create_fields :: "agent_create \<Rightarrow> (string \<times> json) list" where
  "agent_create_fields a =
     [(''name'', JStr (cr_name a)), (''label'', JStr (cr_label a)), (''program'', JStr (cr_program a)),
      (''workingDirectory'', JStr (cr_workingDirectory a)), (''programArgs'', jstrs (cr_programArgs a)),
      (''taskDescription'', JStr (cr_taskDescription a)), (''tags'', jstrs (cr_tags a)), (''owner'', JStr (cr_owner a)),
      (''role'', JStr (cr_role a)), (''host'', JStr (cr_host a))]"

record agent_docker_create = agent_create +
  cr_image :: string
  cr_hostId :: string

definition docker_create_fields :: "agent_docker_create \<Rightarrow> (string \<times> json) list" where
  "docker_create_fields a =
     agent_create_fields (agent_create.truncate a) @ [(''image'', JStr (cr_image a)), (''hostId'', JStr (cr_hostId a))]"

text \<open>The update classes allow extra members.\<close>

record agent_update =
  au_name :: "string option"
  au_label :: "string option"
  au_program :: "string option"
  au_workingDirectory :: "string option"
  au_programArgs :: "string list option"
  au_taskDescription :: "string option"
  au_tags :: "string list option"
  au_owner :: "string option"
  au_role :: "string option"
  au_host :: "string option"
  au_status :: "string option"
  au_extra :: "(string \<times> json) list"

definition agent_update_fields :: "agent_update \<Rightarrow> (string \<times> json) list" where
  "agent_update_fields u =
     au_extra u @
     [(''name'', or_null JStr (au_name u)), (''label'', or_null JStr (au_label u)), (''program'', or_null JStr (au_program u)),
      (''workingDirectory'', or_null JStr (au_workingDirectory u)), (''programArgs'', or_null (\<lambda>xs. jstrs xs) (au_programArgs u)),
      (''taskDescription'', or_null JStr (au_taskDescription u)), (''tags'', or_null (\<lambda>xs. jstrs xs) (au_tags u)),
      (''owner'', or_null JStr (au_owner u)), (''role'', or_null JStr (au_role u)), (''host'', or_null JStr (au_host u)),
      (''status'', or_null JStr (au_status u))]"

record team_body =
  tb_name :: string
  tb_agentIds :: "string list"

definition team_fields :: "team_body \<Rightarrow> (string \<times> json) list" where
  "team_fields t = [(''name'', JStr (tb_name t)), (''agentIds'', jstrs (tb_agentIds t))]"

record task_create =
  tc_subject :: string
  tc_description :: string
  tc_assigneeAgentId :: string
  tc_blockedBy :: "string list"
  tc_type :: string

definition task_create_fields :: "task_create \<Rightarrow> (string \<times> json) list" where
  "task_create_fields t =
     [(''subject'', JStr (tc_subject t)), (''description'', JStr (tc_description t)),
      (''assigneeAgentId'', JStr (tc_assigneeAgentId t)), (''blockedBy'', jstrs (tc_blockedBy t)), (''type'', JStr (tc_type t))]"

record task_update =
  tu_subject :: "string option"
  tu_description :: "string option"
  tu_assigneeAgentId :: "string option"
  tu_blockedBy :: "string list option"
  tu_type :: "string option"
  tu_status :: "string option"
  tu_extra :: "(string \<times> json) list"

definition task_update_fields :: "task_update \<Rightarrow> (string \<times> json) list" where
  "task_update_fields u =
     tu_extra u @
     [(''subject'', or_null JStr (tu_subject u)), (''description'', or_null JStr (tu_description u)),
      (''assigneeAgentId'', or_null JStr (tu_assigneeAgentId u)), (''blockedBy'', or_null (\<lambda>xs. jstrs xs) (tu_blockedBy u)),
      (''type'', or_null JStr (tu_type u)), (''status'', or_null JStr (tu_status u))]"


record failure_spec =
  fs_type :: string
  fs_parameters :: "(string \<times> json) list"

definition failure_fields :: "failure_spec \<Rightarrow> (string \<times> json) list" where
  "failure_fields f = [(''type'', JStr (fs_type f)), (''parameters'', jobj (fs_parameters f))]"

section \<open>The operations\<close>

definition cl_health :: "api_config \<Rightarrow> schema \<Rightarrow> 'w transport \<Rightarrow> 'w \<Rightarrow> json option \<times> 'w" where
  "cl_health cfg sc tr w =
     (case api_request cfg tr ''GET'' ''/v1/health'' None w of
        (Inr (Some data), w1) \<Rightarrow> (sc_health sc data, w1)
      | (_, w1) \<Rightarrow> (None, w1))"

definition cl_version :: "api_config \<Rightarrow> schema \<Rightarrow> 'w transport \<Rightarrow> ('w, json) call" where
  "cl_version cfg sc tr = and_then (api_request cfg tr ''GET'' ''/v1/version'' None) (\<lambda>data. Option.bind data (sc_version sc))"

definition cl_list_agents :: "api_config \<Rightarrow> schema \<Rightarrow> 'w transport \<Rightarrow> ('w, json list) call" where
  "cl_list_agents cfg sc tr = list_call (sc_agent sc) ''agents'' (api_request cfg tr ''GET'' ''/v1/agents'' None)"

definition cl_create_agent :: "api_config \<Rightarrow> schema \<Rightarrow> 'w transport \<Rightarrow> agent_create \<Rightarrow> ('w, json) call" where
  "cl_create_agent cfg sc tr a =
     entity_call (sc_agent sc) ''agent'' (api_request cfg tr ''POST'' ''/v1/agents'' (Some (dump_set (agent_create_fields a))))"

definition cl_create_docker_agent :: "api_config \<Rightarrow> schema \<Rightarrow> 'w transport \<Rightarrow> agent_docker_create \<Rightarrow> ('w, json) call" where
  "cl_create_docker_agent cfg sc tr a =
     entity_call (sc_agent sc) ''agent'' (api_request cfg tr ''POST'' ''/v1/agents/docker'' (Some (dump_set (docker_create_fields a))))"

definition cl_get_agent :: "api_config \<Rightarrow> schema \<Rightarrow> 'w transport \<Rightarrow> string \<Rightarrow> ('w, json) call" where
  "cl_get_agent cfg sc tr agent_id =
     entity_call (sc_agent sc) ''agent'' (api_request cfg tr ''GET'' (''/v1/agents/'' @ agent_id) None)"

definition cl_get_agent_by_name :: "api_config \<Rightarrow> schema \<Rightarrow> 'w transport \<Rightarrow> string \<Rightarrow> ('w, json) call" where
  "cl_get_agent_by_name cfg sc tr name =
     entity_call (sc_agent sc) ''agent'' (api_request cfg tr ''GET'' (''/v1/agents/by-name/'' @ name) None)"

definition cl_update_agent :: "api_config \<Rightarrow> schema \<Rightarrow> 'w transport \<Rightarrow> string \<Rightarrow> agent_update \<Rightarrow> ('w, json) call" where
  "cl_update_agent cfg sc tr agent_id update =
     entity_call (sc_agent sc) ''agent''
       (api_request cfg tr ''PATCH'' (''/v1/agents/'' @ agent_id) (Some (dump_set (agent_update_fields update))))"

definition cl_start_agent :: "api_config \<Rightarrow> schema \<Rightarrow> 'w transport \<Rightarrow> string \<Rightarrow> ('w, json) call" where
  "cl_start_agent cfg sc tr agent_id =
     entity_call (sc_agent sc) ''agent'' (api_request cfg tr ''POST'' (''/v1/agents/'' @ agent_id @ ''/start'') None)"

definition cl_stop_agent :: "api_config \<Rightarrow> schema \<Rightarrow> 'w transport \<Rightarrow> string \<Rightarrow> ('w, json) call" where
  "cl_stop_agent cfg sc tr agent_id =
     entity_call (sc_agent sc) ''agent'' (api_request cfg tr ''POST'' (''/v1/agents/'' @ agent_id @ ''/stop'') None)"

definition cl_delete_agent :: "api_config \<Rightarrow> schema \<Rightarrow> 'w transport \<Rightarrow> string \<Rightarrow> ('w, string) call" where
  "cl_delete_agent cfg sc tr agent_id =
     and_then (api_request cfg tr ''DELETE'' (''/v1/agents/'' @ agent_id) None) (get_deleted sc agent_id)"

definition cl_list_teams :: "api_config \<Rightarrow> schema \<Rightarrow> 'w transport \<Rightarrow> ('w, json list) call" where
  "cl_list_teams cfg sc tr = list_call (sc_team sc) ''teams'' (api_request cfg tr ''GET'' ''/v1/teams'' None)"

definition cl_create_team :: "api_config \<Rightarrow> schema \<Rightarrow> 'w transport \<Rightarrow> team_body \<Rightarrow> ('w, json) call" where
  "cl_create_team cfg sc tr t =
     entity_call (sc_team sc) ''team'' (api_request cfg tr ''POST'' ''/v1/teams'' (Some (dump_set (team_fields t))))"

definition cl_get_team :: "api_config \<Rightarrow> schema \<Rightarrow> 'w transport \<Rightarrow> string \<Rightarrow> ('w, json) call" where
  "cl_get_team cfg sc tr team_id =
     entity_call (sc_team sc) ''team'' (api_request cfg tr ''GET'' (''/v1/teams/'' @ team_id) None)"

definition cl_update_team :: "api_config \<Rightarrow> schema \<Rightarrow> 'w transport \<Rightarrow> string \<Rightarrow> team_body \<Rightarrow> ('w, json) call" where
  "cl_update_team cfg sc tr team_id update =
     entity_call (sc_team sc) ''team'' (api_request cfg tr ''PUT'' (''/v1/teams/'' @ team_id) (Some (dump_all (team_fields update))))"

definition cl_delete_team :: "api_config \<Rightarrow> schema \<Rightarrow> 'w transport \<Rightarrow> string \<Rightarrow> ('w, string) call" where
  "cl_delete_team cfg sc tr team_id =
     and_then (api_request cfg tr ''DELETE'' (''/v1/teams/'' @ team_id) None) (get_deleted sc team_id)"

definition cl_list_tasks :: "api_config \<Rightarrow> schema \<Rightarrow> 'w transport \<Rightarrow> ('w, json list) call" where
  "cl_list_tasks cfg sc tr = list_call (sc_task sc) ''tasks'' (api_request cfg tr ''GET'' ''/v1/tasks'' None)"

definition cl_list_team_tasks :: "api_config \<Rightarrow> schema \<Rightarrow> 'w transport \<Rightarrow> string \<Rightarrow> ('w, json list) call" where
  "cl_list_team_tasks cfg sc tr team_id =
     list_call (sc_task sc) ''tasks'' (api_request cfg tr ''GET'' (''/v1/teams/'' @ team_id @ ''/tasks'') None)"

definition cl_create_task :: "api_config \<Rightarrow> schema \<Rightarrow> 'w transport \<Rightarrow> string \<Rightarrow> task_create \<Rightarrow> ('w, json) call" where
  "cl_create_task cfg sc tr team_id t =
     entity_call (sc_task sc) ''task''
       (api_request cfg tr ''POST'' (''/v1/teams/'' @ team_id @ ''/tasks'') (Some (dump_set (task_create_fields t))))"

definition task_path :: "string \<Rightarrow> string \<Rightarrow> string" where
  "task_path team_id task_id = ''/v1/teams/'' @ team_id @ ''/tasks/'' @ task_id"

definition cl_get_task :: "api_config \<Rightarrow> schema \<Rightarrow> 'w transport \<Rightarrow> string \<Rightarrow> string \<Rightarrow> ('w, json) call" where
  "cl_get_task cfg sc tr team_id task_id =
     entity_call (sc_task sc) ''task'' (api_request cfg tr ''GET'' (task_path team_id task_id) None)"

definition cl_update_task ::
    "api_config \<Rightarrow> schema \<Rightarrow> 'w transport \<Rightarrow> string \<Rightarrow> string \<Rightarrow> task_update \<Rightarrow> bool \<Rightarrow> ('w, json) call" where
  "cl_update_task cfg sc tr team_id task_id update partial =
     (let meth = (if partial then ''PATCH'' else ''PUT'');
          payload = (if partial then dump_set (task_update_fields update) else dump_all (task_update_fields update))
      in entity_call (sc_task sc) ''task'' (api_request cfg tr meth (task_path team_id task_id) (Some payload)))"

definition cl_list_chaos :: "api_config \<Rightarrow> schema \<Rightarrow> 'w transport \<Rightarrow> ('w, json list) call" where
  "cl_list_chaos cfg sc tr = list_call (sc_fault sc) ''faults'' (api_request cfg tr ''GET'' ''/v1/chaos'' None)"

definition cl_inject_chaos :: "api_config \<Rightarrow> schema \<Rightarrow> 'w transport \<Rightarrow> string \<Rightarrow> failure_spec option \<Rightarrow> ('w, json) call" where
  "cl_inject_chaos cfg sc tr fault_type spec =
     (let body = (case spec of None \<Rightarrow> JObj [] | Some f \<Rightarrow> dump_all (failure_fields f))
      in entity_call (sc_fault sc) ''fault'' (api_request cfg tr ''POST'' (''/v1/chaos/'' @ fault_type) (Some body)))"

definition cl_delete_chaos :: "api_config \<Rightarrow> schema \<Rightarrow> 'w transport \<Rightarrow> string \<Rightarrow> ('w, string) call" where
  "cl_delete_chaos cfg sc tr fault_id =
     and_then (api_request cfg tr ''DELETE'' (''/v1/chaos/'' @ fault_id) None) (get_deleted sc fault_id)"


section \<open>The client at the server\<close>

text \<open>
  The client's requests answered by the routes. A \<open>link\<close> holds what lies between them: the client's JSON printer and
  reader, the text of a JSON response, the address the server sees and the readings of its clock. Paths arrive as they are
  sent, which holds for identifiers of unreserved characters. A request whose handler throws is answered by nothing.
\<close>

record link =
  lk_print :: "json \<Rightarrow> string"
  lk_read :: "string \<Rightarrow> json option"
  lk_show :: "json \<Rightarrow> string"
  lk_addr :: string
  lk_now :: int
  lk_now' :: int

definition answer_of :: "link \<Rightarrow> http_response \<Rightarrow> http_answer" where
  "answer_of lk r =
     (case rs_content r of
        Json_Content j \<Rightarrow> \<lparr>an_status = rs_status r, an_json = Some j, an_text = lk_show lk j, an_empty = False\<rparr>
      | Text_Content ty s \<Rightarrow> \<lparr>an_status = rs_status r, an_json = lk_read lk s, an_text = s, an_empty = (s = [])\<rparr>)"

definition sent_request :: "link \<Rightarrow> string \<Rightarrow> string \<Rightarrow> (string \<times> string) list \<Rightarrow> json option \<Rightarrow> http_request" where
  "sent_request lk meth path headers body =
     \<lparr>rq_method = meth, rq_path = path, rq_header = map_of headers, rq_param = Map.empty,
      rq_body = (case body of None \<Rightarrow> [] | Some j \<Rightarrow> lk_print lk j), rq_remote_addr = lk_addr lk\<rparr>"

definition to_server :: "link \<Rightarrow> route_env \<Rightarrow> app transport" where
  "to_server lk env meth path headers body a =
     (case serve_request env (lk_now lk) (lk_now' lk) (sent_request lk meth path headers body) a of
        (Inl e, a1) \<Rightarrow> (Broken, a1)
      | (Inr r, a1) \<Rightarrow> (Answer (answer_of lk r), a1))"

definition carries :: "link \<Rightarrow> route_env \<Rightarrow> json \<Rightarrow> bool" where
  "carries lk env j \<longleftrightarrow> lk_print lk j \<noteq> [] \<and> x_parse (r_store env) (lk_print lk j) = Some j"

definition plain :: "string \<Rightarrow> bool" where
  "plain s \<longleftrightarrow> s \<noteq> [] \<and> CHR ''/'' \<notin> set s"

lemma split_slash_plain: "CHR ''/'' \<notin> set s \<Longrightarrow> split_slash acc s = [rev acc @ s]"
  by (induction s arbitrary: acc) auto

lemma split_slash_join:
  "CHR ''/'' \<notin> set s \<Longrightarrow> split_slash acc (s @ CHR ''/'' # r) = (rev acc @ s) # split_slash [] r"
  by (induction s arbitrary: acc) auto

lemma segments_task_path:
  assumes "plain team" "plain task"
  shows "segments (task_path team task) = [''v1'', ''teams'', team, ''tasks'', task]"
proof -
  have "task_path team task =
      CHR ''/'' # ''v1'' @ CHR ''/'' # ''teams'' @ CHR ''/'' # team @ CHR ''/'' # ''tasks'' @ CHR ''/'' # task"
    by (simp add: task_path_def)
  then show ?thesis using assms
    by (simp add: segments_def plain_def split_slash_plain split_slash_join)
qed

lemma segments_team_tasks:
  assumes "plain team"
  shows "segments (''/v1/teams/'' @ team @ ''/tasks'') = [''v1'', ''teams'', team, ''tasks'']"
proof -
  have "''/v1/teams/'' @ team @ ''/tasks'' =
      CHR ''/'' # ''v1'' @ CHR ''/'' # ''teams'' @ CHR ''/'' # team @ CHR ''/'' # ''tasks''"
    by simp
  then show ?thesis using assms
    by (simp add: segments_def plain_def split_slash_plain split_slash_join)
qed

lemma segments_agent_act:
  assumes "plain ident" "plain act"
  shows "segments (''/v1/agents/'' @ ident @ CHR ''/'' # act) = [''v1'', ''agents'', ident, act]"
proof -
  have "''/v1/agents/'' @ ident @ CHR ''/'' # act = CHR ''/'' # ''v1'' @ CHR ''/'' # ''agents'' @ CHR ''/'' # ident @ CHR ''/'' # act"
    by simp
  then show ?thesis using assms
    by (simp add: segments_def plain_def split_slash_plain split_slash_join)
qed

text \<open>A request is turned away before routing, or reaches its handler; either way the filter leaves the orchestrator alone.\<close>

lemma served_cases:
  obtains (turned_away) r a' where "serve_request env now now' req a = (Inr r, a')" "a_orch a' = a_orch a"
      "rs_status r = 401 \<and> \<not> validate (r_api_key env) req \<or> rs_status r = 429"
    | (handled) a' where "serve_request env now now' req a = handle env req a'" "a_orch a' = a_orch a"
proof -
  have "\<exists>early a'. pre_routing env now now' req a = (Inr early, a') \<and> a_orch a' = a_orch a
      \<and> (\<forall>r. early = Some r \<longrightarrow> rs_status r = 401 \<and> \<not> validate (r_api_key env) req \<or> rs_status r = 429)"
    by (cases "limiter_allow (rq_remote_addr req) now (a_limiter a)")
      (simp add: pre_routing_def Let_def unauthorized_def rate_limited_def)
  then obtain early a' where *: "pre_routing env now now' req a = (Inr early, a')" "a_orch a' = a_orch a"
    "\<And>r. early = Some r \<Longrightarrow> rs_status r = 401 \<and> \<not> validate (r_api_key env) req \<or> rs_status r = 429" by blast
  show ?thesis
  proof (cases early)
    case None
    with * show ?thesis by (intro handled [of a']) (simp_all add: serve_request_def bind_op_def)
  next
    case (Some r)
    with * show ?thesis by (intro turned_away [of r a']) (simp_all add: serve_request_def bind_op_def ret_def)
  qed
qed

text \<open>What the client makes of an error status.\<close>

lemma answer_of_status [simp]: "an_status (answer_of lk r) = rs_status r"
  by (simp add: answer_of_def split: content.split)

lemma api_request_error:
  assumes "serve_request env (lk_now lk) (lk_now' lk) (sent_request lk meth path (auth_headers cfg []) body) a = (Inr r, a')"
    and "400 \<le> rs_status r" "rs_status r \<le> 599"
  shows "api_request cfg (to_server lk env) meth path body a = (Inl (Api_Error (rs_status r) (error_detail (answer_of lk r))), a')"
  using assms by (simp add: api_request_def to_server_def read_answer_def)

lemma entity_call_error: "m w = (Inl e, w') \<Longrightarrow> entity_call check key m w = (Inl e, w')"
  by (simp add: entity_call_def and_then_def)


subsection \<open>Full updates\<close>

lemma jlookup_task_update:
  "jlookup (dump_all (task_update_fields u)) ''subject'' = Some (or_null JStr (tu_subject u))"
  "jlookup (dump_all (task_update_fields u)) ''description'' = Some (or_null JStr (tu_description u))"
  "jlookup (dump_all (task_update_fields u)) ''blockedBy'' = Some (or_null (\<lambda>xs. jstrs xs) (tu_blockedBy u))"
  "jlookup (dump_all (task_update_fields u)) ''status'' = Some (or_null JStr (tu_status u))"
  "jlookup (dump_all (task_update_fields u)) ''type'' = Some (or_null JStr (tu_type u))"
  by (simp_all add: dump_all_def task_update_fields_def jobj_def map_of_obj_of)

lemma string_check_null:
  "require_string_if_present body k = (case jlookup body k of Some v \<Rightarrow> if is_string v then None
     else Some (reply_bad_request (quoted k @ '' must be a string'')) | None \<Rightarrow> None)"
  by (simp add: require_string_if_present_def split: option.split)

text \<open>Validation of a full update with an unset text or dependency list ends in an error status.\<close>

lemma full_update_checks:
  assumes "tu_subject u = None \<or> tu_description u = None \<or> tu_blockedBy u = None"
    and "body = dump_all (task_update_fields u)"
  shows "\<exists>r. rs_status r = 400 \<and> first_failure
       [Inr (require_string_if_present body ''subject''),
        if_present body ''subject'' (as_string (check_field_length ''subject'' kMaxSubjectLen)),
        Inr (require_string_if_present body ''description''),
        if_present body ''description'' (as_string (check_field_length ''description'' kMaxDescriptionLen)),
        if_present body ''status'' (if_string (require_enum ''status'' kValidTaskStatuses)),
        if_present body ''type'' (if_string (require_enum ''type'' kValidTaskTypes)),
        if_present body ''blockedBy'' (\<lambda>v. Inr (require_string_array ''blockedBy'' v))] = Inr (Some r)"
proof -
  have bad: "rs_status (reply_bad_request msg) = 400" for msg
    by (simp add: reply_bad_request_def reply_json_def)
  show ?thesis
    using assms(1) unfolding assms(2)
    by (cases "tu_subject u"; cases "tu_description u"; cases "tu_status u"; cases "tu_type u"; cases "tu_blockedBy u")
      (simp_all add: string_check_null if_present_def jlookup_task_update or_null_def as_string_def if_string_def
        check_field_length_def require_enum_def require_string_array_def bad)
qed

lemma handle_update_task:
  assumes "plain team" "plain task" "rq_method req = ''PUT''" "rq_path req = task_path team task"
  shows "handle env req = update_task_handler env req team task"
  using assms by (auto simp: handle_def Let_def segments_task_path plain_def)

lemma full_update_refused_by_handler:
  assumes "tu_subject u = None \<or> tu_description u = None \<or> tu_blockedBy u = None"
    and "carries lk env (dump_all (task_update_fields u))"
    and "rq_body req = lk_print lk (dump_all (task_update_fields u))"
  shows "\<exists>r. update_task_handler env req team task a = (Inr r, a) \<and> rs_status r \<in> {400, 413}"
proof (cases "length (rq_body req) > kMaxBodyBytes")
  case True
  then show ?thesis by (simp add: update_task_handler_def with_body_def parse_body_def ret_def reply_json_def)
next
  case False
  then have "parse_body env req = Inr (dump_all (task_update_fields u))"
    using assms(2,3) by (simp add: parse_body_def carries_def)
  then show ?thesis
    using full_update_checks [OF assms(1) refl]
    by (force simp: update_task_handler_def with_body_def checked_def bind_op_def lift_result_def ret_def)
qed

text \<open>
  C40: a full replacement of a task through the client, \<open>update_task(..., partial=False)\<close>, is always refused by the server
  when the subject, the description or the dependency list is left unset: the client sends null for it, the server answers with
  an error status, and nothing behind the interface changes.
\<close>

theorem full_update_refused:
  assumes "tu_subject u = None \<or> tu_description u = None \<or> tu_blockedBy u = None"
    and "plain team" "plain task" and "carries lk env (dump_all (task_update_fields u))"
  shows "\<exists>st detail a'. cl_update_task cfg sc (to_server lk env) team task u False a = (Inl (Api_Error st detail), a')
           \<and> st \<in> {400, 401, 413, 429} \<and> a_orch a' = a_orch a"
proof -
  let ?body = "Some (dump_all (task_update_fields u))"
  let ?req = "sent_request lk ''PUT'' (task_path team task) (auth_headers cfg []) ?body"
  obtain r a' where *: "serve_request env (lk_now lk) (lk_now' lk) ?req a = (Inr r, a')" "a_orch a' = a_orch a"
    "rs_status r \<in> {400, 401, 413, 429}"
  proof (cases rule: served_cases [of env "lk_now lk" "lk_now' lk" ?req a])
    case (turned_away r a')
    then show ?thesis using that by blast
  next
    case (handled a')
    moreover have "handle env ?req = update_task_handler env ?req team task"
      using assms(2,3) by (intro handle_update_task) (simp_all add: sent_request_def)
    ultimately show ?thesis
      using full_update_refused_by_handler [OF assms(1,4), of ?req team task a'] that by (fastforce simp: sent_request_def)
  qed
  from *(3) have "400 \<le> rs_status r" "rs_status r \<le> 599" by auto
  from api_request_error [OF *(1) this] *(2,3) show ?thesis
    by (auto simp: cl_update_task_def intro: entity_call_error)
qed


subsection \<open>Reading back what was created\<close>

lemma task_field_keys:
  assumes "read_fields task_fields body = Inr flds"
  shows "map fst flds = [''subject'', ''description'', ''assigneeAgentId'', ''blockedBy'', ''type'']"
  using assms by (auto simp: read_fields_def task_fields_def str_field_def arr_field_def bind_result_Inr_iff)

lemma jlookup_new_task:
  assumes "map fst flds = [''subject'', ''description'', ''assigneeAgentId'', ''blockedBy'', ''type'']"
  shows "jlookup (jobj ((''id'', i) # (''teamId'', v) # flds @
           [(''status'', p), (''createdAt'', c), (''updatedAt'', u), (''completedAt'', d)])) = map_of
           ((''id'', i) # (''teamId'', v) # flds @ [(''status'', p), (''createdAt'', c), (''updatedAt'', u), (''completedAt'', d)])"
  by (rule jlookup_jobj) (simp add: assms)

lemma ensure_loaded_loads:
  assumes "ensure_loaded x c s = (Inr y, s')"
  shows "loaded c s'"
proof -
  have [simp]: "loaded c (set_loaded c s)" for s by (cases c) auto
  show ?thesis using assms
    by (auto simp: ensure_loaded_def op_simps split: if_splits prod.splits sum.splits option.splits)
qed

lemma ensure_loaded_again: "loaded c s \<Longrightarrow> ensure_loaded x c s = (Inr (), s)"
  by (simp add: ensure_loaded_def op_simps)

lemma file_issue_keeps:
  assumes "file_issue x title ty c e s = (Inr e', s')" and "is_object e"
  shows "s_tasks_loaded s' = s_tasks_loaded s" and "k \<noteq> ''_github_issue'' \<Longrightarrow> jlookup e' k = jlookup e k"
    and "is_object e'"
  using assms
  by (auto simp: file_issue_def op_simps create_issue_def gh_request_def jlookup_jset_other
      split: if_splits sum.splits prod.splits)

lemma created_task:
  assumes "create_task x team body s = (Inr result, s')"
  obtains task n where "result = jobj [(''task'', task)]" "map_of (s_tasks s') (x_uuid x n) = Some task" "s_tasks_loaded s'"
    "jlookup task ''id'' = Some (JStr (x_uuid x n))" "jlookup task ''teamId'' = Some (JStr team)"
proof -
  let ?task0 = "\<lambda>i ts flds. jobj ((''id'', JStr i) # (''teamId'', JStr team) # flds
      @ [(''status'', JStr ''pending''), (''createdAt'', JStr ts), (''updatedAt'', JStr ts), (''completedAt'', JNull)])"
  from assms obtain y s1 flds task s3 where 1: "ensure_tasks_loaded x s = (Inr y, s1)"
    and flds: "read_fields task_fields body = Inr flds"
    and 2: "file_issue x (task_title (x_uuid x (s_draws s1)) (?task0 (x_uuid x (s_draws s1)) (x_now x (s_ticks s1)) flds))
      (''tasks/'' @ x_uuid x (s_draws s1)) kTasks (?task0 (x_uuid x (s_draws s1)) (x_now x (s_ticks s1)) flds)
      (s1\<lparr>s_draws := Suc (s_draws s1), s_ticks := Suc (s_ticks s1)\<rparr>) = (Inr task, s3)"
    and 3: "result = jobj [(''task'', task)]" "s_tasks s' = AList.update (x_uuid x (s_draws s1)) task (s_tasks s3)"
      "s_tasks_loaded s' = s_tasks_loaded s3"
    by (auto simp: create_task_def bind_op_Inr_iff generate_uuid_def lift_result_def now_iso8601_def Let_def put_entity_def
        with_metrics_def modify_def ret_def)
  let ?i = "x_uuid x (s_draws s1)"
  define task0 where "task0 = ?task0 ?i (x_now x (s_ticks s1)) flds"
  have "is_object task0" by (simp add: task0_def)
  note keeps = file_issue_keeps [OF 2 [folded task0_def] this]
  have "s_tasks_loaded s1" using ensure_loaded_loads [of x kTasks s y s1] 1 by (simp add: ensure_tasks_loaded_def)
  then have "s_tasks_loaded s'" using 3 keeps(1) by simp
  moreover have "jlookup task ''id'' = Some (JStr ?i)" "jlookup task ''teamId'' = Some (JStr team)"
    using keeps(2) jlookup_new_task [OF task_field_keys [OF flds]] by (simp_all add: task0_def)
  ultimately show ?thesis using that [of task "s_draws s1"] 3 by simp
qed


lemma emit_store: "on_orch (emit m) a = (Inr (), a') \<Longrightarrow> o_store (a_orch a') = o_store (a_orch a)"
  by (auto simp: on_orch_def emit_def op_simps)

lemma dispatch_flat_store:
  assumes "dispatch_flat_task team task a = (Inr r, a')"
  shows "o_store (a_orch a') = o_store (a_orch a)"
  using assms by (auto simp: dispatch_flat_task_def bind_op_Inr_iff lift_result_def Let_def dest!: emit_store)

lemma first_failure_mem: "first_failure vs = Inr (Some r) \<Longrightarrow> Inr (Some r) \<in> set vs"
  by (induction vs rule: first_failure.induct) auto

lemma bad_request_status [simp]: "rs_status (reply_bad_request msg) = 400"
  by (simp add: reply_bad_request_def reply_json_def)

lemma check_status:
  "require_field_present body k = Some r \<Longrightarrow> rs_status r = 400"
  "require_string_if_present body k = Some r \<Longrightarrow> rs_status r = 400"
  "require_string_array k v = Some r \<Longrightarrow> rs_status r = 400"
  "require_nonempty_string k str = Some r \<Longrightarrow> rs_status r = 400"
  "check_field_length k m str = Some r \<Longrightarrow> rs_status r = 400"
  "require_enum k xs str = Some r \<Longrightarrow> rs_status r = 400"
  by (auto simp: require_field_present_def require_string_if_present_def require_string_array_def require_nonempty_string_def
      check_field_length_def require_enum_def split: if_splits option.splits)

lemma present_check_status:
  "(\<And>str r. check str = Some r \<Longrightarrow> rs_status r = 400) \<Longrightarrow> if_present body k (as_string check) = Inr (Some r) \<Longrightarrow> rs_status r = 400"
  "(\<And>str r. check str = Some r \<Longrightarrow> rs_status r = 400) \<Longrightarrow> if_present body k (if_string check) = Inr (Some r) \<Longrightarrow> rs_status r = 400"
  "if_present body k (\<lambda>v. Inr (require_string_array k v)) = Inr (Some r) \<Longrightarrow> rs_status r = 400"
  by (auto simp: if_present_def as_string_def if_string_def bind_result_Inr_iff dest: check_status(3)
      split: option.splits json.splits)

abbreviation task_checks :: "json \<Rightarrow> http_response option result list" where
  "task_checks body \<equiv>
     [Inr (require_field_present body ''subject''),
      Inr (require_string_if_present body ''subject''),
      if_present body ''subject'' (as_string (require_nonempty_string ''subject'')),
      if_present body ''subject'' (as_string (check_field_length ''subject'' kMaxSubjectLen)),
      Inr (require_string_if_present body ''description''),
      if_present body ''description'' (as_string (check_field_length ''description'' kMaxDescriptionLen)),
      if_present body ''type'' (if_string (require_enum ''type'' kValidTaskTypes)),
      if_present body ''blockedBy'' (\<lambda>v. Inr (require_string_array ''blockedBy'' v))]"

lemma task_check_status:
  assumes "first_failure (task_checks body) = Inr (Some r)"
  shows "rs_status r = 400"
proof -
  from first_failure_mem [OF assms]
  consider "require_field_present body ''subject'' = Some r" | "require_string_if_present body ''subject'' = Some r"
    | "if_present body ''subject'' (as_string (require_nonempty_string ''subject'')) = Inr (Some r)"
    | "if_present body ''subject'' (as_string (check_field_length ''subject'' kMaxSubjectLen)) = Inr (Some r)"
    | "require_string_if_present body ''description'' = Some r"
    | "if_present body ''description'' (as_string (check_field_length ''description'' kMaxDescriptionLen)) = Inr (Some r)"
    | "if_present body ''type'' (if_string (require_enum ''type'' kValidTaskTypes)) = Inr (Some r)"
    | "if_present body ''blockedBy'' (\<lambda>v. Inr (require_string_array ''blockedBy'' v)) = Inr (Some r)"
    unfolding set_simps insert_iff empty_iff sum.inject by metis
  then show ?thesis
    by cases (erule check_status present_check_status [rotated] present_check_status(3), (erule check_status)?)+
qed

lemma posted_task:
  assumes "post_team_tasks env req team a = (Inr r, a')" and "\<not> (400 \<le> rs_status r \<and> rs_status r \<le> 599)"
  obtains task n where "r = reply_json 201 (jobj [(''task'', task)])"
    "map_of (s_tasks (o_store (a_orch a'))) (x_uuid (r_store env) n) = Some task" "s_tasks_loaded (o_store (a_orch a'))"
    "jlookup task ''id'' = Some (JStr (x_uuid (r_store env) n))" "jlookup task ''teamId'' = Some (JStr team)"
proof -
  obtain body where body: "parse_body env req = Inr body"
    using assms by (auto simp: post_team_tasks_def with_body_def parse_body_def ret_def reply_json_def
        split: if_splits option.splits)
  obtain v where v: "first_failure (task_checks body) = Inr v"
    using assms(1) body by (auto simp: post_team_tasks_def with_body_def checked_def bind_op_def lift_result_def
        simp del: first_failure.simps split: sum.splits)
  have "v = None"
  proof (rule ccontr)
    assume "v \<noteq> None"
    with v obtain q where q: "v = Some q" by blast
    then have "rs_status q = 400" using task_check_status v by blast
    moreover have "r = q" using assms(1) body v q
      by (simp add: post_team_tasks_def with_body_def checked_def bind_op_def lift_result_def ret_def del: first_failure.simps)
    ultimately show False using assms(2) by simp
  qed
  with assms(1) body v obtain result a1 a2 a3 where
      c: "on_db (create_task (r_store env) team body) a = (Inr result, a1)"
    and p: "publish_msg ''hi.tasks.created'' result a1 = (Inr (), a2)"
    and d: "dispatch_flat_task team (jget result ''task'') a2 = (Inr (), a3)"
    and r: "r = reply_json 201 result" "a' = a3"
    by (auto simp: post_team_tasks_def with_body_def checked_def bind_op_Inr_iff lift_result_def ret_def simp del: first_failure.simps)
  from c have "create_task (r_store env) team body (o_store (a_orch a)) = (Inr result, o_store (a_orch a1))"
    by (auto simp: on_orch_def on_store_def split: prod.splits)
  moreover have "o_store (a_orch a') = o_store (a_orch a1)"
    using emit_store [OF p] dispatch_flat_store [OF d] r(2) by simp
  ultimately show ?thesis using that r(1) by (elim created_task) auto
qed


lemma handle_create_task:
  assumes "plain team" "rq_method req = ''POST''" "rq_path req = ''/v1/teams/'' @ team @ ''/tasks''"
  shows "handle env req = post_team_tasks env req team"
proof -
  have "segments (rq_path req) = [''v1'', ''teams'', team, ''tasks'']"
    using segments_team_tasks [OF assms(1)] assms(3) by simp
  then show ?thesis using assms(1,2) by (auto simp: handle_def Let_def plain_def dispatch4_def)
qed

lemma handle_get_task:
  assumes "plain team" "plain task" "rq_method req = ''GET''" "rq_path req = task_path team task"
  shows "handle env req = get_task_route env team task"
  using assms by (auto simp: handle_def Let_def segments_task_path plain_def)

lemma strip_members:
  "jlookup (strip_internal_fields j) k = (if k = ''_github_issue'' then None else map_option strip_internal_fields (jlookup j k))"
proof (cases j)
  case (JObj kvs)
  have "map_of (filter (\<lambda>kv. fst kv \<noteq> ''_github_issue'') (map (map_prod id strip_internal_fields) kvs)) k =
      (if k = ''_github_issue'' then None else map_option strip_internal_fields (map_of kvs k))"
    by (induction kvs) auto
  with JObj show ?thesis by simp
qed auto

text \<open>What an entity call makes of a wrapped entity.\<close>

lemma entity_reply:
  assumes "serve_request env (lk_now lk) (lk_now' lk) (sent_request lk meth path (auth_headers cfg []) body) a =
      (Inr (reply_json st (jobj [(key, e)])), a')" and "st = 200 \<or> st = 201" and "key \<noteq> ''_github_issue''"
  shows "entity_call check key (api_request cfg (to_server lk env) meth path body) a =
      (case check (strip_internal_fields e) of None \<Rightarrow> Inl Raised_Other | Some t \<Rightarrow> Inr t, a')"
  using assms
  by (auto simp: entity_call_def and_then_def api_request_def to_server_def answer_of_def reply_json_def read_answer_def
      jobj_def obj_of_def get_entity_member_def split: option.split)

lemma sent_validates:
  assumes "ac_api_key cfg = Some (r_api_key env)"
  shows "validate (r_api_key env) (sent_request lk meth path (auth_headers cfg []) body)"
proof (cases "r_api_key env = []")
  case False
  then show ?thesis using assms
    by (intro validate_bearer) (simp_all add: sent_request_def auth_headers_def bearer_def)
qed (simp add: validate_def)

lemma validated_cases:
  assumes "validate (r_api_key env) req"
  obtains (limited) r a' where "serve_request env now now' req a = (Inr r, a')" "rs_status r = 429"
    | (handled) a' where "serve_request env now now' req a = handle env req a'" "a_orch a' = a_orch a"
proof (cases rule: served_cases [of env now now' req a])
  case (turned_away r a')
  then have "rs_status r = 429" using assms by blast
  with turned_away show ?thesis using limited by blast
qed (use handled in blast)


lemma get_task_stored:
  assumes "map_of (s_tasks (o_store (a_orch a))) task_id = Some task" "s_tasks_loaded (o_store (a_orch a))"
    and "jlookup task ''teamId'' = Some (JStr team)" "team \<noteq> []"
  shows "get_task_route env team task_id a = (Inr (reply_json 200 (jobj [(''task'', task)])), a)"
proof -
  have "ensure_tasks_loaded x (o_store (a_orch a)) = (Inr (), o_store (a_orch a))" for x
    using assms(2) by (simp add: ensure_tasks_loaded_def ensure_loaded_again)
  moreover have "\<not> is_null task" using assms(3) by (cases task) auto
  ultimately show ?thesis using assms
    by (simp add: get_task_route_def get_task_def on_orch_def on_store_def bind_op_def gets_def lift_result_def ret_def
        value_str_present reply_entity_def)
qed

lemma created_through_client:
  assumes key: "ac_api_key cfg = Some (r_api_key env)" and team: "plain team"
    and created: "cl_create_task cfg sc (to_server lk env) team body a = (Inr t, a1)"
  obtains task n where "map_of (s_tasks (o_store (a_orch a1))) (x_uuid (r_store env) n) = Some task"
    "s_tasks_loaded (o_store (a_orch a1))" "jlookup task ''id'' = Some (JStr (x_uuid (r_store env) n))"
    "jlookup task ''teamId'' = Some (JStr team)" "sc_task sc (strip_internal_fields task) = Some t"
proof -
  let ?path = "''/v1/teams/'' @ team @ ''/tasks''" and ?body = "Some (dump_set (task_create_fields body))"
  let ?req = "sent_request lk ''POST'' ?path (auth_headers cfg []) ?body"
  have no_error: "\<not> (400 \<le> rs_status r \<and> rs_status r \<le> 599)"
    if "serve_request env (lk_now lk) (lk_now' lk) ?req a = (Inr r, b)" for r b
    using api_request_error [OF that] created by (auto simp: cl_create_task_def entity_call_def and_then_def)
  obtain b where b: "serve_request env (lk_now lk) (lk_now' lk) ?req a = handle env ?req b"
    using sent_validates [OF key, of lk "''POST''" ?path ?body] no_error by (cases rule: validated_cases) auto
  have "handle env ?req = post_team_tasks env ?req team"
    by (rule handle_create_task [OF team]) (simp_all add: sent_request_def)
  then have post: "serve_request env (lk_now lk) (lk_now' lk) ?req a = post_team_tasks env ?req team b" using b by simp
  then obtain r b' where r: "post_team_tasks env ?req team b = (Inr r, b')" "b' = a1"
    using created by (auto simp: cl_create_task_def entity_call_def and_then_def api_request_def to_server_def
        split: prod.splits sum.splits option.splits)
  then obtain task n where task: "r = reply_json 201 (jobj [(''task'', task)])"
      "map_of (s_tasks (o_store (a_orch a1))) (x_uuid (r_store env) n) = Some task" "s_tasks_loaded (o_store (a_orch a1))"
      "jlookup task ''id'' = Some (JStr (x_uuid (r_store env) n))" "jlookup task ''teamId'' = Some (JStr team)"
    using posted_task [OF r(1)] no_error post by metis
  moreover have "sc_task sc (strip_internal_fields task) = Some t"
    using created entity_reply [OF trans [OF post r(1) [unfolded task(1)]]]
    by (auto simp: cl_create_task_def split: option.splits)
  ultimately show ?thesis using that by blast
qed

text \<open>
  C21: a task created through the client is read back through it. When \<open>create_task\<close> returns a task, \<open>get_task\<close> with the
  identifier in it returns the same task, whether or not the server keeps its tasks in GitHub issues, unless the rate limiter
  turns the second request away. Assumed are a client that holds the server's key, identifiers that contain no slash, and
  that the validation of a task keeps its identifier.
\<close>

theorem created_task_read_back:
  assumes key: "ac_api_key cfg = Some (r_api_key env)" and team: "plain team" and ids: "\<And>n. plain (x_uuid (r_store env) n)"
    and keeps: "\<And>j t. sc_task sc j = Some t \<Longrightarrow> jlookup t ''id'' = jlookup j ''id''"
    and created: "cl_create_task cfg sc (to_server lk env) team body a = (Inr t, a1)"
  shows "\<exists>ident a2. jlookup t ''id'' = Some (JStr ident)
           \<and> (cl_get_task cfg sc (to_server lk' env) team ident a1 = (Inr t, a2)
              \<or> (\<exists>detail. cl_get_task cfg sc (to_server lk' env) team ident a1 = (Inl (Api_Error 429 detail), a2)))"
proof -
  obtain task n where task: "map_of (s_tasks (o_store (a_orch a1))) (x_uuid (r_store env) n) = Some task"
      "s_tasks_loaded (o_store (a_orch a1))" "jlookup task ''id'' = Some (JStr (x_uuid (r_store env) n))"
      "jlookup task ''teamId'' = Some (JStr team)" and t: "sc_task sc (strip_internal_fields task) = Some t"
    by (rule created_through_client [OF key team created])
  let ?i = "x_uuid (r_store env) n"
  let ?get = "sent_request lk' ''GET'' (task_path team ?i) (auth_headers cfg []) None"
  have id: "jlookup t ''id'' = Some (JStr ?i)" using keeps [OF t] task(3) by (simp add: strip_members)
  have route: "handle env ?get = get_task_route env team ?i"
    by (rule handle_get_task [OF team ids]) (simp_all add: sent_request_def)
  from sent_validates [OF key, of lk' "''GET''" "task_path team ?i" None] show ?thesis
  proof (cases rule: validated_cases [of env ?get "lk_now lk'" "lk_now' lk'" a1])
    case (limited r a')
    with api_request_error [OF limited(1)] id show ?thesis
      by (auto simp: cl_get_task_def intro: entity_call_error)
  next
    case (handled a')
    then have "serve_request env (lk_now lk') (lk_now' lk') ?get a1 = (Inr (reply_json 200 (jobj [(''task'', task)])), a')"
      using get_task_stored [of a' ?i task team env] task team route by (simp add: plain_def)
    from entity_reply [OF this] t id show ?thesis by (simp add: cl_get_task_def)
  qed
qed


subsection \<open>Starting an agent\<close>

lemma post_agent_start_run:
  assumes "map_of (s_agents (o_store (a_orch a))) ident = Some agent" "s_agents_loaded (o_store (a_orch a))"
    and "\<not> s_gh (o_store (a_orch a))"
  shows "\<exists>a'. post_agent_start env ident a = (Inr (reply_json 200 (jobj [(''status'', JStr ''online''), (''id'', JStr ident)])), a')
           \<and> map_of (s_agents (o_store (a_orch a'))) ident = Some (jset ''status'' (JStr ''online'') agent)"
proof -
  have "ensure_agents_loaded x (o_store (a_orch a)) = (Inr (), o_store (a_orch a))" for x
    using assms(2) by (simp add: ensure_agents_loaded_def ensure_loaded_again)
  then show ?thesis using assms
    by (cases "jlookup (jset ''status'' (JStr ''online'') agent) ''_github_issue''")
      (simp_all add: post_agent_start_def start_agent_def set_agent_status_def on_orch_def on_store_def op_simps put_entity_def
        sync_issue_def with_issue_def publish_agent_updated_def emit_def jobj_def obj_of_def value_with_def Let_def)
qed

lemma handle_start_agent:
  assumes "plain ident" "rq_method req = ''POST''" "rq_path req = ''/v1/agents/'' @ ident @ ''/start''"
  shows "handle env req = post_agent_start env ident"
proof -
  have "segments (rq_path req) = [''v1'', ''agents'', ident, ''start'']"
    using segments_agent_act [OF assms(1), of "''start''"] assms(3) by (simp add: plain_def)
  then show ?thesis using assms(1,2) by (auto simp: handle_def Let_def plain_def dispatch4_def)
qed

text \<open>
  \<open>start_agent\<close> of the client never returns. The server answers a start with the status and the identifier of the agent
  only; the response class requires a name, so validation fails. The call raises although the agent has been started, unless
  the request was turned away for its credentials or its rate.
\<close>

lemma start_agent_raises:
  assumes named: "\<And>kvs. map_of kvs ''name'' = None \<Longrightarrow> sc_agent sc (JObj kvs) = None" and "plain ident"
    and "map_of (s_agents (o_store (a_orch a))) ident = Some agent" "s_agents_loaded (o_store (a_orch a))"
    and "\<not> s_gh (o_store (a_orch a))"
  shows "\<exists>e a'. cl_start_agent cfg sc (to_server lk env) ident a = (Inl e, a')
           \<and> (e = Raised_Other \<and> map_of (s_agents (o_store (a_orch a'))) ident = Some (jset ''status'' (JStr ''online'') agent)
              \<or> (\<exists>st detail. e = Api_Error st detail \<and> st \<in> {401, 429} \<and> a_orch a' = a_orch a))"
proof -
  let ?path = "''/v1/agents/'' @ ident @ ''/start''"
  let ?req = "sent_request lk ''POST'' ?path (auth_headers cfg []) None"
  have route: "handle env ?req = post_agent_start env ident"
    by (rule handle_start_agent [OF assms(2)]) (simp_all add: sent_request_def)
  show ?thesis
  proof (cases rule: served_cases [of env "lk_now lk" "lk_now' lk" ?req a])
    case (turned_away r a')
    then have "rs_status r = 401 \<or> rs_status r = 429" by blast
    with turned_away api_request_error [OF turned_away(1)] show ?thesis
      by (auto simp: cl_start_agent_def entity_call_def and_then_def)
  next
    case (handled a')
    with post_agent_start_run [of a' ident agent env] assms route obtain b where
      "serve_request env (lk_now lk) (lk_now' lk) ?req a =
        (Inr (reply_json 200 (jobj [(''status'', JStr ''online''), (''id'', JStr ident)])), b)"
      "map_of (s_agents (o_store (a_orch b))) ident = Some (jset ''status'' (JStr ''online'') agent)" by auto
    then show ?thesis using named
      by (simp add: cl_start_agent_def entity_call_def and_then_def api_request_def to_server_def answer_of_def reply_json_def
          read_answer_def jobj_def obj_of_def get_entity_member_def)
  qed
qed


subsection \<open>Lists\<close>

lemma validate_all_length: "validate_all check xs = Some ys \<Longrightarrow> length ys = length xs"
  by (induction xs arbitrary: ys) (auto simp: Option.bind_eq_Some_conv)

lemma strip_listing:
  assumes "key \<notin> {''_github_issue'', ''total'', ''limit'', ''offset''}"
  shows "jlookup (strip_internal_fields (listing key l k m)) key = Some (JArr (map strip_internal_fields (page l k m)))"
  using assms by (simp add: strip_members listing_def jlookup_jobj)

lemma paged_unasked:
  assumes "rq_param req = Map.empty" and "paged req f a = (Inr r, a')"
  shows "\<exists>j. f kDefaultLimit 0 a = (Inr j, a') \<and> r = reply_json 200 j"
  using assms by (auto simp: paged_def parse_pagination_def bind_op_Inr_iff ret_def)

lemma list_call_page:
  assumes "\<And>b r b'. handle env (sent_request lk ''GET'' path (auth_headers cfg []) None) b = (Inr r, b') \<Longrightarrow>
      \<exists>m. r = reply_json 200 (listing key kDefaultLimit 0 m)"
    and "key \<notin> {''_github_issue'', ''total'', ''limit'', ''offset''}"
    and "list_call check key (api_request cfg (to_server lk env) ''GET'' path None) a = (Inr ys, a')"
  shows "length ys \<le> kDefaultLimit"
proof -
  let ?req = "sent_request lk ''GET'' path (auth_headers cfg []) None"
  from assms(3) obtain r b where r: "serve_request env (lk_now lk) (lk_now' lk) ?req a = (Inr r, b)"
    and body: "read_answer (answer_of lk r) = Inr data \<Longrightarrow> Option.bind (get_list_member key data) (validate_all check) = Some ys"
    and ok: "\<not> (400 \<le> rs_status r \<and> rs_status r \<le> 599)" for data
    by (auto simp: list_call_def and_then_def api_request_def to_server_def read_answer_def
        split: prod.splits sum.splits option.splits if_splits)
  obtain m where m: "r = reply_json 200 (listing key kDefaultLimit 0 m)"
    using r ok assms(1) by (cases rule: served_cases [of env "lk_now lk" "lk_now' lk" ?req a]) fastforce+
  obtain kvs where kvs: "strip_internal_fields (listing key kDefaultLimit 0 m) = JObj kvs"
    by (simp add: listing_def jobj_def)
  have "map_of kvs key = Some (JArr (map strip_internal_fields (page kDefaultLimit 0 m)))"
    using strip_listing [OF assms(2), of kDefaultLimit 0 m] kvs by simp
  with body [of "Some (JObj kvs)"] m kvs
  have "validate_all check (map strip_internal_fields (page kDefaultLimit 0 m)) = Some ys"
    by (simp add: reply_json_def answer_of_def read_answer_def get_list_member_def iterate_json_def)
  from validate_all_length [OF this] show ?thesis by (simp add: page_def)
qed


lemma listing_routes:
  assumes "rq_method req = ''GET''"
  shows "rq_path req = ''/v1/agents'' \<Longrightarrow> handle env req = get_agents env req"
    and "rq_path req = ''/v1/teams'' \<Longrightarrow> handle env req = get_teams env req"
    and "rq_path req = ''/v1/tasks'' \<Longrightarrow> handle env req = get_tasks env req"
    and "rq_path req = ''/v1/chaos'' \<Longrightarrow> handle env req = get_chaos env req"
    and "plain team \<Longrightarrow> rq_path req = ''/v1/teams/'' @ team @ ''/tasks'' \<Longrightarrow> handle env req = get_team_tasks env req team"
proof -
  show "handle env req = get_team_tasks env req team" if "plain team" "rq_path req = ''/v1/teams/'' @ team @ ''/tasks''"
  proof -
    have "segments (rq_path req) = [''v1'', ''teams'', team, ''tasks'']"
      using segments_team_tasks [OF that(1)] that(2) by simp
    then show ?thesis using that(1) assms by (auto simp: handle_def Let_def plain_def dispatch4_def)
  qed
qed (simp_all add: assms handle_def segments_def dispatch2_def)

lemma on_db_Inr: "on_db m a = (Inr j, a') \<Longrightarrow> fst (m (o_store (a_orch a))) = Inr j"
  by (auto simp: on_orch_def on_store_def split: prod.splits)

lemma listed_routes:
  assumes "rq_param req = Map.empty"
  shows "get_agents env req a = (Inr r, a') \<Longrightarrow> \<exists>m. r = reply_json 200 (listing ''agents'' kDefaultLimit 0 m)"
    and "get_teams env req a = (Inr r, a') \<Longrightarrow> \<exists>m. r = reply_json 200 (listing ''teams'' kDefaultLimit 0 m)"
    and "get_tasks env req a = (Inr r, a') \<Longrightarrow> \<exists>m. r = reply_json 200 (listing ''tasks'' kDefaultLimit 0 m)"
    and "get_chaos env req a = (Inr r, a') \<Longrightarrow> \<exists>m. r = reply_json 200 (listing ''faults'' kDefaultLimit 0 m)"
    and "get_team_tasks env req team a = (Inr r, a') \<Longrightarrow> \<exists>m. r = reply_json 200 (listing ''tasks'' kDefaultLimit 0 m)"
  unfolding get_agents_def get_teams_def get_tasks_def get_chaos_def get_team_tasks_def
  by (drule paged_unasked [OF assms], clarify, drule on_db_Inr,
      force simp: list_agents_def list_teams_def list_all_tasks_def list_faults_def list_tasks_for_team_def bind_op_def gets_def
        lift_result_def ret_def split: prod.splits sum.splits)+

lemma sent_params [simp]: "rq_param (sent_request lk meth path headers body) = Map.empty"
  "rq_method (sent_request lk meth path headers body) = meth" "rq_path (sent_request lk meth path headers body) = path"
  by (simp_all add: sent_request_def)

lemma lists_truncated:
  "cl_list_agents cfg sc (to_server lk env) a = (Inr ys, a') \<Longrightarrow> length ys \<le> 100"
  "cl_list_teams cfg sc (to_server lk env) a = (Inr ys, a') \<Longrightarrow> length ys \<le> 100"
  "cl_list_tasks cfg sc (to_server lk env) a = (Inr ys, a') \<Longrightarrow> length ys \<le> 100"
  "cl_list_chaos cfg sc (to_server lk env) a = (Inr ys, a') \<Longrightarrow> length ys \<le> 100"
  unfolding cl_list_agents_def cl_list_teams_def cl_list_tasks_def cl_list_chaos_def
  by ((drule list_call_page [rotated 2],
      force simp: listing_routes dest: listed_routes [OF sent_params(1)], simp, simp add: kDefaultLimit_def))+

lemma team_tasks_truncated:
  assumes "plain team" "cl_list_team_tasks cfg sc (to_server lk env) team a = (Inr ys, a')"
  shows "length ys \<le> 100"
proof -
  let ?req = "sent_request lk ''GET'' (''/v1/teams/'' @ team @ ''/tasks'') (auth_headers cfg []) None"
  have "handle env ?req = get_team_tasks env ?req team"
    by (rule listing_routes(5) [OF sent_params(2) assms(1) sent_params(3)])
  then have "length ys \<le> kDefaultLimit"
    using listed_routes(5) [OF sent_params(1)] assms(2) unfolding cl_list_team_tasks_def
    by (intro list_call_page [of env lk "''/v1/teams/'' @ team @ ''/tasks''" cfg "''tasks''" "sc_task sc" a ys a']) simp_all
  then show ?thesis by (simp add: kDefaultLimit_def)
qed

text \<open>
  the client's lists are cut at the server's default page. Whatever the server stores, \<open>list_agents\<close>, \<open>list_teams\<close>,
  \<open>list_tasks\<close>, \<open>list_team_tasks\<close> and \<open>list_chaos\<close> return at most 100 entries: the client sends neither a limit nor an offset.
\<close>

lemma client_lists_truncated:
  assumes "plain team"
  shows "list_all (\<lambda>call. case fst (call a) of Inr ys \<Rightarrow> length ys \<le> 100 | Inl _ \<Rightarrow> True)
    [cl_list_agents cfg sc (to_server lk env), cl_list_teams cfg sc (to_server lk env), cl_list_tasks cfg sc (to_server lk env),
     cl_list_chaos cfg sc (to_server lk env), cl_list_team_tasks cfg sc (to_server lk env) team]"
proof -
  have "case fst q of Inr ys \<Rightarrow> length ys \<le> 100 | Inl _ \<Rightarrow> True" if "\<And>ys a'. q = (Inr ys, a') \<Longrightarrow> length ys \<le> 100"
    for q :: "(client_error + json list) \<times> app"
    using that by (cases q) (simp split: sum.split)
  then show ?thesis
    by (simp only: list.pred_inject) (blast intro: lists_truncated team_tasks_truncated [OF assms])
qed


section \<open>Concrete instances\<close>

definition example_parse :: "string \<Rightarrow> json option" where
  "example_parse str =
     (if str = ''full'' then Some (dump_all (task_update_fields \<lparr>tu_subject = None, tu_description = None, tu_assigneeAgentId = None,
        tu_blockedBy = None, tu_type = None, tu_status = Some ''completed'', tu_extra = []\<rparr>))
      else Some (jobj [(''subject'', JStr ''build'')]))"

definition example_update :: task_update where
  "example_update = \<lparr>tu_subject = None, tu_description = None, tu_assigneeAgentId = None,
     tu_blockedBy = None, tu_type = None, tu_status = Some ''completed'', tu_extra = []\<rparr>"

definition example_server :: route_env where
  "example_server = \<lparr>r_store = example_env\<lparr>x_parse := example_parse, x_uuid := (\<lambda>_. ''t1''), x_now := (\<lambda>_. ''now'')\<rparr>, r_api_key = ''key'', r_secret = None,
     r_hmac = (\<lambda>_ _. None), r_serialize = (\<lambda>_. []), r_parse_message = (\<lambda>_. []), r_what = (\<lambda>_. [])\<rparr>"

definition example_link :: "string \<Rightarrow> link" where
  "example_link str = \<lparr>lk_print = (\<lambda>_. str), lk_read = (\<lambda>_. None), lk_show = (\<lambda>_. ''{}''), lk_addr = ''10.0.0.1'', lk_now = 0, lk_now' = 0\<rparr>"

definition example_config :: api_config where
  "example_config = \<lparr>ac_host = ''localhost'', ac_port = 8080, ac_timeout = 30, ac_api_key = Some ''key''\<rparr>"

definition example_schema :: schema where
  "example_schema = \<lparr>sc_health = Some, sc_version = Some, sc_agent = (\<lambda>j. if jcontains j ''name'' then Some j else None),
     sc_team = Some, sc_task = Some, sc_fault = Some, sc_str = (\<lambda>_. [])\<rparr>"

definition example_state :: app where
  "example_state = \<lparr>a_orch = \<lparr>o_store = (new_store False None)\<lparr>s_agents := [(''a1'', jobj [(''id'', JStr ''a1'')])], s_agents_loaded := True\<rparr>,
     o_out = []\<rparr>, a_limiter = new_limiter 60 120, a_breaker = None, a_dlq = None\<rparr>"

theorem full_update_refused_witness:
  "\<exists>st detail a'. cl_update_task example_config example_schema (to_server (example_link ''full'') example_server) ''team'' ''t1''
       example_update False example_state = (Inl (Api_Error st detail), a')
     \<and> st \<in> {400, 401, 413, 429} \<and> a_orch a' = a_orch example_state"
  by (rule full_update_refused)
    (simp_all add: plain_def carries_def example_link_def example_server_def example_parse_def example_update_def)

lemma start_agent_raises_witness:
  "\<exists>e a'. cl_start_agent example_config example_schema (to_server (example_link []) example_server) ''a1'' example_state = (Inl e, a')
     \<and> (e = Raised_Other \<and> map_of (s_agents (o_store (a_orch a'))) ''a1'' =
            Some (jset ''status'' (JStr ''online'') (jobj [(''id'', JStr ''a1'')]))
        \<or> (\<exists>st detail. e = Api_Error st detail \<and> st \<in> {401, 429} \<and> a_orch a' = a_orch example_state))"
  by (rule start_agent_raises) (simp_all add: plain_def example_schema_def example_state_def new_store_def jcontains_def)

lemma client_lists_truncated_witness:
  "list_all (\<lambda>call. case fst (call example_state) of Inr ys \<Rightarrow> length ys \<le> 100 | Inl _ \<Rightarrow> True)
    [cl_list_agents example_config example_schema (to_server (example_link []) example_server),
     cl_list_teams example_config example_schema (to_server (example_link []) example_server),
     cl_list_tasks example_config example_schema (to_server (example_link []) example_server),
     cl_list_chaos example_config example_schema (to_server (example_link []) example_server),
     cl_list_team_tasks example_config example_schema (to_server (example_link []) example_server) ''team'']"
  by (rule client_lists_truncated) (simp add: plain_def)


lemma example_post:
  assumes "parse_body example_server req = Inr (jobj [(''subject'', JStr ''build'')])" "a_orch a = a_orch example_state"
  shows "\<exists>task a'. post_team_tasks example_server req ''team'' a = (Inr (reply_json 201 (jobj [(''task'', task)])), a')"
proof -
  let ?body = "jobj [(''subject'', JStr ''build'')]"
  have checks: "first_failure (task_checks ?body) = Inr None"
    by (simp add: jobj_def obj_of_def require_field_present_def require_string_if_present_def if_present_def as_string_def
        if_string_def require_nonempty_string_def check_field_length_def kMaxSubjectLen_def jcontains_def is_space_def)
  let ?task = "jobj [(''id'', JStr ''t1''), (''teamId'', JStr ''team''), (''subject'', JStr ''build''), (''description'', JStr []),
      (''assigneeAgentId'', JStr []), (''blockedBy'', JArr []), (''type'', JStr ''general''), (''status'', JStr ''pending''),
      (''createdAt'', JStr ''now''), (''updatedAt'', JStr ''now''), (''completedAt'', JNull)]"
  have run: "\<exists>s'. create_task (r_store example_server) ''team'' ?body (o_store (a_orch a)) = (Inr (jobj [(''task'', ?task)]), s')"
    using assms(2)
    by (simp add: create_task_def ensure_tasks_loaded_def ensure_loaded_def op_simps generate_uuid_def read_fields_def task_fields_def
        str_field_def arr_field_def now_iso8601_def file_issue_def example_state_def new_store_def put_entity_def with_metrics_def
        Let_def example_server_def example_env_def value_with_def jlookup_jobj)
  have task: "jget (jobj [(''task'', ?task)]) ''task'' = ?task" by (simp add: jget_def jlookup_jobj)
  have "\<exists>a'. dispatch_flat_task ''team'' ?task a1 = (Inr (), a')" for a1
    by (simp add: dispatch_flat_task_def bind_op_def lift_result_def value_str_present jlookup_jobj Let_def on_orch_def emit_def
        modify_def)
  then obtain f where "\<And>a1. dispatch_flat_task ''team'' ?task a1 = (Inr (), f a1)" by metis
  with run show ?thesis using assms(1)
    by (auto simp: post_team_tasks_def with_body_def checked_def bind_op_def lift_result_def checks ret_def on_orch_def on_store_def task
        emit_def modify_def simp del: first_failure.simps)
qed

lemma example_created:
  "\<not> isl (fst (cl_create_task example_config example_schema (to_server (example_link ''task'') example_server) ''team''
     \<lparr>tc_subject = ''build'', tc_description = [], tc_assigneeAgentId = [], tc_blockedBy = [], tc_type = ''general''\<rparr> example_state))"
proof -
  let ?body = "dump_set (task_create_fields \<lparr>tc_subject = ''build'', tc_description = [], tc_assigneeAgentId = [], tc_blockedBy = [], tc_type = ''general''\<rparr>)"
  let ?req = "sent_request (example_link ''task'') ''POST'' ''/v1/teams/team/tasks'' (auth_headers example_config []) (Some ?body)"
  have pre: "pre_routing example_server 0 0 ?req example_state = (Inr None, snd (pre_routing example_server 0 0 ?req example_state))"
    and orch: "a_orch (snd (pre_routing example_server 0 0 ?req example_state)) = a_orch example_state"
    by (simp_all add: pre_routing_def sent_request_def example_link_def auth_headers_def example_config_def validate_def is_exempt_def
        example_server_def bearer_def example_state_def limiter_allow_def new_limiter_def Let_def kEvictCheckInterval_def)
  have body: "parse_body example_server ?req = Inr (jobj [(''subject'', JStr ''build'')])"
    by (simp add: parse_body_def sent_request_def example_link_def kMaxBodyBytes_def example_server_def example_parse_def)
  have "handle example_server ?req = post_team_tasks example_server ?req ''team''"
    by (rule handle_create_task) (simp_all add: plain_def)
  moreover obtain b where b: "pre_routing example_server 0 0 ?req example_state = (Inr None, b)" "a_orch b = a_orch example_state"
    using pre orch by blast
  ultimately obtain task a' where
    "serve_request example_server 0 0 ?req example_state = (Inr (reply_json 201 (jobj [(''task'', task)])), a')"
    using example_post [OF body b(2)] by (auto simp: serve_request_def bind_op_def)
  then have "serve_request example_server (lk_now (example_link ''task'')) (lk_now' (example_link ''task'')) ?req example_state =
      (Inr (reply_json 201 (jobj [(''task'', task)])), a')" by (simp add: example_link_def)
  from entity_reply [OF this, of "sc_task example_schema"] show ?thesis by (simp add: cl_create_task_def example_schema_def)
qed

theorem created_task_read_back_witness:
  "\<exists>t a1 ident a2. cl_create_task example_config example_schema (to_server (example_link ''task'') example_server) ''team''
       \<lparr>tc_subject = ''build'', tc_description = [], tc_assigneeAgentId = [], tc_blockedBy = [], tc_type = ''general''\<rparr> example_state = (Inr t, a1)
     \<and> jlookup t ''id'' = Some (JStr ident)
     \<and> (cl_get_task example_config example_schema (to_server (example_link []) example_server) ''team'' ident a1 = (Inr t, a2)
        \<or> (\<exists>detail. cl_get_task example_config example_schema (to_server (example_link []) example_server) ''team'' ident a1 =
             (Inl (Api_Error 429 detail), a2)))"
proof -
  obtain t a1 where c: "cl_create_task example_config example_schema (to_server (example_link ''task'') example_server) ''team''
       \<lparr>tc_subject = ''build'', tc_description = [], tc_assigneeAgentId = [], tc_blockedBy = [], tc_type = ''general''\<rparr> example_state = (Inr t, a1)"
    using example_created by (metis isl_def prod.collapse sum.exhaust_disc sum.collapse(2))
  show ?thesis
    using created_task_read_back [OF _ _ _ _ c, of "example_link []"] c
    by (fastforce simp: plain_def example_config_def example_server_def example_schema_def)
qed

end
