(* ===== verification/Grpc_Agents.thy ===== *)
theory Grpc_Agents
  imports Lead_Agents
begin

text \<open>
  The parts of the agents that are compiled under \<open>ENABLE_GRPC\<close>: registration and heartbeats, tasks that arrive as YAML
  specifications, the distribution of subtasks over remote agents, and the chief architect's submission of a goal
  (\<open>src/agents/task_agent.cpp\<close>, \<open>module_lead_agent.cpp\<close>, \<open>component_lead_agent.cpp\<close>, \<open>chief_architect_agent.cpp\<close>,
  \<open>coordination_state.hpp\<close>, \<open>lead_agent_base.hpp\<close>). The network library (clients of the two services, reading and
  writing of YAML) is not in the repository: its functions are fields of the environment, the answer to a remote call
  depends on how many calls went before, and every call is logged in the state. Of the specification only the members that the agents
  use appear. A detached thread that waits for a result is an entry of a list of polls; the entries end in any order.
\<close>

section \<open>The network library\<close>

record task_spec =
  ts_api_version :: string
  ts_kind :: string
  ts_name :: string
  ts_task_id :: string
  ts_parent_task_id :: "string option"
  ts_session_id :: "string option"
  ts_created_at :: string
  ts_deadline :: "string option"
  ts_origin_node :: string
  ts_target_level :: nat
  ts_target_agent_type :: string
  ts_target_agent_id :: string
  ts_level0_goal :: string
  ts_level1_directive :: "string option"
  ts_level2_module :: "string option"
  ts_level3_task :: "string option"
  ts_command :: string
  ts_action_type :: string
  ts_action_priority :: string
  ts_strategy :: string
  ts_timeout :: string
  ts_phase :: string
  ts_result :: "string option"
  ts_error :: "string option"
  ts_start_time :: "string option"
  ts_completion_time :: "string option"

record registration =
  re_agent_id :: string
  re_agent_type :: string
  re_level :: nat
  re_capabilities :: "string list"
  re_max_concurrent_tasks :: nat

record task_result =
  tr_task_id :: string
  tr_result_yaml :: string
  tr_success :: bool
  tr_error_message :: string

datatype grpc_call =
    Register registration
  | Query_Agents string "nat option"
  | Submit_Task string string nat string
  | Get_Task_Result string nat
  | Submit_Result task_result
  | Send_Heartbeat string int nat
  | Beat string
  | Unregister string string

record grpc_env = task_env +
  g_parseTaskSpec :: "string \<Rightarrow> task_spec option"
  g_generateTaskSpec :: "task_spec \<Rightarrow> string"
  g_parseDuration :: "string \<Rightarrow> nat option"
  g_empty_spec :: task_spec
  g_connect :: "string \<Rightarrow> unit result"
  g_registerAgent :: "nat \<Rightarrow> registration \<Rightarrow> (bool \<times> string) result"
  g_queryAgents :: "nat \<Rightarrow> string \<Rightarrow> nat option \<Rightarrow> string list result"
  g_submitTask :: "nat \<Rightarrow> string \<Rightarrow> string result"
  g_getTaskResult :: "nat \<Rightarrow> string \<Rightarrow> task_result result"
  g_submitResult :: "nat \<Rightarrow> task_result \<Rightarrow> unit result"
  g_heartbeat :: "nat \<Rightarrow> unit result"
  g_unregisterAgent :: "nat \<Rightarrow> unit result"
  g_time :: "nat \<Rightarrow> string"
  g_clock :: "nat \<Rightarrow> int"

section \<open>Clients and heartbeats\<close>

text \<open>\<open>gc_thread\<close>: the thread object holds a thread that was not joined. Starting another one into it, or calling through a
client that is not there, ends the process (\<open>gc_aborted\<close>).\<close>

record grpc_client =
  gc_id :: string
  gc_type :: string
  gc_level :: nat
  gc_task_id :: string
  gc_coordinator :: bool
  gc_registry :: bool
  gc_running :: bool
  gc_thread :: bool
  gc_calls :: "grpc_call list"
  gc_aborted :: bool

definition new_remote :: "string \<Rightarrow> string \<Rightarrow> nat \<Rightarrow> grpc_client" where
  "new_remote agent_id agent_type level =
     \<lparr>gc_id = agent_id, gc_type = agent_type, gc_level = level, gc_task_id = [], gc_coordinator = False, gc_registry = False,
      gc_running = False, gc_thread = False, gc_calls = [], gc_aborted = False\<rparr>"

definition rpc :: "grpc_call \<Rightarrow> (nat \<Rightarrow> 'r result) \<Rightarrow> ('a grpc_client_scheme, 'r) op" where
  "rpc c reply s = (reply (length (gc_calls s)), s\<lparr>gc_calls := gc_calls s @ [c]\<rparr>)"

definition launch_thread :: "'a grpc_client_scheme \<Rightarrow> 'a grpc_client_scheme" where
  "launch_thread s = (if gc_thread s then s\<lparr>gc_aborted := True\<rparr> else s\<lparr>gc_thread := True\<rparr>)"

text \<open>The coordination state starts and stops without looking at the flag; the task agent and the chief look first.\<close>

definition coord_startHeartbeat :: "('a grpc_client_scheme, unit) op" where
  "coord_startHeartbeat = modify (\<lambda>s. launch_thread (s\<lparr>gc_running := True\<rparr>))"

definition coord_stopHeartbeat :: "('a grpc_client_scheme, unit) op" where
  "coord_stopHeartbeat = modify (\<lambda>s. s\<lparr>gc_running := False, gc_thread := False\<rparr>)"

definition startHeartbeat :: "('a grpc_client_scheme, unit) op" where
  "startHeartbeat s = (if gc_running s then (Inr (), s) else (Inr (), launch_thread (s\<lparr>gc_running := True\<rparr>)))"

definition stopHeartbeat :: "('a grpc_client_scheme, unit) op" where
  "stopHeartbeat s = (if \<not> gc_running s then (Inr (), s) else (Inr (), s\<lparr>gc_running := False, gc_thread := False\<rparr>))"

text \<open>Registration: \<open>start\<close> is the heartbeat of the class.\<close>

definition register ::
    "grpc_env \<Rightarrow> ('a grpc_client_scheme, unit) op \<Rightarrow> string \<Rightarrow> string \<Rightarrow> string \<Rightarrow> nat \<Rightarrow> string list \<Rightarrow> nat
      \<Rightarrow> ('a grpc_client_scheme, unit) op" where
  "register env start coordinator_address registry_address agent_type level capabilities max_concurrent_tasks =
     bind_op (modify (\<lambda>s. s\<lparr>gc_type := agent_type, gc_level := level\<rparr>)) (\<lambda>_.
     bind_op (lift_result (g_connect env coordinator_address)) (\<lambda>_.
     bind_op (modify (\<lambda>s. s\<lparr>gc_coordinator := True\<rparr>)) (\<lambda>_.
     bind_op (lift_result (g_connect env registry_address)) (\<lambda>_.
     bind_op (modify (\<lambda>s. s\<lparr>gc_registry := True\<rparr>)) (\<lambda>_.
     bind_op (gets gc_id) (\<lambda>me.
     let reg = \<lparr>re_agent_id = me, re_agent_type = agent_type, re_level = level, re_capabilities = capabilities,
           re_max_concurrent_tasks = max_concurrent_tasks\<rparr> in
     catch_op
       (bind_op (rpc (Register reg) (\<lambda>n. g_registerAgent env n reg)) (\<lambda>(success, message).
          if success then start
          else throw (Runtime_Error (''Failed to register with ServiceRegistry: '' @ message))))
       (\<lambda>e. throw (Runtime_Error (''gRPC registration failed: '' @ what e)))))))))"

definition task_initializeGrpc :: "grpc_env \<Rightarrow> string \<Rightarrow> string \<Rightarrow> string \<Rightarrow> nat \<Rightarrow> (grpc_client, unit) op" where
  "task_initializeGrpc env coordinator_address registry_address agent_type level =
     register env startHeartbeat coordinator_address registry_address agent_type level [''bash_execution''] 1"

definition chief_initializeGrpc :: "grpc_env \<Rightarrow> string \<Rightarrow> string \<Rightarrow> string \<Rightarrow> nat \<Rightarrow> (grpc_client, unit) op" where
  "chief_initializeGrpc env coordinator_address registry_address agent_type level =
     register env startHeartbeat coordinator_address registry_address agent_type level [''strategic_orchestration''] 1"

text \<open>One round of a heartbeat thread; a failing call is logged.\<close>

definition heartbeat_round :: "grpc_env \<Rightarrow> (grpc_client, unit) op" where
  "heartbeat_round env s =
     (if gc_running s \<and> gc_registry s
      then catch_op (rpc (Beat (gc_id s)) (g_heartbeat env)) (\<lambda>e. ret ()) s
      else (Inr (), s))"

definition shutdown_client :: "grpc_env \<Rightarrow> (grpc_client, unit) op" where
  "shutdown_client env =
     bind_op stopHeartbeat (\<lambda>_.
     bind_op (gets (\<lambda>s. (gc_registry s, gc_id s))) (\<lambda>(registry, me).
     bind_op (if registry then catch_op (rpc (Unregister me ''Shutdown requested'') (g_unregisterAgent env)) (\<lambda>e. ret ())
              else ret ()) (\<lambda>_.
       modify (\<lambda>s. s\<lparr>gc_coordinator := False, gc_registry := False\<rparr>))))"


section \<open>The task agent\<close>

definition processYamlTask :: "grpc_env \<Rightarrow> nat \<Rightarrow> string \<Rightarrow> (grpc_client, unit) op" where
  "processYamlTask env tick yaml_spec =
     (case g_parseTaskSpec env yaml_spec of
        None \<Rightarrow> throw (Runtime_Error ''Failed to parse YAML task specification'')
      | Some spec0 \<Rightarrow>
          (let spec1 = (case executeBash env (ts_command spec0) of
                 Inr res \<Rightarrow> spec0\<lparr>ts_phase := ''COMPLETED'', ts_result := Some res\<rparr>
               | Inl e \<Rightarrow> spec0\<lparr>ts_phase := ''FAILED'', ts_error := Some (what e)\<rparr>);
               time = g_time env tick;
               spec2 = spec1\<lparr>ts_completion_time := Some time\<rparr>;
               spec = (if ts_start_time spec2 = None then spec2\<lparr>ts_start_time := Some time\<rparr> else spec2);
               res = \<lparr>tr_task_id = ts_task_id spec, tr_result_yaml = g_generateTaskSpec env spec,
                 tr_success = (ts_phase spec = ''COMPLETED''),
                 tr_error_message = (case ts_error spec of None \<Rightarrow> [] | Some e \<Rightarrow> e)\<rparr>
           in bind_op (gets gc_coordinator) (\<lambda>coordinator.
              if coordinator \<and> ts_parent_task_id spec \<noteq> None
              then catch_op (rpc (Submit_Result res) (\<lambda>n. g_submitResult env n res)) (\<lambda>e. ret ())
              else ret ())))"

section \<open>The chief architect\<close>

definition queryComponentLeadAgent :: "grpc_env \<Rightarrow> (grpc_client, string) op" where
  "queryComponentLeadAgent env =
     bind_op (gets gc_registry) (\<lambda>registry.
     if \<not> registry then ret []
     else catch_op
       (bind_op (rpc (Query_Agents ''ComponentLeadAgent'' (Some 1)) (\<lambda>n. g_queryAgents env n ''ComponentLeadAgent'' (Some 1))) (\<lambda>agents.
          ret (case agents of [] \<Rightarrow> [] | a # _ \<Rightarrow> a)))
       (\<lambda>e. ret []))"

definition goal_spec :: "grpc_env \<Rightarrow> nat \<Rightarrow> string \<Rightarrow> string \<Rightarrow> string \<Rightarrow> string \<Rightarrow> task_spec" where
  "goal_spec env tick me component_agent_id user_goal session_id =
     (g_empty_spec env)
       \<lparr>ts_api_version := ''v1'', ts_kind := ''HierarchicalTask'', ts_name := ''user-goal'', ts_task_id := ''chief-'' @ session_id,
        ts_session_id := Some session_id, ts_created_at := g_time env tick, ts_deadline := Some ''25m'', ts_origin_node := me,
        ts_target_level := 1, ts_target_agent_type := ''ComponentLeadAgent'', ts_target_agent_id := component_agent_id,
        ts_level0_goal := user_goal, ts_level1_directive := Some user_goal, ts_action_type := ''DECOMPOSE'',
        ts_action_priority := ''NORMAL'', ts_strategy := ''WAIT_ALL'', ts_timeout := ''25m''\<rparr>"

definition read_goal_result :: "grpc_env \<Rightarrow> task_result \<Rightarrow> string" where
  "read_goal_result env res =
     (if tr_success res then
        (case g_parseTaskSpec env (tr_result_yaml res) of
           Some spec \<Rightarrow> (case ts_result spec of Some r \<Rightarrow> r | None \<Rightarrow> tr_result_yaml res)
         | None \<Rightarrow> tr_result_yaml res)
      else ''ERROR: '' @ tr_error_message res)"

definition submitUserGoal :: "grpc_env \<Rightarrow> nat \<Rightarrow> string \<Rightarrow> string \<Rightarrow> (grpc_client, string) op" where
  "submitUserGoal env tick user_goal session_id =
     bind_op (queryComponentLeadAgent env) (\<lambda>component_agent_id.
     if component_agent_id = [] then throw (Runtime_Error ''No ComponentLeadAgent available'')
     else
       bind_op (gets gc_id) (\<lambda>me.
       let yaml_spec = g_generateTaskSpec env (goal_spec env tick me component_agent_id user_goal session_id) in
       bind_op (gets gc_coordinator) (\<lambda>coordinator.
       if \<not> coordinator then bind_op (modify (\<lambda>s. s\<lparr>gc_aborted := True\<rparr>)) (\<lambda>_. ret [])
       else catch_op
         (bind_op (rpc (Submit_Task yaml_spec session_id (25 * 60 * 1000) []) (\<lambda>n. g_submitTask env n yaml_spec)) (\<lambda>task_id.
          bind_op (rpc (Get_Task_Result task_id (25 * 60 * 1000)) (\<lambda>n. g_getTaskResult env n task_id)) (\<lambda>res.
            ret (read_goal_result env res))))
         (\<lambda>e. throw (Runtime_Error (''Failed to submit/receive task: '' @ what e))))))"

section \<open>The leads\<close>

definition DEFAULT_TASK_TIMEOUT_MS :: nat where
  "DEFAULT_TASK_TIMEOUT_MS = 25 * 60 * 1000"

text \<open>The aggregator is created with a strategy, a timeout and a number of results; nothing is ever put into it.\<close>

record 'st grpc_lead = grpc_client +
  gl_coord :: "'st coordination"
  gl_available :: "string list"
  gl_aggregator :: "(string \<times> nat \<times> nat) option"
  gl_polls :: "(string \<times> nat) list"

definition at_coord :: "('st coordination \<Rightarrow> 'st coordination) \<Rightarrow> ('st grpc_lead, unit) op" where
  "at_coord f = modify (\<lambda>a. a\<lparr>gl_coord := f (gl_coord a)\<rparr>)"

definition component_initializeGrpc :: "grpc_env \<Rightarrow> string \<Rightarrow> string \<Rightarrow> string \<Rightarrow> nat \<Rightarrow> (component_state grpc_lead, unit) op" where
  "component_initializeGrpc env coordinator_address registry_address agent_type level =
     register env coord_startHeartbeat coordinator_address registry_address agent_type level
       [''module_coordination'', ''component_synthesis''] 10"

definition module_initializeGrpc :: "grpc_env \<Rightarrow> string \<Rightarrow> string \<Rightarrow> string \<Rightarrow> nat \<Rightarrow> (module_state grpc_lead, unit) op" where
  "module_initializeGrpc env coordinator_address registry_address agent_type level =
     register env coord_startHeartbeat coordinator_address registry_address agent_type level
       [''task_coordination'', ''result_synthesis''] 5"

text \<open>\<open>set_active_tasks(received_results_)\<close>: the heartbeat of a lead reports the results it has received.\<close>

definition lead_heartbeat_round :: "grpc_env \<Rightarrow> nat \<Rightarrow> ('st grpc_lead, unit) op" where
  "lead_heartbeat_round env tick a =
     (if gc_running a \<and> gc_registry a
      then catch_op (rpc (Send_Heartbeat (gc_id a) (g_clock env tick) (co_received (gl_coord a))) (g_heartbeat env)) (\<lambda>e. ret ()) a
      else (Inr (), a))"

definition queryAvailableChildren :: "grpc_env \<Rightarrow> string \<Rightarrow> ('st grpc_lead, string list) op" where
  "queryAvailableChildren env child_agent_type =
     bind_op (gets gc_registry) (\<lambda>registry.
     if \<not> registry then ret []
     else catch_op (rpc (Query_Agents child_agent_type None) (\<lambda>n. g_queryAgents env n child_agent_type None)) (\<lambda>e. ret []))"

definition shutdownGrpc :: "('st grpc_lead, unit) op" where
  "shutdownGrpc =
     bind_op coord_stopHeartbeat (\<lambda>_. modify (\<lambda>a. a\<lparr>gc_coordinator := False, gc_registry := False\<rparr>))"

definition lead_shutdown :: "('st grpc_lead, unit) op" where
  "lead_shutdown = bind_op shutdownGrpc (\<lambda>_. modify (\<lambda>a. a\<lparr>gl_aggregator := None\<rparr>))"

definition submitFailureResult :: "'st lead_class \<Rightarrow> grpc_env \<Rightarrow> task_spec \<Rightarrow> string \<Rightarrow> ('st grpc_lead, unit) op" where
  "submitFailureResult cls env spec0 error =
     (let spec = spec0\<lparr>ts_phase := ''FAILED'', ts_error := Some error\<rparr>;
          res = \<lparr>tr_task_id = ts_task_id spec, tr_result_yaml = g_generateTaskSpec env spec, tr_success = False,
            tr_error_message = error\<rparr>
      in bind_op (at_coord (transitionTo (lc_error cls) (lc_name cls (lc_error cls)))) (\<lambda>_.
         bind_op (gets gc_coordinator) (\<lambda>coordinator.
         if coordinator \<and> ts_parent_task_id spec \<noteq> None
         then rpc (Submit_Result res) (\<lambda>n. g_submitResult env n res)
         else ret ())))"

definition module_child :: "grpc_env \<Rightarrow> task_spec \<Rightarrow> nat \<Rightarrow> string \<Rightarrow> string \<Rightarrow> task_spec" where
  "module_child env spec i task agent =
     (g_empty_spec env)
       \<lparr>ts_api_version := ''v1'', ts_kind := ''HierarchicalTask'', ts_name := ''task-'' @ string_of_nat i,
        ts_task_id := ts_task_id spec @ ''-subtask-'' @ string_of_nat i, ts_parent_task_id := Some (ts_task_id spec),
        ts_session_id := ts_session_id spec, ts_target_agent_id := agent, ts_target_level := 3,
        ts_target_agent_type := ''TaskAgent'', ts_command := task, ts_action_type := ''EXECUTE'',
        ts_level0_goal := ts_level0_goal spec, ts_level2_module := ts_level2_module spec, ts_level3_task := Some task\<rparr>"

definition component_child :: "grpc_env \<Rightarrow> task_spec \<Rightarrow> nat \<Rightarrow> string \<Rightarrow> string \<Rightarrow> task_spec" where
  "component_child env spec i goal agent =
     (g_empty_spec env)
       \<lparr>ts_api_version := ''v1'', ts_kind := ''HierarchicalTask'', ts_name := ''module-'' @ string_of_nat i,
        ts_task_id := ts_task_id spec @ ''-module-'' @ string_of_nat i, ts_parent_task_id := Some (ts_task_id spec),
        ts_session_id := ts_session_id spec, ts_target_agent_id := agent, ts_target_level := 2,
        ts_target_agent_type := ''ModuleLeadAgent'', ts_level0_goal := ts_level0_goal spec,
        ts_level1_directive := ts_level1_directive spec, ts_level2_module := Some goal, ts_action_type := ''DECOMPOSE'',
        ts_strategy := ts_strategy spec, ts_timeout := ts_timeout spec\<rparr>"


text \<open>Submission of one child, and the loop over the subtasks; \<open>child\<close> builds the specification.\<close>

definition deadline_of :: "grpc_env \<Rightarrow> task_spec \<Rightarrow> nat" where
  "deadline_of env spec =
     (case g_parseDuration env (case ts_deadline spec of None \<Rightarrow> ''25m'' | Some d \<Rightarrow> d) of
        None \<Rightarrow> DEFAULT_TASK_TIMEOUT_MS
      | Some ms \<Rightarrow> ms)"

definition submit_child :: "grpc_env \<Rightarrow> task_spec \<Rightarrow> string \<Rightarrow> task_spec \<Rightarrow> ('st grpc_lead, unit) op" where
  "submit_child env spec agent child_spec =
     (let child_yaml = g_generateTaskSpec env child_spec; deadline_ms = deadline_of env spec;
          session = (case ts_session_id spec of None \<Rightarrow> [] | Some s \<Rightarrow> s)
      in bind_op (gets (\<lambda>a. (gc_coordinator a, gc_task_id a))) (\<lambda>(coordinator, task_id).
         if \<not> coordinator then modify (\<lambda>a. a\<lparr>gc_aborted := True\<rparr>)
         else catch_op
           (bind_op (rpc (Submit_Task child_yaml session deadline_ms task_id) (\<lambda>n. g_submitTask env n child_yaml)) (\<lambda>remote_id.
            bind_op (at_coord (trackPendingSubordinate (ts_task_id child_spec) agent)) (\<lambda>_.
              modify (\<lambda>a. a\<lparr>gl_polls := gl_polls a @ [(remote_id, deadline_ms)]\<rparr>))))
           (\<lambda>e. ret ())))"

fun submit_children ::
    "grpc_env \<Rightarrow> task_spec \<Rightarrow> (nat \<Rightarrow> string \<Rightarrow> string \<Rightarrow> task_spec) \<Rightarrow> string list \<Rightarrow> nat \<Rightarrow> string list \<Rightarrow> ('st grpc_lead, unit) op" where
  "submit_children env spec child agents i [] = ret ()"
| "submit_children env spec child agents i (subtask # subtasks) =
     (let agent = agents ! (i mod length agents) in
      bind_op (submit_child env spec agent (child i subtask agent)) (\<lambda>_.
        submit_children env spec child agents (Suc i) subtasks))"

definition distribute ::
    "'st lead_class \<Rightarrow> grpc_env \<Rightarrow> task_spec \<Rightarrow> (nat \<Rightarrow> string \<Rightarrow> string \<Rightarrow> task_spec) \<Rightarrow> string list \<Rightarrow> string \<Rightarrow> string \<Rightarrow> string
      \<Rightarrow> ('st grpc_lead, unit) op" where
  "distribute cls env spec child subtasks child_agent_type no_goal no_agents =
     (if subtasks = [] then submitFailureResult cls env spec no_goal
      else
        bind_op (queryAvailableChildren env child_agent_type) (\<lambda>agents.
        bind_op (modify (\<lambda>a. a\<lparr>gl_available := agents\<rparr>)) (\<lambda>_.
        if agents = [] then submitFailureResult cls env spec no_agents
        else
          let timeout = (case g_parseDuration env (ts_timeout spec) of None \<Rightarrow> DEFAULT_TASK_TIMEOUT_MS | Some ms \<Rightarrow> ms) in
          bind_op (modify (\<lambda>a. a\<lparr>gl_aggregator := Some (ts_strategy spec, timeout, length subtasks)\<rparr>)) (\<lambda>_.
          bind_op (at_coord (initializeCoordination (length subtasks) \<circ> transitionTo (lc_waiting cls) (lc_name cls (lc_waiting cls)))) (\<lambda>_.
            submit_children env spec child agents 0 subtasks)))))"

definition begin_yaml :: "'st lead_class \<Rightarrow> task_spec \<Rightarrow> ('st grpc_lead, unit) op" where
  "begin_yaml cls spec =
     bind_op (modify (\<lambda>a. a\<lparr>gc_task_id := ts_task_id spec\<rparr>)) (\<lambda>_.
       at_coord (transitionTo (lc_planning cls) (lc_name cls (lc_planning cls))))"

definition processYamlModule :: "grpc_env \<Rightarrow> string \<Rightarrow> (module_state grpc_lead, unit) op" where
  "processYamlModule env yaml_spec =
     (case g_parseTaskSpec env yaml_spec of
        None \<Rightarrow> throw (Runtime_Error ''Failed to parse YAML module specification'')
      | Some spec \<Rightarrow>
          bind_op (begin_yaml module_class spec) (\<lambda>_.
            distribute module_class env spec (module_child env spec)
              (module_decomposeGoal (case ts_level2_module spec of None \<Rightarrow> [] | Some g \<Rightarrow> g))
              ''TaskAgent'' ''Failed to decompose module goal'' ''No TaskAgents available''))"

definition processYamlComponent :: "grpc_env \<Rightarrow> string \<Rightarrow> (component_state grpc_lead, unit) op" where
  "processYamlComponent env yaml_spec =
     (case g_parseTaskSpec env yaml_spec of
        None \<Rightarrow> throw (Runtime_Error ''Failed to parse YAML component specification'')
      | Some spec \<Rightarrow>
          bind_op (begin_yaml component_class spec) (\<lambda>_.
            distribute component_class env spec (component_child env spec)
              (component_decomposeGoal (case ts_level1_directive spec of None \<Rightarrow> [] | Some g \<Rightarrow> g))
              ''ModuleLeadAgent'' ''Failed to decompose component goal'' ''No ModuleLeadAgents available''))"

text \<open>The end of a detached thread: of a failed subtask the failure is recorded, of a successful one nothing, an
exception is logged. The thread uses the client through a plain pointer, which a shutdown leaves dangling.\<close>

definition poll_ends :: "'st lead_class \<Rightarrow> grpc_env \<Rightarrow> nat \<Rightarrow> 'st grpc_lead \<Rightarrow> 'st grpc_lead" where
  "poll_ends cls env k a =
     (let (task_id, deadline_ms) = gl_polls a ! k;
          a1 = a\<lparr>gl_polls := take k (gl_polls a) @ drop (Suc k) (gl_polls a)\<rparr>
      in if \<not> gc_coordinator a1 then a1\<lparr>gc_aborted := True\<rparr>
         else case rpc (Get_Task_Result task_id deadline_ms) (\<lambda>n. g_getTaskResult env n task_id) a1 of
           (Inl e, a2) \<Rightarrow> a2
         | (Inr res, a2) \<Rightarrow>
             if tr_success res then a2
             else
               let (_, c) = recordFailure (tr_error_message res) (gl_coord a2) in
               a2\<lparr>gl_coord := (if isComplete c \<and> co_state c = lc_waiting cls
                    then transitionTo (lc_error cls) (lc_name cls (lc_error cls)) c else c)\<rparr>)"


section \<open>A task is answered\<close>

definition is_result :: "grpc_call \<Rightarrow> bool" where
  "is_result c = (case c of Submit_Result _ \<Rightarrow> True | _ \<Rightarrow> False)"

definition results_of :: "'a grpc_client_scheme \<Rightarrow> grpc_call list" where
  "results_of s = filter is_result (gc_calls s)"


text \<open>
  C27: a task that arrives as a specification is answered once. With a coordinator and a parent in the specification,
  \<open>processYamlTask\<close> submits exactly one result under the task's identifier; it is a success exactly when the command ran with
  status zero, and carries the text of the exception otherwise. A refusal of the coordinator is only logged.
\<close>

theorem yaml_task_answered:
  assumes "g_parseTaskSpec env yaml = Some spec" and "gc_coordinator s" and "ts_parent_task_id spec \<noteq> None"
  shows "\<exists>res. processYamlTask env tick yaml s = (Inr (), s\<lparr>gc_calls := gc_calls s @ [Submit_Result res]\<rparr>)
    \<and> tr_task_id res = ts_task_id spec
    \<and> (case executeBash env (ts_command spec) of
         Inr out \<Rightarrow> tr_success res
       | Inl e \<Rightarrow> \<not> tr_success res \<and> tr_error_message res = what e)"
proof (cases "executeBash env (ts_command spec)")
  case (Inl e)
  then show ?thesis using assms
    by (auto simp: processYamlTask_def Let_def bind_op_def gets_def catch_op_def rpc_def ret_def split: sum.split)
next
  case (Inr out)
  then show ?thesis using assms
    by (auto simp: processYamlTask_def Let_def bind_op_def gets_def catch_op_def rpc_def ret_def split: sum.split)
qed

section \<open>Distribution over remote agents\<close>

lemma submit_child_run:
  assumes "gc_coordinator a"
  shows "\<exists>b. submit_child env spec agent child a = (Inr (), b) \<and> gc_coordinator b \<and> gc_registry b = gc_registry a
    \<and> gc_task_id b = gc_task_id a \<and> results_of b = results_of a
    \<and> co_state (gl_coord b) = co_state (gl_coord a) \<and> co_expected (gl_coord b) = co_expected (gl_coord a)
    \<and> co_received (gl_coord b) = co_received (gl_coord a) \<and> co_failed (gl_coord b) = co_failed (gl_coord a)
    \<and> co_results (gl_coord b) = co_results (gl_coord a) \<and> length (gl_polls b) \<le> Suc (length (gl_polls a))"
  using assms
  by (auto simp: submit_child_def Let_def bind_op_def gets_def catch_op_def rpc_def ret_def at_coord_def modify_def
      trackPendingSubordinate_def results_of_def is_result_def split: sum.split)

lemma submit_children_run:
  assumes "gc_coordinator a"
  shows "\<exists>b. submit_children env spec child agents i subtasks a = (Inr (), b) \<and> gc_coordinator b
    \<and> results_of b = results_of a
    \<and> co_state (gl_coord b) = co_state (gl_coord a) \<and> co_expected (gl_coord b) = co_expected (gl_coord a)
    \<and> co_received (gl_coord b) = co_received (gl_coord a) \<and> co_failed (gl_coord b) = co_failed (gl_coord a)
    \<and> co_results (gl_coord b) = co_results (gl_coord a) \<and> length (gl_polls b) \<le> length (gl_polls a) + length subtasks"
  using assms
proof (induction subtasks arbitrary: i a)
  case Nil
  then show ?case by (simp add: ret_def)
next
  case (Cons t ts)
  let ?agent = "agents ! (i mod length agents)"
  from submit_child_run [OF Cons.prems, of env spec ?agent "child i t ?agent"] obtain b where
    b: "submit_child env spec ?agent (child i t ?agent) a = (Inr (), b)" "gc_coordinator b" and
    keeps: "results_of b = results_of a" "co_state (gl_coord b) = co_state (gl_coord a)"
      "co_expected (gl_coord b) = co_expected (gl_coord a)" "co_received (gl_coord b) = co_received (gl_coord a)"
      "co_failed (gl_coord b) = co_failed (gl_coord a)" "co_results (gl_coord b) = co_results (gl_coord a)"
      "length (gl_polls b) \<le> Suc (length (gl_polls a))" by blast
  from Cons.IH [OF b(2), of "Suc i"] keeps b(1) show ?case by (force simp: Let_def bind_op_def)
qed










text \<open>When the coordinator takes every child, the calls and the bookkeeping of the loop over the subtasks.\<close>

lemma submit_children_calls:
  assumes "gc_coordinator a" and "\<And>n y. \<exists>i. g_submitTask env n y = Inr i"
  shows "\<exists>b. submit_children env spec child agents i subtasks a = (Inr (), b) \<and>
    gc_calls b = gc_calls a @ map (\<lambda>j. Submit_Task
        (g_generateTaskSpec env (child (i + j) (subtasks ! j) (agents ! ((i + j) mod length agents))))
        (case ts_session_id spec of None \<Rightarrow> [] | Some s \<Rightarrow> s) (deadline_of env spec) (gc_task_id a)) [0..<length subtasks] \<and>
    co_pending (gl_coord b) = fold (\<lambda>j. AList.update
        (ts_task_id (child (i + j) (subtasks ! j) (agents ! ((i + j) mod length agents)))) (agents ! ((i + j) mod length agents)))
        [0..<length subtasks] (co_pending (gl_coord a))"
  using assms(1)
proof (induction subtasks arbitrary: i a)
  case Nil
  then show ?case by (simp add: ret_def)
next
  case (Cons t ts)
  let ?agent = "agents ! (i mod length agents)"
  obtain b where b: "submit_child env spec ?agent (child i t ?agent) a = (Inr (), b)" "gc_coordinator b"
    "gc_task_id b = gc_task_id a"
    "gc_calls b = gc_calls a @ [Submit_Task (g_generateTaskSpec env (child i t ?agent))
       (case ts_session_id spec of None \<Rightarrow> [] | Some s \<Rightarrow> s) (deadline_of env spec) (gc_task_id a)]"
    "co_pending (gl_coord b) = AList.update (ts_task_id (child i t ?agent)) ?agent (co_pending (gl_coord a))"
  proof -
    obtain r where "g_submitTask env (length (gc_calls a)) (g_generateTaskSpec env (child i t ?agent)) = Inr r"
      using assms(2) by blast
    then show ?thesis using Cons.prems
      by (intro that [of "snd (submit_child env spec ?agent (child i t ?agent) a)"])
        (simp_all add: submit_child_def Let_def bind_op_def gets_def catch_op_def rpc_def ret_def at_coord_def modify_def
          trackPendingSubordinate_def)
  qed
  have shift: "[0..<Suc (length ts)] = 0 # map Suc [0..<length ts]"
    by (metis map_Suc_upt upt_conv_Cons zero_less_Suc)
  from Cons.IH [OF b(2), of "Suc i"] b show ?case
    by (simp add: shift Let_def bind_op_def o_def fold_map del: upt_Suc)
qed


lemma map_of_fold_update:
  assumes "inj_on k {0..<n}" and "j < n"
  shows "map_of (fold (\<lambda>i. AList.update (k i) (v i)) [0..<n] m) (k j) = Some (v j)"
  using assms
proof (induction n)
  case (Suc n)
  show ?case
  proof (cases "j = n")
    case True
    then show ?thesis by simp
  next
    case False
    then have "k j \<noteq> k n" using Suc.prems by (auto simp: inj_on_def)
    moreover have "inj_on k {0..<n}" using Suc.prems(1) by (auto intro: inj_on_subset)
    ultimately show ?thesis using Suc False by simp
  qed
qed simp

text \<open>
  C26: a module lead spreads its tasks over the agents it found in turn. When the registry answers and the coordinator takes
  every submission, the calls after the query are exactly one submission per task, in order, each with the specification of that
  task for the agent whose turn it is, and the lead keeps for every task's identifier the agent that has it and waits for as
  many results as there are tasks.
\<close>

theorem module_tasks_distributed:
  assumes "g_parseTaskSpec env yaml = Some spec" and "gc_coordinator a" "gc_registry a"
    and "module_decomposeGoal (case ts_level2_module spec of None \<Rightarrow> [] | Some g \<Rightarrow> g) = tasks" "tasks \<noteq> []"
    and "g_queryAgents env (length (gc_calls a)) ''TaskAgent'' None = Inr agents" "agents \<noteq> []"
    and "\<And>n y. \<exists>i. g_submitTask env n y = Inr i"
  shows "\<exists>b. processYamlModule env yaml a = (Inr (), b) \<and> co_state (gl_coord b) = M_WAITING_FOR_TASKS
    \<and> co_expected (gl_coord b) = length tasks
    \<and> gc_calls b = gc_calls a @ Query_Agents ''TaskAgent'' None # map (\<lambda>j. Submit_Task
        (g_generateTaskSpec env (module_child env spec j (tasks ! j) (agents ! (j mod length agents))))
        (case ts_session_id spec of None \<Rightarrow> [] | Some s \<Rightarrow> s) (deadline_of env spec) (ts_task_id spec)) [0..<length tasks]
    \<and> (\<forall>j < length tasks. map_of (co_pending (gl_coord b)) (ts_task_id spec @ ''-subtask-'' @ string_of_nat j) =
        Some (agents ! (j mod length agents)))"
proof -
  let ?timeout = "case g_parseDuration env (ts_timeout spec) of None \<Rightarrow> DEFAULT_TASK_TIMEOUT_MS | Some ms \<Rightarrow> ms"
  let ?coord = "initializeCoordination (length tasks) (transitionTo M_WAITING_FOR_TASKS (module_stateToString M_WAITING_FOR_TASKS)
      (transitionTo M_PLANNING (module_stateToString M_PLANNING) (gl_coord a)))"
  let ?a = "a\<lparr>gc_task_id := ts_task_id spec, gc_calls := gc_calls a @ [Query_Agents ''TaskAgent'' None], gl_available := agents,
      gl_aggregator := Some (ts_strategy spec, ?timeout, length tasks), gl_coord := ?coord\<rparr>"
  have run: "processYamlModule env yaml a = submit_children env spec (module_child env spec) agents 0 tasks ?a"
    using assms by (simp add: processYamlModule_def begin_yaml_def distribute_def queryAvailableChildren_def bind_op_def modify_def
        at_coord_def gets_def catch_op_def rpc_def Let_def module_class_def)
  have inj: "inj_on (\<lambda>j. ts_task_id spec @ ''-subtask-'' @ string_of_nat j) {0..<length tasks}"
    by (rule inj_onI) (metis nat_of_digits_string_of_nat same_append_eq)
  from submit_children_calls [OF _ assms(8), of ?a spec "module_child env spec" agents 0 tasks]
    submit_children_run [of ?a env spec "module_child env spec" agents 0 tasks] map_of_fold_update [OF inj] assms(2) show ?thesis
    unfolding run by (auto simp: module_child_def initializeCoordination_def transitionTo_def)
qed


section \<open>Heartbeats and clients\<close>

text \<open>The task agent and the chief keep one heartbeat thread and never call through a missing client, in any sequence of their
operations.\<close>

definition client_ok :: "grpc_client \<Rightarrow> bool" where
  "client_ok s \<longleftrightarrow> (gc_running s \<longleftrightarrow> gc_thread s) \<and> (gc_registry s \<longrightarrow> gc_coordinator s) \<and> \<not> gc_aborted s"

lemma client_rpc [wf_intros]: "preserves client_ok (rpc c reply)"
  by (simp add: preserves_def rpc_def client_ok_def)

lemma client_startHeartbeat [wf_intros]: "preserves client_ok startHeartbeat"
  by (simp add: preserves_def startHeartbeat_def launch_thread_def client_ok_def)

lemma client_stopHeartbeat [wf_intros]: "preserves client_ok stopHeartbeat"
  by (simp add: preserves_def stopHeartbeat_def client_ok_def)

lemma client_processYamlTask: "preserves client_ok (processYamlTask env tick yaml)"
  unfolding processYamlTask_def Let_def by (intro wf_intros)

lemma client_shutdown: "preserves client_ok (shutdown_client env)"
proof -
  have "preserves client_ok (modify (\<lambda>s. s\<lparr>gc_coordinator := False, gc_registry := False\<rparr>))"
    by (simp add: preserves_def modify_def client_ok_def)
  then show ?thesis unfolding shutdown_client_def split_def by (intro wf_intros)
qed

lemma client_heartbeat_round: "preserves client_ok (heartbeat_round env)"
proof -
  have "preserves client_ok (catch_op (rpc c (g_heartbeat env)) (\<lambda>e. ret ()))" for c by (intro wf_intros)
  then show ?thesis by (simp add: preserves_def heartbeat_round_def)
qed

lemma client_register: "preserves client_ok (register env startHeartbeat ca ra ty lv caps k)"
proof -
  have tail: "preserves client_ok
      (catch_op
        (bind_op (rpc (Register reg) (\<lambda>n. g_registerAgent env n reg)) (\<lambda>(success, message).
           if success then startHeartbeat
           else throw (Runtime_Error (''Failed to register with ServiceRegistry: '' @ message))))
        (\<lambda>e. throw (Runtime_Error (''gRPC registration failed: '' @ what e))))" for reg
    unfolding split_def by (intro wf_intros)
  show ?thesis unfolding preserves_def
  proof (intro allI impI)
    fix s assume "client_ok s"
    then show "client_ok (snd (register env startHeartbeat ca ra ty lv caps k s))"
      using preservesD [OF tail, of "s\<lparr>gc_type := ty, gc_level := lv, gc_coordinator := True, gc_registry := True\<rparr>"]
      by (auto simp: register_def bind_op_def modify_def lift_result_def gets_def Let_def client_ok_def split: sum.split)
  qed
qed

lemma client_query [wf_intros]: "preserves client_ok (queryComponentLeadAgent env)"
  unfolding queryComponentLeadAgent_def by (intro wf_intros)

lemma queried_with_coordinator:
  assumes "queryComponentLeadAgent env s = (Inr c, s')" and "c \<noteq> []" and "client_ok s"
  shows "gc_coordinator s'"
  using assms by (auto simp: queryComponentLeadAgent_def bind_op_def gets_def catch_op_def rpc_def ret_def client_ok_def
      split: if_splits sum.splits)

lemma client_submitUserGoal: "preserves client_ok (submitUserGoal env tick user_goal session_id)"
  unfolding preserves_def
proof (intro allI impI)
  fix s assume s: "client_ok s"
  obtain r s1 where q: "queryComponentLeadAgent env s = (r, s1)" by fastforce
  have s1: "client_ok s1" using preserves_run [OF client_query s q] .
  let ?tail = "\<lambda>yaml. catch_op
      (bind_op (rpc (Submit_Task yaml session_id (25 * 60 * 1000) []) (\<lambda>n. g_submitTask env n yaml)) (\<lambda>task_id.
       bind_op (rpc (Get_Task_Result task_id (25 * 60 * 1000)) (\<lambda>n. g_getTaskResult env n task_id)) (\<lambda>res.
         ret (read_goal_result env res))))
      (\<lambda>e. throw (Runtime_Error (''Failed to submit/receive task: '' @ what e)))"
  have tail: "preserves client_ok (?tail yaml)" for yaml by (intro wf_intros)
  show "client_ok (snd (submitUserGoal env tick user_goal session_id s))"
  proof (cases "\<exists>c. r = Inr c \<and> c \<noteq> []")
    case True
    then have "gc_coordinator s1" using queried_with_coordinator q s by blast
    with True q show ?thesis using preservesD [OF tail s1] by (auto simp: submitUserGoal_def bind_op_def gets_def Let_def)
  next
    case False
    with q s1 show ?thesis by (auto simp: submitUserGoal_def bind_op_def throw_def split: sum.split)
  qed
qed

datatype client_op =
    Initialize string string string nat
  | Start_Heartbeat
  | Stop_Heartbeat
  | Heartbeat_Round
  | Yaml_Task nat string
  | User_Goal nat string string
  | Shut_Down

fun client_step :: "grpc_env \<Rightarrow> client_op \<Rightarrow> grpc_client \<Rightarrow> grpc_client" where
  "client_step env (Initialize ca ra ty lv) s = snd (task_initializeGrpc env ca ra ty lv s)"
| "client_step env Start_Heartbeat s = snd (startHeartbeat s)"
| "client_step env Stop_Heartbeat s = snd (stopHeartbeat s)"
| "client_step env Heartbeat_Round s = snd (heartbeat_round env s)"
| "client_step env (Yaml_Task tick yaml) s = snd (processYamlTask env tick yaml s)"
| "client_step env (User_Goal tick user_goal session_id) s = snd (submitUserGoal env tick user_goal session_id s)"
| "client_step env Shut_Down s = snd (shutdown_client env s)"

interpretation gcl: stepping "client_step env" "\<lambda>_. True" client_ok for env
proof unfold_locales
  fix s and e :: client_op
  assume "client_ok s"
  then show "client_ok (client_step env e s)"
    by (cases e) (simp_all add: task_initializeGrpc_def preservesD [OF client_register] preservesD [OF client_startHeartbeat]
        preservesD [OF client_stopHeartbeat] preservesD [OF client_heartbeat_round] preservesD [OF client_processYamlTask]
        preservesD [OF client_submitUserGoal] preservesD [OF client_shutdown])
qed

text \<open>In no sequence of its operations does a task agent or a chief start a second heartbeat thread into the same object or
call through a client it does not have.\<close>

lemma client_never_aborts: "\<not> gc_aborted (fold (client_step env) ops (new_remote agent_id agent_type level))"
proof -
  have "client_ok (new_remote agent_id agent_type level)" by (simp add: client_ok_def new_remote_def)
  then have "client_ok (fold (client_step env) ops (new_remote agent_id agent_type level))"
    by (rule gcl.run_inv) (simp add: list_all_iff)
  then show ?thesis by (simp add: client_ok_def)
qed

text \<open>The leads have no such guard: \<open>startHeartbeat\<close> after a registration that succeeded ends the process, and so does the end
of a poll after a shutdown.\<close>

lemma lead_second_heartbeat_aborts:
  assumes "register env coord_startHeartbeat ca ra ty lv caps k a = (Inr (), b)"
  shows "gc_aborted (snd (coord_startHeartbeat b))"
proof -
  have "gc_thread b \<or> gc_aborted b"
    using assms by (auto simp: register_def bind_op_def modify_def lift_result_def gets_def Let_def catch_op_def rpc_def throw_def
        coord_startHeartbeat_def launch_thread_def split: sum.splits if_splits prod.splits)
  then show ?thesis by (auto simp: coord_startHeartbeat_def modify_def launch_thread_def)
qed

lemma poll_after_shutdown_aborts:
  assumes "k < length (gl_polls a)"
  shows "gc_aborted (poll_ends cls env k (snd (lead_shutdown a)))"
  using assms by (simp add: lead_shutdown_def shutdownGrpc_def coord_stopHeartbeat_def bind_op_def modify_def poll_ends_def Let_def
      split: prod.split)

section \<open>Concrete instances\<close>

definition example_spec :: task_spec where
  "example_spec = \<lparr>ts_api_version = ''v1'', ts_kind = ''HierarchicalTask'', ts_name = ''module-0'', ts_task_id = ''m0'',
     ts_parent_task_id = Some ''c0'', ts_session_id = None, ts_created_at = [], ts_deadline = None, ts_origin_node = [],
     ts_target_level = 2, ts_target_agent_type = ''ModuleLeadAgent'', ts_target_agent_id = ''lead'', ts_level0_goal = [],
     ts_level1_directive = None, ts_level2_module = Some ''7 8'', ts_level3_task = None, ts_command = ''echo 7'',
     ts_action_type = ''DECOMPOSE'', ts_action_priority = [], ts_strategy = [], ts_timeout = [], ts_phase = [],
     ts_result = None, ts_error = None, ts_start_time = None, ts_completion_time = None\<rparr>"

definition example_grpc :: grpc_env where
  "example_grpc = \<lparr>ae_uuid = (\<lambda>_. []), ae_now = (\<lambda>_. 0), te_stod = (\<lambda>_. Inr 0), te_listing = [], te_shell = (\<lambda>_. Ran ''7'' 0),
     g_parseTaskSpec = (\<lambda>_. Some example_spec), g_generateTaskSpec = ts_task_id, g_parseDuration = (\<lambda>_. None),
     g_empty_spec = example_spec, g_connect = (\<lambda>_. Inr ()), g_registerAgent = (\<lambda>_ _. Inr (True, [])),
     g_queryAgents = (\<lambda>_ _ _. Inr [''t1'', ''t2'']), g_submitTask = (\<lambda>_ _. Inr ''r''),
     g_getTaskResult = (\<lambda>_ _. Inr \<lparr>tr_task_id = ''r'', tr_result_yaml = [], tr_success = True, tr_error_message = []\<rparr>),
     g_submitResult = (\<lambda>_ _. Inr ()), g_heartbeat = (\<lambda>_. Inr ()), g_unregisterAgent = (\<lambda>_. Inr ()), g_time = (\<lambda>_. []),
     g_clock = (\<lambda>_. 0)\<rparr>"

definition example_lead :: "module_state grpc_lead" where
  "example_lead = grpc_client.extend ((new_remote ''lead'' ''ModuleLeadAgent'' 2)\<lparr>gc_coordinator := True, gc_registry := True\<rparr>)
     \<lparr>gl_coord = new_coordination M_IDLE, gl_available = [], gl_aggregator = None, gl_polls = []\<rparr>"

theorem yaml_task_answered_witness:
  "\<exists>res. processYamlTask example_grpc 0 ''y'' ((new_remote ''t'' ''TaskAgent'' 3)\<lparr>gc_coordinator := True\<rparr>) =
      (Inr (), (new_remote ''t'' ''TaskAgent'' 3)\<lparr>gc_coordinator := True, gc_calls := [Submit_Result res]\<rparr>)
    \<and> tr_task_id res = ''m0''
    \<and> (case executeBash example_grpc ''echo 7'' of
         Inr out \<Rightarrow> tr_success res
       | Inl e \<Rightarrow> \<not> tr_success res \<and> tr_error_message res = what e)"
  using yaml_task_answered [of example_grpc "''y''" example_spec "(new_remote ''t'' ''TaskAgent'' 3)\<lparr>gc_coordinator := True\<rparr>" 0]
  by (simp add: example_grpc_def example_spec_def new_remote_def)

lemma example_tasks: "module_decomposeGoal ''7 8'' = [''echo 7'', ''echo 8'']"
  by code_simp

theorem module_tasks_distributed_witness:
  "\<exists>b. processYamlModule example_grpc ''y'' example_lead = (Inr (), b) \<and> co_state (gl_coord b) = M_WAITING_FOR_TASKS
    \<and> gc_calls b = [Query_Agents ''TaskAgent'' None, Submit_Task ''m0-subtask-0'' [] 1500000 ''m0'', Submit_Task ''m0-subtask-1'' [] 1500000 ''m0'']"
proof -
  have "string_of_nat 0 = ''0''" "string_of_nat 1 = ''1''" by code_simp+
  then show ?thesis
    using module_tasks_distributed [of example_grpc "''y''" example_spec example_lead "[''echo 7'', ''echo 8'']" "[''t1'', ''t2'']"] example_tasks
    by (simp add: example_grpc_def example_spec_def example_lead_def grpc_client.defs new_remote_def module_child_def deadline_of_def
        DEFAULT_TASK_TIMEOUT_MS_def upt_rec) blast
qed




end
