(* ===== verification/Log_Context.thy ===== *)
theory Log_Context
  imports Prelude "HOL-Library.Word"
begin

unbundle bit_operations_syntax

text \<open>
  Identifiers and log output: the identifiers of the store (\<open>generate_uuid\<close> of \<open>src/store.cpp\<close>) and of log correlation
  (\<open>generateCorrelationId\<close> of \<open>src/concurrency/logger.cpp\<close>, on 32-bit words), the log context of a thread with its
  correlation scopes, the substitution of placeholders and the level filter (\<open>include/agamemnon_agents/concurrency/logger.hpp\<close>).
  Random draws are arguments; the error stream is the list of lines written to it.
\<close>

section \<open>Identifiers\<close>

definition lower_hex :: "nat \<Rightarrow> char" where
  "lower_hex v = (if v < 10 then char_of (48 + v) else char_of (97 + v - 10))"

text \<open>\<open>dist k\<close> is the \<open>k\<close>-th draw from 0 to 15, \<open>dist8\<close> the one from 8 to 11.\<close>

definition generate_uuid_v4 :: "(nat \<Rightarrow> nat) \<Rightarrow> nat \<Rightarrow> string" where
  "generate_uuid_v4 dist dist8 =
     map (\<lambda>k. lower_hex (dist k)) [0..<8] @ ''-'' @ map (\<lambda>k. lower_hex (dist k)) [8..<12] @ ''-4'' @
     map (\<lambda>k. lower_hex (dist k)) [12..<15] @ ''-'' @ [lower_hex dist8] @ map (\<lambda>k. lower_hex (dist k)) [15..<18] @ ''-'' @
     map (\<lambda>k. lower_hex (dist k)) [18..<30]"

text \<open>\<open>%0nx\<close> of an unsigned 32-bit number: at least \<open>n\<close> digits.\<close>

definition nibble :: "nat \<Rightarrow> 32 word \<Rightarrow> nat" where
  "nibble k w = unat (drop_bit (4 * k) w AND 0xF)"

definition printf_hex :: "nat \<Rightarrow> 32 word \<Rightarrow> string" where
  "printf_hex n w =
     (let ds = map (\<lambda>k. nibble k w) [7, 6, 5, 4, 3, 2, 1, 0]
      in map lower_hex (drop (min (length (takeWhile (\<lambda>d. d = 0) ds)) (8 - n)) ds))"

definition generateCorrelationId :: "32 word \<Rightarrow> 32 word \<Rightarrow> 32 word \<Rightarrow> 32 word \<Rightarrow> string" where
  "generateCorrelationId a b0 c0 d =
     (let b = (b0 AND 0xFFFF0FFF) OR 0x00004000; c = (c0 AND 0x3FFFFFFF) OR 0x80000000 in
      printf_hex 8 a @ ''-'' @ printf_hex 4 (drop_bit 16 b AND 0xFFFF) @ ''-'' @ printf_hex 4 (b AND 0xFFFF) @ ''-'' @
      printf_hex 4 (drop_bit 16 c AND 0xFFFF) @ ''-'' @ printf_hex 4 (c AND 0xFFFF) @ printf_hex 8 d)"

section \<open>The log context\<close>

record log_context =
  lx_agent_id :: string
  lx_worker_id :: int
  lx_session_id :: string
  lx_correlation_id :: string

definition new_context :: log_context where
  "new_context = \<lparr>lx_agent_id = [], lx_worker_id = -1, lx_session_id = [], lx_correlation_id = []\<rparr>"

definition context_set :: "string \<Rightarrow> int \<Rightarrow> string \<Rightarrow> log_context \<Rightarrow> log_context" where
  "context_set agent_id worker_id session_id x =
     x\<lparr>lx_agent_id := agent_id, lx_worker_id := worker_id, lx_session_id := session_id\<rparr>"

definition context_clear :: "log_context \<Rightarrow> log_context" where
  "context_clear x = \<lparr>lx_agent_id = [], lx_worker_id = -1, lx_session_id = [], lx_correlation_id = []\<rparr>"

definition setCorrelationId :: "string \<Rightarrow> log_context \<Rightarrow> log_context" where
  "setCorrelationId correlation_id x = x\<lparr>lx_correlation_id := correlation_id\<rparr>"

definition clearCorrelationId :: "log_context \<Rightarrow> log_context" where
  "clearCorrelationId x = x\<lparr>lx_correlation_id := []\<rparr>"

definition getContextString :: "log_context \<Rightarrow> string" where
  "getContextString x =
     (if lx_agent_id x = [] then ''[no-context]''
      else ''['' @ lx_agent_id x @ '':'' @ string_of_int (lx_worker_id x) @ '':'' @ lx_session_id x @
        (if lx_correlation_id x \<noteq> [] then '':corr='' @ lx_correlation_id x else []) @ '']'')"

section \<open>Output\<close>

datatype log_level = L_trace | L_debug | L_info | L_warn | L_err | L_critical | L_off

primrec level_number :: "log_level \<Rightarrow> nat" where
  "level_number L_trace = 0"
| "level_number L_debug = 1"
| "level_number L_info = 2"
| "level_number L_warn = 3"
| "level_number L_err = 4"
| "level_number L_critical = 5"
| "level_number L_off = 6"

primrec levelName :: "log_level \<Rightarrow> string" where
  "levelName L_trace = ''trace''"
| "levelName L_debug = ''debug''"
| "levelName L_info = ''info''"
| "levelName L_warn = ''warn''"
| "levelName L_err = ''error''"
| "levelName L_critical = ''critical''"
| "levelName L_off = ''off''"

text \<open>\<open>substituteNext\<close> appends to \<open>out\<close> and returns where the next search starts, or \<open>npos\<close>.\<close>

definition substituteNext :: "string \<Rightarrow> string \<Rightarrow> nat \<Rightarrow> string \<Rightarrow> nat option \<times> string" where
  "substituteNext out fmt searchPos replacement =
     (case find_from ''{}'' searchPos fmt of
        None \<Rightarrow> (None, out @ drop searchPos fmt)
      | Some pos \<Rightarrow> (Some (pos + 2), out @ take (pos - searchPos) (drop searchPos fmt) @ replacement))"

fun format_from :: "string \<Rightarrow> string \<Rightarrow> nat \<Rightarrow> string list \<Rightarrow> string" where
  "format_from out fmt scanPos [] = out @ drop scanPos fmt"
| "format_from out fmt scanPos (piece # pieces) =
     (case substituteNext out fmt scanPos piece of
        (None, out') \<Rightarrow> out'
      | (Some scanPos', out') \<Rightarrow> format_from out' fmt scanPos' pieces)"

definition log_format :: "string \<Rightarrow> string list \<Rightarrow> string" where
  "log_format fmt pieces = format_from [] fmt 0 pieces"

record logger =
  lg_level :: log_level
  lg_lines :: "string list"

definition logger_init :: "log_level \<Rightarrow> logger \<Rightarrow> logger" where
  "logger_init level g = g\<lparr>lg_level := level\<rparr>"

definition logger_emit :: "log_level \<Rightarrow> string \<Rightarrow> logger \<Rightarrow> logger" where
  "logger_emit level message g = g\<lparr>lg_lines := lg_lines g @ [''['' @ levelName level @ ''] '' @ message]\<rparr>"

definition logger_log :: "log_level \<Rightarrow> string \<Rightarrow> string list \<Rightarrow> log_context \<Rightarrow> logger \<Rightarrow> logger" where
  "logger_log level fmt args x g =
     (if level_number level < level_number (lg_level g) then g
      else logger_emit level (getContextString x @ '' '' @ log_format fmt args) g)"

text \<open>What a thread does with its context; a scope is an object of \<open>CorrelationScope\<close> around a sequence of actions.\<close>

datatype log_action =
    Log log_level string "string list"
  | Set_Context string int string
  | Clear_Context
  | Set_Correlation string
  | Clear_Correlation
  | Scope string "log_action list"

fun run_action :: "log_action \<Rightarrow> log_context \<times> logger \<Rightarrow> log_context \<times> logger"
  and run_actions :: "log_action list \<Rightarrow> log_context \<times> logger \<Rightarrow> log_context \<times> logger" where
  "run_action (Log level fmt args) (x, g) = (x, logger_log level fmt args x g)"
| "run_action (Set_Context agent_id worker_id session_id) (x, g) = (context_set agent_id worker_id session_id x, g)"
| "run_action Clear_Context (x, g) = (context_clear x, g)"
| "run_action (Set_Correlation correlation_id) (x, g) = (setCorrelationId correlation_id x, g)"
| "run_action Clear_Correlation (x, g) = (clearCorrelationId x, g)"
| "run_action (Scope correlation_id actions) (x, g) =
     (let (x', g') = run_actions actions (setCorrelationId correlation_id x, g)
      in (setCorrelationId (lx_correlation_id x) x', g'))"
| "run_actions [] s = s"
| "run_actions (a # as) s = run_actions as (run_action a s)"


section \<open>The shape of identifiers\<close>

text \<open>The layout of a random identifier: \<open>x\<close> stands for a hexadecimal digit, \<open>y\<close> for 8, 9, a or b.\<close>

definition fits :: "char \<Rightarrow> char \<Rightarrow> bool" where
  "fits t c =
     (if t = CHR ''x'' then c \<in> set ''0123456789abcdef''
      else if t = CHR ''y'' then c \<in> set ''89ab'' else c = t)"

definition uuid_v4 :: "string \<Rightarrow> bool" where
  "uuid_v4 s \<longleftrightarrow> list_all2 fits ''xxxxxxxx-xxxx-4xxx-yxxx-xxxxxxxxxxxx'' s"

lemma lower_hex_fits: "v < 16 \<Longrightarrow> fits (CHR ''x'') (lower_hex v)"
proof -
  have "\<forall>v < 16. fits (CHR ''x'') (lower_hex v)" by code_simp
  then show "v < 16 \<Longrightarrow> fits (CHR ''x'') (lower_hex v)" by blast
qed

lemma lower_hex_variant: "8 \<le> v \<Longrightarrow> v < 12 \<Longrightarrow> fits (CHR ''y'') (lower_hex v)"
proof -
  have "\<forall>v < 12. 8 \<le> v \<longrightarrow> fits (CHR ''y'') (lower_hex v)" by code_simp
  then show "8 \<le> v \<Longrightarrow> v < 12 \<Longrightarrow> fits (CHR ''y'') (lower_hex v)" by blast
qed

lemma fits_itself: "t \<noteq> CHR ''x'' \<Longrightarrow> t \<noteq> CHR ''y'' \<Longrightarrow> fits t t"
  by (simp add: fits_def)

lemma nibble_less: "nibble k w < 16"
proof -
  have "drop_bit (4 * k) w AND 0xF \<le> 0xF" by (rule word_and_le1)
  then have "unat (drop_bit (4 * k) w AND 0xF) \<le> unat (0xF :: 32 word)" by (simp add: word_le_nat_alt)
  then show ?thesis by (simp add: nibble_def)
qed

lemma nibble_low:
  assumes "k \<in> {4, 5, 6, 7}"
  shows "nibble k (w AND 0xFFFF) = 0"
  using assms by (auto simp: nibble_def drop_bit_and and.assoc)

lemma nibble_low_keep:
  assumes "k \<in> {0, 1, 2, 3}"
  shows "nibble k (w AND 0xFFFF) = nibble k w"
  using assms by (auto simp: nibble_def drop_bit_and and.assoc)

lemma printf_hex_4: "printf_hex 4 (w AND 0xFFFF) = map (\<lambda>k. lower_hex (nibble k w)) [3, 2, 1, 0]"
proof -
  have "min (length (takeWhile (\<lambda>d. d = 0) ([0, 0, 0, 0] @ ds))) 4 = 4" for ds :: "nat list" by simp
  then show ?thesis by (simp add: printf_hex_def nibble_low nibble_low_keep)
qed

lemma printf_hex_8: "printf_hex 8 w = map (\<lambda>k. lower_hex (nibble k w)) [7, 6, 5, 4, 3, 2, 1, 0]"
  by (simp add: printf_hex_def)

lemma version_nibble: "nibble 3 ((b AND 0xFFFF0FFF) OR 0x00004000) = 4"
  by (simp add: nibble_def drop_bit_and drop_bit_or bit.conj_disj_distrib2 and.assoc)

lemma variant_nibble: "8 \<le> nibble 3 (drop_bit 16 ((c AND 0x3FFFFFFF) OR 0x80000000))
  \<and> nibble 3 (drop_bit 16 ((c AND 0x3FFFFFFF) OR 0x80000000)) < 12"
proof -
  let ?y = "drop_bit 28 c AND 3"
  have "?y \<le> 3" by (rule word_and_le1)
  then have "unat ?y \<le> 3" by (simp add: word_le_nat_alt)
  then have "unat ?y \<in> {0, 1, 2, 3}" by auto
  moreover have "word_of_nat (unat ?y) = ?y" by simp
  ultimately have "?y \<in> word_of_nat ` {0, 1, 2, 3}" by (metis imageI)
  then have "?y \<in> {0, 1, 2, 3}" by simp
  moreover have "nibble 3 (drop_bit 16 ((c AND 0x3FFFFFFF) OR 0x80000000)) = unat ((?y OR 8) AND 0xF)"
    by (simp add: nibble_def drop_bit_and drop_bit_or)
  ultimately show ?thesis by auto
qed

lemmas lower_hex_nibble = lower_hex_fits [OF nibble_less]

text \<open>C37: Whatever the random words are, a correlation identifier has the layout of a version 4 UUID: 36 characters, the
  version digit 4 and a variant digit 8, 9, a or b.\<close>

theorem correlation_id_shape: "uuid_v4 (generateCorrelationId a b0 c0 d)"
proof -
  have four: "char_of (52 :: nat) = CHR ''4''" by code_simp
  have variant: "fits (CHR ''y'') (lower_hex (nibble 3 (drop_bit 16 ((c0 AND 0x3FFFFFFF) OR 0x80000000))))"
    by (simp only: variant_nibble lower_hex_variant)
  show ?thesis
    using variant by (simp add: uuid_v4_def generateCorrelationId_def Let_def printf_hex_4 printf_hex_8 lower_hex_nibble
      version_nibble fits_itself fits_def [of "CHR ''4''"] lower_hex_def [of 4] four)
qed

text \<open>Identifiers of the store have the same layout, for all draws in the ranges of the two distributions.\<close>

lemma store_id_shape:
  assumes "\<And>k. dist k < 16" and "8 \<le> dist8" and "dist8 < 12"
  shows "uuid_v4 (generate_uuid_v4 dist dist8)"
  using assms by (simp add: uuid_v4_def generate_uuid_v4_def upt_rec lower_hex_fits lower_hex_variant fits_itself)

section \<open>Placeholders\<close>

text \<open>What formatting promises: each argument takes the place of the next placeholder, read from left to right.\<close>

fun fill :: "string \<Rightarrow> string list \<Rightarrow> string" where
  "fill s [] = s"
| "fill [] (p # ps) = []"
| "fill (c # s) (p # ps) =
     (if starts_with ''{}'' (c # s) then p @ fill (drop 2 (c # s)) ps else c # fill s (p # ps))"

lemma fill_at_placeholder:
  "fill s (p # ps) =
     (case find_sub ''{}'' s of None \<Rightarrow> s | Some i \<Rightarrow> take i s @ p @ fill (drop (i + 2) s) ps)"
  by (induction s) (auto split: option.split simp: starts_with_def)

lemma format_from_fill:
  "scanPos \<le> length fmt \<Longrightarrow> format_from out fmt scanPos pieces = out @ fill (drop scanPos fmt) pieces"
proof (induction pieces arbitrary: out scanPos)
  case (Cons piece pieces)
  show ?case
  proof (cases "find_sub ''{}'' (drop scanPos fmt)")
    case None
    then show ?thesis using Cons.prems
      by (simp add: substituteNext_def find_from_def fill_at_placeholder)
  next
    case (Some i)
    then have "scanPos + i + 2 \<le> length fmt" using find_sub_bound [OF Some] Cons.prems by simp
    then show ?thesis using Some Cons.prems
      by (simp add: substituteNext_def find_from_def fill_at_placeholder Cons.IH add.commute add.left_commute)
  qed
qed simp

lemma log_format_fill: "log_format fmt pieces = fill fmt pieces"
  by (simp add: log_format_def format_from_fill)

section \<open>Scopes\<close>

text \<open>What a scope promises: an action logs under the identifier of its innermost scope, whatever ran before it. This is a
  reading of the same actions that passes the context down instead of setting and restoring it.\<close>

primrec scoped :: "log_action \<Rightarrow> bool" where
  "scoped (Log level fmt args) = True"
| "scoped (Set_Context agent_id worker_id session_id) = False"
| "scoped Clear_Context = False"
| "scoped (Set_Correlation correlation_id) = False"
| "scoped Clear_Correlation = False"
| "scoped (Scope correlation_id actions) = list_all (\<lambda>b. b) (map scoped actions)"

primrec lines_under :: "log_action \<Rightarrow> log_level \<Rightarrow> log_context \<Rightarrow> string list" where
  "lines_under (Log level fmt args) threshold x =
     (if level_number threshold \<le> level_number level
      then [''['' @ levelName level @ ''] '' @ getContextString x @ '' '' @ fill fmt args] else [])"
| "lines_under (Set_Context agent_id worker_id session_id) threshold x = []"
| "lines_under Clear_Context threshold x = []"
| "lines_under (Set_Correlation correlation_id) threshold x = []"
| "lines_under Clear_Correlation threshold x = []"
| "lines_under (Scope correlation_id actions) threshold x =
     concat (map (\<lambda>f. f threshold (x\<lparr>lx_correlation_id := correlation_id\<rparr>)) (map lines_under actions))"

lemma run_scoped:
  "scoped a \<Longrightarrow>
     run_action a s = (fst s, (snd s)\<lparr>lg_lines := lg_lines (snd s) @ lines_under a (lg_level (snd s)) (fst s)\<rparr>)"
  "list_all scoped as \<Longrightarrow>
     run_actions as s = (fst s, (snd s)\<lparr>lg_lines := lg_lines (snd s)
       @ concat (map (\<lambda>a. lines_under a (lg_level (snd s)) (fst s)) as)\<rparr>)"
proof (induction a s and as s rule: run_action_run_actions.induct)
  case (6 correlation_id actions x g)
  then show ?case by (simp add: setCorrelationId_def list.pred_map comp_def)
qed (auto simp: logger_log_def logger_emit_def log_format_fill)

text \<open>A scope leaves the context as it found it, however scopes nest, and every line written inside carries the identifier
  of the innermost scope around it.\<close>

lemma scopes_nest:
  assumes "list_all scoped actions"
  shows "run_action (Scope correlation_id actions) (x, g) =
    (x, g\<lparr>lg_lines := lg_lines g
       @ concat (map (\<lambda>a. lines_under a (lg_level g) (setCorrelationId correlation_id x)) actions)\<rparr>)"
  using assms by (simp add: run_scoped setCorrelationId_def)

end
