(* ===== verification/Steal_Backoff.thy ===== *)
theory Steal_Backoff
  imports Work_Stealing
begin

text \<open>
  How an idle worker waits for work: the three loops of \<open>tryStealWithBackoff\<close> (\<open>src/concurrency/work_stealing_scheduler.cpp\<close>)
  and the awaitable with a time limit (\<open>src/concurrency/pull_or_steal.cpp\<close>). Both look at the queues again and again while other threads
  change them; what the others do before a round, and what the shutdown flag says after it, is an argument indexed by
  the number of the round. The last loop has no bound, so a call that never returns is \<open>None\<close>.
\<close>

section \<open>Three phases of waiting\<close>

definition SPIN_ITERATIONS :: nat where
  "SPIN_ITERATIONS = 100"

definition YIELD_ITERATIONS :: nat where
  "YIELD_ITERATIONS = 1000"

datatype pause = Yield | Sleep

record 'f surroundings =
  sr_pick :: "'f work_item list \<Rightarrow> nat"
  sr_others :: "nat \<Rightarrow> 'f work_item list list \<Rightarrow> 'f work_item list list"
  sr_stop :: "nat \<Rightarrow> bool"

record 'f idle =
  id_queues :: "'f work_item list list"
  id_context :: string
  id_round :: nat
  id_pauses :: "pause list"

definition steal_round :: "'f surroundings \<Rightarrow> nat \<Rightarrow> 'f idle \<Rightarrow> 'f work_item option \<times> 'f idle" where
  "steal_round env worker_index s =
     (let (work, context, queues) =
        tryStealOnce (sr_pick env) worker_index (id_context s) (sr_others env (id_round s) (id_queues s))
      in (work, s\<lparr>id_queues := queues, id_context := context, id_round := Suc (id_round s)\<rparr>))"

text \<open>The flag as it is read after the round that was just made.\<close>

definition shutdown_seen :: "'f surroundings \<Rightarrow> 'f idle \<Rightarrow> bool" where
  "shutdown_seen env s = sr_stop env (id_round s - 1)"

text \<open>The first two loops end with \<open>Inl\<close> the number of iterations or \<open>Inr\<close> what the call returns.\<close>

function spin_loop :: "'f surroundings \<Rightarrow> nat \<Rightarrow> nat \<Rightarrow> 'f idle \<Rightarrow> (nat + 'f work_item option) \<times> 'f idle" where
  "spin_loop env worker_index iterations s =
     (if iterations < SPIN_ITERATIONS then
        case steal_round env worker_index s of
          (Some work, s') \<Rightarrow> (Inr (Some work), s')
        | (None, s') \<Rightarrow>
            if shutdown_seen env s' then (Inr None, s') else spin_loop env worker_index (Suc iterations) s'
      else (Inl iterations, s))"
  by pat_completeness auto
termination
  by (relation "measure (\<lambda>(env, w, n, s). SPIN_ITERATIONS - n)") auto

function yield_loop :: "'f surroundings \<Rightarrow> nat \<Rightarrow> nat \<Rightarrow> 'f idle \<Rightarrow> (nat + 'f work_item option) \<times> 'f idle" where
  "yield_loop env worker_index iterations s =
     (if iterations < YIELD_ITERATIONS then
        case steal_round env worker_index s of
          (Some work, s') \<Rightarrow> (Inr (Some work), s')
        | (None, s1) \<Rightarrow>
            let s' = s1\<lparr>id_pauses := id_pauses s1 @ [Yield]\<rparr> in
            if shutdown_seen env s' then (Inr None, s') else yield_loop env worker_index (Suc iterations) s'
      else (Inl iterations, s))"
  by pat_completeness auto
termination
  by (relation "measure (\<lambda>(env, w, n, s). YIELD_ITERATIONS - n)") auto

partial_function (option) sleep_loop ::
    "'f surroundings \<Rightarrow> nat \<Rightarrow> 'f idle \<Rightarrow> ('f work_item option \<times> 'f idle) option" where
  "sleep_loop env worker_index s =
     (case steal_round env worker_index s of
        (Some work, s') \<Rightarrow> Some (Some work, s')
      | (None, s1) \<Rightarrow>
          let s' = s1\<lparr>id_pauses := id_pauses s1 @ [Sleep]\<rparr> in
          if shutdown_seen env s' then Some (None, s') else sleep_loop env worker_index s')"

definition tryStealWithBackoff :: "'f surroundings \<Rightarrow> nat \<Rightarrow> 'f idle \<Rightarrow> ('f work_item option \<times> 'f idle) option" where
  "tryStealWithBackoff env worker_index s =
     (case spin_loop env worker_index 0 s of
        (Inr work, s') \<Rightarrow> Some (work, s')
      | (Inl iterations, s') \<Rightarrow>
          (case yield_loop env worker_index iterations s' of
             (Inr work, s'') \<Rightarrow> Some (work, s'')
           | (Inl iterations', s'') \<Rightarrow> sleep_loop env worker_index s''))"

declare spin_loop.simps [simp del] yield_loop.simps [simp del]

section \<open>The loops are one search\<close>

definition pause_at :: "nat \<Rightarrow> pause list" where
  "pause_at k = (if k < SPIN_ITERATIONS then [] else if k < YIELD_ITERATIONS then [Yield] else [Sleep])"

text \<open>One iteration with number \<open>k\<close>, and a bounded number of them.\<close>

definition iteration :: "'f surroundings \<Rightarrow> nat \<Rightarrow> nat \<Rightarrow> 'f idle \<Rightarrow> 'f work_item option option \<times> 'f idle" where
  "iteration env w k s =
     (case steal_round env w s of
        (Some work, s') \<Rightarrow> (Some (Some work), s')
      | (None, s1) \<Rightarrow>
          let s' = s1\<lparr>id_pauses := id_pauses s1 @ pause_at k\<rparr> in
          (if shutdown_seen env s' then Some None else None, s'))"

primrec search :: "'f surroundings \<Rightarrow> nat \<Rightarrow> nat \<Rightarrow> nat \<Rightarrow> 'f idle \<Rightarrow> ('f work_item option \<times> 'f idle) option" where
  "search env w 0 k s = None"
| "search env w (Suc fuel) k s =
     (case iteration env w k s of (Some r, s') \<Rightarrow> Some (r, s') | (None, s') \<Rightarrow> search env w fuel (Suc k) s')"

definition search_from :: "'f surroundings \<Rightarrow> nat \<Rightarrow> nat \<Rightarrow> 'f idle \<Rightarrow> 'f work_item option \<times> 'f idle \<Rightarrow> bool" where
  "search_from env w k s out \<longleftrightarrow> (\<exists>fuel. search env w fuel k s = Some out)"

lemma search_from_step:
  "search_from env w k s out \<longleftrightarrow>
     (case iteration env w k s of (Some r, s') \<Rightarrow> out = (r, s') | (None, s') \<Rightarrow> search_from env w (Suc k) s' out)"
proof -
  have "(\<exists>fuel. search env w fuel k s = Some out) \<longleftrightarrow> (\<exists>fuel. search env w (Suc fuel) k s = Some out)"
    by (metis not0_implies_Suc option.distinct(1) search.simps(1))
  then show ?thesis by (auto simp: search_from_def split: prod.split option.split)
qed

lemma pause_at_sleep: "YIELD_ITERATIONS \<le> k \<Longrightarrow> pause_at k = [Sleep]"
  by (simp add: pause_at_def SPIN_ITERATIONS_def YIELD_ITERATIONS_def)

lemma sleep_loop_returns:
  assumes run: "sleep_loop env w s = Some out"
  shows "\<forall>k \<ge> YIELD_ITERATIONS. search_from env w k s out"
proof (rule sleep_loop.raw_induct [OF _ run], intro allI impI)
  fix rec :: "'a surroundings \<Rightarrow> nat \<Rightarrow> 'a idle \<Rightarrow> ('a work_item option \<times> 'a idle) option"
  fix env :: "'a surroundings" and w k and s :: "'a idle" and out
  assume rec: "\<And>env w s out. rec env w s = Some out \<Longrightarrow> \<forall>k \<ge> YIELD_ITERATIONS. search_from env w k s out"
    and body: "(case steal_round env w s of
        (None, s1) \<Rightarrow>
          let s' = s1\<lparr>id_pauses := id_pauses s1 @ [Sleep]\<rparr> in if shutdown_seen env s' then Some (None, s') else rec env w s'
      | (Some work, s') \<Rightarrow> Some (Some work, s')) = Some out"
    and k: "YIELD_ITERATIONS \<le> k"
  then show "search_from env w k s out"
    by (subst search_from_step)
      (auto simp: iteration_def pause_at_sleep Let_def split: prod.splits option.splits if_splits)
qed

lemma search_sleep_loop:
  "search env w fuel k s = Some out \<Longrightarrow> YIELD_ITERATIONS \<le> k \<Longrightarrow> sleep_loop env w s = Some out"
proof (induction fuel arbitrary: k s)
  case (Suc fuel)
  then show ?case
    by (subst sleep_loop.simps)
      (auto simp: iteration_def pause_at_sleep Let_def split: prod.splits option.splits if_splits)
qed simp

lemma sleep_loop_search: "YIELD_ITERATIONS \<le> k \<Longrightarrow> sleep_loop env w s = Some out \<longleftrightarrow> search_from env w k s out"
  using sleep_loop_returns search_sleep_loop by (metis search_from_def)

lemma yield_loop_search:
  assumes "SPIN_ITERATIONS \<le> k" and "k \<le> YIELD_ITERATIONS"
  shows "(case yield_loop env w k s of (Inr r, s') \<Rightarrow> Some (r, s') | (Inl k', s') \<Rightarrow> sleep_loop env w s') = Some out
    \<longleftrightarrow> search_from env w k s out"
  using assms
proof (induction env w k s rule: yield_loop.induct)
  case (1 env w k s)
  show ?case
  proof (cases "k < YIELD_ITERATIONS")
    case True
    then have "pause_at k = [Yield]" using 1(2) by (simp add: pause_at_def)
    then show ?thesis using 1 True
      by (subst yield_loop.simps, subst search_from_step) (auto simp: iteration_def Let_def split: prod.splits option.splits)
  next
    case False
    then show ?thesis using 1(3) by (subst yield_loop.simps) (simp add: sleep_loop_search)
  qed
qed

lemma spin_loop_search:
  assumes "k \<le> SPIN_ITERATIONS"
  shows "(case spin_loop env w k s of (Inr r, s') \<Rightarrow> Some (r, s')
      | (Inl k', s') \<Rightarrow> (case yield_loop env w k' s' of (Inr r, s'') \<Rightarrow> Some (r, s'') | (Inl k'', s'') \<Rightarrow> sleep_loop env w s'')) = Some out
    \<longleftrightarrow> search_from env w k s out"
  using assms
proof (induction env w k s rule: spin_loop.induct)
  case (1 env w k s)
  show ?case
  proof (cases "k < SPIN_ITERATIONS")
    case True
    then have "pause_at k = []" by (simp add: pause_at_def)
    then show ?thesis using 1 True
      by (subst spin_loop.simps, subst search_from_step) (auto simp: iteration_def Let_def split: prod.splits option.splits)
  next
    case False
    then have "k = SPIN_ITERATIONS" using 1(2) by simp
    moreover have "SPIN_ITERATIONS \<le> YIELD_ITERATIONS" by (simp add: SPIN_ITERATIONS_def YIELD_ITERATIONS_def)
    ultimately show ?thesis by (subst spin_loop.simps) (simp add: yield_loop_search)
  qed
qed

lemma backoff_search: "tryStealWithBackoff env w s = Some out \<longleftrightarrow> search_from env w 0 s out"
  using spin_loop_search [of 0] by (simp add: tryStealWithBackoff_def)

section \<open>What an idle worker gets\<close>

text \<open>The queues as the worker sees them in round \<open>n\<close> while it takes nothing, and when its search is over.\<close>

primrec seen :: "'f surroundings \<Rightarrow> 'f work_item list list \<Rightarrow> nat \<Rightarrow> 'f work_item list list" where
  "seen env queues 0 = sr_others env 0 queues"
| "seen env queues (Suc n) = sr_others env (Suc n) (seen env queues n)"

definition settled :: "'f surroundings \<Rightarrow> 'f work_item list list \<Rightarrow> nat \<Rightarrow> bool" where
  "settled env queues n \<longleftrightarrow> \<not> list_all (\<lambda>q. q = []) (seen env queues n) \<or> sr_stop env n"

text \<open>The pauses made in a number of rounds without work.\<close>

definition pauses :: "nat \<Rightarrow> pause list" where
  "pauses n = replicate (min n YIELD_ITERATIONS - SPIN_ITERATIONS) Yield @ replicate (n - YIELD_ITERATIONS) Sleep"

lemma pauses_Suc: "pauses (Suc n) = pauses n @ pause_at n"
proof -
  have less: "SPIN_ITERATIONS < YIELD_ITERATIONS" by (simp add: SPIN_ITERATIONS_def YIELD_ITERATIONS_def)
  consider "n < SPIN_ITERATIONS" | "SPIN_ITERATIONS \<le> n" "n < YIELD_ITERATIONS" | "YIELD_ITERATIONS \<le> n" by linarith
  then show ?thesis
    using less by cases (auto simp: pauses_def pause_at_def Suc_diff_le replicate_append_same [symmetric] min_def)
qed

lemma steal_some_empty:
  "list_all (\<lambda>q. q = []) queues \<Longrightarrow> \<forall>v. Some v \<in> set victims \<longrightarrow> v < length queues
    \<Longrightarrow> steal_some pick victims c queues = (None, c, queues)"
  by (induction pick victims c queues rule: steal_some.induct) (auto simp: steal_def try_dequeue_def list_all_length)

lemma victims_in_range:
  "w < length queues \<Longrightarrow>
     \<forall>v. Some v \<in> set (map (\<lambda>i. Some ((w + i) mod length queues)) [1..<length queues]) \<longrightarrow> v < length queues"
  by (auto simp: image_iff intro!: mod_less_divisor)

lemma tryStealOnce_empty:
  assumes "list_all (\<lambda>q. q = []) queues" and "w < length queues"
  shows "tryStealOnce pick w c queues = (None, c, queues)"
proof -
  have "pop pick (queues ! w) = None" using assms by (simp add: list_all_length pop_def try_dequeue_def)
  then show ?thesis using steal_some_empty [OF assms(1) victims_in_range [OF assms(2)]] by (simp add: tryStealOnce_def)
qed

lemma tryStealOnce_takes:
  assumes "w < length queues" and "tryStealOnce pick w c queues = (r, c', queues')"
  shows "all_items queues = mset_set (set_option r) + all_items queues'"
proof (cases "pop pick (queues ! w)")
  case None
  then have "steal_some pick (map (\<lambda>i. Some ((w + i) mod length queues)) [1..<length queues]) c queues = (r, c', queues')"
    using assms(2) by (simp add: tryStealOnce_def)
  from steal_some_takes [OF victims_in_range [OF assms(1)] this] show ?thesis by blast
next
  case (Some taken)
  then show ?thesis
    using assms all_items_take [of w queues pick] by (cases taken) (auto simp: tryStealOnce_def pop_def)
qed

lemma length_seen:
  assumes "\<And>n qs. length (sr_others env n qs) = length qs"
  shows "length (seen env queues n) = length queues"
  using assms by (induction n) simp_all

text \<open>The state before round \<open>n\<close> of a search that has found nothing so far.\<close>

definition idle_at :: "'f surroundings \<Rightarrow> 'f idle \<Rightarrow> nat \<Rightarrow> 'f idle" where
  "idle_at env s n = s\<lparr>id_queues := (case n of 0 \<Rightarrow> id_queues s | Suc m \<Rightarrow> seen env (id_queues s) m),
     id_round := n, id_pauses := id_pauses s @ pauses n\<rparr>"

lemma idle_at_0: "id_round s = 0 \<Longrightarrow> idle_at env s 0 = s"
  by (simp add: idle_at_def pauses_def)

lemma steal_round_idle_at:
  "steal_round env w (idle_at env s n) =
     (case tryStealOnce (sr_pick env) w (id_context s) (seen env (id_queues s) n) of
        (r, c', queues') \<Rightarrow> (r, s\<lparr>id_queues := queues', id_context := c', id_round := Suc n, id_pauses := id_pauses s @ pauses n\<rparr>))"
  by (cases n) (simp_all add: steal_round_def idle_at_def split: prod.split)

lemma iteration_idle_at:
  assumes "w < length (id_queues s)" and "\<And>n qs. length (sr_others env n qs) = length qs"
    and "\<not> settled env (id_queues s) n"
  shows "iteration env w n (idle_at env s n) = (None, idle_at env s (Suc n))"
proof -
  have "list_all (\<lambda>q. q = []) (seen env (id_queues s) n)" "\<not> sr_stop env n" using assms(3) by (auto simp: settled_def)
  moreover have "w < length (seen env (id_queues s) n)" using assms(1) by (simp add: length_seen [OF assms(2)])
  ultimately show ?thesis
    by (simp add: iteration_def steal_round_idle_at tryStealOnce_empty shutdown_seen_def idle_at_def [of env s "Suc n"] pauses_Suc)
qed

lemma search_idle:
  assumes "w < length (id_queues s)" and "\<And>n qs. length (sr_others env n qs) = length qs"
    and "\<forall>m < n. \<not> settled env (id_queues s) m" and "id_round s = 0"
  shows "search_from env w 0 s out \<longleftrightarrow> search_from env w n (idle_at env s n) out"
  using assms(3)
proof (induction n)
  case 0
  then show ?case using assms(4) by (simp add: idle_at_0)
next
  case (Suc n)
  then show ?case using iteration_idle_at [OF assms(1,2), of n] search_from_step [of env w n "idle_at env s n" out] by simp
qed

lemma search_never:
  assumes "w < length (id_queues s)" and "\<And>n qs. length (sr_others env n qs) = length qs"
    and "\<forall>n. \<not> settled env (id_queues s) n"
  shows "search env w fuel n (idle_at env s n) = None"
  using iteration_idle_at [OF assms(1,2)] assms(3) by (induction fuel arbitrary: n) simp_all

lemma search_settles:
  assumes "w < length (id_queues s)" and "\<And>n qs. length (sr_others env n qs) = length qs"
    and "settled env (id_queues s) n"
    and r: "tryStealOnce (sr_pick env) w (id_context s) (seen env (id_queues s) n) = (r, c', queues')"
  shows "search_from env w n (idle_at env s n) (r, s\<lparr>id_queues := queues', id_context := c', id_round := Suc n,
      id_pauses := id_pauses s @ pauses (if r = None then Suc n else n)\<rparr>)"
    and "r = None \<longleftrightarrow> list_all (\<lambda>q. q = []) (seen env (id_queues s) n)"
proof -
  have w: "w < length (seen env (id_queues s) n)" using assms(1) by (simp add: length_seen [OF assms(2)])
  show none: "r = None \<longleftrightarrow> list_all (\<lambda>q. q = []) (seen env (id_queues s) n)"
    using tryStealOnce_finds [OF w, of "sr_pick env" "id_context s"] r by (simp add: list_all_length)
  show "search_from env w n (idle_at env s n) (r, s\<lparr>id_queues := queues', id_context := c', id_round := Suc n,
      id_pauses := id_pauses s @ pauses (if r = None then Suc n else n)\<rparr>)"
    using none assms(3)
    by (subst search_from_step, cases r)
      (simp_all add: iteration_def steal_round_idle_at r shutdown_seen_def settled_def pauses_Suc)
qed

text \<open>
  C24: an idle worker of the scheduler waits until there is work or it is told to stop. The call does not return exactly if in no
  round any queue has work and the flag is never set. Otherwise it ends in the first round of either kind, with the item that
  round takes, or with nothing if all queues were empty; an item taken off a queue is handed out even when the flag is set, so
  none is lost. It has spun for the first 100 rounds, yielded up to the 1000th and slept from then on.
\<close>

theorem backoff_correct:
  assumes "w < length (id_queues s)" and "id_round s = 0" and "\<And>n qs. length (sr_others env n qs) = length qs"
  shows "(tryStealWithBackoff env w s = None \<longleftrightarrow> (\<forall>n. \<not> settled env (id_queues s) n))
    \<and> (\<forall>n. settled env (id_queues s) n \<and> (\<forall>m < n. \<not> settled env (id_queues s) m) \<longrightarrow>
        (case tryStealOnce (sr_pick env) w (id_context s) (seen env (id_queues s) n) of (r, c', queues') \<Rightarrow>
           tryStealWithBackoff env w s = Some (r, s\<lparr>id_queues := queues', id_context := c', id_round := Suc n,
             id_pauses := id_pauses s @ pauses (if r = None then Suc n else n)\<rparr>)
           \<and> (r = None \<longleftrightarrow> list_all (\<lambda>q. q = []) (seen env (id_queues s) n))
           \<and> all_items (seen env (id_queues s) n) = mset_set (set_option r) + all_items queues'))"
proof -
  have found: "case tryStealOnce (sr_pick env) w (id_context s) (seen env (id_queues s) n) of (r, c', queues') \<Rightarrow>
      tryStealWithBackoff env w s = Some (r, s\<lparr>id_queues := queues', id_context := c', id_round := Suc n,
        id_pauses := id_pauses s @ pauses (if r = None then Suc n else n)\<rparr>)
      \<and> (r = None \<longleftrightarrow> list_all (\<lambda>q. q = []) (seen env (id_queues s) n))
      \<and> all_items (seen env (id_queues s) n) = mset_set (set_option r) + all_items queues'"
    if n: "settled env (id_queues s) n" "\<forall>m < n. \<not> settled env (id_queues s) m" for n
  proof -
    obtain r c' queues' where r: "tryStealOnce (sr_pick env) w (id_context s) (seen env (id_queues s) n) = (r, c', queues')"
      by (metis prod_cases3)
    have w: "w < length (seen env (id_queues s) n)" using assms(1) by (simp add: length_seen [OF assms(3)])
    show ?thesis
      using search_settles [OF assms(1,3) n(1) r] tryStealOnce_takes [OF w r]
        search_idle [OF assms(1,3) n(2) assms(2)] r by (simp add: backoff_search)
  qed
  have "tryStealWithBackoff env w s = None" if "\<forall>n. \<not> settled env (id_queues s) n"
  proof (rule ccontr)
    assume "tryStealWithBackoff env w s \<noteq> None"
    then obtain out where "search_from env w 0 s out" using backoff_search by blast
    then show False
      using search_never [OF assms(1,3) that, of _ 0] assms(2) by (simp add: search_from_def idle_at_0)
  qed
  moreover have "tryStealWithBackoff env w s \<noteq> None" if n: "settled env (id_queues s) n" for n
  proof -
    obtain k where "settled env (id_queues s) k" "\<forall>m < k. \<not> settled env (id_queues s) m"
      using exists_least_iff [of "settled env (id_queues s)"] n by blast
    from found [OF this] show ?thesis by (simp split: prod.splits)
  qed
  ultimately have "tryStealWithBackoff env w s = None \<longleftrightarrow> (\<forall>n. \<not> settled env (id_queues s) n)" by metis
  then show ?thesis using found by (intro conjI allI impI) (assumption, elim conjE, rule found)
qed

text \<open>Work arrives on the other queue before the third round.\<close>

definition sample_surroundings :: "nat surroundings" where
  "sample_surroundings = \<lparr>sr_pick = (\<lambda>_. 0),
     sr_others = (\<lambda>n queues. if n = 2 then queues[1 := [makeFunction (Some 7)]] else queues), sr_stop = (\<lambda>_. False)\<rparr>"

definition sample_idle :: "nat idle" where
  "sample_idle = \<lparr>id_queues = [[], []], id_context = [], id_round = 0, id_pauses = []\<rparr>"

theorem backoff_correct_witness:
  "tryStealWithBackoff sample_surroundings 0 sample_idle = Some (Some (makeFunction (Some 7)), sample_idle\<lparr>id_round := 3\<rparr>)"
proof -
  have sim: "seen sample_surroundings [[], []] 0 = [[], []]" "seen sample_surroundings [[], []] 1 = [[], []]"
    "seen sample_surroundings [[], []] 2 = [[], [makeFunction (Some 7)]]"
    by (simp_all add: sample_surroundings_def numeral_2_eq_2)
  then have "settled sample_surroundings [[], []] 2" "\<forall>m < 2. \<not> settled sample_surroundings [[], []] m"
    by (simp_all add: settled_def less_2_cases_iff) (auto simp: sample_surroundings_def)
  moreover have "tryStealOnce (\<lambda>_. 0) 0 [] [[], [makeFunction (Some (7::nat))]] = (Some (makeFunction (Some 7)), [], [[], []])"
    by (simp add: tryStealOnce_def pop_def steal_def try_dequeue_def makeFunction_def upt_rec)
  moreover have "pauses 2 = []" by (simp add: pauses_def SPIN_ITERATIONS_def YIELD_ITERATIONS_def)
  moreover have idle: "id_queues sample_idle = [[], []]" "id_context sample_idle = []" "sr_pick sample_surroundings = (\<lambda>_. 0)"
    "id_pauses sample_idle = []" "id_round sample_idle = 0" "0 < length (id_queues sample_idle)"
    "sample_idle\<lparr>id_queues := [[], []], id_context := [], id_round := 3, id_pauses := []\<rparr> = sample_idle\<lparr>id_round := 3\<rparr>"
    by (simp_all add: sample_idle_def sample_surroundings_def)
  moreover have others: "length (sr_others sample_surroundings n queues) = length queues" for n queues
    by (simp add: sample_surroundings_def)
  note backoff_correct [OF idle(6,5) others, THEN conjunct2, rule_format, of 2]
  ultimately show ?thesis using sim(3) by simp
qed

section \<open>Waiting in a coroutine\<close>

text \<open>
  The suspended awaitables look once more after a pause, in which other threads do \<open>others\<close> to the queues. Times are in nanoseconds
  for the clock and in milliseconds for the limit; \<open>suspend_pause\<close> is the pause of the class with a limit, \<open>None\<close> when the limit has passed.
\<close>

definition await_suspend_pull ::
    "('f work_item list \<Rightarrow> nat) \<Rightarrow> ('f work_item list list \<Rightarrow> 'f work_item list list) \<Rightarrow> nat \<Rightarrow> nat option list \<Rightarrow> nat \<Rightarrow> string
       \<Rightarrow> 'f work_item list list \<Rightarrow> 'f work_item option \<times> string \<times> 'f work_item list list" where
  "await_suspend_pull pick others own all_queues worker_index context queues =
     (let queues1 = others queues in
      case pop pick (queues1 ! own) of
        Some (item, rest) \<Rightarrow> (Some item, context, queues1[own := rest])
      | None \<Rightarrow> trySteal pick all_queues worker_index context queues1)"

definition suspend_pause :: "nat \<Rightarrow> nat \<Rightarrow> nat option" where
  "suspend_pause elapsed timeout =
     (if elapsed \<ge> timeout * 1000000 then None else Some (min (timeout - elapsed div 1000000) 10))"

definition await_suspend_timed ::
    "('f work_item list \<Rightarrow> nat) \<Rightarrow> nat \<Rightarrow> nat \<Rightarrow> (nat \<Rightarrow> 'f work_item list list \<Rightarrow> 'f work_item list list) \<Rightarrow> nat \<Rightarrow> nat option list
       \<Rightarrow> nat \<Rightarrow> string \<Rightarrow> 'f work_item list list \<Rightarrow> 'f work_item option \<times> string \<times> 'f work_item list list" where
  "await_suspend_timed pick elapsed timeout others own all_queues worker_index context queues =
     (case suspend_pause elapsed timeout of
        None \<Rightarrow> (None, context, queues)
      | Some ms \<Rightarrow> await_suspend_pull pick (others ms) own all_queues worker_index context queues)"

text \<open>The pause is never empty, at most 10 ms, and overruns the limit by less than the millisecond that is cut off.\<close>

lemma suspend_pause_bounds:
  assumes "suspend_pause elapsed timeout = Some ms"
  shows "0 < ms \<and> ms \<le> 10 \<and> elapsed + ms * 1000000 < timeout * 1000000 + 1000000"
proof -
  have early: "elapsed < timeout * 1000000" and ms: "ms = min (timeout - elapsed div 1000000) 10"
    using assms by (auto simp: suspend_pause_def split: if_splits)
  have quotient: "elapsed div 1000000 < timeout" using early by (simp add: div_less_iff_less_mult)
  have "ms + elapsed div 1000000 \<le> timeout" using ms quotient by linarith
  then have "ms * 1000000 + (elapsed div 1000000) * 1000000 \<le> timeout * 1000000" by (metis add_mult_distrib mult_le_mono1)
  moreover have "elapsed < (elapsed div 1000000) * 1000000 + 1000000"
    using div_mult_mod_eq [of elapsed 1000000] mod_less_divisor [of 1000000 elapsed] by linarith
  ultimately show ?thesis using ms quotient by auto
qed

text \<open>A whole \<open>co_await\<close> of either class is the pull of theory Work_Stealing, late exactly if the limit has passed.\<close>

lemma pull_or_steal_suspends:
  "pull_or_steal pick shutdown late others own all_queues w c queues =
     (case await_ready pick own all_queues w c queues of (Some item, c1, queues1) \<Rightarrow> (await_resume shutdown (Some item), c1, queues1)
      | (None, c1, queues1) \<Rightarrow>
          if late then (None, c1, queues1)
          else case await_suspend_pull pick others own all_queues w c1 queues1 of (r, c2, queues2) \<Rightarrow> (await_resume shutdown r, c2, queues2))"
  by (auto simp: pull_or_steal_def await_suspend_pull_def await_ready_def Let_def split: prod.split option.split)

lemma timed_suspends:
  assumes "await_ready pick own all_queues w c queues = (None, c1, queues1)"
  shows "pull_or_steal pick shutdown (suspend_pause elapsed timeout = None) (others (min (timeout - elapsed div 1000000) 10))
      own all_queues w c queues =
    (case await_suspend_timed pick elapsed timeout others own all_queues w c1 queues1 of
       (r, c2, queues2) \<Rightarrow> (await_resume shutdown r, c2, queues2))"
  using assms
  by (auto simp: pull_or_steal_suspends await_suspend_timed_def suspend_pause_def await_resume_def split: prod.split)

end
