(* ===== verification/Spec2Isabelle.thy ===== *)
theory Spec2Isabelle
  imports Orchestrator_Props Nats_Client Routes_Props Store_Props Server_Config Mock_GitHub Peer_Discovery Agent_System Work_Stealing Agent_Metrics Dag_Walker Task_Claimer Server_Events Coroutine_Task Api_Client Grpc_Agents Log_Context Steal_Backoff
begin

text \<open>
  Verification of Agamemnon: the coordination server (\<open>src/\<close>, \<open>include/agamemnon/\<close>), the agent library it ships
  (\<open>src/agents\<close>, \<open>src/concurrency\<close>, \<open>src/core\<close>, \<open>include/agamemnon_agents/\<close>), the orchestration daemon in Python
  (\<open>agamemnon/src/agamemnon/orchestration/\<close>) and the Python client (\<open>clients/python/\<close>).

  \<^bold>\<open>The program and how its parts meet.\<close> A brief posted to the REST interface becomes a tree of tasks in the store, which keeps
  every entity in memory and, when a token is configured, in a GitHub issue; inbound webhooks and a reconciliation thread
  bring edits back. The orchestrator moves tasks along a transition table, publishes what is dispatched to NATS and reacts
  to the workers' messages. Publishing goes through a circuit breaker with retries and a dead-letter queue. Inside a process,
  agents of four kinds exchange messages over a router, optionally on a work-stealing scheduler. The daemon listens
  for task events, asks for the tasks of a team and claims those that are ready. The client calls the REST interface.

  \<^bold>\<open>Conventions.\<close> Operations that may throw are state transformers with an exception sum, \<open>('s, 'a) op\<close> of theory Prelude;
  every throw, early return and catch of the source is a branch. Hash maps are association lists (\<open>'v umap\<close>), JSON values a
  datatype whose objects are sorted by key as nlohmann::json keeps them. Clocks, random draws, processes, sockets and
  libraries outside the repository (libcurl, nats.c, OpenSSL, prometheus-cpp, cpp-httplib, pydantic, httpx, nats-py) are
  arguments, mostly fields of environment records, and what a theorem needs of them is a named premise. Each mutex-protected operation
  is one atomic step; where the interleaving of threads or coroutines matters, there is a step relation.

  \<^bold>\<open>Base.\<close> Prelude holds the monad, invariants of operations (\<open>preserves\<close> with its introduction rules), strings,
  association lists and the locales \<open>stepping\<close> (invariants of systems driven by inputs) and \<open>kv_map\<close>; Json the JSON values
  and accessors; Hmas_Types the structures of \<open>hmas_types.cpp\<close> with their conversions and round trips; Regex the matcher order of
  the expressions used by the issue reader.

  \<^bold>\<open>Orchestration.\<close> Task_Machine is \<open>state_machine.cpp\<close>, with the refinement of the published interface by the table.
  Planning is \<open>planning_breakdown.cpp\<close>: reading issue references and decomposing a brief into layers; it proves the shape of
  the plan, that it is total and acyclic, and how annotations wire dependencies. Orchestrator is \<open>orchestrator.cpp\<close>, every handler; Orchestrator_Props
  proves what submission, completion and escalation do, that terminal tasks stay terminal, and that a task blocked only
  by a sibling is never released.

  \<^bold>\<open>Store.\<close> Store_State, Store_Entities and Store_Hmas are \<open>store.cpp\<close> with hydration, write-through, inbound
  events and the index by brief; Store_Props proves well-formedness for all operations, hydration of what was
  written, and convergence of edits whatever their order. GitHub_Client is \<open>github_client.cpp\<close> over a parameter for libcurl, with
  retries and paging (the number of pages is the fuel of the loop; a theorem gives the number that suffices); Mock_GitHub the in-memory client.

  \<^bold>\<open>Interface.\<close> Routes is \<open>routes.cpp\<close>: validation, every handler, the pre-routing filter and dispatch. Auth, Webhook and
  Rate_Limiter are the files of those names. Routes_Props proves that a request without credentials changes nothing,
  and that no internal member is ever served. Server_Config is the start of \<open>server_main.cpp\<close>, Server_Events its
  subscriptions and reconciliation rounds as reactions to inputs, composed with the daemon's listener.

  \<^bold>\<open>Messaging.\<close> Nats_Client is \<open>nats_client.cpp\<close> with Circuit_Breaker and Dead_Letter: every message is accounted for
  as published, dead-lettered or counted out. Metrics is the registry's values. Peer_Discovery is \<open>peer_discovery.cpp\<close>, the parallel probe as a step
  relation that ends and finds the first reachable peer.

  \<^bold>\<open>Agents.\<close> Concurrent_Queue, Agent_Message and Agent_Core are the queue, the messages and envelopes, and the
  inboxes of \<open>agent_core.cpp\<close>. Task_Agent is command validation, execution and the message handler; Lead_Agents the coordination
  state, the leads and the chief architect; Agent_Router the router and the heap of agents; Agent_System runs them together and
  proves that a goal posted to a lead ends in the sum. Work_Stealing is the scheduler: work is conserved, shutdown completes, and what is lost at
  shutdown. Steal_Backoff is the waiting of an idle worker, whose last loop has no bound and returns exactly when there is work or a
  request to stop. Coroutine_Task is \<open>task.hpp\<close> over the coroutine protocol: without a scheduler \<open>get\<close> is a function call (\<open>task_get\<close>
  counts steps as fuel and the theorem gives enough), with one it is undefined for a task that awaits. Agent_Metrics is the metrics and the failure injector. Grpc_Agents is the code under
  \<open>ENABLE_GRPC\<close> of the agents and of the coordination state, over parameters for the network library: what a remote task agent
  answers, how a lead spreads its tasks, and that a success is never reported upward. Log_Context is \<open>logger.cpp\<close>: correlation identifiers
  on 32-bit words, scopes, formatting and the level filter; it also holds \<open>generate_uuid\<close> of \<open>store.cpp\<close>.

  \<^bold>\<open>Daemon and client.\<close> Dag_Walker is \<open>dag_walker.py\<close>: the cycle search is correct and terminates, assignment pairs ready
  tasks and agents. Task_Claimer is \<open>task_claimer.py\<close> as steps between suspension points. Event_Listener is the listener, the
  validation of identifiers, the settings and the daemon. Api_Client is the client and its composition with the routes.

  \<^bold>\<open>Locales.\<close> \<open>stepping\<close> and \<open>kv_map\<close> (Prelude), \<open>recent_buffer\<close> (Dead_Letter), \<open>task_repository\<close> (Store_Hmas, relied on by the
  orchestrator), \<open>reporting_lead\<close> (Lead_Agents, both leads) and \<open>tracking\<close> (Event_Listener, the claimer) state interfaces; each is interpreted on the model's definitions, which the properties use.

  \<^bold>\<open>Not modelled.\<close> The network library behind \<open>ENABLE_GRPC\<close>, which is not in the repository; the pointer of
  \<open>scheduler_accessor.cpp\<close>, which is a flag in Coroutine_Task; log output of the daemon (\<open>logging.py\<close>), text formats of third
  parties (Prometheus exposition), processor affinity;
  sockets, signals and threads of \<open>server_main.cpp\<close>; memory order of atomics, which are sequentially consistent here;
  the shell scripts under \<open>tools/reconciler\<close>. Strings are sequences of bytes; Python's strings are modelled on the code points
  below 256.
\<close>

end
